(* ===== verification/Prelude.thy ===== *)
theory Prelude
  imports Complex_Main "HOL-Library.AList" "HOL-Library.Product_Lexorder"
begin

text \<open>
  What every component of the development shares: the exceptions of the modelled code as one
  datatype, results as a sum, the sequencing of calls that may raise, Python dictionaries as
  association lists, and the lemma collections the component proofs rely on.
\<close>

section \<open>Exceptions and results\<close>

text \<open>
  One constructor per exception class the modelled code raises or lets through. The message
  payload is dropped; the class is what callers test.
\<close>

datatype error =
    ValueError | KeyError | IndexError | TypeError | AttributeError | SyntaxError
  | ZeroDivisionError | NotImplementedError | StopIteration
  | Invalid
  | ImageSerialPortNumberInvalid | ImageSerialPortNumberExceedFlavorValue
  | ImageVCPULimitsRangeExceeded | ImageVCPUTopologyRangeExceeded
  | ImageVCPULimitsRangeImpossible
  | MemoryPageSizeInvalid | MemoryPageSizeForbidden | MemoryPageSizeNotSupported
  | ImageNUMATopologyForbidden | ImageNUMATopologyIncomplete | ImageNUMATopologyAsymmetric
  | ImageNUMATopologyCPUOutOfRange | ImageNUMATopologyCPUDuplicates
  | ImageNUMATopologyCPUsUnassigned | ImageNUMATopologyMemoryOutOfRange
  | ImageCPUPinningForbidden | RealtimeConfigurationInvalid | RealtimeMaskNotFoundOrInvalid
  | CPUThreadPolicyConfigurationInvalid | ImageCPUThreadPolicyForbidden
  | CPUPinningUnknown | CPUPinningInvalid
  | PciDeviceRequestFailed | PciDevicePoolEmpty | PciDeviceInvalidStatus | PciDeviceInvalidOwner
  | PciConfigInvalidWhitelist | PciDeviceWrongAddressFormat | PciDeviceInvalidAddressField
  | PciDeviceInvalidDeviceName | PciDeviceNotFoundById
  | PciRequestAliasNotDefined | PciInvalidAlias
  | SchedulerHostFilterNotFound | NoValidHost | MaxRetriesExceeded
  | ComputeHostMetricNotFound | ComputeResourcesUnavailable
  | CircularDependencyException | SyncPointNotFound
  | TokenNotFound | UnexpectedError
  | PolicyNotAuthorized | RuntimeError
  | OverQuota | QuotaResourceUnknown | InvalidQuotaValue | InvalidReservationExpiration
  | InvalidQuotaMethodUsage | QuotaExists | ProjectQuotaNotFound | ProjectUserQuotaNotFound
  | QuotaClassNotFound | QuotaUsageNotFound | HTTPBadRequest
  | AssertionError | Error | NotFound | NoActionRequired
  | StackValidationFailed | ResourcePropertyValueDependency | InvalidTemplateAttribute

type_synonym 'a result = "error + 'a"

fun bind :: "'a result \<Rightarrow> ('a \<Rightarrow> 'b result) \<Rightarrow> 'b result" where
  "bind (Inl e) f = Inl e"
| "bind (Inr x) f = f x"

named_theorems result_simps

lemma bind_eq_Inr [simp, result_simps]: "bind r f = Inr y \<longleftrightarrow> (\<exists>x. r = Inr x \<and> f x = Inr y)"
  by (cases r) auto

lemma bind_eq_Inl [result_simps]:
  "bind r f = Inl e \<longleftrightarrow> r = Inl e \<or> (\<exists>x. r = Inr x \<and> f x = Inl e)"
  by (cases r) auto

lemma bind_cong [fundef_cong]:
  "r = r' \<Longrightarrow> (\<And>x. r' = Inr x \<Longrightarrow> f x = f' x) \<Longrightarrow> bind r f = bind r' f'"
  by (cases r) auto

lemma bind_split:
  "P (bind r f) \<longleftrightarrow> (\<forall>e. r = Inl e \<longrightarrow> P (Inl e)) \<and> (\<forall>x. r = Inr x \<longrightarrow> P (f x))"
  by (cases r) auto

lemma result_if [result_simps]:
  "((if P then r else r') = Inr v) = (if P then r = Inr v else r' = Inr v)"
  by simp

text \<open>\<open>try: r except e: raise e'\<close>.\<close>

definition reraise :: "error \<Rightarrow> error \<Rightarrow> 'a result \<Rightarrow> 'a result" where
  "reraise e e' r = (case r of Inl x \<Rightarrow> Inl (if x = e then e' else x) | Inr v \<Rightarrow> Inr v)"

lemma reraise_Inr [simp, result_simps]: "reraise e e' r = Inr v \<longleftrightarrow> r = Inr v"
  by (auto simp: reraise_def split: sum.splits)

lemma reraise_of_Inr [simp]: "reraise e e' (Inr v) = Inr v"
  by simp

text \<open>A comprehension whose body may raise: the first exception ends it.\<close>

fun traverse :: "('a \<Rightarrow> 'b result) \<Rightarrow> 'a list \<Rightarrow> 'b list result" where
  "traverse f [] = Inr []"
| "traverse f (x # xs) = bind (f x) (\<lambda>y. bind (traverse f xs) (\<lambda>ys. Inr (y # ys)))"

lemma traverse_eq_Inr:
  "traverse f xs = Inr ys \<longleftrightarrow> list_all2 (\<lambda>x y. f x = Inr y) xs ys"
  by (induction xs arbitrary: ys) (auto simp: list_all2_Cons1)

lemma traverse_cong [fundef_cong]:
  "xs = ys \<Longrightarrow> (\<And>x. x \<in> set ys \<Longrightarrow> f x = g x) \<Longrightarrow> traverse f xs = traverse g ys"
  by (induction ys arbitrary: xs) auto

text \<open>A loop whose body updates a state and may raise.\<close>

fun loop :: "('a \<Rightarrow> 's \<Rightarrow> 's result) \<Rightarrow> 'a list \<Rightarrow> 's \<Rightarrow> 's result" where
  "loop f [] s = Inr s"
| "loop f (x # xs) s = bind (f x s) (loop f xs)"

lemma loop_append: "loop f (xs @ ys) s = bind (loop f xs s) (loop f ys)"
proof (induction xs arbitrary: s)
  case (Cons x xs)
  then show ?case by (cases "f x s") auto
qed simp

lemma loop_inv:
  assumes "loop f xs s = Inr t" and "P s"
    and "\<And>x s s'. x \<in> set xs \<Longrightarrow> P s \<Longrightarrow> f x s = Inr s' \<Longrightarrow> P s'"
  shows "P t"
  using assms by (induction xs arbitrary: s) auto

lemma loop_total:
  assumes "P s" and "\<And>x s. x \<in> set xs \<Longrightarrow> P s \<Longrightarrow> \<exists>s'. f x s = Inr s' \<and> P s'"
  shows "\<exists>t. loop f xs s = Inr t \<and> P t"
  using assms
proof (induction xs arbitrary: s)
  case (Cons x xs)
  then obtain s' where "f x s = Inr s'" "P s'" by (metis list.set_intros(1))
  moreover have "\<exists>t. loop f xs s' = Inr t \<and> P t"
    using Cons.prems(2) by (intro Cons.IH [OF \<open>P s'\<close>]) auto
  ultimately show ?case by auto
qed auto

section \<open>Systems of steps\<close>

text \<open>
  A component whose operations run one after the other, in any order: what every operation keeps
  holds after every history. A second predicate that is kept only where the first one holds
  is kept along with it.
\<close>

locale guarded_system =
  fixes step :: "'s \<Rightarrow> 's \<Rightarrow> bool" and inv :: "'s \<Rightarrow> bool"
  assumes step_inv: "inv s \<Longrightarrow> step s t \<Longrightarrow> inv t"
begin

lemma run_inv: "step\<^sup>*\<^sup>* s t \<Longrightarrow> inv s \<Longrightarrow> inv t"
  by (induction rule: rtranclp_induct) (auto intro: step_inv)

lemma run_inv_also:
  assumes "step\<^sup>*\<^sup>* s t" and "inv s" and "P s"
    and keep: "\<And>x y. inv x \<Longrightarrow> P x \<Longrightarrow> step x y \<Longrightarrow> P y"
  shows "inv t \<and> P t"
  using assms(1-3) by (induction rule: rtranclp_induct) (auto intro: step_inv keep)

end

section \<open>Dictionaries\<close>

text \<open>
  A dictionary is an association list in the interpreter's iteration order: \<open>map_of d k\<close> is
  \<open>d.get(k)\<close>, \<open>AList.update\<close> is \<open>d[k] = v\<close>, \<open>AList.delete\<close> is \<open>del d[k]\<close>. A well-formed one
  has distinct keys.
\<close>

type_synonym ('k, 'v) dict = "('k \<times> 'v) list"

abbreviation keys :: "('k, 'v) dict \<Rightarrow> 'k list" where
  "keys d \<equiv> map fst d"

abbreviation wf_dict :: "('k, 'v) dict \<Rightarrow> bool" where
  "wf_dict d \<equiv> distinct (keys d)"

definition dict_get :: "('k, 'v) dict \<Rightarrow> 'k \<Rightarrow> 'v \<Rightarrow> 'v" where
  "dict_get d k v = (case map_of d k of None \<Rightarrow> v | Some x \<Rightarrow> x)"

definition dict_index :: "('k, 'v) dict \<Rightarrow> 'k \<Rightarrow> 'v result" where
  "dict_index d k = (case map_of d k of None \<Rightarrow> Inl KeyError | Some v \<Rightarrow> Inr v)"

lemma map_of_update [simp]: "map_of (AList.update k v d) = (map_of d)(k \<mapsto> v)"
  by (simp add: update_conv')

lemma map_of_delete [simp]: "map_of (AList.delete k d) = (map_of d)(k := None)"
  by (simp add: delete_conv')

lemma dict_get_update: "dict_get (AList.update k v d) j w = (if j = k then v else dict_get d j w)"
  by (simp add: dict_get_def)

lemma dict_get_delete: "dict_get (AList.delete k d) j w = (if j = k then w else dict_get d j w)"
  by (simp add: dict_get_def)

lemma wf_update [simp]: "wf_dict d \<Longrightarrow> wf_dict (AList.update k v d)"
  by (rule distinct_update)

lemma wf_delete [simp]: "wf_dict d \<Longrightarrow> wf_dict (AList.delete k d)"
  by (rule distinct_delete)

lemma set_update_subset: "set (AList.update k v d) \<subseteq> insert (k, v) (set d)"
  by (induction d) auto

text \<open>A dictionary filled by assignments in a loop: the last one for a key wins.\<close>

lemma find_SomeD: "find P xs = Some y \<Longrightarrow> y \<in> set xs \<and> P y"
  by (induction xs) (auto split: if_splits)

lemma find_snoc: "find P (xs @ [x]) = (case find P xs of None \<Rightarrow> if P x then Some x else None | s \<Rightarrow> s)"
  by (induction xs) auto

lemma map_of_fold_update:
  "map_of (fold (\<lambda>x. AList.update (f x) (g x)) xs d) k =
     (case find (\<lambda>x. f x = k) (rev xs) of None \<Rightarrow> map_of d k | Some x \<Rightarrow> Some (g x))"
  by (induction xs arbitrary: d) (auto simp: find_snoc split: option.splits)

lemma keys_fold_update: "set (keys (fold (\<lambda>x. AList.update (f x) (g x)) xs d)) = set (keys d) \<union> f ` set xs"
  by (induction xs arbitrary: d) (auto simp: dom_update)

lemma wf_fold_update: "wf_dict d \<Longrightarrow> wf_dict (fold (\<lambda>x. AList.update (f x) (g x)) xs d)"
  by (induction xs arbitrary: d) auto

lemma map_of_fold_update_in:
  assumes "x \<in> set xs" and "inj_on f (set xs)"
  shows "map_of (fold (\<lambda>x. AList.update (f x) (g x)) xs d) (f x) = Some (g x)"
proof -
  have "find (\<lambda>y. f y = f x) (rev xs) \<noteq> None" using assms(1) by (auto simp: find_None_iff)
  then obtain y where y: "find (\<lambda>y. f y = f x) (rev xs) = Some y" by blast
  then have "y = x" using find_SomeD [OF y] assms by (auto dest: inj_onD)
  then show ?thesis using y by (simp add: map_of_fold_update)
qed

lemma loop_update:
  assumes "\<And>x. x \<in> set xs \<Longrightarrow> F x = Inr (G x)"
  shows "loop (\<lambda>x d. bind (F x) (\<lambda>v. Inr (AList.update (f x) v d))) xs d =
    Inr (fold (\<lambda>x. AList.update (f x) (G x)) xs d)"
  using assms by (induction xs arbitrary: d) auto

lemma dict_index_Inr [simp]: "dict_index d k = Inr v \<longleftrightarrow> map_of d k = Some v"
  by (auto simp: dict_index_def split: option.splits)

section \<open>Lists\<close>

text \<open>\<open>list.remove(x)\<close> is \<open>remove1\<close>; \<open>update_first\<close> mutates the first element equal to \<open>x\<close>.\<close>

fun update_first :: "'a \<Rightarrow> 'a \<Rightarrow> 'a list \<Rightarrow> 'a list" where
  "update_first x y [] = []"
| "update_first x y (z # zs) = (if z = x then y # zs else z # update_first x y zs)"

lemma length_update_first [simp]: "length (update_first x y zs) = length zs"
  by (induction zs) auto

lemma set_update_first_subset: "set (update_first x y zs) \<subseteq> insert y (set zs)"
  by (induction zs) auto

lemma sum_list_remove1:
  fixes f :: "'a \<Rightarrow> int"
  shows "x \<in> set xs \<Longrightarrow> sum_list (map f (remove1 x xs)) = sum_list (map f xs) - f x"
  by (induction xs) auto

lemma sum_list_update_first:
  fixes f :: "'a \<Rightarrow> int"
  shows "x \<in> set xs \<Longrightarrow> sum_list (map f (update_first x y xs)) = sum_list (map f xs) - f x + f y"
  by (induction xs) auto

lemma concat_map_single: "concat (map (\<lambda>x. if P x then [f x] else []) xs) = map f (filter P xs)"
  by (induction xs) auto

text \<open>\<open>sorted(xs, key=k, reverse=True)\<close>: the language reverses, sorts stably and reverses again.\<close>

definition sorted_desc :: "('a \<Rightarrow> 'b::linorder) \<Rightarrow> 'a list \<Rightarrow> 'a list" where
  "sorted_desc k xs = rev (sort_key k (rev xs))"

lemma set_sorted_desc [simp]: "set (sorted_desc k xs) = set xs"
  by (simp add: sorted_desc_def)

lemma length_sorted_desc [simp]: "length (sorted_desc k xs) = length xs"
  by (simp add: sorted_desc_def)

lemma sorted_desc_eq_Nil [simp]: "sorted_desc k xs = [] \<longleftrightarrow> xs = []"
  by (metis length_0_conv length_sorted_desc)

lemma sorted_desc_sorted: "sorted_wrt (\<lambda>x y. k y \<le> k x) (sorted_desc k xs)"
proof -
  have "sorted (map k (sort_key k (rev xs)))" by simp
  then have "sorted_wrt (\<lambda>x y. k x \<le> k y) (sort_key k (rev xs))" by (simp add: sorted_map)
  then show ?thesis by (simp add: sorted_desc_def sorted_wrt_rev)
qed

lemma distinct_sorted_desc [simp]: "distinct (sorted_desc k xs) = distinct xs"
  by (simp add: sorted_desc_def)

text \<open>The truth value of an optional value of the code: \<open>None\<close> and the empty one are false.\<close>

definition nonempty :: "'a list option \<Rightarrow> bool" where
  "nonempty x = (case x of None \<Rightarrow> False | Some xs \<Rightarrow> xs \<noteq> [])"

lemma nonempty_iff [simp]: "nonempty x \<longleftrightarrow> (\<exists>y ys. x = Some (y # ys))"
  by (auto simp: nonempty_def neq_Nil_conv split: option.splits)

end
