(* ===== verification/PyString.thy ===== *)
theory PyString
  imports Prelude
begin

text \<open>
  The string operations of the language's library that the modelled code calls: \<open>split\<close>,
  \<open>partition\<close>, \<open>strip\<close>, \<open>join\<close>, \<open>startswith\<close>, \<open>int(s)\<close> and \<open>str(n)\<close>, with the print and parse
  lemmas the CPU specification round trip rests on. Strings are ASCII character lists.
\<close>

section \<open>Splitting, stripping, joining\<close>

fun split_on :: "char \<Rightarrow> string \<Rightarrow> string list" where
  "split_on c [] = [[]]"
| "split_on c (x # xs) =
     (if x = c then [] # split_on c xs
      else case split_on c xs of [] \<Rightarrow> [[x]] | y # ys \<Rightarrow> (x # y) # ys)"

text \<open>\<open>s.split(c, 1)\<close>: one part when the separator is absent, else two.\<close>

definition split_once :: "char \<Rightarrow> string \<Rightarrow> string list" where
  "split_once c s =
     (case dropWhile (\<lambda>x. x \<noteq> c) s of
        [] \<Rightarrow> [s]
      | _ # t \<Rightarrow> [takeWhile (\<lambda>x. x \<noteq> c) s, t])"

text \<open>\<open>s.partition(c)\<close>: head, whether the separator was seen, tail.\<close>

definition partition_str :: "char \<Rightarrow> string \<Rightarrow> string \<times> bool \<times> string" where
  "partition_str c s =
     (case dropWhile (\<lambda>x. x \<noteq> c) s of
        [] \<Rightarrow> (s, False, [])
      | _ # t \<Rightarrow> (takeWhile (\<lambda>x. x \<noteq> c) s, True, t))"

definition is_space :: "char \<Rightarrow> bool" where
  "is_space c \<longleftrightarrow> c \<in> {CHR 0x09, CHR 0x0A, CHR 0x0B, CHR 0x0C, CHR 0x0D, CHR 0x20}"

definition strip :: "string \<Rightarrow> string" where
  "strip s = rev (dropWhile is_space (rev (dropWhile is_space s)))"

text \<open>\<open>s.split()\<close>: the maximal runs of non-space characters.\<close>

function words :: "string \<Rightarrow> string list" where
  "words s =
     (case dropWhile is_space s of
        [] \<Rightarrow> []
      | x # xs \<Rightarrow> (x # takeWhile (Not \<circ> is_space) xs) # words (dropWhile (Not \<circ> is_space) xs))"
  by pat_completeness auto
termination
proof (relation "measure length", simp, clarsimp)
  fix s x xs
  assume "dropWhile is_space s = x # xs"
  then have "length (x # xs) \<le> length s" by (metis length_dropWhile_le)
  then show "length (dropWhile (Not \<circ> is_space) xs) < length s"
    using length_dropWhile_le [of "Not \<circ> is_space" xs] by simp
qed

declare words.simps [simp del]

fun join :: "string \<Rightarrow> string list \<Rightarrow> string" where
  "join sep [] = []"
| "join sep [x] = x"
| "join sep (x # y # ys) = x @ sep @ join sep (y # ys)"

definition startswith :: "string \<Rightarrow> string \<Rightarrow> bool" where
  "startswith s p \<longleftrightarrow> take (length p) s = p"

definition endswith :: "string \<Rightarrow> string \<Rightarrow> bool" where
  "endswith s p \<longleftrightarrow> length p \<le> length s \<and> drop (length s - length p) s = p"

definition lower :: "string \<Rightarrow> string" where
  "lower s = map (\<lambda>c. let n = (of_char c :: nat) in
     if 65 \<le> n \<and> n \<le> 90 then char_of (n + 32) else c) s"

text \<open>\<open>sub in s\<close> on strings: substring search.\<close>

fun contains_str :: "string \<Rightarrow> string \<Rightarrow> bool" where
  "contains_str [] p = (p = [])"
| "contains_str (x # xs) p = (startswith (x # xs) p \<or> contains_str xs p)"

section \<open>Integers and strings\<close>

definition is_digit :: "char \<Rightarrow> bool" where
  "is_digit c \<longleftrightarrow> of_char c \<in> {48..57::nat}"

definition digit_val :: "char \<Rightarrow> int" where
  "digit_val c = of_char c - 48"

fun digits_val :: "int \<Rightarrow> string \<Rightarrow> int" where
  "digits_val acc [] = acc"
| "digits_val acc (c # cs) = digits_val (10 * acc + digit_val c) cs"

definition parse_nat :: "string \<Rightarrow> int result" where
  "parse_nat s = (if s \<noteq> [] \<and> list_all is_digit s then Inr (digits_val 0 s) else Inl ValueError)"

text \<open>\<open>int(s)\<close>: surrounding space, an optional sign, decimal digits.\<close>

definition py_int :: "string \<Rightarrow> int result" where
  "py_int s =
     (case strip s of
        [] \<Rightarrow> Inl ValueError
      | c # cs \<Rightarrow>
          if c = CHR ''-'' then bind (parse_nat cs) (\<lambda>n. Inr (- n))
          else if c = CHR ''+'' then parse_nat cs
          else parse_nat (c # cs))"

text \<open>\<open>str(n)\<close> and \<open>'%d' % n\<close>.\<close>

definition digit_chr :: "nat \<Rightarrow> char" where
  "digit_chr d = char_of (48 + d)"

fun show_nat :: "nat \<Rightarrow> string" where
  "show_nat n = (if n < 10 then [digit_chr n] else show_nat (n div 10) @ [digit_chr (n mod 10)])"

declare show_nat.simps [simp del]

definition show_int :: "int \<Rightarrow> string" where
  "show_int i = (if i < 0 then CHR ''-'' # show_nat (nat (- i)) else show_nat (nat i))"

section \<open>Lemmas\<close>

named_theorems str_simps

lemma split_on_nonempty [simp]: "split_on c s \<noteq> []"
  by (induction s) (auto split: list.splits)

lemma split_on_absent [str_simps]: "c \<notin> set s \<Longrightarrow> split_on c s = [s]"
  by (induction s) auto

lemma split_on_append_sep:
  "c \<notin> set s \<Longrightarrow> split_on c (s @ c # t) = s # split_on c t"
  by (induction s) auto

lemma split_on_join:
  assumes "ps \<noteq> []" and "\<forall>p \<in> set ps. c \<notin> set p"
  shows "split_on c (join [c] ps) = ps"
  using assms
proof (induction "[c]" ps rule: join.induct)
  case (2 x)
  then show ?case by (simp add: split_on_absent)
next
  case (3 x y ys)
  then show ?case by (simp add: split_on_append_sep)
qed simp

lemma dropWhile_absent: "c \<notin> set s \<Longrightarrow> dropWhile (\<lambda>x. x \<noteq> c) s = []"
  by (induction s) auto

lemma split_once_absent [str_simps]: "c \<notin> set s \<Longrightarrow> split_once c s = [s]"
  by (simp add: split_once_def dropWhile_absent)

lemma takeWhile_sep: "c \<notin> set s \<Longrightarrow> takeWhile (\<lambda>x. x \<noteq> c) (s @ c # t) = s"
  by (induction s) auto

lemma dropWhile_sep: "c \<notin> set s \<Longrightarrow> dropWhile (\<lambda>x. x \<noteq> c) (s @ c # t) = c # t"
  by (induction s) auto

lemma split_once_sep [str_simps]: "c \<notin> set s \<Longrightarrow> split_once c (s @ c # t) = [s, t]"
  by (simp add: split_once_def takeWhile_sep dropWhile_sep)

lemma partition_absent [str_simps]: "c \<notin> set s \<Longrightarrow> partition_str c s = (s, False, [])"
  by (simp add: partition_str_def dropWhile_absent)

lemma partition_sep [str_simps]: "c \<notin> set s \<Longrightarrow> partition_str c (s @ c # t) = (s, True, t)"
  by (simp add: partition_str_def takeWhile_sep dropWhile_sep)

lemma strip_id: "(\<forall>c \<in> set s. \<not> is_space c) \<Longrightarrow> strip s = s"
proof -
  have d: "\<forall>c \<in> set t. \<not> is_space c \<Longrightarrow> dropWhile is_space t = t" for t :: string
    by (cases t) auto
  assume "\<forall>c \<in> set s. \<not> is_space c"
  then show ?thesis by (simp add: strip_def d)
qed

lemma digit_not_space: "is_digit c \<Longrightarrow> \<not> is_space c"
  by (auto simp: is_digit_def is_space_def)

lemma digit_chr_digit [simp]: "d < 10 \<Longrightarrow> is_digit (digit_chr d)"
  by (simp add: is_digit_def digit_chr_def)

lemma digit_val_chr [simp]: "d < 10 \<Longrightarrow> digit_val (digit_chr d) = int d"
proof -
  assume "d < 10"
  then have "(of_char (char_of (48 + d) :: char) :: nat) = 48 + d" by simp
  moreover have "(of_char c :: int) = int (of_char c :: nat)" for c
    by (simp add: of_nat_of_char)
  ultimately show ?thesis by (simp add: digit_val_def digit_chr_def del: of_char_of)
qed

lemma digits_val_append: "digits_val a (xs @ [c]) = 10 * digits_val a xs + digit_val c"
  by (induction xs arbitrary: a) auto

lemma show_nat_digits: "c \<in> set (show_nat n) \<Longrightarrow> is_digit c"
proof (induction n arbitrary: c rule: show_nat.induct)
  case (1 n)
  then show ?case
    by (cases "n < 10") (auto simp: show_nat.simps [of n])
qed

lemma show_nat_nonempty [simp]: "show_nat n \<noteq> []"
  by (subst show_nat.simps) simp

lemma digits_val_show_nat: "digits_val 0 (show_nat n) = int n"
proof (induction n rule: show_nat.induct)
  case (1 n)
  show ?case
  proof (cases "n < 10")
    case False
    then have "digits_val 0 (show_nat n) = 10 * int (n div 10) + int (n mod 10)"
      using 1 by (simp add: show_nat.simps [of n] digits_val_append)
    then show ?thesis by presburger
  qed (simp add: show_nat.simps [of n])
qed

lemma parse_nat_show [simp]: "parse_nat (show_nat n) = Inr (int n)"
  by (auto simp: parse_nat_def digits_val_show_nat list_all_iff dest: show_nat_digits)

lemma digit_neq_sign: "is_digit c \<Longrightarrow> c \<noteq> CHR ''-'' \<and> c \<noteq> CHR ''+''"
  by (auto simp: is_digit_def)

lemma strip_show_nat [simp]: "strip (show_nat n) = show_nat n"
  by (rule strip_id) (auto dest: show_nat_digits digit_not_space)

lemma py_int_show_nat: "py_int (show_nat n) = Inr (int n)"
proof (cases "show_nat n")
  case (Cons c cs)
  then have "is_digit c" using show_nat_digits [of c n] by simp
  then show ?thesis
    using Cons digit_neq_sign [of c] parse_nat_show [of n] strip_show_nat [of n]
    by (simp add: py_int_def)
qed simp

lemma py_int_show_int: "py_int (show_int i) = Inr i"
proof (cases "i < 0")
  case True
  have "\<not> is_space (CHR ''-'')" by (simp add: is_space_def)
  then have "strip (CHR ''-'' # show_nat (nat (- i))) = CHR ''-'' # show_nat (nat (- i))"
    by (intro strip_id) (auto dest: show_nat_digits digit_not_space)
  then show ?thesis using True by (simp add: show_int_def py_int_def)
qed (simp add: show_int_def py_int_show_nat)

lemma show_int_nonneg: "0 \<le> i \<Longrightarrow> show_int i = show_nat (nat i)"
  by (simp add: show_int_def)

lemma py_int_show_nonneg [str_simps]: "0 \<le> i \<Longrightarrow> py_int (show_nat (nat i)) = Inr i"
  by (simp add: py_int_show_nat)

end
