(* ===== verification/CpuSpec.thy ===== *)
theory CpuSpec
  imports PyString "HOL-Library.Multiset"
begin

text \<open>
  CPU set specifications such as \<open>1-4,^3,6\<close>: \<open>parse_cpu_spec\<close>, \<open>format_cpu_spec\<close> and
  \<open>get_vcpu_pin_set\<close> of nova/virt/hardware.py. The lemmas give the meaning of a specification
  (inclusions minus exclusions, in any order) and the round trip through the printer.
\<close>

section \<open>Operations\<close>

text \<open>One iteration of the loop over the comma-separated rules, on the two accumulated sets.\<close>

definition parse_cpu_rule :: "string \<Rightarrow> int set \<times> int set \<Rightarrow> (int set \<times> int set) result" where
  "parse_cpu_rule text acc =
     (let (cpuset_ids, cpuset_reject_ids) = acc; rule = strip text in
      if length rule < 1 then Inr acc
      else case split_once (CHR ''-'') rule of
        [p0, p1] \<Rightarrow>
          (let reject = (p0 \<noteq> [] \<and> hd p0 = CHR ''^'');
               p0' = (if reject then tl p0 else p0) in
           bind (reraise ValueError Invalid (py_int (strip p0'))) (\<lambda>start.
           bind (reraise ValueError Invalid (py_int (strip p1))) (\<lambda>end.
             if start > end then Inl Invalid
             else if \<not> reject then Inr (cpuset_ids \<union> {start..end}, cpuset_reject_ids)
             else Inr (cpuset_ids, cpuset_reject_ids \<union> {start..end}))))
      | _ \<Rightarrow>
          if hd rule = CHR ''^'' then
            bind (reraise ValueError Invalid (py_int (strip (tl rule)))) (\<lambda>n.
              Inr (cpuset_ids, insert n cpuset_reject_ids))
          else
            bind (reraise ValueError Invalid (py_int rule)) (\<lambda>n.
              Inr (insert n cpuset_ids, cpuset_reject_ids)))"

definition parse_cpu_spec :: "string \<Rightarrow> int set result" where
  "parse_cpu_spec spec =
     bind (loop parse_cpu_rule (split_on (CHR '','') spec) ({}, {}))
       (\<lambda>(cpuset_ids, cpuset_reject_ids). Inr (cpuset_ids - cpuset_reject_ids))"

text \<open>\<open>conf\<close> is the option \<open>CONF.vcpu_pin_set\<close>; unset and empty are both false.\<close>

definition get_vcpu_pin_set :: "string option \<Rightarrow> int set option result" where
  "get_vcpu_pin_set conf =
     (case conf of
        None \<Rightarrow> Inr None
      | Some spec \<Rightarrow>
          if spec = [] then Inr None
          else bind (parse_cpu_spec spec) (\<lambda>cpuset_ids.
            if cpuset_ids = {} then Inl Invalid else Inr (Some cpuset_ids)))"

text \<open>The loop of \<open>format_cpu_spec\<close> that collects consecutive indexes.\<close>

fun group_ranges :: "int list list \<Rightarrow> int option \<Rightarrow> int list \<Rightarrow> int list list" where
  "group_ranges ranges previndex [] = ranges"
| "group_ranges ranges previndex (cpuindex # rest) =
     (let ranges' = (if previndex = None \<or> previndex \<noteq> Some (cpuindex - 1)
                     then ranges @ [[]] else ranges)
      in group_ranges (butlast ranges' @ [last ranges' @ [cpuindex]]) (Some cpuindex) rest)"

definition format_range :: "int list \<Rightarrow> string" where
  "format_range entry =
     (if length entry = 1 then show_int (hd entry)
      else show_int (hd entry) @ ''-'' @ show_int (last entry))"

text \<open>\<open>cpuset\<close> is the iterable's elements in any order (it is sorted first).\<close>

definition format_cpu_spec :: "int list \<Rightarrow> bool \<Rightarrow> string" where
  "format_cpu_spec cpuset allow_ranges =
     (if allow_ranges
      then join '','' (map format_range (group_ranges [] None (sort cpuset)))
      else join '','' (map show_int (sort cpuset)))"

section \<open>The meaning of a rule\<close>

text \<open>
  What a rule contributes, apart from the accumulated sets: every rule either fails or adds
  fixed elements to the two sets.
\<close>

definition rule_effect :: "string \<Rightarrow> (int set \<times> int set) result" where
  "rule_effect text = parse_cpu_rule text ({}, {})"

lemma parse_cpu_rule_effect:
  "parse_cpu_rule text (I, J) = bind (rule_effect text) (\<lambda>(A, B). Inr (I \<union> A, J \<union> B))"
  by (auto simp: rule_effect_def parse_cpu_rule_def reraise_def Let_def
      split: list.splits sum.splits)

lemma rule_effect_error: "rule_effect text = Inl e \<Longrightarrow> e = Invalid"
  by (auto simp: rule_effect_def parse_cpu_rule_def reraise_def Let_def py_int_def parse_nat_def
      bind_eq_Inl split: list.splits sum.splits if_splits)

lemma loop_rules_Inr:
  assumes "\<forall>p \<in> set ps. \<exists>e. rule_effect p = Inr e"
  shows "loop parse_cpu_rule ps (I, J) =
    Inr (I \<union> (\<Union>p \<in> set ps. fst (projr (rule_effect p))),
         J \<union> (\<Union>p \<in> set ps. snd (projr (rule_effect p))))"
  using assms
  by (induction ps arbitrary: I J) (auto simp: parse_cpu_rule_effect Un_assoc split: prod.splits)

lemma loop_rules_Inl:
  assumes "p \<in> set ps" and "rule_effect p = Inl e"
  shows "loop parse_cpu_rule ps (I, J) = Inl Invalid"
  using assms
proof (induction ps arbitrary: I J)
  case (Cons q qs)
  show ?case
  proof (cases "rule_effect q")
    case (Inl e')
    then show ?thesis by (auto simp: parse_cpu_rule_effect dest: rule_effect_error)
  next
    case (Inr ab)
    with Cons.prems have "p \<in> set qs" by auto
    with Cons.IH Cons.prems(2) Inr show ?thesis
      by (cases ab) (simp add: parse_cpu_rule_effect)
  qed
qed simp

lemma loop_rules_cong:
  assumes "set ps = set qs"
  shows "loop parse_cpu_rule ps (I, J) = loop parse_cpu_rule qs (I, J)"
proof (cases "\<forall>p \<in> set ps. \<exists>e. rule_effect p = Inr e")
  case True
  then show ?thesis using assms by (simp add: loop_rules_Inr)
next
  case False
  then obtain p e where "p \<in> set ps" "rule_effect p = Inl e" by (metis sum.exhaust)
  then show ?thesis using assms loop_rules_Inl by metis
qed

text \<open>The order (and repetition) of the rules does not matter: an exclusion removes a CPU
  whether it stands before or after the range that includes it.\<close>

theorem parse_cpu_spec_order_irrelevant:
  assumes "ps \<noteq> []" and "set ps = set qs" and "\<forall>p \<in> set ps. CHR '','' \<notin> set p"
  shows "parse_cpu_spec (join '','' ps) = parse_cpu_spec (join '','' qs)"
proof -
  have "qs \<noteq> []" "\<forall>p \<in> set qs. CHR '','' \<notin> set p" using assms by auto
  then show ?thesis
    using assms loop_rules_cong [OF assms(2)] by (simp add: parse_cpu_spec_def split_on_join)
qed

theorem parse_cpu_spec_order_irrelevant_witness:
  "parse_cpu_spec ''^3,1-4'' = parse_cpu_spec ''1-4,^3''"
  using parse_cpu_spec_order_irrelevant [of "[''^3'', ''1-4'']" "[''1-4'', ''^3'']"] by auto

section \<open>Printing and parsing\<close>

definition run :: "int list \<Rightarrow> bool" where
  "run xs \<longleftrightarrow> xs \<noteq> [] \<and> xs = [hd xs..last xs]"

lemma run_single: "run [c]"
  by (simp add: run_def)

lemma run_snoc: "run xs \<Longrightarrow> last xs = c - 1 \<Longrightarrow> run (xs @ [c])"
proof -
  assume r: "run xs" "last xs = c - 1"
  then obtain a where xs: "xs = [a..c - 1]" "xs \<noteq> []" by (metis run_def)
  then have "a \<le> c" "hd xs = a" by (auto simp: upto_rec1)
  then have "xs @ [c] = [a..c]" using xs by (simp add: upto_rec2)
  moreover have "hd (xs @ [c]) = a" "last (xs @ [c]) = c" using \<open>hd xs = a\<close> xs(2) by simp_all
  ultimately show ?thesis unfolding run_def by (metis snoc_eq_iff_butlast)
qed

lemma group_ranges_runs:
  assumes "\<forall>r \<in> set rs. run r"
    and "\<And>p. prev = Some p \<Longrightarrow> rs \<noteq> [] \<and> last (last rs) = p"
  shows "\<forall>r \<in> set (group_ranges rs prev cs). run r"
  using assms
proof (induction cs arbitrary: rs prev)
  case (Cons c cs)
  show ?case
  proof (cases "prev = Some (c - 1)")
    case True
    have l: "rs \<noteq> []" "last (last rs) = c - 1" using Cons.prems(2) [OF True] by auto
    then have "run (last rs @ [c])" using Cons.prems(1) by (simp add: run_snoc)
    then have "\<forall>r \<in> set (butlast rs @ [last rs @ [c]]). run r"
      using Cons.prems(1) by (auto dest: in_set_butlastD)
    then have "\<forall>r \<in> set (group_ranges (butlast rs @ [last rs @ [c]]) (Some c) cs). run r"
      by (rule Cons.IH) auto
    then show ?thesis using True by simp
  next
    case False
    have "\<forall>r \<in> set (rs @ [[c]]). run r" using Cons.prems(1) by (auto simp: run_single)
    then have "\<forall>r \<in> set (group_ranges (rs @ [[c]]) (Some c) cs). run r"
      by (rule Cons.IH) auto
    then show ?thesis using False by simp
  qed
qed simp

lemma group_ranges_set:
  assumes "\<And>p. prev = Some p \<Longrightarrow> rs \<noteq> []"
  shows "\<Union> (set ` set (group_ranges rs prev cs)) = \<Union> (set ` set rs) \<union> set cs"
  using assms
proof (induction rs prev cs rule: group_ranges.induct)
  case (2 rs prev c cs)
  let ?rs = "if prev = None \<or> prev \<noteq> Some (c - 1) then rs @ [[]] else rs"
  have ne: "?rs \<noteq> []" using "2.prems" by auto
  have "\<Union> (set ` set (butlast ?rs @ [last ?rs @ [c]])) = insert c (\<Union> (set ` set ?rs))"
    using ne by (cases ?rs rule: rev_cases) auto
  moreover have "\<Union> (set ` set ?rs) = \<Union> (set ` set rs)" by auto
  ultimately show ?case using "2.IH" [OF refl] by (simp add: Let_def)
qed simp

lemma digits_free [simp]:
  "CHR ''-'' \<notin> set (show_nat n)" "CHR '','' \<notin> set (show_nat n)"
  using show_nat_digits by (fastforce simp: is_digit_def)+

lemma hd_show_nat [simp]: "hd (show_nat n) \<noteq> CHR ''^''"
  using show_nat_digits [of "hd (show_nat n)" n] by (auto simp: is_digit_def)

lemma rule_single: "0 \<le> c \<Longrightarrow> rule_effect (show_int c) = Inr ({c}, {})"
  by (simp add: rule_effect_def parse_cpu_rule_def Let_def show_int_nonneg split_once_absent
      py_int_show_nonneg Suc_le_eq)

lemma rule_range:
  assumes "0 \<le> a" "a \<le> b"
  shows "rule_effect (show_int a @ ''-'' @ show_int b) = Inr ({a..b}, {})"
proof -
  let ?r = "show_nat (nat a) @ CHR ''-'' # show_nat (nat b)"
  have "\<not> is_space (CHR ''-'')" by (simp add: is_space_def)
  then have "strip ?r = ?r"
    by (intro strip_id) (auto dest: show_nat_digits digit_not_space)
  then show ?thesis
    using assms by (simp add: rule_effect_def parse_cpu_rule_def Let_def show_int_nonneg
        split_once_sep py_int_show_nonneg)
qed

lemma rule_format_range:
  assumes "run r" and "\<forall>c \<in> set r. 0 \<le> c"
  shows "rule_effect (format_range r) = Inr (set r, {})"
proof (cases "length r = 1")
  case True
  then obtain c where "r = [c]" by (auto simp: length_Suc_conv)
  then show ?thesis using assms(2) by (simp add: format_range_def rule_single)
next
  case False
  have r: "r = [hd r..last r]" "r \<noteq> []" using assms(1) by (auto simp: run_def)
  then have "hd r \<le> last r" by (metis upto_empty linorder_not_le)
  moreover have "0 \<le> hd r" using assms(2) r(2) by simp
  moreover have "set r = {hd r..last r}" using r(1) by (metis set_upto)
  ultimately show ?thesis
    using False rule_range [of "hd r" "last r"] by (simp add: format_range_def)
qed

lemma parse_printed:
  assumes "\<forall>p \<in> set ps. CHR '','' \<notin> set p"
    and "\<forall>p \<in> set ps. \<exists>A. rule_effect p = Inr (A, {})"
    and "(\<Union>p \<in> set ps. fst (projr (rule_effect p))) = S"
  shows "parse_cpu_spec (join '','' ps) = Inr S"
proof (cases "ps = []")
  case True
  then show ?thesis
    using assms(3) by (simp add: parse_cpu_spec_def parse_cpu_rule_def strip_def Let_def)
next
  case False
  have "(\<Union>p \<in> set ps. snd (projr (rule_effect p))) = {}" using assms(2) by fastforce
  moreover have "\<forall>p \<in> set ps. \<exists>e. rule_effect p = Inr e" using assms(2) by blast
  ultimately show ?thesis
    using False assms by (simp add: parse_cpu_spec_def split_on_join loop_rules_Inr)
qed

lemma parse_format_cpu_spec_list:
  assumes "\<forall>c \<in> set cpuset. 0 \<le> c"
  shows "parse_cpu_spec (format_cpu_spec cpuset allow_ranges) = Inr (set cpuset)"
proof (cases allow_ranges)
  case True
  let ?gs = "group_ranges [] None (sort cpuset)"
  have runs: "\<forall>r \<in> set ?gs. run r" by (rule group_ranges_runs) auto
  have un: "\<Union> (set ` set ?gs) = set cpuset" by (subst group_ranges_set) auto
  have eff: "\<forall>r \<in> set ?gs. rule_effect (format_range r) = Inr (set r, {})"
    using runs un assms by (auto intro!: rule_format_range)
  have "\<forall>p \<in> set (map format_range ?gs). CHR '','' \<notin> set p"
    using runs un assms
    by (auto simp: format_range_def show_int_nonneg run_def)
       (metis UN_I digits_free(2) hd_in_set last_in_set show_int_nonneg)+
  moreover have "\<forall>p \<in> set (map format_range ?gs). \<exists>A. rule_effect p = Inr (A, {})"
    using eff by auto
  moreover have "(\<Union>p \<in> set (map format_range ?gs). fst (projr (rule_effect p))) = set cpuset"
    using eff un by simp
  ultimately have "parse_cpu_spec (join '','' (map format_range ?gs)) = Inr (set cpuset)"
    by (rule parse_printed)
  then show ?thesis using True by (simp add: format_cpu_spec_def)
next
  case False
  have "\<forall>c \<in> set cpuset. rule_effect (show_int c) = Inr ({c}, {})"
    using assms by (simp add: rule_single)
  moreover have "\<forall>c \<in> set cpuset. CHR '','' \<notin> set (show_int c)"
    using assms by (simp add: show_int_nonneg)
  ultimately show ?thesis
    using False by (auto simp: format_cpu_spec_def intro!: parse_printed)
qed

lemma parse_format_cpu_spec_set:
  "finite S \<Longrightarrow> \<forall>c \<in> S. 0 \<le> c \<Longrightarrow>
   parse_cpu_spec (format_cpu_spec (sorted_list_of_set S) allow_ranges) = Inr S"
  by (simp add: parse_format_cpu_spec_list)

text \<open>C35: parsing the printed form of a set of non-negative CPU indexes gives the set back,
  with ranges allowed or not.\<close>

theorem parse_format_cpu_spec:
  assumes "\<forall>c \<in> set cpuset. 0 \<le> c"
  shows "parse_cpu_spec (format_cpu_spec cpuset allow_ranges) = Inr (set cpuset)"
  using assms by (rule parse_format_cpu_spec_list)

theorem parse_format_cpu_spec_witness:
  "parse_cpu_spec (format_cpu_spec [6, 1, 2, 4, 3] True) = Inr {1, 2, 3, 4, 6}"
  using parse_format_cpu_spec [of "[6, 1, 2, 4, 3]" True] by (simp add: insert_commute)

text \<open>Concrete runs of the parser: the documented example, and each malformed rule.\<close>

lemma parse_cpu_spec_example: "parse_cpu_spec ''1-4,^3,6'' = Inr {1, 2, 4, 6}"
  by code_simp

lemma parse_cpu_spec_errors:
  "parse_cpu_spec ''4-1'' = Inl Invalid" "parse_cpu_spec ''a'' = Inl Invalid"
  "parse_cpu_spec ''^x'' = Inl Invalid" "parse_cpu_spec ''1-'' = Inl Invalid"
  "parse_cpu_spec '' , ,2'' = Inr {2}"
  by code_simp+

lemma get_vcpu_pin_set_Some:
  "get_vcpu_pin_set conf = Inr (Some S) \<Longrightarrow> S \<noteq> {} \<and> (\<exists>s. conf = Some s \<and> parse_cpu_spec s = Inr S)"
  by (auto simp: get_vcpu_pin_set_def split: option.splits if_splits)

end
