(* ===== verification/FlavorImage.thy ===== *)
theory FlavorImage
  imports PyString
begin

text \<open>
  The two descriptions of a guest: the flavor (nova/objects/flavor.py) with its extra specs and
  the image properties (nova/objects/image_meta.py), as far as the placement code reads them,
  and the number of serial ports derived from both (nova/virt/hardware.py).
\<close>

section \<open>Data\<close>

datatype cpu_policy = DEDICATED | SHARED

datatype thread_policy = PREFER | ISOLATE | REQUIRE

text \<open>The enum fields hold strings; assigning any other string raises ValueError.\<close>

definition cpu_policy_of :: "string \<Rightarrow> cpu_policy result" where
  "cpu_policy_of s =
     (if s = ''dedicated'' then Inr DEDICATED
      else if s = ''shared'' then Inr SHARED else Inl ValueError)"

definition thread_policy_of :: "string \<Rightarrow> thread_policy result" where
  "thread_policy_of s =
     (if s = ''prefer'' then Inr PREFER
      else if s = ''isolate'' then Inr ISOLATE
      else if s = ''require'' then Inr REQUIRE else Inl ValueError)"

record flavor =
  flavor_id :: int
  flavor_name :: string
  flavor_vcpus :: int
  flavor_memory_mb :: int
  flavor_root_gb :: int
  flavor_ephemeral_gb :: int
  flavor_swap :: int
  extra_specs :: "(string, string) dict"

text \<open>A property that is not set is \<open>None\<close>; a set one has been coerced to its field type.\<close>

record image_props =
  hw_cpu_sockets :: "int option"
  hw_cpu_cores :: "int option"
  hw_cpu_threads :: "int option"
  hw_cpu_max_sockets :: "int option"
  hw_cpu_max_cores :: "int option"
  hw_cpu_max_threads :: "int option"
  hw_serial_port_count :: "int option"
  hw_mem_page_size :: "string option"
  hw_numa_nodes :: "int option"
  hw_numa_cpus :: "int set list option"
  hw_numa_mem :: "int list option"
  hw_cpu_policy :: "cpu_policy option"
  hw_cpu_thread_policy :: "thread_policy option"
  hw_cpu_realtime_mask :: "string option"
  hw_architecture :: "string option"
  img_hv_type :: "string option"
  hw_vm_mode :: "string option"

definition no_image_props :: image_props where
  "no_image_props =
     \<lparr>hw_cpu_sockets = None, hw_cpu_cores = None, hw_cpu_threads = None,
      hw_cpu_max_sockets = None, hw_cpu_max_cores = None, hw_cpu_max_threads = None,
      hw_serial_port_count = None, hw_mem_page_size = None, hw_numa_nodes = None,
      hw_numa_cpus = None, hw_numa_mem = None, hw_cpu_policy = None,
      hw_cpu_thread_policy = None, hw_cpu_realtime_mask = None,
      hw_architecture = None, img_hv_type = None, hw_vm_mode = None\<rparr>"

definition plain_flavor :: "int \<Rightarrow> int \<Rightarrow> (string, string) dict \<Rightarrow> flavor" where
  "plain_flavor n mem specs =
     \<lparr>flavor_id = 1, flavor_name = ''m1'', flavor_vcpus = n, flavor_memory_mb = mem,
      flavor_root_gb = 0, flavor_ephemeral_gb = 0, flavor_swap = 0, extra_specs = specs\<rparr>"

definition or_default :: "'a option \<Rightarrow> 'a \<Rightarrow> 'a" where
  "or_default x d = (case x of None \<Rightarrow> d | Some v \<Rightarrow> v)"

text \<open>\<open>int(flavor.extra_specs.get(key, default))\<close>.\<close>

definition spec_int :: "flavor \<Rightarrow> string \<Rightarrow> int \<Rightarrow> int result" where
  "spec_int f key d =
     (case map_of (extra_specs f) key of None \<Rightarrow> Inr d | Some s \<Rightarrow> py_int s)"

section \<open>Serial ports\<close>

text \<open>Truth value and order of an optional integer; \<open>None\<close> is below every integer.\<close>

definition truthy :: "int option \<Rightarrow> bool" where
  "truthy x \<longleftrightarrow> x \<noteq> None \<and> x \<noteq> Some 0"

definition opt_gt :: "int option \<Rightarrow> int option \<Rightarrow> bool" where
  "opt_gt x y =
     (case (x, y) of (Some a, Some b) \<Rightarrow> a > b | (Some _, None) \<Rightarrow> True | (None, _) \<Rightarrow> False)"

definition get_number_of_serial_ports :: "flavor \<Rightarrow> image_props \<Rightarrow> int option result" where
  "get_number_of_serial_ports f props =
     bind (case map_of (extra_specs f) ''hw:serial_port_count'' of
             None \<Rightarrow> Inr None
           | Some s \<Rightarrow> bind (reraise ValueError ImageSerialPortNumberInvalid (py_int s))
                       (\<lambda>n. Inr (Some n)))
       (\<lambda>flavor_num_ports.
          let image_num_ports = hw_serial_port_count props;
              both = (if truthy flavor_num_ports then image_num_ports else flavor_num_ports)
          in if both \<noteq> None then
               (if opt_gt image_num_ports flavor_num_ports
                then Inl ImageSerialPortNumberExceedFlavorValue
                else Inr image_num_ports)
             else Inr (if truthy flavor_num_ports then flavor_num_ports
                       else if truthy image_num_ports then image_num_ports else Some 1))"

text \<open>With a positive serial port count in the flavor, the image may lower it, may not
  exceed it, and an unset image value leaves it as it is.\<close>

theorem serial_ports_bounded_by_flavor:
  assumes "map_of (extra_specs f) ''hw:serial_port_count'' = Some s" and "py_int s = Inr n"
    and "0 < n"
  shows "get_number_of_serial_ports f props =
    (case hw_serial_port_count props of
       None \<Rightarrow> Inr (Some n)
     | Some i \<Rightarrow> if n < i then Inl ImageSerialPortNumberExceedFlavorValue else Inr (Some i))"
  using assms
  by (simp add: get_number_of_serial_ports_def truthy_def opt_gt_def Let_def split: option.splits)

theorem serial_ports_bounded_by_flavor_witness:
  "get_number_of_serial_ports (plain_flavor 1 512 [(''hw:serial_port_count'', ''4'')])
     (no_image_props\<lparr>hw_serial_port_count := Some 6\<rparr>)
   = Inl ImageSerialPortNumberExceedFlavorValue"
proof -
  have h: "py_int ''4'' = Inr 4" by code_simp
  show ?thesis
    using serial_ports_bounded_by_flavor [OF _ h, of "plain_flavor 1 512 [(''hw:serial_port_count'', ''4'')]"
        "no_image_props\<lparr>hw_serial_port_count := Some 6\<rparr>"]
    by (simp add: plain_flavor_def)
qed

text \<open>A flavor value of 0 with no image value falls into the branch meant for both being
  set, and the function returns no number at all instead of the default 1.\<close>

theorem serial_ports_zero_flavor:
  assumes "map_of (extra_specs f) ''hw:serial_port_count'' = Some ''0''"
    and "hw_serial_port_count props = None"
  shows "get_number_of_serial_ports f props = Inr None"
proof -
  have "py_int ''0'' = Inr 0" by code_simp
  then show ?thesis
    using assms by (simp add: get_number_of_serial_ports_def truthy_def opt_gt_def Let_def)
qed

theorem serial_ports_zero_flavor_witness:
  "get_number_of_serial_ports (plain_flavor 1 512 [(''hw:serial_port_count'', ''0'')]) no_image_props
   = Inr None"
  by (rule serial_ports_zero_flavor) (simp_all add: plain_flavor_def no_image_props_def)

end
