(* ===== verification/CpuTopology.thy ===== *)
theory CpuTopology
  imports FlavorImage "HOL-Library.Product_Lexorder"
begin

text \<open>
  The guest CPU topology of nova/virt/hardware.py: constraints from flavor and image, the
  enumeration of the possible sockets:cores:threads splits, the filter for NUMA threads, the
  sort by match score and the choice of the best. The lemmas show that what is enumerated is
  exactly what fits, that the choice is one of them with the best score, and when there is none.
\<close>

section \<open>Operations\<close>

record cpu_topology =
  sockets :: int
  cores :: int
  threads :: int

abbreviation topo :: "int \<Rightarrow> int \<Rightarrow> int \<Rightarrow> cpu_topology" where
  "topo s c t \<equiv> \<lparr>sockets = s, cores = c, threads = t\<rparr>"

definition score_cpu_topology :: "cpu_topology \<Rightarrow> cpu_topology \<Rightarrow> nat" where
  "score_cpu_topology topology wanttopology =
     (if sockets wanttopology \<noteq> -1 \<and> sockets topology = sockets wanttopology then 1 else 0)
   + (if cores wanttopology \<noteq> -1 \<and> cores topology = cores wanttopology then 1 else 0)
   + (if threads wanttopology \<noteq> -1 \<and> threads topology = threads wanttopology then 1 else 0)"

definition get_cpu_topology_constraints ::
    "flavor \<Rightarrow> image_props \<Rightarrow> (cpu_topology \<times> cpu_topology) result" where
  "get_cpu_topology_constraints f props =
     bind (spec_int f ''hw:cpu_max_sockets'' 65536) (\<lambda>flvmaxsockets.
     bind (spec_int f ''hw:cpu_max_cores'' 65536) (\<lambda>flvmaxcores.
     bind (spec_int f ''hw:cpu_max_threads'' 65536) (\<lambda>flvmaxthreads.
     (let maxsockets = or_default (hw_cpu_max_sockets props) flvmaxsockets;
          maxcores = or_default (hw_cpu_max_cores props) flvmaxcores;
          maxthreads = or_default (hw_cpu_max_threads props) flvmaxthreads in
      if maxsockets > flvmaxsockets \<or> maxcores > flvmaxcores \<or> maxthreads > flvmaxthreads
      then Inl ImageVCPULimitsRangeExceeded
      else
        bind (spec_int f ''hw:cpu_sockets'' (-1)) (\<lambda>flvsockets0.
        bind (spec_int f ''hw:cpu_cores'' (-1)) (\<lambda>flvcores0.
        bind (spec_int f ''hw:cpu_threads'' (-1)) (\<lambda>flvthreads0.
        (let discard = (flvsockets0 > maxsockets \<or> flvcores0 > maxcores \<or> flvthreads0 > maxthreads);
             flvsockets = (if discard then -1 else flvsockets0);
             flvcores = (if discard then -1 else flvcores0);
             flvthreads = (if discard then -1 else flvthreads0);
             sockets0 = or_default (hw_cpu_sockets props) (-1);
             cores0 = or_default (hw_cpu_cores props) (-1);
             threads0 = or_default (hw_cpu_threads props) (-1) in
         if sockets0 > maxsockets \<or> cores0 > maxcores \<or> threads0 > maxthreads
         then Inl ImageVCPUTopologyRangeExceeded
         else
           (let from_flavor = (sockets0 = -1 \<and> cores0 = -1 \<and> threads0 = -1) in
            Inr (topo (if from_flavor then flvsockets else sockets0)
                      (if from_flavor then flvcores else cores0)
                      (if from_flavor then flvthreads else threads0),
                 topo maxsockets maxcores maxthreads))))))))))"

definition enumerate_topologies :: "int \<Rightarrow> int \<Rightarrow> int \<Rightarrow> int \<Rightarrow> cpu_topology list" where
  "enumerate_topologies n maxsockets maxcores maxthreads =
     concat (map (\<lambda>s. concat (map (\<lambda>c. concat (map (\<lambda>t.
       if t * c * s \<noteq> n then [] else [topo s c t])
         [1..maxthreads])) [1..maxcores])) [1..maxsockets])"

definition get_possible_cpu_topologies ::
    "int \<Rightarrow> cpu_topology \<Rightarrow> bool \<Rightarrow> cpu_topology list result" where
  "get_possible_cpu_topologies n maxtopology allow_threads =
     (let maxsockets = min n (sockets maxtopology);
          maxcores = min n (cores maxtopology);
          maxthreads = (if allow_threads then min n (threads maxtopology) else 1);
          possible = enumerate_topologies n maxsockets maxcores maxthreads;
          possible' = sorted_desc (\<lambda>x. (sockets x * cores x, sockets x, threads x)) possible
      in if length possible' = 0 then Inl ImageVCPULimitsRangeImpossible else Inr possible')"

text \<open>The loop that finds the largest thread count not above the wanted one.\<close>

fun most_threads :: "int \<Rightarrow> int \<Rightarrow> cpu_topology list \<Rightarrow> int" where
  "most_threads wantthreads mostthreads [] = mostthreads"
| "most_threads wantthreads mostthreads (x # xs) =
     (if threads x > wantthreads then most_threads wantthreads mostthreads xs
      else if threads x > mostthreads then most_threads wantthreads (threads x) xs
      else most_threads wantthreads mostthreads xs)"

definition filter_for_numa_threads :: "cpu_topology list \<Rightarrow> int \<Rightarrow> cpu_topology list" where
  "filter_for_numa_threads possible wantthreads =
     filter (\<lambda>x. threads x = most_threads wantthreads 0 possible) possible"

definition sort_possible_cpu_topologies ::
    "cpu_topology list \<Rightarrow> cpu_topology \<Rightarrow> cpu_topology list" where
  "sort_possible_cpu_topologies possible wanttopology =
     (let scores = (\<lambda>n. filter (\<lambda>x. score_cpu_topology x wanttopology = n) possible)
      in scores 3 @ scores 2 @ scores 1 @ scores 0)"

text \<open>
  The NUMA topology enters through the CPU topologies of its cells: \<open>None\<close> for a cell that has
  none, and an empty list of cells for no (or an empty, hence false) NUMA topology.
\<close>

definition requested_threads :: "cpu_topology option list \<Rightarrow> cpu_topology \<Rightarrow> int option" where
  "requested_threads cell_topologies preferred =
     (let topos = concat (map (\<lambda>c. case c of None \<Rightarrow> [] | Some x \<Rightarrow> [x]) cell_topologies) in
      if topos = [] then None
      else let m = Min (threads ` set topos) in
        if m = 0 then None
        else Some (max 1 (if threads preferred \<noteq> -1 then min (threads preferred) m else m)))"

definition get_desirable_cpu_topologies ::
    "flavor \<Rightarrow> image_props \<Rightarrow> bool \<Rightarrow> cpu_topology option list \<Rightarrow> cpu_topology list result" where
  "get_desirable_cpu_topologies f props allow_threads numa_cells =
     bind (get_cpu_topology_constraints f props) (\<lambda>(preferred, maximum).
     bind (get_possible_cpu_topologies (flavor_vcpus f) maximum allow_threads) (\<lambda>possible.
       let possible' = (case requested_threads numa_cells preferred of
                          None \<Rightarrow> possible
                        | Some specified_threads \<Rightarrow> filter_for_numa_threads possible specified_threads)
       in Inr (sort_possible_cpu_topologies possible' preferred)))"

text \<open>Indexing the first element of an empty list raises IndexError.\<close>

definition get_best_cpu_topology ::
    "flavor \<Rightarrow> image_props \<Rightarrow> bool \<Rightarrow> cpu_topology option list \<Rightarrow> cpu_topology result" where
  "get_best_cpu_topology f props allow_threads numa_cells =
     bind (get_desirable_cpu_topologies f props allow_threads numa_cells) (\<lambda>desired.
       case desired of [] \<Rightarrow> Inl IndexError | x # _ \<Rightarrow> Inr x)"

section \<open>Enumeration\<close>

text \<open>What it means for a topology to satisfy the request.\<close>

definition fits :: "int \<Rightarrow> cpu_topology \<Rightarrow> bool \<Rightarrow> cpu_topology \<Rightarrow> bool" where
  "fits n maxtopology allow_threads x \<longleftrightarrow>
     1 \<le> sockets x \<and> sockets x \<le> sockets maxtopology \<and>
     1 \<le> cores x \<and> cores x \<le> cores maxtopology \<and>
     1 \<le> threads x \<and> (if allow_threads then threads x \<le> threads maxtopology else threads x = 1) \<and>
     sockets x * cores x * threads x = n"

lemma factor_le:
  fixes a b c :: int
  assumes "1 \<le> a" "1 \<le> b" "1 \<le> c" "a * b * c = n"
  shows "a \<le> n" "b \<le> n" "c \<le> n"
proof -
  have ab: "a * 1 \<le> a * b" "1 * b \<le> a * b"
    using assms by (intro mult_left_mono mult_right_mono; simp)+
  then have "1 \<le> a * b" using assms by linarith
  then have "a * b * 1 \<le> a * b * c" "1 * c \<le> a * b * c"
    using assms by (intro mult_left_mono mult_right_mono; simp)+
  then show "a \<le> n" "b \<le> n" "c \<le> n" using ab assms(4) by linarith+
qed

lemma set_enumerate:
  "x \<in> set (enumerate_topologies n ms mc mt) \<longleftrightarrow>
     sockets x \<in> {1..ms} \<and> cores x \<in> {1..mc} \<and> threads x \<in> {1..mt} \<and>
     threads x * cores x * sockets x = n"
proof -
  have m: "y \<in> set (if b then [] else [z]) \<longleftrightarrow> \<not> b \<and> y = z" for y z :: cpu_topology and b
    by simp
  obtain s c t where x: "x = topo s c t" by (cases x) auto
  show ?thesis unfolding enumerate_topologies_def x by (simp add: m)
qed

lemma distinct_concat_map:
  assumes "distinct ts" and "\<And>t. t \<in> set ts \<Longrightarrow> distinct (g t)"
    and "\<And>t u. t \<in> set ts \<Longrightarrow> u \<in> set ts \<Longrightarrow> t \<noteq> u \<Longrightarrow> set (g t) \<inter> set (g u) = {}"
  shows "distinct (concat (map g ts))"
  using assms
proof (induction ts)
  case (Cons t ts)
  have "set (g t) \<inter> set (g u) = {}" if "u \<in> set ts" for u
    using Cons.prems(1) that by (intro Cons.prems(3)) auto
  then show ?case using Cons by auto
qed simp

lemma distinct_enumerate: "distinct (enumerate_topologies n ms mc mt)"
  unfolding enumerate_topologies_def
  by (intro distinct_concat_map distinct_upto) (auto split: if_splits)

text \<open>The possible topologies are exactly those within the limits whose product is the vCPU
  count, each once, ordered by (sockets*cores, sockets, threads) descending; the request is
  refused exactly when there is none.\<close>

theorem possible_topologies_exact:
  "case get_possible_cpu_topologies n maxtopology allow_threads of
     Inr possible \<Rightarrow> set possible = {x. fits n maxtopology allow_threads x} \<and> distinct possible \<and>
       possible \<noteq> [] \<and>
       sorted_wrt (\<lambda>x y. (sockets y * cores y, sockets y, threads y)
                       \<le> (sockets x * cores x, sockets x, threads x)) possible
   | Inl e \<Rightarrow> e = ImageVCPULimitsRangeImpossible \<and> (\<nexists>x. fits n maxtopology allow_threads x)"
proof -
  let ?mt = "if allow_threads then min n (threads maxtopology) else 1"
  let ?p = "enumerate_topologies n (min n (sockets maxtopology)) (min n (cores maxtopology)) ?mt"
  let ?k = "\<lambda>x. (sockets x * cores x, sockets x, threads x)"
  have "x \<in> set ?p \<longleftrightarrow> fits n maxtopology allow_threads x" for x
    using factor_le [of "sockets x" "cores x" "threads x" n]
    by (auto simp: set_enumerate fits_def mult.commute mult.left_commute)
  then have set: "set ?p = {x. fits n maxtopology allow_threads x}" by blast
  have eq: "get_possible_cpu_topologies n maxtopology allow_threads =
      (if ?p = [] then Inl ImageVCPULimitsRangeImpossible else Inr (sorted_desc ?k ?p))"
    by (simp add: get_possible_cpu_topologies_def Let_def)
  show ?thesis
  proof (cases "?p = []")
    case True
    then have "{x. fits n maxtopology allow_threads x} = {}" using set by simp
    then show ?thesis using True by (auto simp: eq)
  next
    case False
    then show ?thesis
      using set distinct_enumerate sorted_desc_sorted [of ?k ?p] by (simp add: eq del: less_eq_prod_simp)
  qed
qed

section \<open>Choice\<close>

lemma most_threads_cases:
  "most_threads w m xs = m \<or> (\<exists>x \<in> set xs. threads x = most_threads w m xs \<and> threads x \<le> w)"
  by (induction w m xs rule: most_threads.induct) auto

lemma most_threads_ge: "m \<le> most_threads w m xs"
  by (induction w m xs rule: most_threads.induct) auto

lemma most_threads_upper: "x \<in> set xs \<Longrightarrow> threads x \<le> w \<Longrightarrow> threads x \<le> most_threads w m xs"
proof (induction xs arbitrary: m)
  case (Cons y ys)
  show ?case
  proof (cases "x = y")
    case True
    then show ?thesis
      using Cons.prems(2) most_threads_ge [of "threads y" w ys] most_threads_ge [of m w ys] by auto
  next
    case False
    then show ?thesis using Cons by auto
  qed
qed simp

lemma most_threads_best:
  assumes "x \<in> set possible" "threads x \<le> w" "\<forall>x \<in> set possible. 1 \<le> threads x"
  shows "\<exists>y \<in> set possible. threads y = most_threads w 0 possible \<and> threads y \<le> w"
  using most_threads_cases [of w 0 possible] most_threads_upper [OF assms(1,2), of 0] assms by fastforce

text \<open>The thread filter keeps exactly the topologies with the largest thread count that does
  not exceed the wanted one.\<close>

theorem numa_thread_filter_best:
  assumes "\<forall>x \<in> set possible. 1 \<le> threads x"
  shows "set (filter_for_numa_threads possible w) =
    {y \<in> set possible. threads y \<le> w \<and>
       (\<forall>x \<in> set possible. threads x \<le> w \<longrightarrow> threads x \<le> threads y)}"
proof -
  have "threads y = most_threads w 0 possible \<longleftrightarrow>
      threads y \<le> w \<and> (\<forall>x \<in> set possible. threads x \<le> w \<longrightarrow> threads x \<le> threads y)"
    if "y \<in> set possible" for y
    using that assms most_threads_cases [of w 0 possible] most_threads_upper [of _ possible w 0]
    by (smt (verit, best))
  then show ?thesis by (auto simp: filter_for_numa_threads_def)
qed

theorem numa_thread_filter_best_witness:
  "topo 2 1 3 \<in> set (filter_for_numa_threads [topo 1 1 6, topo 2 1 3, topo 6 1 1] 4)"
  by (subst numa_thread_filter_best) simp_all

lemma score_le: "score_cpu_topology x w \<le> 3"
  by (simp add: score_cpu_topology_def)

lemma set_sort_possible: "set (sort_possible_cpu_topologies possible w) = set possible"
proof -
  have "x \<in> set (sort_possible_cpu_topologies possible w) \<longleftrightarrow> x \<in> set possible" for x
    using score_le [of x w] by (auto simp: sort_possible_cpu_topologies_def Let_def)
  then show ?thesis by blast
qed

lemma sort_possible_sorted:
  "sorted_wrt (\<lambda>x y. score_cpu_topology y w \<le> score_cpu_topology x w)
     (sort_possible_cpu_topologies possible w)"
proof -
  have "sorted_wrt (\<lambda>x y. score_cpu_topology y w \<le> score_cpu_topology x w)
      (filter (\<lambda>x. score_cpu_topology x w = n) possible)" for n
    by (induction possible) auto
  then show ?thesis by (auto simp: sort_possible_cpu_topologies_def Let_def sorted_wrt_append)
qed

lemma desirable_cases:
  assumes "get_desirable_cpu_topologies f props allow_threads cells = Inr desired"
  obtains preferred maximum possible possible' where
    "get_cpu_topology_constraints f props = Inr (preferred, maximum)"
    "get_possible_cpu_topologies (flavor_vcpus f) maximum allow_threads = Inr possible"
    "desired = sort_possible_cpu_topologies possible' preferred" "set possible' \<subseteq> set possible"
    "possible' = (case requested_threads cells preferred of
       None \<Rightarrow> possible | Some n \<Rightarrow> filter_for_numa_threads possible n)"
  using assms
  by (auto simp: get_desirable_cpu_topologies_def Let_def filter_for_numa_threads_def
      split: option.splits)

text \<open>The topology chosen for a guest has exactly the flavor's vCPU count, respects the
  limits taken from flavor and image, and no desirable topology scores better.\<close>

theorem best_topology_sound:
  assumes "get_best_cpu_topology f props allow_threads cells = Inr x"
  shows "\<exists>preferred maximum. get_cpu_topology_constraints f props = Inr (preferred, maximum) \<and>
    fits (flavor_vcpus f) maximum allow_threads x \<and>
    (\<forall>desired y. get_desirable_cpu_topologies f props allow_threads cells = Inr desired \<longrightarrow>
       y \<in> set desired \<longrightarrow> score_cpu_topology y preferred \<le> score_cpu_topology x preferred)"
proof -
  obtain rest where d: "get_desirable_cpu_topologies f props allow_threads cells = Inr (x # rest)"
    using assms unfolding get_best_cpu_topology_def bind_eq_Inr
    by (metis list.exhaust list.simps(4,5) sum.distinct(1) sum.inject(2))
  then obtain preferred maximum possible possible' where
    c: "get_cpu_topology_constraints f props = Inr (preferred, maximum)" and
    p: "get_possible_cpu_topologies (flavor_vcpus f) maximum allow_threads = Inr possible" and
    s: "x # rest = sort_possible_cpu_topologies possible' preferred" and
    sub: "set possible' \<subseteq> set possible"
    by (rule desirable_cases)
  have "x \<in> set possible'" using s set_sort_possible [of possible' preferred]
    by (metis list.set_intros(1))
  then have "fits (flavor_vcpus f) maximum allow_threads x"
    using possible_topologies_exact [of "flavor_vcpus f" maximum allow_threads] p sub by auto
  moreover have "score_cpu_topology y preferred \<le> score_cpu_topology x preferred"
    if "y \<in> set (x # rest)" for y
    using sort_possible_sorted [of preferred possible'] that unfolding s [symmetric] by auto
  ultimately show ?thesis using c d by auto
qed

theorem best_topology_sound_witness:
  "\<exists>preferred maximum.
     get_cpu_topology_constraints (plain_flavor 4 512 [(''hw:cpu_cores'', ''2'')]) no_image_props
       = Inr (preferred, maximum) \<and> fits 4 maximum False (topo 2 2 1)"
proof -
  have "get_best_cpu_topology (plain_flavor 4 512 [(''hw:cpu_cores'', ''2'')]) no_image_props False []
      = Inr (topo 2 2 1)" by code_simp
  from best_topology_sound [OF this] show ?thesis by (auto simp: plain_flavor_def)
qed

text \<open>A NUMA thread request below every possible thread count leaves no candidate, and
  indexing the empty list raises IndexError: with one socket and one core allowed and two vCPUs,
  only two threads fit, so a cell that was given one thread cannot be served.\<close>

theorem best_topology_index_error:
  assumes "get_cpu_topology_constraints f props = Inr (preferred, maximum)"
    and "get_possible_cpu_topologies (flavor_vcpus f) maximum allow_threads = Inr possible"
    and "requested_threads cells preferred = Some w"
    and "\<forall>x \<in> set possible. w < threads x"
  shows "get_best_cpu_topology f props allow_threads cells = Inl IndexError"
proof -
  have pos: "1 \<le> threads x" if "x \<in> set possible" for x
    using possible_topologies_exact [of "flavor_vcpus f" maximum allow_threads] assms(2) that
    by (auto simp: fits_def)
  have "threads x \<noteq> most_threads w 0 possible" if "x \<in> set possible" for x
    using assms(4) pos [OF that] that most_threads_cases [of w 0 possible] by fastforce
  then have "filter_for_numa_threads possible w = []"
    by (simp add: filter_for_numa_threads_def filter_empty_conv)
  then show ?thesis
    using assms by (simp add: get_best_cpu_topology_def get_desirable_cpu_topologies_def
        sort_possible_cpu_topologies_def Let_def)
qed

theorem best_topology_index_error_witness:
  "get_best_cpu_topology
     (plain_flavor 2 512 [(''hw:cpu_max_sockets'', ''1''), (''hw:cpu_max_cores'', ''1'')])
     no_image_props True [Some (topo 1 2 1)] = Inl IndexError"
proof -
  let ?f = "plain_flavor 2 512 [(''hw:cpu_max_sockets'', ''1''), (''hw:cpu_max_cores'', ''1'')]"
  have 1: "get_cpu_topology_constraints ?f no_image_props = Inr (topo (-1) (-1) (-1), topo 1 1 65536)"
    by code_simp
  have 2: "get_possible_cpu_topologies (flavor_vcpus ?f) (topo 1 1 65536) True = Inr [topo 1 1 2]"
    by code_simp
  have 3: "requested_threads [Some (topo 1 2 1)] (topo (-1) (-1) (-1)) = Some 1" by code_simp
  show ?thesis by (rule best_topology_index_error [OF 1 2 3]) simp
qed

end
