(* ===== verification/NumaObjects.thy ===== *)
theory NumaObjects
  imports CpuSpec CpuTopology
begin

text \<open>
  The NUMA objects: NUMACell, NUMAPagesTopology and NUMATopology of nova/objects/numa.py and
  InstanceNUMACell and InstanceNUMATopology of nova/objects/instance_numa_topology.py, with
  CPU pinning as an interface: the laws of taking and giving back exclusive resources, the facts
  that follow from them, and the interpretation on \<open>pin_cpus\<close> and \<open>unpin_cpus\<close>.
\<close>

section \<open>Exclusive resources\<close>

text \<open>
  The contract between a holder of exclusive resources and its clients: \<open>take\<close> succeeds
  exactly on resources that exist and are free, \<open>give\<close> exactly on resources that exist and are
  held; both change nothing but the set of held ones (\<open>frame\<close> is the rest of the state).
\<close>

locale exclusive_resources =
  fixes capacity :: "'s \<Rightarrow> 'r set"
    and held :: "'s \<Rightarrow> 'r set"
    and frame :: "'s \<Rightarrow> 'f"
    and take_res :: "'r set \<Rightarrow> 's \<Rightarrow> 's result"
    and give_res :: "'r set \<Rightarrow> 's \<Rightarrow> 's result"
  assumes take_iff: "(\<exists>t. take_res R s = Inr t) \<longleftrightarrow> R \<subseteq> capacity s \<and> R \<inter> held s = {}"
    and take_held: "take_res R s = Inr t \<Longrightarrow> held t = held s \<union> R \<and> frame t = frame s"
    and give_iff: "(\<exists>t. give_res R s = Inr t) \<longleftrightarrow> R \<subseteq> capacity s \<and> R \<subseteq> held s"
    and give_held: "give_res R s = Inr t \<Longrightarrow> held t = held s - R \<and> frame t = frame s"
    and capacity_frame: "frame s = frame t \<Longrightarrow> capacity s = capacity t"
    and state_eq: "frame s = frame t \<Longrightarrow> held s = held t \<Longrightarrow> s = t"
begin

lemma take_pre: "take_res R s = Inr t \<Longrightarrow> R \<subseteq> capacity s \<and> R \<inter> held s = {}"
  using take_iff by blast

lemma capacity_take [simp]: "take_res R s = Inr t \<Longrightarrow> capacity t = capacity s"
  using take_held capacity_frame by metis

lemma capacity_give [simp]: "give_res R s = Inr t \<Longrightarrow> capacity t = capacity s"
  using give_held capacity_frame by metis

lemma take_keeps_bound: "held s \<subseteq> capacity s \<Longrightarrow> take_res R s = Inr t \<Longrightarrow> held t \<subseteq> capacity t"
  using take_pre [of R s t] take_held [of R s t] by auto

lemma give_keeps_bound: "held s \<subseteq> capacity s \<Longrightarrow> give_res R s = Inr t \<Longrightarrow> held t \<subseteq> capacity t"
  using give_held [of R s t] by auto

lemma take_twice_fails: "R \<noteq> {} \<Longrightarrow> take_res R s = Inr t \<Longrightarrow> \<exists>e. take_res R t = Inl e"
  using take_held [of R s t] take_pre [of R t] by (cases "take_res R t") auto

text \<open>What was taken can be given back, and this restores the state.\<close>

lemma give_take: "take_res R s = Inr t \<Longrightarrow> give_res R t = Inr s"
proof -
  assume t: "take_res R s = Inr t"
  have "\<exists>u. give_res R t = Inr u"
    using take_pre [OF t] take_held [OF t] t by (simp add: give_iff)
  then obtain u where u: "give_res R t = Inr u" by blast
  have "held u = held s" "frame u = frame s"
    using take_pre [OF t] take_held [OF t] give_held [OF u] by auto
  then show ?thesis using u state_eq by metis
qed

text \<open>A sequence of takes is disjoint, and only takes what was free.\<close>

lemma take_all:
  assumes "loop take_res Rs s = Inr t"
  shows "held t = held s \<union> \<Union> (set Rs) \<and> frame t = frame s \<and>
    (\<forall>R \<in> set Rs. R \<inter> held s = {} \<and> R \<subseteq> capacity s) \<and>
    (\<forall>i j. i < j \<longrightarrow> j < length Rs \<longrightarrow> Rs ! i \<inter> Rs ! j = {})"
  using assms
proof (induction Rs arbitrary: s)
  case (Cons R Rs)
  then obtain s' where s': "take_res R s = Inr s'" "loop take_res Rs s' = Inr t" by auto
  note IH = Cons.IH [OF s'(2)] and h = take_held [OF s'(1)] and p = take_pre [OF s'(1)]
  have "(R # Rs) ! i \<inter> (R # Rs) ! j = {}" if ij: "i < j" "j < length (R # Rs)" for i j
  proof (cases i)
    case 0
    then obtain k where "j = Suc k" "k < length Rs" using ij by (cases j) auto
    then have "Rs ! k \<inter> held s' = {}" using IH by auto
    then show ?thesis using 0 h \<open>j = Suc k\<close> by auto
  next
    case (Suc m)
    then show ?thesis using ij IH by (cases j) auto
  qed
  then show ?case using IH h p s'(1) by auto
qed simp

end

section \<open>Host cells\<close>

record pages =
  size_kb :: int
  total_pages :: int
  used_pages :: int

definition free_pages :: "pages \<Rightarrow> int" where
  "free_pages p = total_pages p - used_pages p"

definition free_kb :: "pages \<Rightarrow> int" where
  "free_kb p = free_pages p * size_kb p"

record numa_cell =
  cell_id :: int
  cell_cpuset :: "int set"
  cell_memory :: int
  cell_cpu_usage :: int
  cell_memory_usage :: int
  pinned_cpus :: "int set"
  siblings :: "int set list"
  mempages :: "pages list"

definition free_cpus :: "numa_cell \<Rightarrow> int set" where
  "free_cpus c = cell_cpuset c - pinned_cpus c"

definition free_siblings :: "numa_cell \<Rightarrow> int set list" where
  "free_siblings c = map (\<lambda>sibling_set. sibling_set \<inter> free_cpus c) (siblings c)"

definition avail_cpus :: "numa_cell \<Rightarrow> nat" where
  "avail_cpus c = card (free_cpus c)"

definition avail_memory :: "numa_cell \<Rightarrow> int" where
  "avail_memory c = cell_memory c - cell_memory_usage c"

definition pin_cpus :: "int set \<Rightarrow> numa_cell \<Rightarrow> numa_cell result" where
  "pin_cpus cpus c =
     (if cpus - cell_cpuset c \<noteq> {} then Inl CPUPinningUnknown
      else if pinned_cpus c \<inter> cpus \<noteq> {} then Inl CPUPinningInvalid
      else Inr (c\<lparr>pinned_cpus := pinned_cpus c \<union> cpus\<rparr>))"

definition unpin_cpus :: "int set \<Rightarrow> numa_cell \<Rightarrow> numa_cell result" where
  "unpin_cpus cpus c =
     (if cpus - cell_cpuset c \<noteq> {} then Inl CPUPinningUnknown
      else if pinned_cpus c \<inter> cpus \<noteq> cpus then Inl CPUPinningInvalid
      else Inr (c\<lparr>pinned_cpus := pinned_cpus c - cpus\<rparr>))"

interpretation pinning: exclusive_resources cell_cpuset pinned_cpus
  "\<lambda>c. c\<lparr>pinned_cpus := {}\<rparr>" pin_cpus unpin_cpus
proof unfold_locales
  fix s t :: numa_cell
  assume eq: "s\<lparr>pinned_cpus := {}\<rparr> = t\<lparr>pinned_cpus := {}\<rparr>"
  then show "cell_cpuset s = cell_cpuset t" by (cases s; cases t) simp
  assume "pinned_cpus s = pinned_cpus t"
  with eq show "s = t" by (cases s; cases t) simp
qed (auto simp: pin_cpus_def unpin_cpus_def split: if_splits)

text \<open>Pinning a set of CPUs and unpinning the same set gives back the very same host cell.\<close>

theorem unpin_after_pin:
  assumes "pin_cpus cpus c = Inr c'"
  shows "unpin_cpus cpus c' = Inr c"
  using assms by (rule pinning.give_take)

abbreviation sample_cell :: numa_cell where
  "sample_cell \<equiv> \<lparr>cell_id = 0, cell_cpuset = {0, 1, 2, 3}, cell_memory = 2048, cell_cpu_usage = 0,
     cell_memory_usage = 0, pinned_cpus = {0}, siblings = [], mempages = []\<rparr>"

theorem unpin_after_pin_witness:
  "unpin_cpus {1, 2} (sample_cell\<lparr>pinned_cpus := {0, 1, 2}\<rparr>) = Inr sample_cell"
  by (rule unpin_after_pin) (auto simp: pin_cpus_def)

text \<open>A sequence of successful pinnings never gives one physical CPU to two of them, nor
  a CPU that was pinned before or that the cell does not have.\<close>

theorem pinnings_disjoint:
  assumes "loop pin_cpus requests c = Inr c'"
  shows "pinned_cpus c' = pinned_cpus c \<union> \<Union> (set requests) \<and>
    (\<forall>R \<in> set requests. R \<inter> pinned_cpus c = {} \<and> R \<subseteq> cell_cpuset c) \<and>
    (\<forall>i j. i < j \<longrightarrow> j < length requests \<longrightarrow> requests ! i \<inter> requests ! j = {})"
  using pinning.take_all [OF assms] by simp

theorem pinnings_disjoint_witness:
  "pinned_cpus (sample_cell\<lparr>pinned_cpus := {0, 1, 2}\<rparr>) = {0} \<union> \<Union> (set [{1}, {2}])"
proof -
  have "loop pin_cpus [{1}, {2}] sample_cell = Inr (sample_cell\<lparr>pinned_cpus := {0, 1, 2}\<rparr>)"
    by (auto simp: pin_cpus_def)
  from pinnings_disjoint [OF this] show ?thesis by simp
qed

text \<open>\<open>can_fit_hugepages\<close>: the first entry of the page size decides; no entry raises.\<close>

fun can_fit_hugepages_in :: "pages list \<Rightarrow> int \<Rightarrow> int \<Rightarrow> bool result" where
  "can_fit_hugepages_in [] pagesize memory = Inl MemoryPageSizeNotSupported"
| "can_fit_hugepages_in (p # ps) pagesize memory =
     (if size_kb p = pagesize then
        (if memory \<le> free_kb p then
           (if size_kb p = 0 then Inl ZeroDivisionError else Inr (memory mod size_kb p = 0))
         else Inr False)
      else can_fit_hugepages_in ps pagesize memory)"

definition can_fit_hugepages :: "numa_cell \<Rightarrow> int \<Rightarrow> int \<Rightarrow> bool result" where
  "can_fit_hugepages c pagesize memory = can_fit_hugepages_in (mempages c) pagesize memory"

lemma can_fit_hugepages_True:
  "can_fit_hugepages_in ps k m = Inr True \<Longrightarrow>
   \<exists>p \<in> set ps. size_kb p = k \<and> m \<le> free_kb p \<and> k dvd m"
  by (induction ps) (auto split: if_splits)

lemma can_fit_hugepages_supported:
  "k \<in> size_kb ` set ps \<Longrightarrow> k \<noteq> 0 \<Longrightarrow> \<exists>b. can_fit_hugepages_in ps k m = Inr b"
  by (induction ps) auto

section \<open>The legacy dictionary form\<close>

text \<open>Keys that may be absent are optional; \<open>mem\<close> is the nested dictionary of total and used.\<close>

record cell_dict =
  dict_id :: "int option"
  dict_cpus :: "string option"
  dict_total :: "int option"
  dict_used :: "int option"
  dict_cpu_usage :: "int option"

definition numa_cell_to_dict :: "numa_cell \<Rightarrow> cell_dict" where
  "numa_cell_to_dict c =
     \<lparr>dict_id = Some (cell_id c),
      dict_cpus = Some (format_cpu_spec (sorted_list_of_set (cell_cpuset c)) False),
      dict_total = Some (cell_memory c), dict_used = Some (cell_memory_usage c),
      dict_cpu_usage = Some (cell_cpu_usage c)\<rparr>"

text \<open>The id field does not accept a missing id.\<close>

definition numa_cell_from_dict :: "cell_dict \<Rightarrow> numa_cell result" where
  "numa_cell_from_dict d =
     bind (parse_cpu_spec (or_default (dict_cpus d) '''')) (\<lambda>cpuset.
       case dict_id d of
         None \<Rightarrow> Inl ValueError
       | Some i \<Rightarrow> Inr \<lparr>cell_id = i, cell_cpuset = cpuset,
           cell_memory = or_default (dict_total d) 0,
           cell_cpu_usage = or_default (dict_cpu_usage d) 0,
           cell_memory_usage = or_default (dict_used d) 0,
           pinned_cpus = {}, siblings = [], mempages = []\<rparr>)"

definition numa_topology_to_dict :: "numa_cell list \<Rightarrow> cell_dict list" where
  "numa_topology_to_dict cells = map numa_cell_to_dict cells"

definition numa_topology_from_dict :: "cell_dict list \<Rightarrow> numa_cell list result" where
  "numa_topology_from_dict ds = traverse numa_cell_from_dict ds"

lemma cell_dict_roundtrip:
  assumes "finite (cell_cpuset c)" and "\<forall>i \<in> cell_cpuset c. 0 \<le> i"
  shows "numa_cell_from_dict (numa_cell_to_dict c) =
    Inr (c\<lparr>pinned_cpus := {}, siblings := [], mempages := []\<rparr>)"
  using assms by (simp add: numa_cell_from_dict_def numa_cell_to_dict_def or_default_def
      parse_format_cpu_spec_set)

section \<open>Instance cells\<close>

record inst_cell =
  icell_id :: int
  icell_cpuset :: "int set"
  icell_memory :: int
  pagesize :: "int option"
  icell_cpu_topology :: "cpu_topology option"
  cpu_pinning :: "(int, int) dict option"
  icell_cpu_policy :: "cpu_policy option"
  icell_thread_policy :: "thread_policy option"

text \<open>The constructor call with id, cpuset and memory; the other fields start as None.\<close>

definition new_inst_cell :: "int \<Rightarrow> int set \<Rightarrow> int \<Rightarrow> inst_cell" where
  "new_inst_cell i cpus mem =
     \<lparr>icell_id = i, icell_cpuset = cpus, icell_memory = mem, pagesize = None,
      icell_cpu_topology = None, cpu_pinning = None, icell_cpu_policy = None,
      icell_thread_policy = None\<rparr>"

definition icell_len :: "inst_cell \<Rightarrow> nat" where
  "icell_len c = card (icell_cpuset c)"

definition cpu_pinning_requested :: "inst_cell \<Rightarrow> bool" where
  "cpu_pinning_requested c \<longleftrightarrow> icell_cpu_policy c = Some DEDICATED"

definition topology_pinning_requested :: "inst_cell list \<Rightarrow> bool" where
  "topology_pinning_requested cells \<longleftrightarrow> list_all cpu_pinning_requested cells"

text \<open>\<open>zip\<close> of \<open>n\<close> copies of one iterator: full chunks of \<open>n\<close>, the incomplete rest dropped.\<close>

function chunks :: "nat \<Rightarrow> 'a list \<Rightarrow> 'a list list" where
  "chunks n xs = (if n = 0 \<or> length xs < n then [] else take n xs # chunks n (drop n xs))"
  by pat_completeness auto
termination
  by (relation "measure (\<lambda>(n, xs). length xs)") auto

declare chunks.simps [simp del]

definition icell_siblings :: "inst_cell \<Rightarrow> int set list" where
  "icell_siblings c =
     (let cpu_list = sorted_list_of_set (icell_cpuset c);
          thr = (case icell_cpu_topology c of None \<Rightarrow> 0 | Some x \<Rightarrow> threads x);
          thr' = (if thr = 1 then 0 else thr)
      in map set (chunks (nat thr') cpu_list))"

text \<open>\<open>pinning_dict = self.cpu_pinning or {}\<close> starts from a fresh dictionary when there is none.\<close>

definition pin :: "int \<Rightarrow> int \<Rightarrow> inst_cell \<Rightarrow> inst_cell" where
  "pin vcpu pcpu c =
     (if vcpu \<notin> icell_cpuset c then c
      else c\<lparr>cpu_pinning := Some (AList.update vcpu pcpu (or_default (cpu_pinning c) []))\<rparr>)"

definition pin_vcpus :: "(int \<times> int) list \<Rightarrow> inst_cell \<Rightarrow> inst_cell" where
  "pin_vcpus cpu_pairs c = fold (\<lambda>(vcpu, pcpu). pin vcpu pcpu) cpu_pairs c"

definition pinning_values :: "inst_cell \<Rightarrow> int set" where
  "pinning_values c = set (map snd (or_default (cpu_pinning c) []))"

lemma pin_frame [simp]:
  "icell_id (pin v p c) = icell_id c" "icell_cpuset (pin v p c) = icell_cpuset c"
  "icell_memory (pin v p c) = icell_memory c" "pagesize (pin v p c) = pagesize c"
  "icell_cpu_policy (pin v p c) = icell_cpu_policy c"
  "icell_cpu_topology (pin v p c) = icell_cpu_topology c"
  "icell_thread_policy (pin v p c) = icell_thread_policy c"
  by (simp_all add: pin_def)

lemma pin_vcpus_frame [simp]:
  "icell_id (pin_vcpus ps c) = icell_id c \<and> icell_cpuset (pin_vcpus ps c) = icell_cpuset c \<and>
   icell_memory (pin_vcpus ps c) = icell_memory c \<and> pagesize (pin_vcpus ps c) = pagesize c \<and>
   icell_cpu_policy (pin_vcpus ps c) = icell_cpu_policy c \<and>
   icell_thread_policy (pin_vcpus ps c) = icell_thread_policy c"
  by (induction ps arbitrary: c) (auto simp: pin_vcpus_def)

lemma pin_vcpus_lookup:
  assumes "fst ` set ps \<subseteq> icell_cpuset c" and "distinct (map fst ps)"
  shows "map_of (or_default (cpu_pinning (pin_vcpus ps c)) []) =
    map_of (or_default (cpu_pinning c) []) ++ map_of ps"
  using assms
proof (induction ps arbitrary: c)
  case Nil
  then show ?case by (simp add: pin_vcpus_def)
next
  case (Cons p ps)
  obtain v q where p: "p = (v, q)" by force
  have "pin_vcpus (p # ps) c = pin_vcpus ps (pin v q c)" by (simp add: pin_vcpus_def p)
  then have "map_of (or_default (cpu_pinning (pin_vcpus (p # ps) c)) []) =
      map_of (or_default (cpu_pinning (pin v q c)) []) ++ map_of ps"
    using Cons by auto
  also have "map_of (or_default (cpu_pinning (pin v q c)) []) =
      (map_of (or_default (cpu_pinning c) []))(v \<mapsto> q)"
    using Cons.prems p by (simp add: pin_def or_default_def)
  finally show ?case
    using Cons.prems(2) p by (auto simp: fun_eq_iff map_add_def map_of_eq_None_iff split: option.splits)
qed

lemma pin_vcpus_wf:
  "wf_dict (or_default (cpu_pinning c) []) \<Longrightarrow> wf_dict (or_default (cpu_pinning (pin_vcpus ps c)) [])"
proof (induction ps arbitrary: c)
  case (Cons p ps)
  obtain v q where p: "p = (v, q)" by force
  have "wf_dict (or_default (cpu_pinning (pin v q c)) [])"
    using Cons.prems by (simp add: pin_def or_default_def)
  then show ?case using Cons.IH [of "pin v q c"] by (simp add: pin_vcpus_def p)
qed (simp add: pin_vcpus_def)

lemma set_chunks: "\<Union> (set ` set (chunks n xs)) \<subseteq> set xs"
proof (induction n xs rule: chunks.induct)
  case (1 n xs)
  show ?case
  proof (cases "n = 0 \<or> length xs < n")
    case False
    then have "\<Union> (set ` set (chunks n xs)) =
        set (take n xs) \<union> \<Union> (set ` set (chunks n (drop n xs)))"
      by (simp add: chunks.simps [of n xs])
    then show ?thesis
      using 1 [OF False] set_take_subset [of n xs] set_drop_subset [of n xs] by blast
  qed (simp add: chunks.simps [of n xs])
qed

lemma chunk_length: "c \<in> set (chunks n xs) \<Longrightarrow> length c = n"
proof (induction n xs rule: chunks.induct)
  case (1 n xs)
  show ?case
  proof (cases "n = 0 \<or> length xs < n")
    case True
    then show ?thesis using 1 by (simp add: chunks.simps [of n xs])
  next
    case False
    then have "c = take n xs \<or> c \<in> set (chunks n (drop n xs))"
      using 1(2) by (simp add: chunks.simps [of n xs])
    then show ?thesis using 1(1) False by auto
  qed
qed

lemma chunks_distinct: "distinct xs \<Longrightarrow> c \<in> set (chunks n xs) \<Longrightarrow> distinct c"
proof (induction n xs rule: chunks.induct)
  case (1 n xs)
  show ?case
  proof (cases "n = 0 \<or> length xs < n")
    case True
    then show ?thesis using 1 by (simp add: chunks.simps [of n xs])
  next
    case False
    then have "c = take n xs \<or> c \<in> set (chunks n (drop n xs))"
      using 1(3) by (simp add: chunks.simps [of n xs])
    then show ?thesis using 1(1,2) False by auto
  qed
qed

text \<open>The sibling sets shown to a guest each hold exactly \<open>threads\<close> of the cell's vCPUs.\<close>

theorem instance_siblings_sized:
  assumes "S \<in> set (icell_siblings c)" and "finite (icell_cpuset c)"
  shows "S \<subseteq> icell_cpuset c \<and>
    (\<exists>x. icell_cpu_topology c = Some x \<and> int (card S) = threads x \<and> threads x \<noteq> 1)"
proof -
  let ?thr = "case icell_cpu_topology c of None \<Rightarrow> 0 | Some x \<Rightarrow> threads x"
  let ?n = "nat (if ?thr = 1 then 0 else ?thr)"
  obtain l where l: "l \<in> set (chunks ?n (sorted_list_of_set (icell_cpuset c)))" "S = set l"
    using assms(1) by (auto simp: icell_siblings_def Let_def)
  then have len: "length l = ?n" "distinct l"
    using chunk_length [OF l(1)] chunks_distinct [OF _ l(1)] by auto
  have "?n \<noteq> 0" using l(1) by (auto simp: chunks.simps [of 0])
  then obtain x where x: "icell_cpu_topology c = Some x" "threads x \<noteq> 1" "0 < threads x"
    by (auto split: option.splits if_splits)
  have "S \<subseteq> icell_cpuset c"
    using l assms(2) set_chunks [of ?n "sorted_list_of_set (icell_cpuset c)"] by auto
  moreover have "int (card S) = threads x"
    using l(2) len x by (simp add: distinct_card)
  ultimately show ?thesis using x by blast
qed

theorem instance_siblings_sized_witness:
  "\<exists>x. icell_cpu_topology ((new_inst_cell 0 {0, 1, 2, 3} 512)\<lparr>icell_cpu_topology := Some (topo 1 2 2)\<rparr>)
     = Some x \<and> int (card {2, 3 :: int}) = threads x \<and> threads x \<noteq> 1"
proof -
  let ?c = "(new_inst_cell 0 {0, 1, 2, 3} 512)\<lparr>icell_cpu_topology := Some (topo 1 2 2)\<rparr>"
  have "icell_siblings ?c = [{0, 1}, {2, 3}]" by code_simp
  then have "{2, 3} \<in> set (icell_siblings ?c)" by simp
  from instance_siblings_sized [OF this] show ?thesis by (simp add: new_inst_cell_def)
qed

end
