(* ===== verification/NumaConstraints.thy ===== *)
theory NumaConstraints
  imports NumaObjects
begin

text \<open>
  The NUMA topology a guest asks for (nova/virt/hardware.py): memory page size, manual and
  automatic cell layouts, the CPU policy constraint and \<open>numa_get_constraints\<close> on top of them,
  with the two string conversions of oslo_utils/strutils.py they call. The main result: a
  returned layout partitions the flavor's vCPUs and memory among its cells.

  Byte counts are exact rationals where the library uses floats. A Python set is iterated in an
  unspecified order, so the loops over one take the order as an argument \<open>ord\<close>.
\<close>

definition iteration_order :: "(int set \<Rightarrow> int list) \<Rightarrow> bool" where
  "iteration_order ord \<longleftrightarrow> (\<forall>S. finite S \<longrightarrow> set (ord S) = S \<and> distinct (ord S))"

lemma iteration_order_sorted: "iteration_order sorted_list_of_set"
  by (simp add: iteration_order_def)

section \<open>String conversions of the utility library\<close>

definition bool_from_string :: "string \<Rightarrow> bool" where
  "bool_from_string subject =
     (lower (strip subject) \<in> {''1'', ''t'', ''true'', ''on'', ''y'', ''yes''})"

definition frac_val :: "string \<Rightarrow> rat" where
  "frac_val fs = rat_of_int (digits_val 0 fs) / 10 ^ length fs"

text \<open>The number at the front, \<open>[-+]?\d*\.?\d+\<close>, and what follows it.\<close>

definition parse_decimal :: "string \<Rightarrow> (rat \<times> string) option" where
  "parse_decimal s =
     (let neg = (s \<noteq> [] \<and> hd s = CHR ''-'');
          s1 = (if s \<noteq> [] \<and> (hd s = CHR ''-'' \<or> hd s = CHR ''+'') then tl s else s);
          ds = takeWhile is_digit s1; r = dropWhile is_digit s1;
          sgn = (\<lambda>q. if neg then - q else q)
      in case r of
           [] \<Rightarrow> if ds = [] then None else Some (sgn (rat_of_int (digits_val 0 ds)), r)
         | c # r2 \<Rightarrow>
             if c = CHR ''.'' then
               (let fs = takeWhile is_digit r2 in
                if fs = [] then None
                else Some (sgn (rat_of_int (digits_val 0 ds) + frac_val fs), dropWhile is_digit r2))
             else if ds = [] then None
             else Some (sgn (rat_of_int (digits_val 0 ds)), r))"

text \<open>The unit, \<open>([KMGT]i?)?(b|bit|B)$\<close>: exponent of 1024 and whether it counts bits.\<close>

definition parse_unit :: "string \<Rightarrow> (nat \<times> bool) option" where
  "parse_unit r =
     (let prefixes = [('''', 0), (''K'', 1), (''Ki'', 1), (''M'', 2), (''Mi'', 2),
                      (''G'', 3), (''Gi'', 3), (''T'', 4), (''Ti'', 4)];
          units = [(''b'', True), (''bit'', True), (''B'', False)];
          table = concat (map (\<lambda>(p, e). map (\<lambda>(u, b). (p @ u, (e, b))) units) prefixes)
      in map_of table (if endswith r [CHR 0x0A] then butlast r else r))"

definition string_to_bytes :: "string \<Rightarrow> int result" where
  "string_to_bytes text =
     (case parse_decimal text of
        None \<Rightarrow> Inl ValueError
      | Some (magnitude, rest) \<Rightarrow>
          (case parse_unit rest of
             None \<Rightarrow> Inl ValueError
           | Some (e, is_bits) \<Rightarrow>
               Inr \<lceil>(if is_bits then magnitude / 8 else magnitude) * 1024 ^ e\<rceil>))"

section \<open>Memory page size\<close>

definition MEMPAGES_SMALL :: int where "MEMPAGES_SMALL = -1"
definition MEMPAGES_LARGE :: int where "MEMPAGES_LARGE = -2"
definition MEMPAGES_ANY :: int where "MEMPAGES_ANY = -3"

definition check_and_return_pages_size :: "string \<Rightarrow> int result" where
  "check_and_return_pages_size request =
     (if request = ''any'' then Inr MEMPAGES_ANY
      else if request = ''large'' then Inr MEMPAGES_LARGE
      else if request = ''small'' then Inr MEMPAGES_SMALL
      else
        (let n = (case py_int request of
                    Inr n \<Rightarrow> n
                  | Inl _ \<Rightarrow> (case string_to_bytes request of
                                Inr b \<Rightarrow> b div 1024
                              | Inl _ \<Rightarrow> 0))
         in if n \<le> 0 then Inl MemoryPageSizeInvalid else Inr n))"

definition numa_get_pagesize_constraints :: "flavor \<Rightarrow> image_props \<Rightarrow> int option result" where
  "numa_get_pagesize_constraints f props =
     (let flavor_request = dict_get (extra_specs f) ''hw:mem_page_size'' '''';
          image_request = or_default (hw_mem_page_size props) '''' in
      if flavor_request = [] \<and> image_request \<noteq> [] then Inl MemoryPageSizeForbidden
      else if flavor_request = [] then Inr None
      else bind (check_and_return_pages_size flavor_request) (\<lambda>pagesize.
        if image_request \<noteq> [] \<and> pagesize \<in> {MEMPAGES_ANY, MEMPAGES_LARGE}
        then bind (check_and_return_pages_size image_request) (\<lambda>p. Inr (Some p))
        else if image_request \<noteq> [] then Inl MemoryPageSizeForbidden
        else Inr (Some pagesize)))"

section \<open>Lists of CPUs and memory per cell\<close>

definition NUMA_NODES_MAX :: nat where "NUMA_NODES_MAX = 128"

text \<open>The loop over cell ids that stops at the first missing key.\<close>

fun collect_cells :: "(nat \<Rightarrow> 'a result option) \<Rightarrow> nat list \<Rightarrow> 'a list result" where
  "collect_cells get [] = Inr []"
| "collect_cells get (i # is) =
     (case get i of
        None \<Rightarrow> Inr []
      | Some r \<Rightarrow> bind r (\<lambda>v. bind (collect_cells get is) (\<lambda>vs. Inr (v # vs))))"

definition numa_get_flavor_cpu_map_list :: "flavor \<Rightarrow> int set list option result" where
  "numa_get_flavor_cpu_map_list f =
     bind (collect_cells
         (\<lambda>cellid. map_option parse_cpu_spec
            (map_of (extra_specs f) (''hw:numa_cpus.'' @ show_nat cellid)))
         [0..<NUMA_NODES_MAX])
       (\<lambda>hw_numa_cpus. Inr (if hw_numa_cpus = [] then None else Some hw_numa_cpus))"

definition numa_get_cpu_map_list :: "flavor \<Rightarrow> image_props \<Rightarrow> int set list option result" where
  "numa_get_cpu_map_list f props =
     bind (numa_get_flavor_cpu_map_list f) (\<lambda>flavor_cpu_list.
       case flavor_cpu_list of
         None \<Rightarrow> Inr (hw_numa_cpus props)
       | Some _ \<Rightarrow> if hw_numa_cpus props \<noteq> None then Inl ImageNUMATopologyForbidden
                   else Inr flavor_cpu_list)"

definition numa_get_flavor_mem_map_list :: "flavor \<Rightarrow> int list option result" where
  "numa_get_flavor_mem_map_list f =
     bind (collect_cells
         (\<lambda>cellid. map_option py_int
            (map_of (extra_specs f) (''hw:numa_mem.'' @ show_nat cellid)))
         [0..<NUMA_NODES_MAX])
       (\<lambda>hw_numa_mem. Inr (if hw_numa_mem = [] then None else Some hw_numa_mem))"

definition numa_get_mem_map_list :: "flavor \<Rightarrow> image_props \<Rightarrow> int list option result" where
  "numa_get_mem_map_list f props =
     bind (numa_get_flavor_mem_map_list f) (\<lambda>flavor_mem_list.
       case flavor_mem_list of
         None \<Rightarrow> Inr (hw_numa_mem props)
       | Some _ \<Rightarrow> if hw_numa_mem props \<noteq> None then Inl ImageNUMATopologyForbidden
                   else Inr flavor_mem_list)"

section \<open>Manual and automatic layout\<close>

text \<open>The inner loop: every CPU of a cell must exist and still be available.\<close>

definition claim_cpu :: "int \<Rightarrow> int \<Rightarrow> int set \<Rightarrow> int set result" where
  "claim_cpu n cpu availcpus =
     (if cpu > n - 1 then Inl ImageNUMATopologyCPUOutOfRange
      else if cpu \<notin> availcpus then Inl ImageNUMATopologyCPUDuplicates
      else Inr (availcpus - {cpu}))"

text \<open>The outer loop over \<open>(node, cpuset, memory)\<close>, carrying the CPUs left and the memory so far.\<close>

fun manual_cells ::
    "(int set \<Rightarrow> int list) \<Rightarrow> int \<Rightarrow> nat \<Rightarrow> (int set \<times> int) list \<Rightarrow> int set \<times> int \<Rightarrow>
     (inst_cell list \<times> int set \<times> int) result" where
  "manual_cells ord n node [] (availcpus, totalmem) = Inr ([], availcpus, totalmem)"
| "manual_cells ord n node ((cpuset, mem) # rest) (availcpus, totalmem) =
     bind (loop (claim_cpu n) (ord cpuset) availcpus) (\<lambda>availcpus'.
     bind (manual_cells ord n (Suc node) rest (availcpus', totalmem + mem)) (\<lambda>(cells, avail, memory).
       Inr (new_inst_cell (int node) cpuset mem # cells, avail, memory)))"

text \<open>
  The caller has checked that both lists have \<open>nodes\<close> entries, so indexing them by node is
  walking them together.
\<close>

definition numa_get_constraints_manual ::
    "(int set \<Rightarrow> int list) \<Rightarrow> int \<Rightarrow> flavor \<Rightarrow> int set list \<Rightarrow> int list \<Rightarrow> inst_cell list result" where
  "numa_get_constraints_manual ord nodes f cpu_list mem_list =
     bind (manual_cells ord (flavor_vcpus f) 0 (take (nat nodes) (zip cpu_list mem_list))
             ({0..<flavor_vcpus f}, 0))
       (\<lambda>(cells, availcpus, totalmem).
          if availcpus \<noteq> {} then Inl ImageNUMATopologyCPUsUnassigned
          else if totalmem \<noteq> flavor_memory_mb f then Inl ImageNUMATopologyMemoryOutOfRange
          else Inr cells)"

definition numa_get_constraints_auto :: "int \<Rightarrow> flavor \<Rightarrow> inst_cell list result" where
  "numa_get_constraints_auto nodes f =
     (if flavor_vcpus f mod nodes > 0 \<or> flavor_memory_mb f mod nodes > 0
      then Inl ImageNUMATopologyAsymmetric
      else Inr (map (\<lambda>node.
             let ncpus = flavor_vcpus f div nodes; mem = flavor_memory_mb f div nodes;
                 start = node * ncpus
             in new_inst_cell node {start..<start + ncpus} mem) [0..nodes - 1]))"

section \<open>Real time and CPU policy\<close>

text \<open>A missing extra spec is the text \<open>None\<close>, which is not one of the true strings.\<close>

definition is_realtime_enabled :: "flavor \<Rightarrow> bool" where
  "is_realtime_enabled f = bool_from_string (dict_get (extra_specs f) ''hw:cpu_realtime'' ''None'')"

definition vcpus_realtime_topology ::
    "int set \<Rightarrow> flavor \<Rightarrow> image_props \<Rightarrow> (int set \<times> int set) result" where
  "vcpus_realtime_topology vcpus_set f props =
     (let flavor_mask = dict_get (extra_specs f) ''hw:cpu_realtime_mask'' '''';
          image_mask = or_default (hw_cpu_realtime_mask props) '''';
          mask = (if image_mask \<noteq> [] then image_mask else flavor_mask) in
      if mask = [] then Inl RealtimeMaskNotFoundOrInvalid
      else
        bind (parse_cpu_spec
            (format_cpu_spec (sorted_list_of_set vcpus_set) True @ '', '' @ mask)) (\<lambda>vcpus_rt.
          let vcpus_em = vcpus_set - vcpus_rt in
          if card vcpus_rt < 1 \<or> card vcpus_em < 1 then Inl RealtimeMaskNotFoundOrInvalid
          else Inr (vcpus_rt, vcpus_em)))"

text \<open>
  \<open>topology\<close> is the NUMA topology so far; \<open>None\<close> and one without cells are both false. Assigning
  the thread policy of the flavor to the enum field is where an unknown string raises.
\<close>

definition add_cpu_pinning_constraint ::
    "flavor \<Rightarrow> image_props \<Rightarrow> inst_cell list option \<Rightarrow> inst_cell list option result" where
  "add_cpu_pinning_constraint f props topology =
     (let flavor_policy = map_of (extra_specs f) ''hw:cpu_policy'';
          image_policy = hw_cpu_policy props in
      bind (if flavor_policy = Some ''dedicated'' then Inr DEDICATED
            else if flavor_policy = Some ''shared'' then
              (if image_policy = Some DEDICATED then Inl ImageCPUPinningForbidden else Inr SHARED)
            else if image_policy = Some DEDICATED then Inr DEDICATED
            else Inr SHARED) (\<lambda>policy.
      if is_realtime_enabled f \<and> policy \<noteq> DEDICATED then Inl RealtimeConfigurationInvalid
      else
        (let flavor_thread_policy = map_of (extra_specs f) ''hw:cpu_thread_policy'';
             image_thread_policy = hw_cpu_thread_policy props in
         if policy = SHARED then
           (if (flavor_thread_policy \<noteq> None \<and> flavor_thread_policy \<noteq> Some [])
               \<or> image_thread_policy \<noteq> None
            then Inl CPUThreadPolicyConfigurationInvalid else Inr topology)
         else
           bind (case flavor_thread_policy of
                   None \<Rightarrow> Inr image_thread_policy
                 | Some s \<Rightarrow>
                     if s = ''prefer'' then Inr image_thread_policy
                     else if image_thread_policy \<noteq> None
                          \<and> thread_policy_of s \<noteq> Inr (the image_thread_policy)
                     then Inl ImageCPUThreadPolicyForbidden
                     else bind (thread_policy_of s) (\<lambda>p. Inr (Some p)))
             (\<lambda>tpolicy.
               let assign = (\<lambda>c. c\<lparr>icell_cpu_policy := Some policy, icell_thread_policy := tpolicy\<rparr>) in
               if nonempty topology then Inr (map_option (map assign) topology)
               else Inr (Some [assign
                 (new_inst_cell 0 {0..<flavor_vcpus f} (flavor_memory_mb f))])))))"

definition numa_get_constraints ::
    "(int set \<Rightarrow> int list) \<Rightarrow> flavor \<Rightarrow> image_props \<Rightarrow> inst_cell list option result" where
  "numa_get_constraints ord f props =
     bind (case map_of (extra_specs f) ''hw:numa_nodes'' of
             None \<Rightarrow> Inr (hw_numa_nodes props)
           | Some s \<Rightarrow>
               if hw_numa_nodes props \<noteq> None then Inl ImageNUMATopologyForbidden
               else bind (py_int s) (\<lambda>n. Inr (Some n))) (\<lambda>nodes.
     bind (numa_get_pagesize_constraints f props) (\<lambda>pagesz.
     bind (if truthy nodes \<or> truthy pagesz then
             (let n = (if truthy nodes then the nodes else 1) in
              bind (numa_get_cpu_map_list f props) (\<lambda>cpu_list.
              bind (numa_get_mem_map_list f props) (\<lambda>mem_list.
              if (cpu_list = None \<and> mem_list \<noteq> None) \<or> (cpu_list \<noteq> None \<and> mem_list = None)
              then Inl ImageNUMATopologyIncomplete
              else if (cpu_list \<noteq> None \<and> int (length (the cpu_list)) \<noteq> n)
                    \<or> (mem_list \<noteq> None \<and> int (length (the mem_list)) \<noteq> n)
              then Inl ImageNUMATopologyIncomplete
              else bind (case cpu_list of
                           None \<Rightarrow> numa_get_constraints_auto n f
                         | Some cl \<Rightarrow> numa_get_constraints_manual ord n f cl (the mem_list))
                (\<lambda>cells. Inr (Some (map (\<lambda>c. c\<lparr>pagesize := pagesz\<rparr>) cells))))))
           else Inr None) (\<lambda>topology.
     add_cpu_pinning_constraint f props topology)))"

section \<open>A layout partitions the guest\<close>

definition partitions :: "int \<Rightarrow> int \<Rightarrow> inst_cell list \<Rightarrow> bool" where
  "partitions n mem cells \<longleftrightarrow>
     \<Union> (icell_cpuset ` set cells) = {0..<n} \<and>
     sorted_wrt (\<lambda>A B. A \<inter> B = {}) (map icell_cpuset cells) \<and>
     sum_list (map icell_memory cells) = mem"

lemma claim_loop:
  "loop (claim_cpu n) xs A = Inr B \<Longrightarrow> set xs \<subseteq> A \<and> B = A - set xs"
  by (induction xs arbitrary: A) (auto simp: claim_cpu_def split: if_splits)

lemma manual_cells_spec:
  assumes "manual_cells ord n node sets (A, tot) = Inr (cells, B, tot1)"
    and "iteration_order ord" and "\<forall>(S, m) \<in> set sets. finite S"
  shows "map (\<lambda>c. (icell_cpuset c, icell_memory c)) cells = sets \<and>
    \<Union> (icell_cpuset ` set cells) \<subseteq> A \<and> B = A - \<Union> (icell_cpuset ` set cells) \<and>
    sorted_wrt (\<lambda>A B. A \<inter> B = {}) (map icell_cpuset cells) \<and>
    tot1 = tot + sum_list (map icell_memory cells)"
  using assms(1,3)
proof (induction sets arbitrary: node A tot cells B tot1)
  case (Cons p sets)
  obtain S m where p: "p = (S, m)" by force
  from Cons.prems(1) p obtain A' cells' where
    A': "loop (claim_cpu n) (ord S) A = Inr A'" and
    r: "manual_cells ord n (Suc node) sets (A', tot + m) = Inr (cells', B, tot1)" and
    c: "cells = new_inst_cell (int node) S m # cells'"
    by auto
  have "set (ord S) = S" using Cons.prems(2) p assms(2) by (auto simp: iteration_order_def)
  then have S: "S \<subseteq> A" "A' = A - S" using claim_loop [OF A'] by auto
  have "\<forall>(S, m) \<in> set sets. finite S" using Cons.prems(2) by auto
  from Cons.IH [OF r this] S show ?case by (auto simp: c p new_inst_cell_def)
qed simp

lemma manual_partitions:
  assumes "numa_get_constraints_manual ord nodes f cl ml = Inr cells"
    and "iteration_order ord" and "\<forall>S \<in> set cl. finite S"
  shows "partitions (flavor_vcpus f) (flavor_memory_mb f) cells"
proof -
  let ?sets = "take (nat nodes) (zip cl ml)"
  from assms(1) obtain B tot1 where
    m: "manual_cells ord (flavor_vcpus f) 0 ?sets ({0..<flavor_vcpus f}, 0) = Inr (cells, B, tot1)"
    and B: "B = {}" and t: "tot1 = flavor_memory_mb f"
    by (auto simp: numa_get_constraints_manual_def split: if_splits)
  have "\<forall>(S, m) \<in> set ?sets. finite S"
    using assms(3) by (auto dest!: in_set_takeD dest: set_zip_leftD)
  from manual_cells_spec [OF m assms(2) this] show ?thesis
    using B t by (auto simp: partitions_def)
qed

lemma blocks_cover:
  fixes w k :: int
  assumes "0 < k"
  shows "(\<Union>i \<in> {0..k - 1}. {i * w..<i * w + w}) = {0..<k * w}"
proof (cases "0 < w")
  case True
  have "x \<in> (\<Union>i \<in> {0..k - 1}. {i * w..<i * w + w})" if "x \<in> {0..<k * w}" for x
  proof -
    have "x div w < k"
    proof (rule ccontr)
      assume "\<not> x div w < k"
      then have "k * w \<le> x div w * w" using True by (intro mult_right_mono) auto
      also have "\<dots> \<le> x" using True
        by (metis add_le_cancel_left div_mult_mod_eq le_add_same_cancel1 pos_mod_sign)
      finally show False using that by simp
    qed
    moreover have "0 \<le> x div w" using that True by (simp add: pos_imp_zdiv_nonneg_iff)
    moreover have "x div w * w \<le> x" "x < x div w * w + w"
      using True by (metis add_le_cancel_left div_mult_mod_eq le_add_same_cancel1 pos_mod_sign,
        metis add_less_cancel_left div_mult_mod_eq pos_mod_bound True)
    ultimately show ?thesis by force
  qed
  moreover have "x \<in> {0..<k * w}" if "i \<in> {0..k - 1}" "x \<in> {i * w..<i * w + w}" for x i
  proof -
    have 1: "0 \<le> i * w" using that True by simp
    have "(i + 1) * w \<le> k * w" using that True by (intro mult_right_mono) auto
    then have "i * w + w \<le> k * w" by (simp add: distrib_right)
    then show ?thesis using 1 that(2) unfolding atLeastLessThan_iff by linarith
  qed
  ultimately show ?thesis by blast
next
  case False
  then have "k * w \<le> 0" using assms by (simp add: mult_le_0_iff)
  then show ?thesis using False by auto
qed

lemma auto_partitions:
  assumes "numa_get_constraints_auto nodes f = Inr cells" and "0 < nodes"
  shows "partitions (flavor_vcpus f) (flavor_memory_mb f) cells"
proof -
  let ?w = "flavor_vcpus f div nodes" and ?m = "flavor_memory_mb f div nodes"
  from assms(1) have c: "cells = map (\<lambda>i. new_inst_cell i {i * ?w..<i * ?w + ?w} ?m) [0..nodes - 1]"
    and z: "flavor_vcpus f mod nodes \<le> 0" "flavor_memory_mb f mod nodes \<le> 0"
    by (auto simp: numa_get_constraints_auto_def Let_def split: if_splits)
  have d: "nodes * ?w = flavor_vcpus f" "nodes * ?m = flavor_memory_mb f"
    using z assms(2) by (metis add.right_neutral div_mult_mod_eq mult.commute order_antisym pos_mod_sign)+
  have "\<Union> (icell_cpuset ` set cells) = {0..<nodes * ?w}"
    using blocks_cover [OF assms(2), of ?w] by (simp add: c new_inst_cell_def)
  moreover have "sorted_wrt (\<lambda>A B. A \<inter> B = {}) (map icell_cpuset cells)"
  proof -
    have "{i * ?w..<i * ?w + ?w} \<inter> {j * ?w..<j * ?w + ?w} = {}" if "i < j" for i j
    proof (cases "0 \<le> ?w")
      case True
      then have "(i + 1) * ?w \<le> j * ?w" using that by (intro mult_right_mono) auto
      then show ?thesis by (auto simp: distrib_right)
    qed auto
    then show ?thesis
      by (auto simp: c sorted_wrt_map new_inst_cell_def
          intro!: sorted_wrt_mono_rel [OF _ sorted_wrt_upto])
  qed
  moreover have "sum_list (map icell_memory cells) = nodes * ?m"
    using assms(2) by (simp add: c comp_def new_inst_cell_def sum_list_triv)
  ultimately show ?thesis using d by (simp add: partitions_def)
qed

lemma partitions_map:
  "(\<And>c. icell_cpuset (g c) = icell_cpuset c \<and> icell_memory (g c) = icell_memory c) \<Longrightarrow>
   partitions n m (map g cells) = partitions n m cells"
  by (simp add: partitions_def comp_def image_image)

lemma rule_effect_finite: "rule_effect t = Inr (A, B) \<Longrightarrow> finite A"
  by (auto simp: rule_effect_def parse_cpu_rule_def Let_def split: list.splits if_splits)

lemma parse_cpu_spec_finite: "parse_cpu_spec s = Inr S \<Longrightarrow> finite S"
proof -
  assume "parse_cpu_spec s = Inr S"
  then obtain A B where l: "loop parse_cpu_rule (split_on CHR '','' s) ({}, {}) = Inr (A, B)"
    and S: "S = A - B" by (auto simp: parse_cpu_spec_def)
  have "finite (fst (A, B))"
  proof (rule loop_inv [where P = "\<lambda>acc. finite (fst acc)", OF l])
    fix x :: string and s s' :: "int set \<times> int set"
    assume "finite (fst s)" "parse_cpu_rule x s = Inr s'"
    then show "finite (fst s')"
      by (cases s) (auto simp: parse_cpu_rule_effect dest: rule_effect_finite)
  qed simp
  then show ?thesis using S by simp
qed

lemma collect_cells_all:
  "collect_cells g is = Inr vs \<Longrightarrow> v \<in> set vs \<Longrightarrow> \<exists>i. g i = Some (Inr v)"
  by (induction "is" arbitrary: vs) (auto split: option.splits)

lemma cpu_map_list_finite:
  assumes "numa_get_cpu_map_list f props = Inr (Some cl)"
    and "\<forall>S \<in> set (or_default (hw_numa_cpus props) []). finite S"
  shows "\<forall>S \<in> set cl. finite S"
  using assms
  by (auto simp: numa_get_cpu_map_list_def numa_get_flavor_cpu_map_list_def or_default_def
      split: option.splits if_splits dest!: collect_cells_all parse_cpu_spec_finite)

text \<open>The middle of \<open>numa_get_constraints\<close>: the cells before the CPU policy is applied.\<close>

definition layout_cells ::
    "(int set \<Rightarrow> int list) \<Rightarrow> flavor \<Rightarrow> image_props \<Rightarrow> int option \<Rightarrow> int option \<Rightarrow>
     inst_cell list option result" where
  "layout_cells ord f props nodes pagesz =
     (if truthy nodes \<or> truthy pagesz then
        (let n = (if truthy nodes then the nodes else 1) in
         bind (numa_get_cpu_map_list f props) (\<lambda>cpu_list.
         bind (numa_get_mem_map_list f props) (\<lambda>mem_list.
         if (cpu_list = None \<and> mem_list \<noteq> None) \<or> (cpu_list \<noteq> None \<and> mem_list = None)
         then Inl ImageNUMATopologyIncomplete
         else if (cpu_list \<noteq> None \<and> int (length (the cpu_list)) \<noteq> n)
               \<or> (mem_list \<noteq> None \<and> int (length (the mem_list)) \<noteq> n)
         then Inl ImageNUMATopologyIncomplete
         else bind (case cpu_list of
                      None \<Rightarrow> numa_get_constraints_auto n f
                    | Some cl \<Rightarrow> numa_get_constraints_manual ord n f cl (the mem_list))
           (\<lambda>cells. Inr (Some (map (\<lambda>c. c\<lparr>pagesize := pagesz\<rparr>) cells))))))
      else Inr None)"

lemma numa_get_constraints_layout:
  "numa_get_constraints ord f props =
     bind (case map_of (extra_specs f) ''hw:numa_nodes'' of
             None \<Rightarrow> Inr (hw_numa_nodes props)
           | Some s \<Rightarrow>
               if hw_numa_nodes props \<noteq> None then Inl ImageNUMATopologyForbidden
               else bind (py_int s) (\<lambda>n. Inr (Some n))) (\<lambda>nodes.
     bind (numa_get_pagesize_constraints f props) (\<lambda>pagesz.
     bind (layout_cells ord f props nodes pagesz) (add_cpu_pinning_constraint f props)))"
  by (simp only: numa_get_constraints_def layout_cells_def)

lemma auto_nonempty:
  "numa_get_constraints_auto n f = Inr cells \<Longrightarrow> cells \<noteq> [] \<Longrightarrow> 0 < n"
  by (auto simp: numa_get_constraints_auto_def Let_def split: if_splits)

lemma layout_partitions:
  assumes "layout_cells ord f props nodes pagesz = Inr t" and "t = Some cs" and "cs \<noteq> []"
    and ord: "iteration_order ord"
    and fin: "\<forall>S \<in> set (or_default (hw_numa_cpus props) []). finite S"
  shows "partitions (flavor_vcpus f) (flavor_memory_mb f) cs"
proof -
  from assms(1,2) obtain n cl ml cells where
    cl: "numa_get_cpu_map_list f props = Inr cl" and
    c: "(case cl of None \<Rightarrow> numa_get_constraints_auto n f
         | Some l \<Rightarrow> numa_get_constraints_manual ord n f l (the ml)) = Inr cells" and
    cs: "cs = map (\<lambda>c. c\<lparr>pagesize := pagesz\<rparr>) cells"
    by (auto simp: layout_cells_def Let_def split: if_splits)
  have "partitions (flavor_vcpus f) (flavor_memory_mb f) cells"
  proof (cases cl)
    case None
    then have a: "numa_get_constraints_auto n f = Inr cells" using c by simp
    then show ?thesis using auto_partitions auto_nonempty assms(3) cs by blast
  next
    case (Some l)
    then show ?thesis
      using c cl ord by (intro manual_partitions cpu_map_list_finite [OF _ fin]) auto
  qed
  then show ?thesis by (simp add: cs partitions_map)
qed

lemma if_chain: "(if P then False else if Q then if R then False else A else B) \<Longrightarrow> A \<or> B"
  by (auto split: if_splits)

lemma bind_if:
  "bind r (\<lambda>q. if b then Inr (X q) else Inr (Y q)) = Inr v \<Longrightarrow> \<exists>q. v = (if b then X q else Y q)"
  by (cases r) (auto split: if_splits)

lemma pinning_constraint_shape:
  assumes "add_cpu_pinning_constraint f props t = Inr (Some cells)"
  shows "t = Some cells \<or> (\<exists>p q. Some cells =
    (let assign = (\<lambda>c. c\<lparr>icell_cpu_policy := p, icell_thread_policy := q\<rparr>) in
     if nonempty t then map_option (map assign) t
     else Some [assign (new_inst_cell 0 {0..<flavor_vcpus f} (flavor_memory_mb f))]))"
proof -
  from assms obtain policy where
    "bind (case map_of (extra_specs f) ''hw:cpu_thread_policy'' of
                   None \<Rightarrow> Inr (hw_cpu_thread_policy props)
                 | Some s \<Rightarrow>
                     if s = ''prefer'' then Inr (hw_cpu_thread_policy props)
                     else if hw_cpu_thread_policy props \<noteq> None
                          \<and> thread_policy_of s \<noteq> Inr (the (hw_cpu_thread_policy props))
                     then Inl ImageCPUThreadPolicyForbidden
                     else bind (thread_policy_of s) (\<lambda>p. Inr (Some p)))
             (\<lambda>tpolicy.
               let assign = (\<lambda>c. c\<lparr>icell_cpu_policy := Some policy, icell_thread_policy := tpolicy\<rparr>) in
               if nonempty t then Inr (map_option (map assign) t)
               else Inr (Some [assign
                 (new_inst_cell 0 {0..<flavor_vcpus f} (flavor_memory_mb f))]))
      = Inr (Some cells) \<or> t = Some cells"
    unfolding add_cpu_pinning_constraint_def Let_def
    by (simp only: bind_eq_Inr result_if Inl_Inr_False)
      (elim exE conjE, drule if_chain, simp only: sum.inject, blast)
  then show ?thesis unfolding Let_def
    by - (erule disjE, drule bind_if, blast+)
qed

text \<open>C18: whatever NUMA layout the flavor and the image ask for (manual lists, automatic split
  or the single cell of a pinned guest), a returned non-empty layout gives every vCPU of the
  flavor to exactly one cell and splits exactly the flavor's memory.\<close>

theorem numa_constraints_partition:
  assumes "numa_get_constraints ord f props = Inr (Some cells)" and "cells \<noteq> []"
    and "iteration_order ord"
    and "\<forall>S \<in> set (or_default (hw_numa_cpus props) []). finite S"
  shows "partitions (flavor_vcpus f) (flavor_memory_mb f) cells"
proof -
  from assms(1) obtain nodes pagesz t where
    t: "add_cpu_pinning_constraint f props t = Inr (Some cells)" and
    n: "layout_cells ord f props nodes pagesz = Inr t"
    by (auto simp: numa_get_constraints_layout)
  note p = layout_partitions [OF n _ _ assms(3,4)]
  from pinning_constraint_shape [OF t] show ?thesis
  proof (elim disjE exE)
    assume "t = Some cells"
    then show ?thesis using p assms(2) by blast
  next
    fix pol tpol
    let ?assign = "\<lambda>c. c\<lparr>icell_cpu_policy := pol, icell_thread_policy := tpol\<rparr>"
    assume a: "Some cells = (let assign = ?assign in
      if nonempty t then map_option (map assign) t
      else Some [assign (new_inst_cell 0 {0..<flavor_vcpus f} (flavor_memory_mb f))])"
    show ?thesis
    proof (cases "nonempty t")
      case True
      then obtain c cs where "t = Some (c # cs)" by auto
      then show ?thesis using a p [of "c # cs"] partitions_map [of ?assign _ _ "c # cs"]
        by (simp add: Let_def del: list.map)
    next
      case False
      then show ?thesis using a
        by (simp add: Let_def partitions_def new_inst_cell_def del: nonempty_iff)
    qed
  qed
qed

lemma numa_constraints_partition_witness:
  "let cells = map (\<lambda>i. new_inst_cell i {i * 2..<i * 2 + 2} 512) [0, 1]
   in numa_get_constraints sorted_list_of_set (plain_flavor 4 1024 [(''hw:numa_nodes'', ''2'')])
        no_image_props = Inr (Some cells) \<and>
      partitions 4 1024 cells"
proof -
  let ?f = "plain_flavor 4 1024 [(''hw:numa_nodes'', ''2'')]"
  let ?cells = "map (\<lambda>i. new_inst_cell i {i * 2..<i * 2 + 2} 512) [0, 1]"
  have n: "py_int ''2'' = Inr 2" by code_simp
  have "numa_get_cpu_map_list ?f no_image_props = Inr None"
    "numa_get_mem_map_list ?f no_image_props = Inr None"
    "numa_get_pagesize_constraints ?f no_image_props = Inr None"
    "\<not> is_realtime_enabled ?f"
    by code_simp+
  moreover have "numa_get_constraints_auto 2 ?f = Inr ?cells"
    by (simp add: numa_get_constraints_auto_def plain_flavor_def upto_rec1)
  ultimately have r:
    "numa_get_constraints sorted_list_of_set ?f no_image_props = Inr (Some ?cells)"
    by (simp add: numa_get_constraints_layout layout_cells_def n truthy_def
        add_cpu_pinning_constraint_def plain_flavor_def no_image_props_def new_inst_cell_def)
  have "partitions (flavor_vcpus ?f) (flavor_memory_mb ?f) ?cells"
    by (rule numa_constraints_partition [OF r _ iteration_order_sorted])
      (simp_all add: no_image_props_def or_default_def)
  with r show ?thesis by (simp add: plain_flavor_def Let_def)
qed

end
