(* ===== verification/PciDevice.thy ===== *)
theory PciDevice
  imports PyString
begin

text \<open>
  PCI devices of a compute node: property matching and addresses (nova/pci/utils.py), the
  whitelist and its device specifications (nova/pci/whitelist.py, nova/pci/devspec.py), the device
  object and its life cycle (nova/objects/pci_device.py) and the function form of the same life
  cycle (nova/pci/device.py).

  A device object is a record; the descriptive fields set from the hypervisor's dictionary are in
  \<open>dev_attrs\<close>, an unset field being absent. The sysfs tree and the JSON reader are parameters.
\<close>

section \<open>Properties\<close>

text \<open>A property value; \<open>PList\<close> is a value no request compares equal to (a pool's device list).\<close>

datatype pval = PStr string | PInt int | PNone | PList

type_synonym props = "(string, pval) dict"

definition pci_device_prop_match :: "(string \<Rightarrow> pval) \<Rightarrow> props list \<Rightarrow> bool" where
  "pci_device_prop_match dev_get specs =
     list_ex (\<lambda>spec. list_all (\<lambda>(k, v). dev_get k = v) spec) specs"

section \<open>Hexadecimal fields\<close>

definition hex_digits :: string where "hex_digits = ''0123456789abcdef''"

definition hex_value :: "char \<Rightarrow> nat option" where
  "hex_value c =
     (let n = (of_char c :: nat) in
      if 48 \<le> n \<and> n \<le> 57 then Some (n - 48)
      else if 97 \<le> n \<and> n \<le> 102 then Some (n - 87)
      else if 65 \<le> n \<and> n \<le> 70 then Some (n - 55)
      else None)"

definition is_hex :: "char \<Rightarrow> bool" where
  "is_hex c \<longleftrightarrow> hex_value c \<noteq> None"

definition hex_number :: "string \<Rightarrow> nat" where
  "hex_number s = foldl (\<lambda>acc c. 16 * acc + the (hex_value c)) 0 s"

text \<open>
  \<open>ast.literal_eval("0x" + v)\<close>: hexadecimal digits with the optional suffix of long integers and
  blanks at the end; anything else is a syntax error.
\<close>

definition get_value :: "string \<Rightarrow> nat result" where
  "get_value v =
     (let s = rev (dropWhile is_space (rev v));
          s1 = (if s \<noteq> [] \<and> last s \<in> {CHR ''l'', CHR ''L''} then butlast s else s)
      in if s1 \<noteq> [] \<and> list_all is_hex s1 then Inr (hex_number s1) else Inl SyntaxError)"

text \<open>\<open>'%x' % n\<close>, and padded with zeros to a width.\<close>

fun show_hex :: "nat \<Rightarrow> string" where
  "show_hex n = (if n < 16 then [hex_digits ! n] else show_hex (n div 16) @ [hex_digits ! (n mod 16)])"

declare show_hex.simps [simp del]

definition hex_pad :: "nat \<Rightarrow> nat \<Rightarrow> string" where
  "hex_pad w n = replicate (w - length (show_hex n)) CHR ''0'' @ show_hex n"

section \<open>Addresses\<close>

definition ANY :: string where "ANY = ''*''"

definition MAX_VENDOR_ID :: nat where "MAX_VENDOR_ID = 0xFFFF"
definition MAX_PRODUCT_ID :: nat where "MAX_PRODUCT_ID = 0xFFFF"
definition MAX_FUNC :: nat where "MAX_FUNC = 0x7"
definition MAX_DOMAIN :: nat where "MAX_DOMAIN = 0xFFFF"
definition MAX_BUS :: nat where "MAX_BUS = 0xFF"
definition MAX_SLOT :: nat where "MAX_SLOT = 0x1F"

text \<open>
  The pattern has an unescaped dot, so any character but a newline separates the function; its
  final anchor also accepts one newline at the end.
\<close>

definition parse_address :: "string \<Rightarrow> (string \<times> string \<times> string \<times> string) result" where
  "parse_address address =
     (let s = (if endswith address [CHR 0x0A] then butlast address else address) in
      if length s = 12 \<and> list_all is_hex (take 4 s) \<and> s ! 4 = CHR '':'' \<and>
         list_all is_hex (take 2 (drop 5 s)) \<and> s ! 7 = CHR '':'' \<and>
         list_all is_hex (take 2 (drop 8 s)) \<and> s ! 10 \<noteq> CHR 0x0A \<and>
         s ! 11 \<in> set ''01234567''
      then Inr (take 4 s, take 2 (drop 5 s), take 2 (drop 8 s), drop 11 s)
      else Inl PciDeviceWrongAddressFormat)"

definition get_pci_address_fields :: "string \<Rightarrow> (string \<times> string \<times> string \<times> string) result" where
  "get_pci_address_fields pci_addr =
     (let (dbs, sep, func) = partition_str CHR ''.'' pci_addr in
      case split_on CHR '':'' dbs of
        [domain, bus, slot] \<Rightarrow> Inr (domain, bus, slot, func)
      | _ \<Rightarrow> Inl ValueError)"

text \<open>The sysfs tree: directories, readable files and link targets.\<close>

record sysfs =
  isdir :: "string \<Rightarrow> bool"
  read_file :: "string \<Rightarrow> string option"
  readlink :: "string \<Rightarrow> string"

definition SRIOV_TOTALVFS :: string where "SRIOV_TOTALVFS = ''sriov_totalvfs''"

definition strip_path :: "string \<Rightarrow> string" where
  "strip_path s = (let p = (\<lambda>c. c \<in> set ''./'') in rev (dropWhile p (rev (dropWhile p s))))"

text \<open>Reading the number of virtual functions; no number when the file is missing or malformed.\<close>

definition read_totalvfs :: "sysfs \<Rightarrow> string \<Rightarrow> int option" where
  "read_totalvfs sys path =
     (case read_file sys path of
        None \<Rightarrow> None
      | Some text \<Rightarrow> (case py_int text of Inl _ \<Rightarrow> None | Inr n \<Rightarrow> Some n))"

definition get_function_by_ifname :: "sysfs \<Rightarrow> string \<Rightarrow> string option \<times> bool" where
  "get_function_by_ifname sys ifname =
     (let dev_path = ''/sys/class/net/'' @ ifname @ ''/device'' in
      if isdir sys dev_path then
        (case read_totalvfs sys (dev_path @ SRIOV_TOTALVFS) of
           Some n \<Rightarrow> (Some (strip_path (readlink sys dev_path)), n > 0)
         | None \<Rightarrow> (Some (strip_path (readlink sys dev_path)), False))
      else (None, False))"

definition is_physical_function ::
    "sysfs \<Rightarrow> string \<Rightarrow> string \<Rightarrow> string \<Rightarrow> string \<Rightarrow> bool" where
  "is_physical_function sys d b s f =
     (let dev_path = ''/sys/bus/pci/devices/'' @ d @ '':'' @ b @ '':'' @ s @ ''.'' @ f @ ''/'' in
      isdir sys dev_path \<and>
      (case read_totalvfs sys (dev_path @ SRIOV_TOTALVFS) of Some n \<Rightarrow> n > 0 | None \<Rightarrow> False))"

section \<open>Device specifications\<close>

definition get_pci_dev_info :: "string \<Rightarrow> nat \<Rightarrow> nat \<Rightarrow> string result" where
  "get_pci_dev_info a max_v width =
     (if a = ANY then Inr a
      else bind (get_value a) (\<lambda>v.
        if v > max_v then Inl PciConfigInvalidWhitelist else Inr (hex_pad width v)))"

record pci_address =
  addr_domain :: string
  addr_bus :: string
  addr_slot :: string
  addr_func :: string
  addr_physical :: bool

definition any_address :: "bool \<Rightarrow> pci_address" where
  "any_address pf =
     \<lparr>addr_domain = ANY, addr_bus = ANY, addr_slot = ANY, addr_func = ANY, addr_physical = pf\<rparr>"

definition check_physical_function :: "sysfs \<Rightarrow> pci_address \<Rightarrow> pci_address" where
  "check_physical_function sys a =
     (if ANY \<in> {addr_domain a, addr_bus a, addr_slot a, addr_func a} then a
      else a\<lparr>addr_physical :=
        is_physical_function sys (addr_domain a) (addr_bus a) (addr_slot a) (addr_func a)\<rparr>)"

definition address_function :: "string \<Rightarrow> string result" where
  "address_function func =
     (if func = [] then Inr ANY
      else
        (let fstr = strip func in
         if fstr = ANY then Inr ANY
         else bind (reraise SyntaxError PciDeviceWrongAddressFormat (get_value fstr)) (\<lambda>f.
           if f > MAX_FUNC then Inl PciDeviceInvalidAddressField else Inr (hex_pad 1 f))))"

definition init_address :: "sysfs \<Rightarrow> string \<Rightarrow> bool \<Rightarrow> pci_address result" where
  "init_address sys pci_addr pf =
     (if pf then
        bind (get_pci_address_fields pci_addr) (\<lambda>(d, b, s, f).
          Inr \<lparr>addr_domain = d, addr_bus = b, addr_slot = s, addr_func = f, addr_physical = True\<rparr>)
      else
        (let (dbs, sep, func) = partition_str CHR ''.'' pci_addr in
         bind (address_function func) (\<lambda>fn.
         if dbs = [] then Inr ((any_address False)\<lparr>addr_func := fn\<rparr>)
         else
           (let dbs_fields = split_on CHR '':'' dbs in
            if length dbs_fields > 3 then Inl PciDeviceWrongAddressFormat
            else
              (let dbs_all = replicate (3 - length dbs_fields) ANY @ dbs_fields;
                   dbs_checked = map (\<lambda>s. if strip s = [] then ANY else strip s) dbs_all
               in bind (get_pci_dev_info (dbs_checked ! 0) MAX_DOMAIN 4) (\<lambda>d.
                  bind (get_pci_dev_info (dbs_checked ! 1) MAX_BUS 2) (\<lambda>b.
                  bind (get_pci_dev_info (dbs_checked ! 2) MAX_SLOT 2) (\<lambda>s.
                  Inr (check_physical_function sys
                    \<lparr>addr_domain = d, addr_bus = b, addr_slot = s, addr_func = fn,
                     addr_physical = False\<rparr>)))))))))"

text \<open>\<open>address.match\<close>: only a string can be split into fields; a false parent address matches nothing.\<close>

definition pval_fields :: "pval \<Rightarrow> (string \<times> string \<times> string \<times> string) result" where
  "pval_fields v = (case v of PStr s \<Rightarrow> get_pci_address_fields s | _ \<Rightarrow> Inl AttributeError)"

definition address_match :: "pci_address \<Rightarrow> pval \<Rightarrow> pval \<Rightarrow> bool result" where
  "address_match a pci_addr pci_phys_addr =
     (if addr_physical a then
        (if pci_phys_addr \<in> {PNone, PStr [], PInt 0} then Inr False
         else bind (pval_fields pci_phys_addr) (\<lambda>(d, b, s, f).
           Inr (addr_domain a = d \<and> addr_bus a = b \<and> addr_slot a = s \<and> addr_func a = f)))
      else bind (pval_fields pci_addr) (\<lambda>(d, b, s, f).
        Inr (addr_domain a \<in> {ANY, d} \<and> addr_bus a \<in> {ANY, b} \<and>
             addr_slot a \<in> {ANY, s} \<and> addr_func a \<in> {ANY, f})))"

record devspec =
  spec_vendor_id :: string
  spec_product_id :: string
  spec_address :: pci_address
  spec_tags :: "(string, string) dict"

text \<open>\<open>tags.pop(key, default)\<close> for the four keys the specification consumes.\<close>

definition pop_keys :: "string list \<Rightarrow> (string, 'v) dict \<Rightarrow> (string, 'v) dict" where
  "pop_keys ks d = fold AList.delete ks d"

definition init_devspec :: "sysfs \<Rightarrow> (string, string) dict \<Rightarrow> devspec result" where
  "init_devspec sys tags =
     bind (get_pci_dev_info (strip (dict_get tags ''vendor_id'' ANY)) MAX_VENDOR_ID 4) (\<lambda>vendor.
     bind (get_pci_dev_info (dict_get tags ''product_id'' ANY) MAX_PRODUCT_ID 4) (\<lambda>product.
       let address = dict_get tags ''address'' [];
           dev_name = dict_get tags ''devname'' [] in
       if address \<noteq> [] \<and> dev_name \<noteq> [] then Inl PciDeviceInvalidDeviceName
       else
         bind (if address \<noteq> [] then Inr (address, False)
               else if dev_name \<noteq> [] then
                 (case get_function_by_ifname sys dev_name of
                    (Some addr, pf) \<Rightarrow>
                      if addr = [] then Inl PciDeviceNotFoundById else Inr (addr, pf)
                  | (None, _) \<Rightarrow> Inl PciDeviceNotFoundById)
               else Inr (''*:*:*.*'', False)) (\<lambda>(addr, pf).
         bind (init_address sys addr pf) (\<lambda>a.
         Inr \<lparr>spec_vendor_id = vendor, spec_product_id = product, spec_address = a,
              spec_tags = pop_keys [''vendor_id'', ''product_id'', ''address'', ''devname''] tags\<rparr>))))"

text \<open>\<open>match\<close> on a dictionary: all three conditions are computed before they are combined.\<close>

definition devspec_match :: "devspec \<Rightarrow> props \<Rightarrow> bool result" where
  "devspec_match spec dev_dict =
     bind (dict_index dev_dict ''vendor_id'') (\<lambda>vendor.
     bind (dict_index dev_dict ''product_id'') (\<lambda>product.
     bind (dict_index dev_dict ''address'') (\<lambda>address.
     bind (address_match (spec_address spec) address (dict_get dev_dict ''parent_addr'' PNone)) (\<lambda>b.
       Inr ((spec_vendor_id spec = ANY \<or> PStr (spec_vendor_id spec) = vendor) \<and>
            (spec_product_id spec = ANY \<or> PStr (spec_product_id spec) = product) \<and> b)))))"

section \<open>Whitelist\<close>

text \<open>What the JSON reader returns, as far as the whitelist looks at it.\<close>

datatype json = JObj "(string, string) dict" | JArr "json list" | JScalar

definition parse_white_list_from_config ::
    "(string \<Rightarrow> json option) \<Rightarrow> sysfs \<Rightarrow> string list \<Rightarrow> devspec list result" where
  "parse_white_list_from_config loads sys whitelists =
     loop (\<lambda>jsonspec specs.
       case loads jsonspec of
         None \<Rightarrow> Inl PciConfigInvalidWhitelist
       | Some JScalar \<Rightarrow> Inl PciConfigInvalidWhitelist
       | Some (JObj d) \<Rightarrow> bind (init_devspec sys d) (\<lambda>spec. Inr (specs @ [spec]))
       | Some (JArr dss) \<Rightarrow>
           loop (\<lambda>ds specs.
             case ds of
               JObj d \<Rightarrow> bind (init_devspec sys d) (\<lambda>spec. Inr (specs @ [spec]))
             | _ \<Rightarrow> Inl PciConfigInvalidWhitelist) dss specs) whitelists []"

fun device_assignable :: "devspec list \<Rightarrow> props \<Rightarrow> bool result" where
  "device_assignable [] dev = Inr False"
| "device_assignable (spec # specs) dev =
     bind (devspec_match spec dev) (\<lambda>b. if b then Inr True else device_assignable specs dev)"

section \<open>The device object\<close>

datatype pci_status = AVAILABLE | CLAIMED | ALLOCATED | DELETED | REMOVED

record pci_device =
  dev_status :: pci_status
  dev_owner :: "string option"
  dev_attrs :: props
  dev_extra_info :: props

record inst_obj =
  inst_uuid :: string
  inst_pci_devices :: "pci_device list"

text \<open>Reading a field that was never set raises.\<close>

definition dev_attr :: "pci_device \<Rightarrow> string \<Rightarrow> pval result" where
  "dev_attr dev k =
     (case map_of (dev_attrs dev) k of None \<Rightarrow> Inl NotImplementedError | Some v \<Rightarrow> Inr v)"

definition match_pci_obj :: "devspec \<Rightarrow> pci_device \<Rightarrow> bool result" where
  "match_pci_obj spec dev =
     bind (dev_attr dev ''vendor_id'') (\<lambda>vendor.
     bind (dev_attr dev ''product_id'') (\<lambda>product.
     bind (dev_attr dev ''address'') (\<lambda>address.
     bind (dev_attr dev ''parent_addr'') (\<lambda>parent.
       devspec_match spec [(''vendor_id'', vendor), (''product_id'', product),
                           (''address'', address), (''parent_addr'', parent)]))))"

fun get_devspec :: "devspec list \<Rightarrow> pci_device \<Rightarrow> devspec option result" where
  "get_devspec [] dev = Inr None"
| "get_devspec (spec # specs) dev =
     bind (match_pci_obj spec dev) (\<lambda>b. if b then Inr (Some spec) else get_devspec specs dev)"

definition persistent_fields :: "string list" where
  "persistent_fields = [''created_at'', ''updated_at'', ''deleted_at'', ''deleted'']"

definition pci_device_fields :: "string list" where
  "pci_device_fields =
     [''id'', ''compute_node_id'', ''address'', ''vendor_id'', ''product_id'', ''dev_type'',
      ''status'', ''dev_id'', ''label'', ''instance_uuid'', ''request_id'', ''extra_info'',
      ''numa_node'', ''parent_addr'']"

definition same_dict :: "('k, 'v) dict \<Rightarrow> ('k, 'v) dict \<Rightarrow> bool" where
  "same_dict a b \<longleftrightarrow> list_all (\<lambda>k. map_of a k = map_of b k) (keys a @ keys b)"

definition compare_pci_device_attributes :: "pci_device \<Rightarrow> pci_device \<Rightarrow> bool" where
  "compare_pci_device_attributes a b \<longleftrightarrow>
     dev_status a = dev_status b \<and> dev_owner a = dev_owner b \<and>
     same_dict (dev_extra_info a) (dev_extra_info b) \<and>
     list_all (\<lambda>name. map_of (dev_attrs a) name = map_of (dev_attrs b) name)
       (filter (\<lambda>name. name \<notin> set persistent_fields) pci_device_fields)"

text \<open>The loop over the dictionary: known fields are set, the others go to the extra information.\<close>

definition update_field :: "string \<times> pval \<Rightarrow> pci_device \<Rightarrow> pci_device" where
  "update_field kv dev =
     (let (k, v) = kv in
      if k \<in> set (pci_device_fields @ persistent_fields)
      then dev\<lparr>dev_attrs := AList.update k v (dev_attrs dev)\<rparr>
      else dev\<lparr>dev_extra_info := AList.update k v (dev_extra_info dev)\<rparr>)"

definition update_device :: "props \<Rightarrow> pci_device \<Rightarrow> pci_device" where
  "update_device dev_dict dev =
     fold update_field
       (pop_keys [''status'', ''instance_uuid'', ''id'', ''extra_info''] dev_dict) dev"

definition create_device :: "props \<Rightarrow> pci_device" where
  "create_device dev_dict =
     (update_device dev_dict
        \<lparr>dev_status = AVAILABLE, dev_owner = None, dev_attrs = [], dev_extra_info = []\<rparr>)
     \<lparr>dev_status := AVAILABLE\<rparr>"

subsection \<open>Life cycle\<close>

definition claim :: "string \<Rightarrow> pci_device \<Rightarrow> pci_device result" where
  "claim uuid dev =
     (if dev_status dev \<noteq> AVAILABLE then Inl PciDeviceInvalidStatus
      else Inr (dev\<lparr>dev_status := CLAIMED, dev_owner := Some uuid\<rparr>))"

definition allocate :: "inst_obj \<Rightarrow> pci_device \<Rightarrow> (pci_device \<times> inst_obj) result" where
  "allocate inst dev =
     (if dev_status dev \<notin> {AVAILABLE, CLAIMED} then Inl PciDeviceInvalidStatus
      else if dev_status dev = CLAIMED \<and> dev_owner dev \<noteq> Some (inst_uuid inst)
      then Inl PciDeviceInvalidOwner
      else
        (let dev' = dev\<lparr>dev_status := ALLOCATED, dev_owner := Some (inst_uuid inst)\<rparr> in
         Inr (dev', inst\<lparr>inst_pci_devices := inst_pci_devices inst @ [dev']\<rparr>)))"

definition set_attr :: "string \<Rightarrow> pval \<Rightarrow> pci_device \<Rightarrow> pci_device" where
  "set_attr k v dev = dev\<lparr>dev_attrs := AList.update k v (dev_attrs dev)\<rparr>"

definition remove_dev :: "pci_device \<Rightarrow> pci_device result" where
  "remove_dev dev =
     (if dev_status dev \<noteq> AVAILABLE then Inl PciDeviceInvalidStatus
      else Inr (set_attr ''request_id'' PNone (dev\<lparr>dev_status := REMOVED, dev_owner := None\<rparr>)))"

text \<open>\<open>list.remove\<close> on device lists compares attributes.\<close>

fun remove_equal :: "pci_device \<Rightarrow> pci_device list \<Rightarrow> pci_device list" where
  "remove_equal x [] = []"
| "remove_equal x (d # ds) =
     (if compare_pci_device_attributes d x then ds else d # remove_equal x ds)"

text \<open>
  The device after the call, and the updated instance or the error: the device is already free
  when the instance turns out not to list it.
\<close>

definition free_dev :: "inst_obj option \<Rightarrow> pci_device \<Rightarrow> pci_device \<times> inst_obj option result" where
  "free_dev inst dev =
     (if dev_status dev \<notin> {ALLOCATED, CLAIMED} then (dev, Inl PciDeviceInvalidStatus)
      else if inst \<noteq> None \<and> dev_owner dev \<noteq> Some (inst_uuid (the inst))
      then (dev, Inl PciDeviceInvalidOwner)
      else
        (let dev' = set_attr ''request_id'' PNone (dev\<lparr>dev_status := AVAILABLE, dev_owner := None\<rparr>) in
         (dev',
          case inst of
            None \<Rightarrow> Inr None
          | Some i \<Rightarrow>
              if dev_status dev = ALLOCATED then
                (case filter (\<lambda>d. dev_attr d ''id'' = dev_attr dev' ''id'') (inst_pci_devices i) of
                   [] \<Rightarrow> Inl StopIteration
                 | existed # _ \<Rightarrow> Inr (Some (i\<lparr>inst_pci_devices :=
                     remove_equal existed (inst_pci_devices i)\<rparr>)))
              else Inr (Some i))))"

definition is_available :: "pci_device \<Rightarrow> bool" where
  "is_available dev \<longleftrightarrow> dev_status dev = AVAILABLE"

section \<open>Ownership over the life of a device\<close>

text \<open>One successful operation on a device.\<close>

inductive dev_step :: "pci_device \<Rightarrow> pci_device \<Rightarrow> bool" where
  step_claim: "claim uuid dev = Inr dev' \<Longrightarrow> dev_step dev dev'"
| step_allocate: "allocate inst dev = Inr (dev', inst') \<Longrightarrow> dev_step dev dev'"
| step_remove: "remove_dev dev = Inr dev' \<Longrightarrow> dev_step dev dev'"
| step_free: "free_dev inst dev = (dev', Inr inst') \<Longrightarrow> dev_step dev dev'"
| step_update: "dev_status dev = AVAILABLE \<Longrightarrow> dev_step dev (update_device d dev)"

definition owner_ok :: "pci_device \<Rightarrow> bool" where
  "owner_ok dev \<longleftrightarrow> (dev_owner dev \<noteq> None \<longleftrightarrow> dev_status dev \<in> {CLAIMED, ALLOCATED})"

lemma update_device_frame [simp]:
  "dev_status (update_device d dev) = dev_status dev \<and>
   dev_owner (update_device d dev) = dev_owner dev"
proof -
  have "dev_status (fold update_field xs dev) = dev_status dev \<and>
    dev_owner (fold update_field xs dev) = dev_owner dev" for xs
    by (induction xs arbitrary: dev) (auto simp: update_field_def Let_def split: prod.splits)
  then show ?thesis by (simp add: update_device_def)
qed

lemma set_attr_frame [simp]:
  "dev_status (set_attr k v dev) = dev_status dev" "dev_owner (set_attr k v dev) = dev_owner dev"
  by (simp_all add: set_attr_def)

lemma free_dev_ok:
  "free_dev inst dev = (dev', Inr inst') \<Longrightarrow>
   dev_status dev \<in> {ALLOCATED, CLAIMED} \<and> dev_status dev' = AVAILABLE \<and> dev_owner dev' = None"
  by (auto simp: free_dev_def Let_def split: if_splits option.splits list.splits)

lemma dev_step_cases_owner:
  assumes "dev_step dev dev'"
  shows "(dev_status dev = AVAILABLE \<and> dev_status dev' \<in> {CLAIMED, ALLOCATED} \<and> dev_owner dev' \<noteq> None)
    \<or> (dev_status dev = AVAILABLE \<and> dev_status dev' = REMOVED \<and> dev_owner dev' = None)
    \<or> (dev_status dev = CLAIMED \<and> dev_status dev' = ALLOCATED \<and> dev_owner dev' = dev_owner dev
       \<and> dev_owner dev \<noteq> None)
    \<or> (dev_status dev \<in> {CLAIMED, ALLOCATED} \<and> dev_status dev' = AVAILABLE \<and> dev_owner dev' = None)
    \<or> (dev_status dev = AVAILABLE \<and> dev_status dev' = AVAILABLE \<and> dev_owner dev' = dev_owner dev)"
  using assms
proof cases
  case (step_free inst inst')
  then show ?thesis using free_dev_ok by auto
qed (auto simp: claim_def allocate_def remove_dev_def Let_def split: if_splits)

interpretation lives: guarded_system dev_step owner_ok
proof
  fix d d' assume ok: "owner_ok d" and step: "dev_step d d'"
  show "owner_ok d'" using dev_step_cases_owner [OF step] ok by (auto simp: owner_ok_def)
qed



section \<open>Addresses of the whitelist\<close>

text \<open>The number of virtual functions of a named interface is read from
  \<open>.../devicesriov_totalvfs\<close> (a slash is missing), so the file the kernel provides,
  \<open>.../device/sriov_totalvfs\<close>, never influences the answer.\<close>

theorem ifname_ignores_totalvfs:
  "get_function_by_ifname
     (sys\<lparr>read_file := (read_file sys)(''/sys/class/net/'' @ ifname @ ''/device/sriov_totalvfs'' := v)\<rparr>)
     ifname = get_function_by_ifname sys ifname"
proof -
  have "(''/sys/class/net/'' @ ifname @ ''/device'') @ SRIOV_TOTALVFS \<noteq>
    ''/sys/class/net/'' @ ifname @ ''/device/sriov_totalvfs''"
    by (simp add: SRIOV_TOTALVFS_def)
  then show ?thesis
    by (simp add: get_function_by_ifname_def read_totalvfs_def Let_def
        split: option.split sum.split)
qed

definition addr_text :: "nat \<Rightarrow> nat \<Rightarrow> nat \<Rightarrow> nat \<Rightarrow> string" where
  "addr_text d b s f =
     hex_pad 4 d @ CHR '':'' # hex_pad 2 b @ CHR '':'' # hex_pad 2 s @ CHR ''.'' # hex_pad 1 f"

lemma hex_value_digit: "d < 16 \<Longrightarrow> hex_value (hex_digits ! d) = Some d"
proof -
  have "list_all (\<lambda>d. hex_value (hex_digits ! d) = Some d) [0..<16]" by code_simp
  then show "d < 16 \<Longrightarrow> hex_value (hex_digits ! d) = Some d"
    by (simp add: list_all_iff del: upt_rec_numeral)
qed

lemma is_hex_digit [simp]: "d < 16 \<Longrightarrow> is_hex (hex_digits ! d)"
  by (simp add: is_hex_def hex_value_digit)

lemma show_hex_all: "list_all is_hex (show_hex n)"
  by (induction n rule: show_hex.induct) (subst show_hex.simps, simp)

lemma show_hex_nonempty [simp]: "show_hex n \<noteq> []"
  by (subst show_hex.simps) simp

lemma hex_number_append: "hex_number (s @ [c]) = 16 * hex_number s + the (hex_value c)"
  by (simp add: hex_number_def)

lemma hex_number_show: "hex_number (show_hex n) = n"
proof (induction n rule: show_hex.induct)
  case (1 n)
  show ?case
  proof (cases "n < 16")
    case True
    then show ?thesis by (subst show_hex.simps) (simp add: hex_number_def hex_value_digit)
  next
    case False
    then show ?thesis using 1
      by (subst show_hex.simps) (simp add: hex_number_append hex_value_digit)
  qed
qed

lemma hex_zero: "hex_value CHR ''0'' = Some 0"
  by (simp add: hex_value_def)

lemma hex_pad_all: "list_all is_hex (hex_pad w n)"
proof -
  have "list_all is_hex (replicate k CHR ''0'')" for k
    by (induction k) (simp_all add: is_hex_def hex_zero)
  then show ?thesis by (simp add: hex_pad_def show_hex_all)
qed

lemma hex_number_pad: "hex_number (hex_pad w n) = n"
proof -
  have "hex_number (replicate k CHR ''0'' @ s) = hex_number s" for k s
    by (induction k) (simp_all add: hex_number_def hex_zero)
  then show ?thesis by (simp add: hex_pad_def hex_number_show)
qed

lemma is_hex_not: "is_hex c \<Longrightarrow> c \<notin> {CHR '':'', CHR ''.'', CHR ''*'', CHR ''l'', CHR ''L''} \<and> \<not> is_space c"
  by (auto simp: is_hex_def hex_value_def is_space_def)

lemma hex_pad_chars:
  "CHR '':'' \<notin> set (hex_pad w n)" "CHR ''.'' \<notin> set (hex_pad w n)"
  "CHR ''*'' \<notin> set (hex_pad w n)" "c \<in> set (hex_pad w n) \<Longrightarrow> \<not> is_space c"
  using hex_pad_all [of w n] is_hex_not by (auto simp: list_all_iff)

lemma hex_pad_nonempty [simp]: "hex_pad w n \<noteq> []"
  by (simp add: hex_pad_def)

lemma hex_pad_not_any [simp]: "hex_pad w n \<noteq> ANY"
  using hex_pad_chars(3) [of w n] by (auto simp: ANY_def)

lemma strip_hex_pad [simp]: "strip (hex_pad w n) = hex_pad w n"
  by (rule strip_id) (simp add: hex_pad_chars)

lemma get_value_pad: "get_value (hex_pad w n) = Inr n"
proof -
  have "dropWhile is_space (rev (hex_pad w n)) = rev (hex_pad w n)"
    using hex_pad_chars(4) by (metis dropWhile_eq_self_iff hd_in_set set_rev)
  moreover have "last (hex_pad w n) \<notin> {CHR ''l'', CHR ''L''}"
    using is_hex_not hex_pad_all [of w n] by (metis hex_pad_nonempty insertI1 insertI2 last_in_set list_all_iff)
  ultimately show ?thesis
    using hex_pad_all [of w n] by (simp add: get_value_def Let_def hex_number_pad)
qed

lemma hex_pad_inj: "hex_pad w n = hex_pad w m \<longleftrightarrow> n = m"
  using hex_number_pad by metis

lemma addr_text_fields:
  "get_pci_address_fields (addr_text d b s f) = Inr (hex_pad 4 d, hex_pad 2 b, hex_pad 2 s, hex_pad 1 f)"
proof -
  let ?dbs = "hex_pad 4 d @ CHR '':'' # hex_pad 2 b @ CHR '':'' # hex_pad 2 s"
  have "partition_str CHR ''.'' (?dbs @ CHR ''.'' # hex_pad 1 f) = (?dbs, True, hex_pad 1 f)"
    by (rule partition_sep) (simp add: hex_pad_chars)
  then show ?thesis
    by (simp add: get_pci_address_fields_def addr_text_def split_on_append_sep split_on_absent
        hex_pad_chars)
qed

lemma dev_info_pad: "n \<le> m \<Longrightarrow> get_pci_dev_info (hex_pad w n) m w = Inr (hex_pad w n)"
  by (simp add: get_pci_dev_info_def get_value_pad)

lemma init_address_text:
  assumes "d \<le> MAX_DOMAIN" and "b \<le> MAX_BUS" and "s \<le> MAX_SLOT" and "f \<le> MAX_FUNC"
  shows "init_address sys (addr_text d b s f) False = Inr (check_physical_function sys
    \<lparr>addr_domain = hex_pad 4 d, addr_bus = hex_pad 2 b, addr_slot = hex_pad 2 s,
     addr_func = hex_pad 1 f, addr_physical = False\<rparr>)"
proof -
  let ?dbs = "hex_pad 4 d @ CHR '':'' # hex_pad 2 b @ CHR '':'' # hex_pad 2 s"
  have "partition_str CHR ''.'' (addr_text d b s f) = (?dbs, True, hex_pad 1 f)"
    unfolding addr_text_def using partition_sep [of "CHR ''.''" ?dbs] by (simp add: hex_pad_chars)
  moreover have "split_on CHR '':'' ?dbs = [hex_pad 4 d, hex_pad 2 b, hex_pad 2 s]"
    by (simp add: split_on_append_sep split_on_absent hex_pad_chars)
  moreover have "address_function (hex_pad 1 f) = Inr (hex_pad 1 f)"
    using assms(4) by (simp add: address_function_def get_value_pad)
  ultimately show ?thesis
    using assms by (simp add: init_address_def dev_info_pad)
qed

text \<open>A whitelist address with all four fields given in range is accepted, and unless it names a
  physical function it matches the device at exactly that address and no other.\<close>

theorem exact_address_matches:
  assumes "d \<le> MAX_DOMAIN" and "b \<le> MAX_BUS" and "s \<le> MAX_SLOT" and "f \<le> MAX_FUNC"
    and "\<not> is_physical_function sys (hex_pad 4 d) (hex_pad 2 b) (hex_pad 2 s) (hex_pad 1 f)"
  shows "\<exists>a. init_address sys (addr_text d b s f) False = Inr a \<and>
    (\<forall>d' b' s' f' parent. address_match a (PStr (addr_text d' b' s' f')) parent =
       Inr (d' = d \<and> b' = b \<and> s' = s \<and> f' = f))"
  using assms(5)
  by (auto simp: init_address_text [OF assms(1-4)] check_physical_function_def address_match_def
      pval_fields_def addr_text_fields hex_pad_inj)

abbreviation no_sysfs :: sysfs where
  "no_sysfs \<equiv> \<lparr>isdir = \<lambda>_. False, read_file = \<lambda>_. None, readlink = \<lambda>_. []\<rparr>"

theorem exact_address_matches_witness:
  "\<exists>a. init_address no_sysfs (addr_text 0 10 0 1) False = Inr a \<and>
     address_match a (PStr (addr_text 0 10 0 1)) PNone = Inr True \<and>
     address_match a (PStr (addr_text 0 10 0 2)) PNone = Inr False"
  using exact_address_matches [of 0 10 0 1 no_sysfs]
  by (auto simp: MAX_DOMAIN_def MAX_BUS_def MAX_SLOT_def MAX_FUNC_def is_physical_function_def)

end
