(* ===== verification/PciStats.thy ===== *)
theory PciStats
  imports PciDevice "HOL-Library.Multiset"
begin

text \<open>
  PCI requests from flavor aliases (nova/pci/request.py) and the pools of free devices of a node
  (nova/pci/stats.py). A device is referred to by its address, the key of the table of device
  objects. A pool is its properties, its count and, on the compute node, its free devices; the
  scheduler's copy has counts only. Property dictionaries of pools do not use the keys
  \<open>count\<close> and \<open>devices\<close>.
\<close>

section \<open>Requests\<close>

record pci_request =
  req_count :: int
  req_spec :: "props list"
  req_alias_name :: "string option"
  req_request_id :: "string option"

text \<open>\<open>load_alias\<close> reads and validates one JSON alias; every failure but ours is an invalid alias.\<close>

definition get_alias_from_config ::
    "(string \<Rightarrow> (string, string) dict option) \<Rightarrow> string list \<Rightarrow>
     (string, (string, string) dict list) dict result" where
  "get_alias_from_config load_alias jaliases =
     loop (\<lambda>jsonspecs aliases.
       case load_alias jsonspecs of
         None \<Rightarrow> Inl PciInvalidAlias
       | Some spec \<Rightarrow>
           bind (reraise KeyError PciInvalidAlias (dict_index spec ''name'')) (\<lambda>name.
             let spec' = AList.delete ''name'' spec in
             case map_of aliases name of
               None \<Rightarrow> Inr (AList.update name [spec'] aliases)
             | Some specs \<Rightarrow>
                 (case (map_of (hd specs) ''device_type'', map_of spec' ''device_type'') of
                    (Some t, Some t') \<Rightarrow>
                      if t = t' then Inr (AList.update name (specs @ [spec']) aliases)
                      else Inl PciInvalidAlias
                  | _ \<Rightarrow> Inl PciInvalidAlias))) jaliases []"

definition translate_alias_to_requests ::
    "(string, (string, string) dict list) dict \<Rightarrow> string \<Rightarrow> pci_request list result" where
  "translate_alias_to_requests pci_aliases alias_spec =
     (let text = filter (\<lambda>c. c \<noteq> CHR 0x20) alias_spec in
      traverse (\<lambda>spec.
        case split_on CHR '':'' spec of
          [name, cnt] \<Rightarrow>
            (case map_of pci_aliases name of
               None \<Rightarrow> Inl PciRequestAliasNotDefined
             | Some specs \<Rightarrow> bind (py_int cnt) (\<lambda>n.
                 Inr \<lparr>req_count = n, req_spec = map (map (\<lambda>(k, v). (k, PStr v))) specs,
                      req_alias_name = Some name, req_request_id = None\<rparr>))
        | _ \<Rightarrow> Inl ValueError) (split_on CHR '','' text))"

definition get_pci_requests_from_flavor ::
    "(string \<Rightarrow> (string, string) dict option) \<Rightarrow> string list \<Rightarrow> (string, string) dict \<Rightarrow>
     pci_request list result" where
  "get_pci_requests_from_flavor load_alias jaliases specs =
     (case map_of specs ''pci_passthrough:alias'' of
        None \<Rightarrow> Inr []
      | Some text \<Rightarrow>
          bind (get_alias_from_config load_alias jaliases) (\<lambda>aliases.
            translate_alias_to_requests aliases text))"

section \<open>Pools\<close>

record pool =
  pool_attrs :: props
  pool_count :: int
  pool_devices :: "string list option"

type_synonym devs = "(string, pci_device) dict"

definition pool_get :: "pool \<Rightarrow> string \<Rightarrow> pval" where
  "pool_get p k =
     (if k = ''count'' then PInt (pool_count p)
      else if k = ''devices'' then (if pool_devices p = None then PNone else PList)
      else dict_get (pool_attrs p) k PNone)"

text \<open>\<open>len(pool)\<close> as a dictionary.\<close>

definition pool_len :: "pool \<Rightarrow> nat" where
  "pool_len p = length (pool_attrs p) + (if pool_devices p = None then 1 else 2)"

record pool_obj =
  obj_product_id :: string
  obj_vendor_id :: string
  obj_numa_node :: "int option"
  obj_tags :: props
  obj_count :: int

definition opt_int :: "int option \<Rightarrow> pval" where
  "opt_int x = (case x of None \<Rightarrow> PNone | Some n \<Rightarrow> PInt n)"

definition pool_to_dict :: "pool_obj \<Rightarrow> pool" where
  "pool_to_dict po =
     \<lparr>pool_attrs = fold (\<lambda>(k, v). AList.update k v) (obj_tags po)
        [(''product_id'', PStr (obj_product_id po)), (''vendor_id'', PStr (obj_vendor_id po)),
         (''numa_node'', opt_int (obj_numa_node po))],
      pool_count = obj_count po, pool_devices = None\<rparr>"

text \<open>
  \<open>from_dict\<close> on a pool without its devices: vendor and product must be there, the NUMA node may
  be missing, the rest are tags.
\<close>

definition pool_from_dict :: "pool \<Rightarrow> pool_obj result" where
  "pool_from_dict p =
     bind (dict_index (pool_attrs p) ''vendor_id'') (\<lambda>v.
     bind (dict_index (pool_attrs p) ''product_id'') (\<lambda>pr.
       case (v, pr, dict_get (pool_attrs p) ''numa_node'' PNone) of
         (PStr vendor, PStr product, PNone) \<Rightarrow>
           Inr \<lparr>obj_product_id = product, obj_vendor_id = vendor, obj_numa_node = None,
             obj_tags = pop_keys [''vendor_id'', ''product_id'', ''numa_node''] (pool_attrs p),
             obj_count = pool_count p\<rparr>
       | (PStr vendor, PStr product, PInt n) \<Rightarrow>
           Inr \<lparr>obj_product_id = product, obj_vendor_id = vendor, obj_numa_node = Some n,
             obj_tags = pop_keys [''vendor_id'', ''product_id'', ''numa_node''] (pool_attrs p),
             obj_count = pool_count p\<rparr>
       | _ \<Rightarrow> Inl ValueError))"

definition init_stats :: "pool_obj list \<Rightarrow> pool list" where
  "init_stats stats = sort_key pool_len (map pool_to_dict stats)"

definition to_device_pools_obj :: "pool list \<Rightarrow> pool_obj list result" where
  "to_device_pools_obj pools = traverse pool_from_dict pools"

definition equal_properties :: "props \<Rightarrow> props \<Rightarrow> string list \<Rightarrow> bool" where
  "equal_properties dev entry matching_keys =
     list_all (\<lambda>prop. dict_get dev prop PNone = dict_get entry prop PNone) matching_keys"

text \<open>Looking at a pool without a device list raises.\<close>

fun find_pool :: "pool list \<Rightarrow> props \<Rightarrow> pool option result" where
  "find_pool [] dev_pool = Inr None"
| "find_pool (p # ps) dev_pool =
     (if pool_devices p = None then Inl KeyError
      else if length (pool_attrs p) = length dev_pool \<and>
              equal_properties dev_pool (pool_attrs p) (keys dev_pool)
      then Inr (Some p)
      else find_pool ps dev_pool)"

definition pool_keys :: "string list" where
  "pool_keys = [''product_id'', ''vendor_id'', ''numa_node'']"

definition create_pool_keys_from_dev :: "devspec list \<Rightarrow> pci_device \<Rightarrow> props option result" where
  "create_pool_keys_from_dev wl dev =
     bind (get_devspec wl dev) (\<lambda>spec.
       case spec of
         None \<Rightarrow> Inr None
       | Some s \<Rightarrow>
           bind (traverse (\<lambda>k. bind (dev_attr dev k) (\<lambda>v. Inr (k, v))) pool_keys) (\<lambda>pool.
             Inr (Some (fold (\<lambda>(k, v). AList.update k (PStr v)) (spec_tags s) pool))))"

definition add_device :: "devspec list \<Rightarrow> string \<Rightarrow> pci_device \<Rightarrow> pool list \<Rightarrow> pool list result" where
  "add_device wl addr dev pools =
     bind (create_pool_keys_from_dev wl dev) (\<lambda>dev_pool.
       case dev_pool of
         None \<Rightarrow> Inr pools
       | Some attrs \<Rightarrow>
           bind (find_pool pools attrs) (\<lambda>found.
             case found of
               None \<Rightarrow> Inr (sort_key pool_len
                 (pools @ [\<lparr>pool_attrs = attrs, pool_count = 1, pool_devices = Some [addr]\<rparr>]))
             | Some p \<Rightarrow> Inr (update_first p
                 (p\<lparr>pool_count := pool_count p + 1,
                    pool_devices := map_option (\<lambda>ds. ds @ [addr]) (pool_devices p)\<rparr>) pools)))"

definition decrease_pool_count :: "pool list \<Rightarrow> pool \<Rightarrow> int \<Rightarrow> pool list \<times> int" where
  "decrease_pool_count pool_list p cnt =
     (if pool_count p > cnt
      then (update_first p (p\<lparr>pool_count := pool_count p - cnt\<rparr>) pool_list, 0)
      else (remove1 p pool_list, cnt - pool_count p))"

definition remove_device :: "devspec list \<Rightarrow> string \<Rightarrow> pci_device \<Rightarrow> pool list \<Rightarrow> pool list result" where
  "remove_device wl addr dev pools =
     bind (create_pool_keys_from_dev wl dev) (\<lambda>dev_pool.
       case dev_pool of
         None \<Rightarrow> Inr pools
       | Some attrs \<Rightarrow>
           bind (find_pool pools attrs) (\<lambda>found.
             case found of
               None \<Rightarrow> Inl PciDevicePoolEmpty
             | Some p \<Rightarrow>
                 (let ds = (case pool_devices p of None \<Rightarrow> [] | Some ds \<Rightarrow> ds) in
                  if addr \<notin> set ds then Inl ValueError
                  else
                    (let p' = p\<lparr>pool_devices := Some (remove1 addr ds)\<rparr> in
                     Inr (fst (decrease_pool_count (update_first p p' pools) p' 1))))))"

definition get_free_devs :: "pool list \<Rightarrow> string list result" where
  "get_free_devs pools =
     bind (traverse (\<lambda>p. case pool_devices p of None \<Rightarrow> Inl KeyError | Some ds \<Rightarrow> Inr ds) pools)
       (\<lambda>dss. Inr (concat dss))"

section \<open>Filtering\<close>

definition filter_pools_for_spec :: "pool list \<Rightarrow> props list \<Rightarrow> pool list" where
  "filter_pools_for_spec pools request_specs =
     filter (\<lambda>p. pci_device_prop_match (pool_get p) request_specs) pools"

text \<open>Pools whose NUMA node is one of the cells, or not reported.\<close>

definition filter_pools_for_numa_cells :: "pool list \<Rightarrow> int list \<Rightarrow> pool list" where
  "filter_pools_for_numa_cells pools numa_cells =
     filter (\<lambda>p. list_ex (\<lambda>cell. pci_device_prop_match (pool_get p) [[(''numa_node'', cell)]])
                   (PNone # map PInt numa_cells)) pools"

text \<open>No cells and an empty list of cells both switch the second filter off.\<close>

definition matching_pools :: "pool list \<Rightarrow> props list \<Rightarrow> int list \<Rightarrow> pool list" where
  "matching_pools pools spec numa_cells =
     (let ps = filter_pools_for_spec pools spec in
      if numa_cells \<noteq> [] then filter_pools_for_numa_cells ps numa_cells else ps)"

abbreviation total_count :: "pool list \<Rightarrow> int" where
  "total_count ps \<equiv> sum_list (map pool_count ps)"

section \<open>Counting requests\<close>

fun apply_to_pools :: "pool list \<Rightarrow> int \<Rightarrow> pool list \<Rightarrow> pool list" where
  "apply_to_pools [] cnt pools = pools"
| "apply_to_pools (p # ps) cnt pools =
     (let (pools', count') = decrease_pool_count pools p cnt in
      if count' = 0 then pools' else apply_to_pools ps count' pools')"

definition apply_request :: "pool list \<Rightarrow> pci_request \<Rightarrow> int list \<Rightarrow> pool list \<times> bool" where
  "apply_request pools request numa_cells =
     (let ps = matching_pools pools (req_spec request) numa_cells in
      if total_count ps < req_count request then (pools, False)
      else (apply_to_pools ps (req_count request) pools, True))"

text \<open>The list comprehension applies every request, also after one that fails.\<close>

fun apply_all :: "pool list \<Rightarrow> pci_request list \<Rightarrow> int list \<Rightarrow> pool list \<times> bool" where
  "apply_all pools [] numa_cells = (pools, True)"
| "apply_all pools (r # rs) numa_cells =
     (let (pools1, ok1) = apply_request pools r numa_cells;
          (pools2, ok2) = apply_all pools1 rs numa_cells
      in (pools2, ok1 \<and> ok2))"

definition support_requests :: "pool list \<Rightarrow> pci_request list \<Rightarrow> int list \<Rightarrow> bool" where
  "support_requests pools requests numa_cells = snd (apply_all pools requests numa_cells)"

text \<open>The pools after the call, and the error if one is raised: the pools are changed either way.\<close>

definition apply_requests ::
    "pool list \<Rightarrow> pci_request list \<Rightarrow> int list \<Rightarrow> pool list \<times> unit result" where
  "apply_requests pools requests numa_cells =
     (let (pools', ok) = apply_all pools requests numa_cells in
      (pools', if ok then Inr () else Inl PciDeviceRequestFailed))"

section \<open>Taking devices\<close>

fun pop_devices ::
    "nat \<Rightarrow> string option \<Rightarrow> pool \<Rightarrow> devs \<Rightarrow> string list \<Rightarrow> (pool \<times> devs \<times> string list) result" where
  "pop_devices 0 rid p objs alloc = Inr (p, objs, alloc)"
| "pop_devices (Suc n) rid p objs alloc =
     (case pool_devices p of
        None \<Rightarrow> Inl KeyError
      | Some [] \<Rightarrow> Inl IndexError
      | Some ds \<Rightarrow>
          (let addr = last ds;
               rv = (case rid of None \<Rightarrow> PNone | Some r \<Rightarrow> PStr r);
               objs' = map (\<lambda>(a, d). if a = addr then (a, set_attr ''request_id'' rv d) else (a, d)) objs
           in pop_devices n rid (p\<lparr>pool_devices := Some (butlast ds)\<rparr>) objs' (alloc @ [addr])))"

text \<open>The pools are visited by position: the loop changes them in place and moves none.\<close>

fun consume_from ::
    "nat list \<Rightarrow> string option \<Rightarrow> int \<Rightarrow> pool list \<times> devs \<times> string list \<Rightarrow>
     (pool list \<times> devs \<times> string list) result" where
  "consume_from [] rid cnt st = Inr st"
| "consume_from (i # is) rid cnt (pools, objs, alloc) =
     (let p = pools ! i;
          num_alloc = (if pool_count p \<ge> cnt then cnt else pool_count p)
      in bind (pop_devices (nat num_alloc) rid (p\<lparr>pool_count := pool_count p - num_alloc\<rparr>) objs alloc)
           (\<lambda>(p', objs', alloc').
              if cnt - num_alloc = 0 then Inr (pools[i := p'], objs', alloc')
              else consume_from is rid (cnt - num_alloc) (pools[i := p'], objs', alloc')))"

definition matching_positions :: "pool list \<Rightarrow> props list \<Rightarrow> int list \<Rightarrow> nat list" where
  "matching_positions pools spec numa_cells =
     filter (\<lambda>i. matching_pools [pools ! i] spec numa_cells = [pools ! i]) [0..<length pools]"

text \<open>Giving the allocated devices back, last one first.\<close>

definition give_back :: "devspec list \<Rightarrow> devs \<Rightarrow> string list \<Rightarrow> pool list \<Rightarrow> pool list result" where
  "give_back wl objs alloc pools =
     loop (\<lambda>addr pools.
       bind (dict_index objs addr) (\<lambda>dev. add_device wl addr dev pools)) (rev alloc) pools"

fun consume_loop ::
    "devspec list \<Rightarrow> pci_request list \<Rightarrow> int list \<Rightarrow> pool list \<times> devs \<times> string list \<Rightarrow>
     (pool list \<times> devs \<times> string list option) result" where
  "consume_loop wl [] numa_cells (pools, objs, alloc) = Inr (pools, objs, Some alloc)"
| "consume_loop wl (r # rs) numa_cells (pools, objs, alloc) =
     (if total_count (matching_pools pools (req_spec r) numa_cells) < req_count r
      then bind (give_back wl objs alloc pools) (\<lambda>pools'. Inr (pools', objs, None))
      else bind (consume_from (matching_positions pools (req_spec r) numa_cells)
                   (req_request_id r) (req_count r) (pools, objs, alloc))
             (consume_loop wl rs numa_cells))"

definition consume_requests ::
    "devspec list \<Rightarrow> pci_request list \<Rightarrow> int list \<Rightarrow> pool list \<Rightarrow> devs \<Rightarrow>
     (pool list \<times> devs \<times> string list option) result" where
  "consume_requests wl pci_requests numa_cells pools objs =
     consume_loop wl pci_requests numa_cells (pools, objs, [])"

section \<open>Counts are conserved\<close>

lemma apply_to_pools_conserves:
  assumes "mset ps \<subseteq># mset pools" and "\<forall>p \<in> set pools. 0 \<le> pool_count p"
    and "0 \<le> c" and "c \<le> total_count ps"
  shows "total_count (apply_to_pools ps c pools) = total_count pools - c \<and>
    (\<forall>p \<in> set (apply_to_pools ps c pools). 0 \<le> pool_count p)"
  using assms
proof (induction ps arbitrary: c pools)
  case (Cons p ps)
  have p: "p \<in> set pools"
    using Cons.prems(1) by (metis insert_subset_eq_iff mset.simps(2) set_mset_mset)
  show ?case
  proof (cases "pool_count p > c")
    case True
    then show ?thesis using p Cons.prems(2,3) set_update_first_subset [of p _ pools]
      by (fastforce simp: decrease_pool_count_def sum_list_update_first)
  next
    case False
    let ?pools = "remove1 p pools"
    have 1: "mset ps \<subseteq># mset ?pools" using Cons.prems(1)
      by (metis insert_subset_eq_iff mset.simps(2) mset_remove1)
    have 2: "\<forall>q \<in> set ?pools. 0 \<le> pool_count q"
      using Cons.prems(2) set_remove1_subset by fastforce
    show ?thesis
      using Cons.IH [OF 1 2, of "c - pool_count p"] Cons.prems(4) False p 2
      by (simp add: decrease_pool_count_def sum_list_remove1)
  qed
qed simp

definition pool_matches :: "props list \<Rightarrow> int list \<Rightarrow> pool \<Rightarrow> bool" where
  "pool_matches spec cells p \<longleftrightarrow> pci_device_prop_match (pool_get p) spec \<and>
     (cells \<noteq> [] \<longrightarrow> list_ex (\<lambda>cell. pci_device_prop_match (pool_get p) [[(''numa_node'', cell)]])
        (PNone # map PInt cells))"

lemma matching_pools_filter:
  "matching_pools pools spec cells = filter (pool_matches spec cells) pools"
  by (cases "cells = []")
    (simp_all add: matching_pools_def filter_pools_for_spec_def filter_pools_for_numa_cells_def
      pool_matches_def [abs_def] Let_def del: list.map)

lemma matching_pools_sub: "mset (matching_pools pools spec cells) \<subseteq># mset pools"
  by (simp add: matching_pools_filter mset_filter)

lemma apply_all_conserves:
  assumes "apply_all pools rs cells = (pools', True)"
    and "\<forall>p \<in> set pools. 0 \<le> pool_count p" and "\<forall>r \<in> set rs. 0 \<le> req_count r"
  shows "total_count pools' = total_count pools - sum_list (map req_count rs) \<and>
    (\<forall>p \<in> set pools'. 0 \<le> pool_count p)"
  using assms
proof (induction rs arbitrary: pools)
  case (Cons r rs)
  let ?m = "matching_pools pools (req_spec r) cells"
  from Cons.prems(1) obtain pools1 where
    1: "apply_request pools r cells = (pools1, True)" "apply_all pools1 rs cells = (pools', True)"
    by (auto split: prod.splits)
  then have "\<not> total_count ?m < req_count r" "pools1 = apply_to_pools ?m (req_count r) pools"
    by (auto simp: apply_request_def Let_def split: if_splits)
  then have "total_count pools1 = total_count pools - req_count r \<and>
      (\<forall>p \<in> set pools1. 0 \<le> pool_count p)"
    using apply_to_pools_conserves [OF matching_pools_sub Cons.prems(2), of "req_count r"]
      Cons.prems(3) by (simp add: not_less)
  then show ?case using Cons.IH [OF 1(2)] Cons.prems(3) by simp
qed simp

text \<open>The scheduler's check and the bookkeeping agree, and the bookkeeping takes exactly what
  was asked for: when the check accepts the requests, applying them succeeds, the devices counted in
  the pools go down by the sum of the requested counts and no pool goes below zero.\<close>

theorem supported_requests_conserve:
  assumes "support_requests pools requests cells"
    and "\<forall>p \<in> set pools. 0 \<le> pool_count p" and "\<forall>r \<in> set requests. 0 \<le> req_count r"
  shows "\<exists>pools'. apply_requests pools requests cells = (pools', Inr ()) \<and>
    total_count pools' = total_count pools - sum_list (map req_count requests) \<and>
    (\<forall>p \<in> set pools'. 0 \<le> pool_count p)"
proof -
  obtain pools' where a: "apply_all pools requests cells = (pools', True)"
    using assms(1) by (cases "apply_all pools requests cells") (simp add: support_requests_def)
  then show ?thesis using apply_all_conserves [OF a assms(2,3)] by (simp add: apply_requests_def)
qed

abbreviation nic_pool :: "int \<Rightarrow> int \<Rightarrow> pool" where
  "nic_pool node n \<equiv> \<lparr>pool_attrs = [(''product_id'', PStr ''1520''), (''vendor_id'', PStr ''8086''),
     (''numa_node'', PInt node)], pool_count = n, pool_devices = None\<rparr>"

abbreviation nic_request :: "int \<Rightarrow> pci_request" where
  "nic_request n \<equiv> \<lparr>req_count = n, req_spec = [[(''vendor_id'', PStr ''8086'')]],
     req_alias_name = None, req_request_id = None\<rparr>"

theorem supported_requests_conserve_witness:
  "total_count (fst (apply_requests [nic_pool 0 2, nic_pool 1 3] [nic_request 4] [])) = 1"
proof -
  have "support_requests [nic_pool 0 2, nic_pool 1 3] [nic_request 4] []" by code_simp
  from supported_requests_conserve [OF this] show ?thesis by auto
qed

section \<open>Devices are conserved\<close>

definition wf_pool :: "pool \<Rightarrow> bool" where
  "wf_pool p \<longleftrightarrow> (case pool_devices p of None \<Rightarrow> False | Some ds \<Rightarrow> pool_count p = int (length ds))"

definition pool_devs :: "pool \<Rightarrow> string list" where
  "pool_devs p = (case pool_devices p of None \<Rightarrow> [] | Some ds \<Rightarrow> ds)"

abbreviation free_devs :: "pool list \<Rightarrow> string multiset" where
  "free_devs pools \<equiv> mset (concat (map pool_devs pools))"

lemma wf_pool_devs: "wf_pool p \<longleftrightarrow> pool_devices p = Some (pool_devs p) \<and> pool_count p = int (length (pool_devs p))"
  by (simp add: wf_pool_def pool_devs_def split: option.split)

text \<open>The table of devices changes only in the request id of some of them.\<close>

definition same_but_request :: "pci_device \<Rightarrow> pci_device \<Rightarrow> bool" where
  "same_but_request d d0 \<longleftrightarrow> (\<forall>k. k \<noteq> ''request_id'' \<longrightarrow> dev_attr d k = dev_attr d0 k)"

definition objs_rel :: "devs \<Rightarrow> devs \<Rightarrow> bool" where
  "objs_rel = list_all2 (\<lambda>x y. fst x = fst y \<and> same_but_request (snd x) (snd y) \<and>
     dev_status (snd x) = dev_status (snd y) \<and> dev_owner (snd x) = dev_owner (snd y))"

lemma objs_rel_refl [simp]: "objs_rel a a"
  by (simp add: objs_rel_def same_but_request_def list.rel_refl)

lemma objs_rel_trans: "objs_rel a b \<Longrightarrow> objs_rel b c \<Longrightarrow> objs_rel a c"
  unfolding objs_rel_def by (erule (1) list_all2_trans [rotated]) (simp add: same_but_request_def)

lemma objs_rel_set_request:
  "objs_rel (map (\<lambda>(a, d). if a = x then (a, set_attr ''request_id'' v d) else (a, d)) objs) objs"
  by (induction objs)
    (auto simp: objs_rel_def same_but_request_def set_attr_def dev_attr_def)

lemma pop_devices_spec:
  assumes "pool_devices p = Some ds" and "n \<le> length ds"
  shows "\<exists>ds' got objs'. pop_devices n rid p objs alloc =
      Inr (p\<lparr>pool_devices := Some ds'\<rparr>, objs', alloc @ got) \<and>
    length got = n \<and> length ds' = length ds - n \<and> mset ds = mset ds' + mset got \<and>
    objs_rel objs' objs"
  using assms
proof (induction n arbitrary: p ds objs alloc)
  case 0
  then show ?case by (intro exI [of _ ds] exI [of _ "[]"] exI [of _ objs]) auto
next
  case (Suc n)
  then obtain x xs where ds: "ds = x # xs" by (cases ds) auto
  let ?a = "last ds" and ?rv = "case rid of None \<Rightarrow> PNone | Some r \<Rightarrow> PStr r"
  let ?objs = "map (\<lambda>(a, d). if a = ?a then (a, set_attr ''request_id'' ?rv d) else (a, d)) objs"
  let ?p = "p\<lparr>pool_devices := Some (butlast ds)\<rparr>"
  have "pool_devices ?p = Some (butlast ds)" "n \<le> length (butlast ds)" using Suc.prems by auto
  from Suc.IH [OF this, of ?objs "alloc @ [?a]"] obtain ds' got objs' where
    IH: "pop_devices n rid ?p ?objs (alloc @ [?a]) =
        Inr (?p\<lparr>pool_devices := Some ds'\<rparr>, objs', (alloc @ [?a]) @ got)"
      "length got = n" "length ds' = length (butlast ds) - n" "mset (butlast ds) = mset ds' + mset got"
      "objs_rel objs' ?objs"
    by blast
  have "pop_devices (Suc n) rid p objs alloc = pop_devices n rid ?p ?objs (alloc @ [?a])"
    using Suc.prems(1) by (simp add: ds Let_def)
  moreover have "mset ds = mset (butlast ds) + {#?a#}"
    by (metis append_butlast_last_id ds list.distinct(1) mset.simps(1,2) mset_append)
  then have "mset ds = mset ds' + mset (?a # got)" using IH(4) by simp
  moreover have "objs_rel objs' objs" using IH(5) objs_rel_set_request objs_rel_trans by blast
  ultimately show ?case using IH(1,2,3) ds
    by (intro exI [of _ ds'] exI [of _ "?a # got"] exI [of _ objs']) auto
qed

lemma free_devs_update:
  assumes "i < length pools"
  shows "free_devs (pools[i := p]) + mset (pool_devs (pools ! i)) = free_devs pools + mset (pool_devs p)"
  using assms
proof (induction pools arbitrary: i)
  case (Cons q qs)
  then show ?case by (cases i) (auto simp: ac_simps)
qed simp

abbreviation wf_pools :: "pool list \<Rightarrow> bool" where
  "wf_pools pools \<equiv> list_all wf_pool pools"

lemma consume_from_spec:
  assumes "distinct is" and "\<forall>i \<in> set is. i < length pools" and "wf_pools pools"
    and "0 \<le> c" and "c \<le> sum_list (map (\<lambda>i. pool_count (pools ! i)) is)"
  shows "\<exists>pools' objs' got. consume_from is rid c (pools, objs, alloc) = Inr (pools', objs', alloc @ got) \<and>
    wf_pools pools' \<and> int (length got) = c \<and> free_devs pools = free_devs pools' + mset got \<and>
    objs_rel objs' objs"
  using assms
proof (induction "is" arbitrary: c pools objs alloc)
  case Nil
  then show ?case by auto
next
  case (Cons i "is")
  let ?p = "pools ! i"
  define n where "n = (if pool_count ?p \<ge> c then c else pool_count ?p)"
  let ?q = "?p\<lparr>pool_count := pool_count ?p - n\<rparr>"
  have i: "i < length pools" and wf: "wf_pool ?p" using Cons.prems(2,3) by (auto simp: list_all_length)
  then have d: "pool_devices ?q = Some (pool_devs ?p)" "pool_count ?p = int (length (pool_devs ?p))"
    by (auto simp: wf_pool_devs)
  have n: "0 \<le> n" "n \<le> c" "n \<le> int (length (pool_devs ?p))" using Cons.prems(4) d by (auto simp: n_def)
  then have "nat n \<le> length (pool_devs ?p)" by simp
  from pop_devices_spec [OF d(1) this, of rid objs alloc] obtain ds' got objs' where
    pop: "pop_devices (nat n) rid ?q objs alloc = Inr (?q\<lparr>pool_devices := Some ds'\<rparr>, objs', alloc @ got)"
      "length got = nat n" "length ds' = length (pool_devs ?p) - nat n"
      "mset (pool_devs ?p) = mset ds' + mset got" "objs_rel objs' objs"
    by blast
  let ?pools = "pools[i := ?q\<lparr>pool_devices := Some ds'\<rparr>]"
  have wf': "wf_pools ?pools"
    using Cons.prems(3) i d(2) pop(3) n
    by (auto simp: list_all_length nth_list_update wf_pool_def of_nat_diff)
  have free: "free_devs pools = free_devs ?pools + mset got"
    using free_devs_update [OF i, of "?q\<lparr>pool_devices := Some ds'\<rparr>"] pop(4)
    by (simp add: pool_devs_def ac_simps)
  have step: "consume_from (i # is) rid c (pools, objs, alloc) =
      (if c - n = 0 then Inr (?pools, objs', alloc @ got)
       else consume_from is rid (c - n) (?pools, objs', alloc @ got))"
    using pop(1) by (simp add: n_def Let_def)
  show ?case
  proof (cases "c = n")
    case True
    then show ?thesis using step wf' free pop(2,5) n(1) by auto
  next
    case False
    then have c: "n = pool_count ?p" by (auto simp: n_def split: if_splits)
    have "map (\<lambda>j. pool_count (?pools ! j)) is = map (\<lambda>j. pool_count (pools ! j)) is"
      using Cons.prems(1) by (intro map_cong refl) (metis distinct.simps(2) nth_list_update_neq)
    then have "c - n \<le> sum_list (map (\<lambda>j. pool_count (?pools ! j)) is)"
      using Cons.prems(5) c by (simp del: map_eq_conv)
    from Cons.IH [OF _ _ wf' _ this, of objs' "alloc @ got"] Cons.prems(1,2) n
    obtain pools2 objs2 got2 where
      2: "consume_from is rid (c - n) (?pools, objs', alloc @ got) = Inr (pools2, objs2, (alloc @ got) @ got2)"
        "wf_pools pools2" "int (length got2) = c - n" "free_devs ?pools = free_devs pools2 + mset got2"
        "objs_rel objs2 objs'"
      by auto
    show ?thesis
      using step False 2 free pop(2,5) n(1) objs_rel_trans
      by (intro exI [of _ pools2] exI [of _ objs2] exI [of _ "got @ got2"])
        (auto simp: ac_simps)
  qed
qed

lemma matching_positions_sum:
  "sum_list (map (\<lambda>i. pool_count (pools ! i)) (matching_positions pools spec cells)) =
   total_count (matching_pools pools spec cells)"
proof -
  have "matching_pools pools spec cells =
      filter (pool_matches spec cells) (map ((!) pools) [0..<length pools])"
    by (simp add: matching_pools_filter map_nth)
  also have "\<dots> = map ((!) pools) (matching_positions pools spec cells)"
    by (simp add: filter_map matching_positions_def matching_pools_filter comp_def cong: filter_cong)
  finally show ?thesis by (simp add: comp_def)
qed

text \<open>Every device of the table belongs to a pool of the whitelist.\<close>

definition whitelisted :: "devspec list \<Rightarrow> devs \<Rightarrow> bool" where
  "whitelisted wl objs \<longleftrightarrow>
     list_all (\<lambda>(a, d). case create_pool_keys_from_dev wl d of Inr (Some _) \<Rightarrow> True | _ \<Rightarrow> False) objs"

lemma create_pool_keys_same:
  assumes "same_but_request d d0"
  shows "create_pool_keys_from_dev wl d = create_pool_keys_from_dev wl d0"
proof -
  have m: "match_pci_obj s d = match_pci_obj s d0" for s
    using assms by (simp add: match_pci_obj_def same_but_request_def)
  have "get_devspec wl d = get_devspec wl d0"
    by (induction wl) (auto simp: m cong: if_cong)
  moreover have "traverse (\<lambda>k. bind (dev_attr d k) (\<lambda>v. Inr (k, v))) pool_keys =
      traverse (\<lambda>k. bind (dev_attr d0 k) (\<lambda>v. Inr (k, v))) pool_keys"
    using assms by (simp add: pool_keys_def same_but_request_def)
  ultimately show ?thesis by (simp add: create_pool_keys_from_dev_def cong: option.case_cong)
qed

lemma whitelisted_rel: "objs_rel objs' objs \<Longrightarrow> whitelisted wl objs \<Longrightarrow> whitelisted wl objs'"
  unfolding objs_rel_def whitelisted_def
  by (induction objs' objs rule: list_all2_induct) (auto simp: create_pool_keys_same split: prod.splits)

lemma whitelistedD:
  "whitelisted wl objs \<Longrightarrow> map_of objs a = Some d \<Longrightarrow> \<exists>attrs. create_pool_keys_from_dev wl d = Inr (Some attrs)"
proof -
  assume "whitelisted wl objs" and "map_of objs a = Some d"
  then have "case create_pool_keys_from_dev wl d of Inr (Some _) \<Rightarrow> True | _ \<Rightarrow> False"
    using map_of_SomeD by (fastforce simp: whitelisted_def list_all_iff)
  then show ?thesis by (auto split: sum.splits option.splits)
qed

lemma keys_rel: "objs_rel objs' objs \<Longrightarrow> keys objs' = keys objs"
  unfolding objs_rel_def by (induction objs' objs rule: list_all2_induct) auto

lemma find_pool_wf:
  "wf_pools pools \<Longrightarrow> \<exists>f. find_pool pools attrs = Inr f \<and> (\<forall>p. f = Some p \<longrightarrow> p \<in> set pools)"
  by (induction pools) (auto simp: wf_pool_def split: option.splits)

lemma free_devs_update_first:
  "p \<in> set pools \<Longrightarrow> free_devs (update_first p q pools) + mset (pool_devs p) = free_devs pools + mset (pool_devs q)"
  by (induction pools) (auto simp: ac_simps)

lemma free_devs_sort: "free_devs (sort_key f pools) = free_devs pools"
proof -
  have "mset (concat (map pool_devs xs)) = \<Sum>\<^sub># (image_mset (mset \<circ> pool_devs) (mset xs))" for xs
    by (induction xs) auto
  then show ?thesis by simp
qed

text \<open>Adding a device of the whitelist never fails and makes exactly that device free.\<close>

lemma add_device_spec:
  assumes "wf_pools pools" and "create_pool_keys_from_dev wl dev = Inr (Some attrs)"
  shows "\<exists>pools'. add_device wl addr dev pools = Inr pools' \<and> wf_pools pools' \<and>
    free_devs pools' = free_devs pools + {#addr#}"
proof -
  obtain f where f: "find_pool pools attrs = Inr f" "\<forall>p. f = Some p \<longrightarrow> p \<in> set pools"
    using find_pool_wf [OF assms(1)] by blast
  show ?thesis
  proof (cases f)
    case None
    then show ?thesis using f assms
      by (simp add: add_device_def free_devs_sort list_all_iff wf_pool_def pool_devs_def)
  next
    case (Some p)
    then have p: "p \<in> set pools" "wf_pool p" using f assms(1) by (auto simp: list_all_iff)
    let ?q = "p\<lparr>pool_count := pool_count p + 1,
                pool_devices := map_option (\<lambda>ds. ds @ [addr]) (pool_devices p)\<rparr>"
    have "wf_pool ?q" using p(2) by (auto simp: wf_pool_def split: option.splits)
    moreover have "pool_devs ?q = pool_devs p @ [addr]"
      using p(2) by (auto simp: wf_pool_def pool_devs_def split: option.splits)
    ultimately show ?thesis
      using Some f(1) assms free_devs_update_first [OF p(1), of ?q] set_update_first_subset [of p ?q pools]
      by (auto simp: add_device_def list_all_iff)
  qed
qed

lemma give_back_spec:
  assumes "wf_pools pools" and "whitelisted wl objs" and "set alloc \<subseteq> set (keys objs)"
  shows "\<exists>pools'. give_back wl objs alloc pools = Inr pools' \<and> wf_pools pools' \<and>
    free_devs pools' = free_devs pools + mset alloc"
  using assms(1,3)
proof (induction alloc arbitrary: pools rule: rev_induct)
  case Nil
  then show ?case by (simp add: give_back_def)
next
  case (snoc a alloc)
  then obtain d where d: "map_of objs a = Some d"
    by (cases "map_of objs a") (auto simp: map_of_eq_None_iff)
  then obtain attrs where "create_pool_keys_from_dev wl d = Inr (Some attrs)"
    using whitelistedD [OF assms(2)] by blast
  from add_device_spec [OF snoc.prems(1) this, of a] obtain pools1 where
    1: "add_device wl a d pools = Inr pools1" "wf_pools pools1" "free_devs pools1 = free_devs pools + {#a#}"
    by blast
  with snoc.IH [OF 1(2)] snoc.prems(2) d show ?case
    by (auto simp: give_back_def dict_index_def)
qed

lemma consume_loop_spec:
  assumes "wf_pools pools" and "\<forall>r \<in> set rs. 0 \<le> req_count r" and "whitelisted wl objs"
    and "set alloc \<subseteq> set (keys objs)" and "set_mset (free_devs pools) \<subseteq> set (keys objs)"
  shows "\<exists>pools' objs' res. consume_loop wl rs cells (pools, objs, alloc) = Inr (pools', objs', res) \<and>
    wf_pools pools' \<and> objs_rel objs' objs \<and>
    (case res of
       None \<Rightarrow> free_devs pools' = free_devs pools + mset alloc
     | Some alloc' \<Rightarrow> free_devs pools + mset alloc = free_devs pools' + mset alloc' \<and>
         int (length alloc') = int (length alloc) + sum_list (map req_count rs))"
  using assms
proof (induction rs arbitrary: pools objs alloc)
  case Nil
  then show ?case by auto
next
  case (Cons r rs)
  let ?is = "matching_positions pools (req_spec r) cells"
  show ?case
  proof (cases "total_count (matching_pools pools (req_spec r) cells) < req_count r")
    case True
    then show ?thesis using give_back_spec [OF Cons.prems(1,3,4)] by fastforce
  next
    case False
    then have "req_count r \<le> sum_list (map (\<lambda>i. pool_count (pools ! i)) ?is)"
      by (simp add: matching_positions_sum)
    moreover have "distinct ?is" "\<forall>i \<in> set ?is. i < length pools"
      by (auto simp: matching_positions_def)
    ultimately obtain pools1 objs1 got where
      1: "consume_from ?is (req_request_id r) (req_count r) (pools, objs, alloc) =
            Inr (pools1, objs1, alloc @ got)"
        "wf_pools pools1" "int (length got) = req_count r" "free_devs pools = free_devs pools1 + mset got"
        "objs_rel objs1 objs"
      using consume_from_spec Cons.prems(1,2) by (metis list.set_intros(1))
    have k: "set (keys objs1) = set (keys objs)" using keys_rel [OF 1(5)] by simp
    have s: "set_mset (free_devs pools) = set_mset (free_devs pools1) \<union> set got" using 1(4) by simp
    have "set (alloc @ got) \<subseteq> set (keys objs1)" "set_mset (free_devs pools1) \<subseteq> set (keys objs1)"
      using Cons.prems(4,5) unfolding k s by auto
    from Cons.IH [OF 1(2) _ whitelisted_rel [OF 1(5) Cons.prems(3)] this] Cons.prems(2)
    obtain pools2 objs2 res where
      2: "consume_loop wl rs cells (pools1, objs1, alloc @ got) = Inr (pools2, objs2, res)" "wf_pools pools2"
        "objs_rel objs2 objs1"
        "case res of None \<Rightarrow> free_devs pools2 = free_devs pools1 + mset (alloc @ got)
         | Some alloc' \<Rightarrow> free_devs pools1 + mset (alloc @ got) = free_devs pools2 + mset alloc' \<and>
             int (length alloc') = int (length (alloc @ got)) + sum_list (map req_count rs)"
      by auto
    then show ?thesis using False 1 objs_rel_trans [OF 2(3) 1(5)]
      by (auto simp: ac_simps split: option.splits)
  qed
qed

text \<open>C22: taking devices for an instance never raises and never loses or duplicates a device: on
  success exactly the requested number of devices has moved from the pools to the instance, and on
  failure the roll back leaves exactly the devices free that were free before. In both cases every
  pool still counts its devices.\<close>

theorem consume_requests_conserves:
  assumes "wf_pools pools" and "\<forall>r \<in> set requests. 0 \<le> req_count r" and "whitelisted wl objs"
    and "set_mset (free_devs pools) \<subseteq> set (keys objs)"
  shows "\<exists>pools' objs' res. consume_requests wl requests cells pools objs = Inr (pools', objs', res) \<and>
    wf_pools pools' \<and>
    (case res of
       None \<Rightarrow> free_devs pools' = free_devs pools
     | Some alloc \<Rightarrow> free_devs pools = free_devs pools' + mset alloc \<and>
         int (length alloc) = sum_list (map req_count requests))"
  using consume_loop_spec [OF assms(1-3), of "[]" cells] assms(4)
  by (simp add: consume_requests_def cong: option.case_cong) blast

abbreviation any_spec :: devspec where
  "any_spec \<equiv> \<lparr>spec_vendor_id = ANY, spec_product_id = ANY, spec_address = any_address False,
     spec_tags = []\<rparr>"

abbreviation nic :: pci_device where
  "nic \<equiv> \<lparr>dev_status = AVAILABLE, dev_owner = None,
     dev_attrs = [(''address'', PStr ''0000:0a:00.1''), (''product_id'', PStr ''1520''),
       (''vendor_id'', PStr ''8086''), (''numa_node'', PInt 0), (''parent_addr'', PNone)],
     dev_extra_info = []\<rparr>"

theorem consume_requests_conserves_witness:
  "case consume_requests [any_spec] [nic_request 1] [] [(nic_pool 0 1)\<lparr>pool_devices := Some [''0000:0a:00.1'']\<rparr>]
       [(''0000:0a:00.1'', nic)] of
     Inr (pools', objs', Some alloc) \<Rightarrow> {#''0000:0a:00.1''#} = free_devs pools' + mset alloc \<and> length alloc = 1
   | _ \<Rightarrow> False"
proof -
  let ?pools = "[(nic_pool 0 1)\<lparr>pool_devices := Some [''0000:0a:00.1'']\<rparr>]"
  let ?objs = "[(''0000:0a:00.1'', nic)]"
  have wf: "wf_pools ?pools" by (simp add: wf_pool_def)
  have wl: "whitelisted [any_spec] ?objs" by code_simp
  have sub: "set_mset (free_devs ?pools) \<subseteq> set (keys ?objs)" by (simp add: pool_devs_def)
  have some: "case consume_requests [any_spec] [nic_request 1] [] ?pools ?objs of
      Inr (_, _, None) \<Rightarrow> False | _ \<Rightarrow> True" by code_simp
  show ?thesis
    using consume_requests_conserves [OF wf _ wl sub, of "[nic_request 1]" "[]"] some
    by (auto simp: pool_devs_def split: option.splits)
qed

end
