(* ===== verification/PciTracker.thy ===== *)
theory PciTracker
  imports PciStats
begin

text \<open>
  The PCI device tracker of a compute node (nova/pci/manager.py): the table of device objects, the
  pools of free devices and the devices claimed for and allocated to each guest. A device object is
  named by its address, under which every list holds it; owners are optional uuids, as the device
  stores them. The requests and NUMA cells of a guest come from the database and are arguments. An
  exception leaves the tracker half updated, which only its value records here.
\<close>

section \<open>State\<close>

record pci_tracker =
  trk_node :: "int option"
  trk_devs :: devs
  trk_pools :: "pool list"
  trk_claims :: "(string option, string list) dict"
  trk_allocs :: "(string option, string list) dict"
  trk_stale :: "(string, props) dict"

definition append_at :: "string option \<Rightarrow> string \<Rightarrow> (string option, string list) dict \<Rightarrow> (string option, string list) dict" where
  "append_at u addr d = AList.update u (dict_get d u [] @ [addr]) d"

definition initial_usage :: "devspec list \<Rightarrow> string \<times> pci_device \<Rightarrow> pci_tracker \<Rightarrow> pci_tracker result" where
  "initial_usage wl ad t =
     (let (addr, dev) = ad in
      case dev_status dev of
        CLAIMED \<Rightarrow> Inr (t\<lparr>trk_claims := append_at (dev_owner dev) addr (trk_claims t)\<rparr>)
      | ALLOCATED \<Rightarrow> Inr (t\<lparr>trk_allocs := append_at (dev_owner dev) addr (trk_allocs t)\<rparr>)
      | AVAILABLE \<Rightarrow> bind (add_device wl addr dev (trk_pools t)) (\<lambda>ps. Inr (t\<lparr>trk_pools := ps\<rparr>))
      | _ \<Rightarrow> Inr t)"

text \<open>\<open>stored\<close> is what the database holds for the node; it is asked only for a node id that is true.\<close>

definition init_tracker :: "devspec list \<Rightarrow> int option \<Rightarrow> devs \<Rightarrow> pci_tracker result" where
  "init_tracker wl node stored =
     (let devs = (if node \<noteq> None \<and> node \<noteq> Some 0 then stored else []) in
      loop (initial_usage wl) devs
        \<lparr>trk_node = node, trk_devs = devs, trk_pools = [], trk_claims = [], trk_allocs = [], trk_stale = []\<rparr>)"

section \<open>Saving\<close>

text \<open>Saving a removed device marks it deleted. Deleted entries are removed from the list while it is
  being iterated over, so the entry after a removed one is passed over.\<close>

definition save_device :: "pci_device \<Rightarrow> pci_device" where
  "save_device dev = (if dev_status dev = REMOVED then dev\<lparr>dev_status := DELETED\<rparr> else dev)"

fun save_devs :: "(string \<Rightarrow> bool) \<Rightarrow> devs \<Rightarrow> devs" where
  "save_devs changed [] = []"
| "save_devs changed [(a, d)] =
     (if changed a \<and> dev_status (save_device d) = DELETED then []
      else [(a, if changed a then save_device d else d)])"
| "save_devs changed ((a, d) # x # ds) =
     (if changed a \<and> dev_status (save_device d) = DELETED then x # save_devs changed ds
      else (a, if changed a then save_device d else d) # save_devs changed (x # ds))"

definition save_tracker :: "(string \<Rightarrow> bool) \<Rightarrow> pci_tracker \<Rightarrow> pci_tracker" where
  "save_tracker changed t = t\<lparr>trk_devs := save_devs changed (trk_devs t)\<rparr>"

section \<open>Reports of the hypervisor\<close>

definition set_node_id :: "int option \<Rightarrow> props \<Rightarrow> props" where
  "set_node_id node dev = AList.update ''compute_node_id'' (opt_int node) dev"

text \<open>One device of the table: gone, or reported again and updated at once or when it is free.\<close>

definition sync_existing ::
    "devspec list \<Rightarrow> (pval \<times> props) list \<Rightarrow> string \<Rightarrow> pci_tracker \<Rightarrow> pci_tracker result" where
  "sync_existing wl reported addr t =
     bind (dict_index (trk_devs t) addr) (\<lambda>existed.
       case map_of reported (PStr addr) of
         None \<Rightarrow>
           (case remove_dev existed of
              Inl PciDeviceInvalidStatus \<Rightarrow>
                Inr (t\<lparr>trk_devs := AList.update addr (existed\<lparr>dev_status := REMOVED\<rparr>) (trk_devs t)\<rparr>)
            | Inl e \<Rightarrow> Inl e
            | Inr dev \<Rightarrow>
                bind (remove_device wl addr dev (trk_pools t)) (\<lambda>ps.
                  Inr (t\<lparr>trk_devs := AList.update addr dev (trk_devs t), trk_pools := ps\<rparr>)))
       | Some value \<Rightarrow>
           (let new_value = set_node_id (trk_node t) value in
            if dev_status existed \<in> {CLAIMED, ALLOCATED}
            then Inr (t\<lparr>trk_stale := AList.update addr new_value (trk_stale t)\<rparr>)
            else Inr (t\<lparr>trk_devs := AList.update addr (update_device new_value existed) (trk_devs t)\<rparr>)))"

definition add_new :: "devspec list \<Rightarrow> string \<times> props \<Rightarrow> pci_tracker \<Rightarrow> pci_tracker result" where
  "add_new wl ad t =
     (let dev = create_device (set_node_id (trk_node t) (snd ad)) in
      bind (add_device wl (fst ad) dev (trk_pools t)) (\<lambda>ps.
        Inr (t\<lparr>trk_devs := trk_devs t @ [(fst ad, dev)], trk_pools := ps\<rparr>)))"

text \<open>Devices are reported under distinct addresses, which are texts.\<close>

definition set_hvdevs :: "devspec list \<Rightarrow> props list \<Rightarrow> pci_tracker \<Rightarrow> pci_tracker result" where
  "set_hvdevs wl devices t =
     bind (traverse (\<lambda>dev. bind (dict_index dev ''address'') (\<lambda>a. Inr (a, dev))) devices) (\<lambda>reported.
     bind (loop (sync_existing wl reported) (keys (trk_devs t)) t) (\<lambda>t'.
       loop (add_new wl)
         (concat (map (\<lambda>(a, dev). case a of
            PStr s \<Rightarrow> if s \<in> set (keys (trk_devs t)) then [] else [(s, dev)] | _ \<Rightarrow> []) reported)) t'))"

definition update_devices :: "devspec list \<Rightarrow> props list \<Rightarrow> pci_tracker \<Rightarrow> pci_tracker result" where
  "update_devices wl loaded t =
     bind (traverse (\<lambda>dev. bind (device_assignable wl dev) (\<lambda>b. Inr (b, dev))) loaded) (\<lambda>tagged.
       set_hvdevs wl (map snd (filter fst tagged)) t)"

section \<open>Claiming and allocating\<close>

definition claim_dev :: "string \<Rightarrow> string \<Rightarrow> devs \<Rightarrow> devs result" where
  "claim_dev uuid addr objs =
     bind (dict_index objs addr) (\<lambda>d. bind (claim uuid d) (\<lambda>d'. Inr (AList.update addr d' objs)))"

definition claim_devices ::
    "devspec list \<Rightarrow> pci_request list \<Rightarrow> int list \<Rightarrow> string \<Rightarrow> pci_tracker \<Rightarrow>
     (pci_tracker \<times> string list) result" where
  "claim_devices wl reqs cells uuid t =
     (if reqs = [] then Inr (t, [])
      else bind (consume_requests wl reqs cells (trk_pools t) (trk_devs t)) (\<lambda>(pools, objs, res).
        let t1 = t\<lparr>trk_pools := pools, trk_devs := objs\<rparr> in
        case res of
          None \<Rightarrow> Inr (t1, [])
        | Some devs \<Rightarrow>
            bind (loop (claim_dev uuid) devs objs) (\<lambda>objs'. Inr (t1\<lparr>trk_devs := objs'\<rparr>, devs))))"

text \<open>The empty list stands for both values of the code that are not true, \<open>None\<close> and the empty list.\<close>

definition claim_instance ::
    "devspec list \<Rightarrow> pci_request list \<Rightarrow> int list \<Rightarrow> string \<Rightarrow> pci_tracker \<Rightarrow>
     (pci_tracker \<times> string list) result" where
  "claim_instance wl reqs cells uuid t =
     (if trk_devs t = [] then Inr (t, [])
      else bind (claim_devices wl reqs cells uuid t) (\<lambda>(t1, devs).
        Inr (if devs = [] then t1 else t1\<lparr>trk_claims := AList.update (Some uuid) devs (trk_claims t1)\<rparr>, devs)))"

definition allocate_dev :: "string \<Rightarrow> devs \<times> inst_obj \<Rightarrow> (devs \<times> inst_obj) result" where
  "allocate_dev addr st =
     bind (dict_index (fst st) addr) (\<lambda>d. bind (allocate (snd st) d) (\<lambda>(d', inst').
       Inr (AList.update addr d' (fst st), inst')))"

definition allocate_instance :: "inst_obj \<Rightarrow> pci_tracker \<Rightarrow> (pci_tracker \<times> inst_obj) result" where
  "allocate_instance inst t =
     (let u = Some (inst_uuid inst); devs = dict_get (trk_claims t) u [] in
      bind (loop allocate_dev devs (trk_devs t, inst)) (\<lambda>(objs, inst').
        Inr (t\<lparr>trk_claims := AList.delete u (trk_claims t), trk_devs := objs,
               trk_allocs := (if devs = [] then trk_allocs t
                              else AList.update u (dict_get (trk_allocs t) u [] @ devs) (trk_allocs t))\<rparr>,
             inst')))"

section \<open>Freeing\<close>

definition free_device :: "devspec list \<Rightarrow> string \<Rightarrow> pci_tracker \<Rightarrow> pci_tracker result" where
  "free_device wl addr t =
     bind (dict_index (trk_devs t) addr) (\<lambda>d.
       let (dev, r) = free_dev None d in
       bind r (\<lambda>_.
         let dev' = (case map_of (trk_stale t) addr of
                       Some (v # vs) \<Rightarrow> update_device (v # vs) dev | _ \<Rightarrow> dev) in
         bind (add_device wl addr dev' (trk_pools t)) (\<lambda>ps.
           Inr (t\<lparr>trk_devs := AList.update addr dev' (trk_devs t),
                  trk_stale := AList.delete addr (trk_stale t), trk_pools := ps\<rparr>))))"

definition held_by :: "string \<Rightarrow> pci_device \<Rightarrow> bool" where
  "held_by uuid d \<longleftrightarrow> dev_status d \<in> {CLAIMED, ALLOCATED} \<and> dev_owner d = Some uuid"

definition free_owned :: "devspec list \<Rightarrow> string \<Rightarrow> pci_tracker \<Rightarrow> pci_tracker result" where
  "free_owned wl uuid t =
     loop (\<lambda>addr t'. bind (dict_index (trk_devs t') addr) (\<lambda>d.
       if held_by uuid d then free_device wl addr t' else Inr t')) (keys (trk_devs t)) t"

definition free_instance :: "devspec list \<Rightarrow> string \<Rightarrow> pci_tracker \<Rightarrow> pci_tracker result" where
  "free_instance wl uuid t =
     (let t1 = t\<lparr>trk_allocs := AList.delete (Some uuid) (trk_allocs t)\<rparr>;
          t2 = t1\<lparr>trk_claims := AList.delete (Some uuid) (trk_claims t)\<rparr>
      in if dict_get (trk_allocs t) (Some uuid) [] \<noteq> [] then free_owned wl uuid t1
         else if dict_get (trk_claims t) (Some uuid) [] \<noteq> [] then free_owned wl uuid t2
         else Inr t2)"

text \<open>The sign of the two callers: 1 or -1.\<close>

definition update_pci_for_instance ::
    "devspec list \<Rightarrow> inst_obj \<Rightarrow> int \<Rightarrow> pci_tracker \<Rightarrow> (pci_tracker \<times> inst_obj) result" where
  "update_pci_for_instance wl inst sign t =
     (if trk_devs t = [] then Inr (t, inst)
      else if sign = -1 then bind (free_instance wl (inst_uuid inst) t) (\<lambda>t'. Inr (t', inst))
      else if sign = 1 then allocate_instance inst t
      else Inr (t, inst))"

definition update_pci_for_migration ::
    "devspec list \<Rightarrow> pci_request list \<Rightarrow> int list \<Rightarrow> string \<Rightarrow> int \<Rightarrow> pci_tracker \<Rightarrow> pci_tracker result" where
  "update_pci_for_migration wl reqs cells uuid sign t =
     (if sign = 1 \<and> Some uuid \<notin> set (keys (trk_claims t)) then
        bind (claim_devices wl reqs cells uuid t) (\<lambda>(t1, devs).
          Inr (if devs = [] then t1 else t1\<lparr>trk_claims := AList.update (Some uuid) devs (trk_claims t1)\<rparr>))
      else if sign = -1 \<and> Some uuid \<in> set (keys (trk_claims t)) then free_owned wl uuid t
      else Inr t)"

definition clean_claim :: "devspec list \<Rightarrow> string option set \<Rightarrow> string option \<Rightarrow> pci_tracker \<Rightarrow> pci_tracker result" where
  "clean_claim wl existed u t =
     (if u \<in> existed then Inr t
      else loop (free_device wl) (dict_get (trk_claims t) u [])
             (t\<lparr>trk_claims := AList.delete u (trk_claims t)\<rparr>))"

definition clean_alloc :: "devspec list \<Rightarrow> string option set \<Rightarrow> string option \<Rightarrow> pci_tracker \<Rightarrow> pci_tracker result" where
  "clean_alloc wl existed u t =
     (if u \<in> existed then Inr t
      else loop (free_device wl) (dict_get (trk_allocs t) u [])
             (t\<lparr>trk_allocs := AList.delete u (trk_allocs t)\<rparr>))"

definition clean_usage ::
    "devspec list \<Rightarrow> string list \<Rightarrow> string list \<Rightarrow> string list \<Rightarrow> pci_tracker \<Rightarrow> pci_tracker result" where
  "clean_usage wl instances migrations orphans t =
     (let existed = Some ` (set instances \<union> set migrations \<union> set orphans) in
      bind (loop (clean_claim wl existed) (keys (trk_claims t)) t) (\<lambda>t'.
        loop (clean_alloc wl existed) (keys (trk_allocs t')) t'))"

definition get_instance_pci_devs :: "inst_obj \<Rightarrow> pval \<Rightarrow> pci_device list result" where
  "get_instance_pci_devs inst request_id =
     bind (traverse (\<lambda>d. bind (dev_attr d ''request_id'') (\<lambda>r. Inr (r, d))) (inst_pci_devices inst)) (\<lambda>rds.
       Inr (map snd (filter (\<lambda>(r, d). r = request_id \<or> request_id = PStr ''all'') rds)))"

section \<open>Who has which device\<close>

definition avail :: "devs \<Rightarrow> string set" where
  "avail objs = {a. \<exists>d. map_of objs a = Some d \<and> dev_status d = AVAILABLE}"

definition holds :: "devs \<Rightarrow> pci_status \<Rightarrow> string option \<Rightarrow> string set" where
  "holds objs s u = {a. \<exists>d. map_of objs a = Some d \<and> dev_status d = s \<and> dev_owner d = u}"

definition listed :: "devspec list \<Rightarrow> pci_device \<Rightarrow> bool" where
  "listed wl d \<longleftrightarrow> (\<exists>attrs. create_pool_keys_from_dev wl d = Inr (Some attrs))"

definition stale_ok :: "devspec list \<Rightarrow> pci_tracker \<Rightarrow> bool" where
  "stale_ok wl t \<longleftrightarrow> (\<forall>a p d. map_of (trk_stale t) a = Some p \<longrightarrow> listed wl (update_device p d))"

text \<open>
  The books of a tracker in the middle of an operation: \<open>F\<close> are the devices that are available and in
  no pool, \<open>cl\<close> and \<open>al\<close> the devices each guest has claimed and been given.
\<close>

definition books ::
    "devspec list \<Rightarrow> pci_tracker \<Rightarrow> string list \<Rightarrow> (string option \<Rightarrow> string set) \<Rightarrow>
     (string option \<Rightarrow> string set) \<Rightarrow> bool" where
  "books wl t F cl al \<longleftrightarrow>
     wf_dict (trk_devs t) \<and> wf_pools (trk_pools t) \<and> whitelisted wl (trk_devs t) \<and> stale_ok wl t \<and>
     free_devs (trk_pools t) + mset F = mset_set (avail (trk_devs t)) \<and>
     holds (trk_devs t) CLAIMED = cl \<and> holds (trk_devs t) ALLOCATED = al"

definition claimed_by :: "pci_tracker \<Rightarrow> string option \<Rightarrow> string set" where
  "claimed_by t u = set (dict_get (trk_claims t) u [])"

definition allocated_to :: "pci_tracker \<Rightarrow> string option \<Rightarrow> string set" where
  "allocated_to t u = set (dict_get (trk_allocs t) u [])"

definition trk_inv :: "devspec list \<Rightarrow> pci_tracker \<Rightarrow> bool" where
  "trk_inv wl t \<longleftrightarrow> books wl t [] (claimed_by t) (allocated_to t) \<and>
     (\<forall>u. distinct (dict_get (trk_claims t) u [])) \<and> (\<forall>u. distinct (dict_get (trk_allocs t) u []))"

lemma keys_update_same: "a \<in> set (keys d) \<Longrightarrow> keys (AList.update a v d) = keys d"
  by (induction d) auto

lemma whitelisted_iff: "whitelisted wl objs \<longleftrightarrow> (\<forall>(a, d) \<in> set objs. listed wl d)"
proof -
  have "(case r of Inr (Some _) \<Rightarrow> True | _ \<Rightarrow> False) \<longleftrightarrow> (\<exists>attrs. r = Inr (Some attrs))"
    for r :: "props option result"
    by (auto split: sum.splits option.splits)
  then show ?thesis unfolding whitelisted_def listed_def list_all_iff by simp
qed

lemma whitelisted_update: "whitelisted wl objs \<Longrightarrow> listed wl d \<Longrightarrow> whitelisted wl (AList.update a d objs)"
  unfolding whitelisted_iff by (induction objs) (auto split: if_splits)

lemma listed_same: "same_but_request d d0 \<Longrightarrow> listed wl d = listed wl d0"
  by (simp add: listed_def create_pool_keys_same)

lemma listed_frame [simp]:
  "listed wl (d\<lparr>dev_status := s, dev_owner := u\<rparr>) = listed wl d"
  "listed wl (set_attr ''request_id'' v d) = listed wl d"
  by (rule listed_same; simp add: same_but_request_def dev_attr_def set_attr_def)+

lemma avail_keys: "avail objs \<subseteq> set (keys objs)"
  by (force simp: avail_def dest: map_of_SomeD)

lemma finite_avail [simp]: "finite (avail objs)"
  by (rule finite_subset [OF avail_keys]) simp

lemma sub_mset_set:
  assumes "finite A" and "mset xs \<subseteq># mset_set A"
  shows "distinct xs \<and> set xs \<subseteq> A"
proof
  have le: "count (mset xs) a \<le> 1" for a
  proof (rule le_trans [OF mset_subset_eq_count [OF assms(2)]])
    show "count (mset_set A) a \<le> 1" by (cases "a \<in> A") (simp_all add: assms(1))
  qed
  have "count (mset xs) a = (if a \<in> set xs then 1 else 0)" for a
    using le [of a] count_eq_zero_iff [of "mset xs" a] by (cases "a \<in> set xs") (auto simp: le_Suc_eq)
  then show "distinct xs" by (simp add: distinct_count_atmost_1)
  show "set xs \<subseteq> A" using set_mset_mono [OF assms(2)] assms(1) by simp
qed

lemma avail_update:
  "avail (AList.update a d objs) = (if dev_status d = AVAILABLE then insert a (avail objs) else avail objs - {a})"
  by (auto simp: avail_def)

lemma holds_update:
  "holds (AList.update a d objs) s u =
     (if dev_status d = s \<and> dev_owner d = u then insert a (holds objs s u) else holds objs s u - {a})"
  by (auto simp: holds_def)

lemma holdsD: "a \<in> holds objs s u \<Longrightarrow> \<exists>d. map_of objs a = Some d \<and> dev_status d = s \<and> dev_owner d = u"
  by (simp add: holds_def)

lemma whitelisted_listed: "whitelisted wl objs \<Longrightarrow> map_of objs a = Some d \<Longrightarrow> listed wl d"
  unfolding listed_def by (rule whitelistedD)

text \<open>A device is in one place only.\<close>

lemma holds_apart: "a \<in> holds objs s u \<Longrightarrow> a \<in> holds objs s' u' \<Longrightarrow> s = s' \<and> u = u'"
  by (auto simp: holds_def)

lemma holds_not_avail: "a \<in> holds objs s u \<Longrightarrow> s \<noteq> AVAILABLE \<Longrightarrow> a \<notin> avail objs"
  by (auto simp: holds_def avail_def)

section \<open>Steps on one device\<close>

lemma booksD:
  assumes "books wl t F cl al"
  shows "wf_dict (trk_devs t)" "wf_pools (trk_pools t)" "whitelisted wl (trk_devs t)" "stale_ok wl t"
    "free_devs (trk_pools t) + mset F = mset_set (avail (trk_devs t))"
    "holds (trk_devs t) CLAIMED = cl" "holds (trk_devs t) ALLOCATED = al"
  using assms unfolding books_def by blast+

lemma books_claim:
  assumes b: "books wl t (a # F) cl al"
  shows "\<exists>objs. claim_dev uuid a (trk_devs t) = Inr objs \<and>
    books wl (t\<lparr>trk_devs := objs\<rparr>) F (cl(Some uuid := insert a (cl (Some uuid)))) al"
proof -
  note B = booksD [OF b]
  have "a \<in># mset_set (avail (trk_devs t))" using B(5) by (metis list.set_intros(1) set_mset_mset union_iff)
  then have "a \<in> avail (trk_devs t)" by simp
  then obtain d where d: "map_of (trk_devs t) a = Some d" "dev_status d = AVAILABLE"
    unfolding avail_def by blast
  let ?d = "d\<lparr>dev_status := CLAIMED, dev_owner := Some uuid\<rparr>"
  let ?objs = "AList.update a ?d (trk_devs t)"
  have out: "a \<notin> holds (trk_devs t) s u" if "s \<noteq> AVAILABLE" for s u using d that by (auto simp: holds_def)
  have a: "a \<in> avail (trk_devs t)" using d by (simp add: avail_def)
  have "free_devs (trk_pools t) + mset F = mset_set (avail ?objs)"
    using B(5) a by (simp add: avail_update mset_set_Diff)
      (metis add_mset_remove_trivial union_mset_add_mset_right)
  moreover have "holds ?objs CLAIMED = cl(Some uuid := insert a (cl (Some uuid)))"
    unfolding fun_eq_iff holds_update B(6) [symmetric] using out by auto
  moreover have "holds ?objs ALLOCATED = al"
    unfolding fun_eq_iff holds_update B(7) [symmetric] using out by auto
  moreover have "whitelisted wl ?objs"
    using B(3) whitelisted_listed [OF B(3) d(1)] by (intro whitelisted_update) simp_all
  ultimately have "books wl (t\<lparr>trk_devs := ?objs\<rparr>) F (cl(Some uuid := insert a (cl (Some uuid)))) al"
    using B unfolding books_def stale_ok_def by simp
  then show ?thesis using d by (simp add: claim_dev_def claim_def dict_index_def)
qed

lemma books_allocate:
  assumes b: "books wl t F cl al" and a: "a \<in> cl (Some (inst_uuid inst))"
  shows "\<exists>objs inst'. allocate_dev a (trk_devs t, inst) = Inr (objs, inst') \<and> inst_uuid inst' = inst_uuid inst \<and>
    books wl (t\<lparr>trk_devs := objs\<rparr>) F (cl(Some (inst_uuid inst) := cl (Some (inst_uuid inst)) - {a}))
      (al(Some (inst_uuid inst) := insert a (al (Some (inst_uuid inst)))))"
proof -
  note B = booksD [OF b]
  let ?u = "Some (inst_uuid inst)"
  obtain d where d: "map_of (trk_devs t) a = Some d" "dev_status d = CLAIMED" "dev_owner d = ?u"
    using a B(6) holdsD by blast
  let ?d = "d\<lparr>dev_status := ALLOCATED, dev_owner := ?u\<rparr>"
  let ?objs = "AList.update a ?d (trk_devs t)"
  have out: "a \<notin> holds (trk_devs t) s u" if "s \<noteq> CLAIMED \<or> u \<noteq> ?u" for s u
    using d that by (auto simp: holds_def)
  have na: "a \<notin> avail (trk_devs t)" using d by (simp add: avail_def)
  have "holds ?objs CLAIMED = cl(?u := cl ?u - {a})"
    unfolding fun_eq_iff holds_update B(6) [symmetric] using out by auto
  moreover have "holds ?objs ALLOCATED = al(?u := insert a (al ?u))"
    unfolding fun_eq_iff holds_update B(7) [symmetric] using out by auto
  moreover have "whitelisted wl ?objs"
    using B(3) whitelisted_listed [OF B(3) d(1)] by (intro whitelisted_update) simp_all
  ultimately have "books wl (t\<lparr>trk_devs := ?objs\<rparr>) F (cl(?u := cl ?u - {a})) (al(?u := insert a (al ?u)))"
    using B na unfolding books_def stale_ok_def by (simp add: avail_update)
  then show ?thesis using d by (simp add: allocate_dev_def allocate_def dict_index_def Let_def)
qed

lemma books_free:
  assumes b: "books wl t F cl al" and a: "a \<in> cl u \<union> al u"
  shows "\<exists>t'. free_device wl a t = Inr t' \<and> books wl t' F (\<lambda>v. cl v - {a}) (\<lambda>v. al v - {a}) \<and>
    trk_claims t' = trk_claims t \<and> trk_allocs t' = trk_allocs t \<and> keys (trk_devs t') = keys (trk_devs t)"
proof -
  note B = booksD [OF b]
  obtain d where d: "map_of (trk_devs t) a = Some d" "dev_status d \<in> {CLAIMED, ALLOCATED}"
    using a B(6,7) holdsD [of a "trk_devs t"] by blast
  define dev where "dev = set_attr ''request_id'' PNone (d\<lparr>dev_status := AVAILABLE, dev_owner := None\<rparr>)"
  define dev' where "dev' = (case map_of (trk_stale t) a of
      Some (v # vs) \<Rightarrow> update_device (v # vs) dev | _ \<Rightarrow> dev)"
  have free: "free_dev None d = (dev, Inr None)" using d(2) by (auto simp: free_dev_def dev_def Let_def)
  have st: "dev_status dev' = AVAILABLE" "dev_owner dev' = None"
    by (simp_all add: dev'_def dev_def split: option.splits list.splits)
  have "listed wl dev" using whitelisted_listed [OF B(3) d(1)] by (simp add: dev_def)
  then have li: "listed wl dev'"
    using B(4) by (auto simp: dev'_def stale_ok_def split: option.splits list.splits)
  then obtain attrs where "create_pool_keys_from_dev wl dev' = Inr (Some attrs)" unfolding listed_def by blast
  from add_device_spec [OF B(2) this, of a] obtain ps where
    ps: "add_device wl a dev' (trk_pools t) = Inr ps" "wf_pools ps" "free_devs ps = free_devs (trk_pools t) + {#a#}"
    by blast
  let ?t = "t\<lparr>trk_devs := AList.update a dev' (trk_devs t), trk_stale := AList.delete a (trk_stale t), trk_pools := ps\<rparr>"
  have na: "a \<notin> avail (trk_devs t)" using d by (auto simp: avail_def)
  have "free_device wl a t = Inr ?t"
    using d(1) free ps(1) by (simp add: free_device_def dict_index_def dev'_def [symmetric])
  moreover have "holds (trk_devs ?t) CLAIMED = (\<lambda>v. cl v - {a})" "holds (trk_devs ?t) ALLOCATED = (\<lambda>v. al v - {a})"
    by (simp_all add: fun_eq_iff holds_update st B(6,7) [symmetric])
  moreover have "free_devs ps + mset F = mset_set (avail (trk_devs ?t))"
    using B(5) na by (simp add: avail_update st ps(3))
  moreover have "whitelisted wl (trk_devs ?t)" using whitelisted_update [OF B(3) li] by simp
  moreover have "stale_ok wl ?t" using B(4) by (simp add: stale_ok_def)
  moreover have "keys (trk_devs ?t) = keys (trk_devs t)"
    using d(1) by (simp add: keys_update_same domI [of _ a] dom_map_of_conv_image_fst [symmetric])
  ultimately show ?thesis using B(1) ps(2) unfolding books_def by (intro exI [of _ ?t]) simp
qed

section \<open>Loops over devices\<close>

lemma books_cong: "books wl t F cl al \<Longrightarrow> (\<And>v. cl v = cl' v) \<Longrightarrow> (\<And>v. al v = al' v) \<Longrightarrow> books wl t F cl' al'"
  by (simp add: fun_eq_iff books_def)

lemma books_claim_loop:
  "books wl t (as @ F) cl al \<Longrightarrow>
   \<exists>objs. loop (claim_dev uuid) as (trk_devs t) = Inr objs \<and>
     books wl (t\<lparr>trk_devs := objs\<rparr>) F (cl(Some uuid := set as \<union> cl (Some uuid))) al"
proof (induction as arbitrary: t cl)
  case Nil
  then show ?case by (auto simp: fun_upd_idem)
next
  case (Cons a as)
  from books_claim [of wl t a "as @ F" cl al uuid] Cons.prems obtain objs where
    1: "claim_dev uuid a (trk_devs t) = Inr objs"
      "books wl (t\<lparr>trk_devs := objs\<rparr>) (as @ F) (cl(Some uuid := insert a (cl (Some uuid)))) al"
    by auto
  from Cons.IH [OF 1(2)] obtain objs2 where
    2: "loop (claim_dev uuid) as objs = Inr objs2"
      "books wl (t\<lparr>trk_devs := objs2\<rparr>) F ((cl(Some uuid := insert a (cl (Some uuid))))
         (Some uuid := set as \<union> (cl(Some uuid := insert a (cl (Some uuid)))) (Some uuid))) al"
    by (auto simp del: fun_upd_apply)
  have "books wl (t\<lparr>trk_devs := objs2\<rparr>) F (cl(Some uuid := set (a # as) \<union> cl (Some uuid))) al"
    by (rule books_cong [OF 2(2)]) auto
  then show ?case using 1(1) 2(1) by (simp del: fun_upd_apply)
qed

lemma books_allocate_loop:
  "books wl t F cl al \<Longrightarrow> inst_uuid inst = uuid \<Longrightarrow> distinct as \<Longrightarrow> set as \<subseteq> cl (Some uuid) \<Longrightarrow>
   \<exists>objs inst'. loop allocate_dev as (trk_devs t, inst) = Inr (objs, inst') \<and>
     books wl (t\<lparr>trk_devs := objs\<rparr>) F (cl(Some uuid := cl (Some uuid) - set as))
       (al(Some uuid := set as \<union> al (Some uuid)))"
proof (induction as arbitrary: t cl al inst)
  case Nil
  then show ?case by (auto simp: fun_upd_idem)
next
  case (Cons a as)
  from books_allocate [of wl t F cl al a inst] Cons.prems obtain objs inst' where
    1: "allocate_dev a (trk_devs t, inst) = Inr (objs, inst')" "inst_uuid inst' = uuid"
      "books wl (t\<lparr>trk_devs := objs\<rparr>) F (cl(Some uuid := cl (Some uuid) - {a})) (al(Some uuid := insert a (al (Some uuid))))"
    by auto
  let ?cl = "cl(Some uuid := cl (Some uuid) - {a})" and ?al = "al(Some uuid := insert a (al (Some uuid)))"
  have "distinct as" "set as \<subseteq> ?cl (Some uuid)" using Cons.prems by auto
  from Cons.IH [OF 1(3,2) this] obtain objs2 inst2 where
    2: "loop allocate_dev as (objs, inst') = Inr (objs2, inst2)"
      "books wl (t\<lparr>trk_devs := objs2\<rparr>) F (?cl(Some uuid := ?cl (Some uuid) - set as))
        (?al(Some uuid := set as \<union> ?al (Some uuid)))"
    by (auto simp del: fun_upd_apply)
  have "books wl (t\<lparr>trk_devs := objs2\<rparr>) F (cl(Some uuid := cl (Some uuid) - set (a # as)))
      (al(Some uuid := set (a # as) \<union> al (Some uuid)))"
    by (rule books_cong [OF 2(2)]) auto
  then show ?case using 1(1) 2(1) by (simp del: fun_upd_apply)
qed

lemma books_free_loop:
  "books wl t F cl al \<Longrightarrow> distinct as \<Longrightarrow> set as \<subseteq> cl u \<union> al u \<Longrightarrow>
   \<exists>t'. loop (free_device wl) as t = Inr t' \<and> books wl t' F (\<lambda>v. cl v - set as) (\<lambda>v. al v - set as) \<and>
     trk_claims t' = trk_claims t \<and> trk_allocs t' = trk_allocs t"
proof (induction as arbitrary: t cl al)
  case Nil
  then show ?case by auto
next
  case (Cons a as)
  from books_free [of wl t F cl al a u] Cons.prems obtain t1 where
    1: "free_device wl a t = Inr t1" "books wl t1 F (\<lambda>v. cl v - {a}) (\<lambda>v. al v - {a})"
      "trk_claims t1 = trk_claims t" "trk_allocs t1 = trk_allocs t"
    by auto
  have "set as \<subseteq> (cl u - {a}) \<union> (al u - {a})" using Cons.prems by auto
  from Cons.IH [OF 1(2) _ this] Cons.prems obtain t2 where
    2: "loop (free_device wl) as t1 = Inr t2"
      "books wl t2 F (\<lambda>v. cl v - {a} - set as) (\<lambda>v. al v - {a} - set as)"
      "trk_claims t2 = trk_claims t1" "trk_allocs t2 = trk_allocs t1"
    by auto
  have "books wl t2 F (\<lambda>v. cl v - set (a # as)) (\<lambda>v. al v - set (a # as))"
    by (rule books_cong [OF 2(2)]) auto
  then show ?case using 1 2 by simp
qed

lemma books_free_owned_loop:
  "books wl t F cl al \<Longrightarrow> set xs \<subseteq> set (keys (trk_devs t)) \<Longrightarrow>
   \<exists>t'. loop (\<lambda>addr t'. bind (dict_index (trk_devs t') addr) (\<lambda>d.
        if held_by uuid d then free_device wl addr t' else Inr t')) xs t = Inr t' \<and>
     books wl t' F (cl(Some uuid := cl (Some uuid) - set xs)) (al(Some uuid := al (Some uuid) - set xs)) \<and>
     trk_claims t' = trk_claims t \<and> trk_allocs t' = trk_allocs t"
proof (induction xs arbitrary: t cl al)
  case Nil
  then show ?case by (auto simp: fun_upd_idem)
next
  case (Cons a xs)
  note B = booksD [OF Cons.prems(1)]
  have "map_of (trk_devs t) a \<noteq> None" using Cons.prems(2) by (simp add: map_of_eq_None_iff)
  then obtain d where d: "map_of (trk_devs t) a = Some d" by blast
  show ?case
  proof (cases "held_by uuid d")
    case True
    then have here: "a \<in> cl (Some uuid) \<union> al (Some uuid)"
      using d unfolding B(6,7) [symmetric] by (auto simp: held_by_def holds_def)
    have only: "a \<notin> cl v" "a \<notin> al v" if "v \<noteq> Some uuid" for v
      using d True that unfolding B(6,7) [symmetric] by (auto simp: held_by_def holds_def)
    from books_free [OF Cons.prems(1) here] obtain t1 where
      1: "free_device wl a t = Inr t1" "books wl t1 F (\<lambda>v. cl v - {a}) (\<lambda>v. al v - {a})"
        "trk_claims t1 = trk_claims t" "trk_allocs t1 = trk_allocs t" "keys (trk_devs t1) = keys (trk_devs t)"
      by blast
    have "set xs \<subseteq> set (keys (trk_devs t1))" using Cons.prems(2) unfolding 1(5) by simp
    from Cons.IH [OF 1(2) this] obtain t2 where
      2: "loop (\<lambda>addr t'. bind (dict_index (trk_devs t') addr) (\<lambda>d.
          if held_by uuid d then free_device wl addr t' else Inr t')) xs t1 = Inr t2"
        "books wl t2 F ((\<lambda>v. cl v - {a})(Some uuid := cl (Some uuid) - {a} - set xs))
          ((\<lambda>v. al v - {a})(Some uuid := al (Some uuid) - {a} - set xs))"
        "trk_claims t2 = trk_claims t1" "trk_allocs t2 = trk_allocs t1"
      by blast
    have "books wl t2 F (cl(Some uuid := cl (Some uuid) - set (a # xs))) (al(Some uuid := al (Some uuid) - set (a # xs)))"
      by (rule books_cong [OF 2(2)]) (use only in auto)
    then show ?thesis using 1 2 d True by (simp add: dict_index_def del: fun_upd_apply)
  next
    case False
    then have "a \<notin> cl (Some uuid) \<union> al (Some uuid)"
      using d unfolding B(6,7) [symmetric] by (auto simp: held_by_def holds_def)
    moreover from Cons.IH [OF Cons.prems(1)] Cons.prems(2) obtain t2 where
      2: "loop (\<lambda>addr t'. bind (dict_index (trk_devs t') addr) (\<lambda>d.
          if held_by uuid d then free_device wl addr t' else Inr t')) xs t = Inr t2"
        "books wl t2 F (cl(Some uuid := cl (Some uuid) - set xs)) (al(Some uuid := al (Some uuid) - set xs))"
        "trk_claims t2 = trk_claims t" "trk_allocs t2 = trk_allocs t"
      by (auto simp del: fun_upd_apply)
    ultimately have "books wl t2 F (cl(Some uuid := cl (Some uuid) - set (a # xs))) (al(Some uuid := al (Some uuid) - set (a # xs)))"
      by (intro books_cong [OF 2(2)]) auto
    then show ?thesis using 2 d False by (simp add: dict_index_def del: fun_upd_apply)
  qed
qed

section \<open>Operations\<close>

lemma objs_rel_lookup:
  "objs_rel a b \<Longrightarrow> rel_option (\<lambda>x y. dev_status x = dev_status y \<and> dev_owner x = dev_owner y) (map_of a k) (map_of b k)"
  unfolding objs_rel_def by (induction a b rule: list_all2_induct) auto

lemma objs_rel_frame:
  assumes "objs_rel a b"
  shows "avail a = avail b" "holds a = holds b" "wf_dict a = wf_dict b"
proof -
  have R: "rel_option (\<lambda>x y. dev_status x = dev_status y \<and> dev_owner x = dev_owner y) (map_of a k) (map_of b k)" for k
    by (rule objs_rel_lookup [OF assms])
  have "(\<exists>d. map_of a k = Some d \<and> P (dev_status d) (dev_owner d)) \<longleftrightarrow>
      (\<exists>d. map_of b k = Some d \<and> P (dev_status d) (dev_owner d))" for k P
    using R [of k] by (cases "map_of a k"; cases "map_of b k") auto
  from this [of _ "\<lambda>s u. s = AVAILABLE"] this [of _ "\<lambda>s u. s = _ \<and> u = _"]
  show "avail a = avail b" "holds a = holds b" by (simp_all add: avail_def holds_def fun_eq_iff)
  show "wf_dict a = wf_dict b" using keys_rel [OF assms] by simp
qed

lemma free_sub_keys: "books wl t [] cl al \<Longrightarrow> set_mset (free_devs (trk_pools t)) \<subseteq> set (keys (trk_devs t))"
proof -
  assume "books wl t [] cl al"
  then have "free_devs (trk_pools t) = mset_set (avail (trk_devs t))" using booksD(5) by fastforce
  then have "set_mset (free_devs (trk_pools t)) = avail (trk_devs t)" by simp
  then show ?thesis using avail_keys by simp
qed

lemma claim_devices_spec:
  assumes b: "books wl t [] cl al" and pos: "\<forall>r \<in> set reqs. 0 \<le> req_count r"
  shows "\<exists>t' devs. claim_devices wl reqs cells uuid t = Inr (t', devs) \<and> distinct devs \<and>
    set devs \<subseteq> avail (trk_devs t) \<and> (devs = [] \<or> int (length devs) = sum_list (map req_count reqs)) \<and>
    books wl t' [] (cl(Some uuid := set devs \<union> cl (Some uuid))) al \<and>
    trk_claims t' = trk_claims t \<and> trk_allocs t' = trk_allocs t"
proof (cases "reqs = []")
  case True
  then show ?thesis using b by (auto simp: claim_devices_def fun_upd_idem)
next
  case False
  note B = booksD [OF b]
  from consume_loop_spec [OF B(2) pos B(3) _ free_sub_keys [OF b], of "[]" cells] obtain ps objs res where
    1: "consume_requests wl reqs cells (trk_pools t) (trk_devs t) = Inr (ps, objs, res)" "wf_pools ps"
      "objs_rel objs (trk_devs t)"
      "case res of None \<Rightarrow> free_devs ps = free_devs (trk_pools t)
       | Some alloc \<Rightarrow> free_devs (trk_pools t) = free_devs ps + mset alloc \<and>
           int (length alloc) = sum_list (map req_count reqs)"
    by (auto simp: consume_requests_def cong: option.case_cong)
  let ?t = "t\<lparr>trk_pools := ps, trk_devs := objs\<rparr>"
  note R = objs_rel_frame [OF 1(3)]
  have w: "whitelisted wl objs" by (rule whitelisted_rel [OF 1(3) B(3)])
  show ?thesis
  proof (cases res)
    case None
    then have "books wl ?t [] cl al" using B 1(2,4) w R unfolding books_def stale_ok_def by simp
    then show ?thesis using False 1(1) None by (auto simp: claim_devices_def fun_upd_idem)
  next
    case (Some devs)
    then have m: "mset_set (avail (trk_devs t)) = free_devs ps + mset devs" using 1(4) B(5) by simp
    then have "books wl ?t (devs @ []) cl al" using B 1(2) w R unfolding books_def stale_ok_def by simp
    from books_claim_loop [OF this, of uuid] obtain objs' where
      2: "loop (claim_dev uuid) devs objs = Inr objs'"
        "books wl (?t\<lparr>trk_devs := objs'\<rparr>) [] (cl(Some uuid := set devs \<union> cl (Some uuid))) al"
      by (auto simp del: fun_upd_apply)
    have "mset devs \<subseteq># mset_set (avail (trk_devs t))" unfolding m by simp
    then have "distinct devs \<and> set devs \<subseteq> avail (trk_devs t)"
      by (rule sub_mset_set [OF finite_avail])
    then show ?thesis using False 1(1,4) 2 Some
      by (simp add: claim_devices_def Let_def del: fun_upd_apply)
  qed
qed

lemma trk_invD:
  assumes "trk_inv wl t"
  shows "books wl t [] (claimed_by t) (allocated_to t)" "distinct (dict_get (trk_claims t) u [])"
    "distinct (dict_get (trk_allocs t) u [])"
  using assms unfolding trk_inv_def by blast+

lemma trk_invI:
  assumes "books wl t [] cl al" "\<And>u. claimed_by t u = cl u" "\<And>u. allocated_to t u = al u"
    "\<And>u. distinct (dict_get (trk_claims t) u [])" "\<And>u. distinct (dict_get (trk_allocs t) u [])"
  shows "trk_inv wl t"
  unfolding trk_inv_def using books_cong [OF assms(1)] assms(2-5) by metis

lemma claim_instance_inv:
  assumes t: "trk_inv wl t" and none: "dict_get (trk_claims t) (Some uuid) [] = []"
    and pos: "\<forall>r \<in> set reqs. 0 \<le> req_count r"
  shows "\<exists>t' devs. claim_instance wl reqs cells uuid t = Inr (t', devs) \<and> trk_inv wl t' \<and>
    claimed_by t' (Some uuid) = set devs \<and> set devs \<subseteq> avail (trk_devs t)"
proof (cases "trk_devs t = []")
  case True
  then show ?thesis using t none by (simp add: claim_instance_def claimed_by_def)
next
  case False
  note D = trk_invD [OF t]
  from claim_devices_spec [OF D(1) pos, of cells uuid] obtain t' devs where
    1: "claim_devices wl reqs cells uuid t = Inr (t', devs)" "distinct devs" "set devs \<subseteq> avail (trk_devs t)"
      "books wl t' [] ((claimed_by t)(Some uuid := set devs \<union> claimed_by t (Some uuid))) (allocated_to t)"
      "trk_claims t' = trk_claims t" "trk_allocs t' = trk_allocs t"
    by blast
  let ?t = "if devs = [] then t' else t'\<lparr>trk_claims := AList.update (Some uuid) devs (trk_claims t')\<rparr>"
  have "trk_inv wl ?t"
  proof (rule trk_invI)
    show "books wl ?t [] ((claimed_by t)(Some uuid := set devs \<union> claimed_by t (Some uuid))) (allocated_to t)"
      using 1(4) by (simp add: books_def stale_ok_def del: fun_upd_apply)
    show "claimed_by ?t u = ((claimed_by t)(Some uuid := set devs \<union> claimed_by t (Some uuid))) u" for u
      using none by (simp add: claimed_by_def 1(5) dict_get_update)
    show "allocated_to ?t u = allocated_to t u" for u by (simp add: allocated_to_def 1(6))
    show "distinct (dict_get (trk_claims ?t) u [])" for u using D(2) 1(2) by (simp add: 1(5) dict_get_update)
    show "distinct (dict_get (trk_allocs ?t) u [])" for u using D(3) by (simp add: 1(6))
  qed
  moreover have "claimed_by ?t (Some uuid) = set devs"
    using none by (simp add: claimed_by_def 1(5) dict_get_update)
  ultimately show ?thesis using False 1(1,3) by (simp add: claim_instance_def)
qed

lemma allocate_instance_inv:
  assumes t: "trk_inv wl t"
  shows "\<exists>t' inst'. allocate_instance inst t = Inr (t', inst') \<and> trk_inv wl t' \<and>
    claimed_by t' (Some (inst_uuid inst)) = {} \<and>
    allocated_to t' (Some (inst_uuid inst)) =
      claimed_by t (Some (inst_uuid inst)) \<union> allocated_to t (Some (inst_uuid inst))"
proof -
  note D = trk_invD [OF t]
  note B = booksD [OF D(1)]
  let ?u = "Some (inst_uuid inst)" and ?devs = "dict_get (trk_claims t) (Some (inst_uuid inst)) []"
  have "set ?devs \<subseteq> claimed_by t ?u" by (simp add: claimed_by_def)
  from books_allocate_loop [OF D(1) refl D(2) this] obtain objs inst' where
    1: "loop allocate_dev ?devs (trk_devs t, inst) = Inr (objs, inst')"
      "books wl (t\<lparr>trk_devs := objs\<rparr>) [] ((claimed_by t)(?u := claimed_by t ?u - set ?devs))
        ((allocated_to t)(?u := set ?devs \<union> allocated_to t ?u))"
    by blast
  let ?t = "t\<lparr>trk_claims := AList.delete ?u (trk_claims t), trk_devs := objs,
    trk_allocs := (if ?devs = [] then trk_allocs t
      else AList.update ?u (dict_get (trk_allocs t) ?u [] @ ?devs) (trk_allocs t))\<rparr>"
  have apart: "set (dict_get (trk_allocs t) ?u []) \<inter> set ?devs = {}"
    using holds_apart B(6,7) unfolding claimed_by_def allocated_to_def
    by (metis disjoint_iff pci_status.distinct(9))
  have "trk_inv wl ?t"
  proof (rule trk_invI)
    show "books wl ?t [] ((claimed_by t)(?u := claimed_by t ?u - set ?devs))
        ((allocated_to t)(?u := set ?devs \<union> allocated_to t ?u))"
      using 1(2) by (simp add: books_def stale_ok_def del: fun_upd_apply)
    show "claimed_by ?t u = ((claimed_by t)(?u := claimed_by t ?u - set ?devs)) u" for u
      by (simp add: claimed_by_def dict_get_delete)
    show "allocated_to ?t u = ((allocated_to t)(?u := set ?devs \<union> allocated_to t ?u)) u" for u
      by (auto simp: allocated_to_def dict_get_update)
    show "distinct (dict_get (trk_claims ?t) u [])" for u using D(2) by (simp add: dict_get_delete)
    show "distinct (dict_get (trk_allocs ?t) u [])" for u
      using D(2,3) apart by (auto simp: dict_get_update)
  qed
  moreover have "claimed_by ?t ?u = {}" "allocated_to ?t ?u = claimed_by t ?u \<union> allocated_to t ?u"
    by (auto simp: claimed_by_def allocated_to_def dict_get_delete dict_get_update)
  ultimately show ?thesis using 1(1) by (simp add: allocate_instance_def Let_def)
qed

lemma free_owned_spec:
  assumes b: "books wl t [] cl al"
  shows "\<exists>t'. free_owned wl uuid t = Inr t' \<and> books wl t' [] (cl(Some uuid := {})) (al(Some uuid := {})) \<and>
    trk_claims t' = trk_claims t \<and> trk_allocs t' = trk_allocs t"
proof -
  have "holds (trk_devs t) s u \<subseteq> set (keys (trk_devs t))" for s u
    by (force simp: holds_def dest: map_of_SomeD)
  then have "cl u - set (keys (trk_devs t)) = {}" "al u - set (keys (trk_devs t)) = {}" for u
    using booksD(6,7) [OF b] by auto
  then show ?thesis
    using books_free_owned_loop [OF b subset_refl, of uuid]
    unfolding free_owned_def by metis
qed

lemma free_instance_inv:
  assumes t: "trk_inv wl t"
    and one: "dict_get (trk_claims t) (Some uuid) [] = [] \<or> dict_get (trk_allocs t) (Some uuid) [] = []"
  shows "\<exists>t'. free_instance wl uuid t = Inr t' \<and> trk_inv wl t' \<and>
    claimed_by t' = (claimed_by t)(Some uuid := {}) \<and> allocated_to t' = (allocated_to t)(Some uuid := {})"
proof -
  note D = trk_invD [OF t]
  let ?u = "Some uuid"
  let ?c = "AList.delete ?u (trk_claims t)" and ?a = "AList.delete ?u (trk_allocs t)"
  have free: "\<exists>t'. free_owned wl uuid (t\<lparr>trk_allocs := ?a, trk_claims := c\<rparr>) = Inr t' \<and> trk_inv wl t' \<and>
      claimed_by t' = (claimed_by t)(?u := {}) \<and> allocated_to t' = (allocated_to t)(?u := {})"
    if c: "\<And>v. dict_get c v [] = (if v = ?u then [] else dict_get (trk_claims t) v [])" for c
  proof -
    let ?t = "t\<lparr>trk_allocs := ?a, trk_claims := c\<rparr>"
    have "books wl ?t [] (claimed_by t) (allocated_to t)" using D(1) by (simp add: books_def stale_ok_def)
    from free_owned_spec [OF this, of uuid] obtain t' where
      1: "free_owned wl uuid ?t = Inr t'" "trk_claims t' = c" "trk_allocs t' = ?a"
        "books wl t' [] ((claimed_by t)(?u := {})) ((allocated_to t)(?u := {}))"
      by auto
    have e: "claimed_by t' = (claimed_by t)(?u := {})" "allocated_to t' = (allocated_to t)(?u := {})"
      by (auto simp: fun_eq_iff claimed_by_def allocated_to_def 1(2,3) c dict_get_delete)
    have "trk_inv wl t'" unfolding trk_inv_def e using 1(4) D(2,3) by (simp add: 1(2,3) c dict_get_delete)
    then show ?thesis using 1(1) e by blast
  qed
  have c1: "dict_get ?c v [] = (if v = ?u then [] else dict_get (trk_claims t) v [])" for v
    by (simp add: dict_get_delete)
  consider "dict_get (trk_allocs t) ?u [] \<noteq> []" | "dict_get (trk_allocs t) ?u [] = []" "dict_get (trk_claims t) ?u [] \<noteq> []"
    | "dict_get (trk_allocs t) ?u [] = []" "dict_get (trk_claims t) ?u [] = []" by blast
  then show ?thesis
  proof cases
    case 1
    then have "dict_get (trk_claims t) v [] = (if v = ?u then [] else dict_get (trk_claims t) v [])" for v
      using one by auto
    moreover have "t\<lparr>trk_allocs := ?a, trk_claims := trk_claims t\<rparr> = t\<lparr>trk_allocs := ?a\<rparr>" by simp
    ultimately show ?thesis using free [of "trk_claims t"] 1 by (simp add: free_instance_def Let_def)
  next
    case 2
    with free [OF c1] show ?thesis by (simp add: free_instance_def Let_def)
  next
    case 3
    let ?t = "t\<lparr>trk_allocs := ?a, trk_claims := ?c\<rparr>"
    have e: "claimed_by ?t = claimed_by t" "allocated_to ?t = allocated_to t"
      using 3 by (auto simp: fun_eq_iff claimed_by_def allocated_to_def dict_get_delete)
    moreover have "(claimed_by t)(?u := {}) = claimed_by t" "(allocated_to t)(?u := {}) = allocated_to t"
      using 3 by (auto simp: fun_eq_iff claimed_by_def allocated_to_def)
    moreover have "trk_inv wl ?t" unfolding trk_inv_def e
      using D by (simp add: books_def stale_ok_def dict_get_delete)
    ultimately show ?thesis using 3 by (simp add: free_instance_def Let_def)
  qed
qed

lemma clean_claims_loop:
  "books wl t [] (\<lambda>v. if v \<in> X then {} else claimed_by t v) al \<Longrightarrow>
   \<forall>u. distinct (dict_get (trk_claims t) u []) \<Longrightarrow> set ks \<inter> X = {} \<Longrightarrow>
   \<exists>t'. loop (clean_claim wl ex) ks t = Inr t' \<and>
     books wl t' [] (\<lambda>v. if v \<in> X then {} else claimed_by t' v) al \<and>
     trk_allocs t' = trk_allocs t \<and>
     (\<forall>u. dict_get (trk_claims t') u [] = (if u \<in> set ks \<and> u \<notin> ex then [] else dict_get (trk_claims t) u []))"
proof (induction ks arbitrary: t)
  case (Cons u ks)
  show ?case
  proof (cases "u \<in> ex")
    case True
    then show ?thesis using Cons.IH [of t] Cons.prems by (auto simp: clean_claim_def)
  next
    case False
    let ?cl = "\<lambda>v. if v \<in> X then {} else claimed_by t v"
    let ?as = "dict_get (trk_claims t) u []"
    let ?t = "t\<lparr>trk_claims := AList.delete u (trk_claims t)\<rparr>"
    have u: "u \<notin> X" using Cons.prems(3) by auto
    have "books wl ?t [] ?cl al" using Cons.prems(1) by (simp add: books_def stale_ok_def)
    moreover have "distinct ?as" "set ?as \<subseteq> ?cl u \<union> al u"
      using Cons.prems(2) u by (auto simp: claimed_by_def)
    ultimately obtain t1 where
      1: "loop (free_device wl) ?as ?t = Inr t1" "trk_claims t1 = AList.delete u (trk_claims t)"
        "trk_allocs t1 = trk_allocs t" "books wl t1 [] (\<lambda>v. ?cl v - set ?as) (\<lambda>v. al v - set ?as)"
      using books_free_loop [of wl ?t "[]" ?cl al ?as u] by auto
    have H: "holds (trk_devs t) CLAIMED = ?cl" "holds (trk_devs t) ALLOCATED = al"
      using booksD(6,7) [OF Cons.prems(1)] by auto
    have as: "a \<in> holds (trk_devs t) CLAIMED u" if "a \<in> set ?as" for a
      using that u unfolding H by (simp add: claimed_by_def)
    have "a \<notin> al v" if "a \<in> set ?as" for a v
      using holds_apart [OF as [OF that], of ALLOCATED v] unfolding H(2) by blast
    then have "al v - set ?as = al v" for v by auto
    moreover have "?cl v - set ?as = (if v \<in> X then {} else claimed_by t1 v)" for v
    proof (cases "v = u")
      case False
      then have "a \<notin> ?cl v" if "a \<in> set ?as" for a
        using holds_apart [OF as [OF that], of CLAIMED v] unfolding H(1) by blast
      moreover have "claimed_by t1 v = claimed_by t v" using False by (simp add: claimed_by_def 1(2) dict_get_delete)
      ultimately show ?thesis by auto
    next
      case True
      then show ?thesis using u by (simp add: claimed_by_def 1(2) dict_get_delete)
    qed
    ultimately have "books wl t1 [] (\<lambda>v. if v \<in> X then {} else claimed_by t1 v) al"
      by (intro books_cong [OF 1(4)]) auto
    moreover have "\<forall>v. distinct (dict_get (trk_claims t1) v [])"
      using Cons.prems(2) by (simp add: 1(2) dict_get_delete)
    ultimately obtain t2 where
      2: "loop (clean_claim wl ex) ks t1 = Inr t2" "trk_allocs t2 = trk_allocs t1"
        "books wl t2 [] (\<lambda>v. if v \<in> X then {} else claimed_by t2 v) al"
        "\<forall>v. dict_get (trk_claims t2) v [] = (if v \<in> set ks \<and> v \<notin> ex then [] else dict_get (trk_claims t1) v [])"
      using Cons.IH [of t1] Cons.prems(3) by auto
    have "loop (clean_claim wl ex) (u # ks) t = Inr t2" using 1(1) 2(1) False by (simp add: clean_claim_def)
    moreover have "\<forall>v. dict_get (trk_claims t2) v [] =
        (if v \<in> set (u # ks) \<and> v \<notin> ex then [] else dict_get (trk_claims t) v [])"
      using 2(4) False by (simp add: 1(2) dict_get_delete)
    ultimately show ?thesis using 2(2,3) 1(3) by auto
  qed
qed auto

lemma clean_allocs_loop:
  "books wl t [] cl (allocated_to t) \<Longrightarrow> \<forall>u. distinct (dict_get (trk_allocs t) u []) \<Longrightarrow>
   \<exists>t'. loop (clean_alloc wl ex) ks t = Inr t' \<and> books wl t' [] cl (allocated_to t') \<and>
     trk_claims t' = trk_claims t \<and>
     (\<forall>u. dict_get (trk_allocs t') u [] = (if u \<in> set ks \<and> u \<notin> ex then [] else dict_get (trk_allocs t) u []))"
proof (induction ks arbitrary: t)
  case (Cons u ks)
  show ?case
  proof (cases "u \<in> ex")
    case True
    then show ?thesis using Cons.IH [of t] Cons.prems by (auto simp: clean_alloc_def)
  next
    case False
    let ?as = "dict_get (trk_allocs t) u []"
    let ?t = "t\<lparr>trk_allocs := AList.delete u (trk_allocs t)\<rparr>"
    have "books wl ?t [] cl (allocated_to t)" using Cons.prems(1) by (simp add: books_def stale_ok_def)
    moreover have "distinct ?as" "set ?as \<subseteq> cl u \<union> allocated_to t u"
      using Cons.prems(2) by (auto simp: allocated_to_def)
    ultimately obtain t1 where
      1: "loop (free_device wl) ?as ?t = Inr t1" "trk_claims t1 = trk_claims t"
        "trk_allocs t1 = AList.delete u (trk_allocs t)"
        "books wl t1 [] (\<lambda>v. cl v - set ?as) (\<lambda>v. allocated_to t v - set ?as)"
      using books_free_loop [of wl ?t "[]" cl "allocated_to t" ?as u] by auto
    have H: "holds (trk_devs t) CLAIMED = cl" "holds (trk_devs t) ALLOCATED = allocated_to t"
      using booksD(6,7) [OF Cons.prems(1)] by auto
    have as: "a \<in> holds (trk_devs t) ALLOCATED u" if "a \<in> set ?as" for a
      using that unfolding H by (simp add: allocated_to_def)
    have "a \<notin> cl v" if "a \<in> set ?as" for a v
      using holds_apart [OF as [OF that], of CLAIMED v] unfolding H(1) by blast
    then have "cl v - set ?as = cl v" for v by auto
    moreover have "allocated_to t v - set ?as = allocated_to t1 v" for v
    proof (cases "v = u")
      case False
      then have "a \<notin> allocated_to t v" if "a \<in> set ?as" for a
        using holds_apart [OF as [OF that], of ALLOCATED v] unfolding H(2) by blast
      moreover have "allocated_to t1 v = allocated_to t v"
        using False by (simp add: allocated_to_def 1(3) dict_get_delete)
      ultimately show ?thesis by auto
    next
      case True
      then show ?thesis by (simp add: allocated_to_def 1(3) dict_get_delete)
    qed
    ultimately have "books wl t1 [] cl (allocated_to t1)" by (intro books_cong [OF 1(4)])
    moreover have "\<forall>v. distinct (dict_get (trk_allocs t1) v [])"
      using Cons.prems(2) by (simp add: 1(3) dict_get_delete)
    ultimately obtain t2 where
      2: "loop (clean_alloc wl ex) ks t1 = Inr t2" "trk_claims t2 = trk_claims t1"
        "books wl t2 [] cl (allocated_to t2)"
        "\<forall>v. dict_get (trk_allocs t2) v [] = (if v \<in> set ks \<and> v \<notin> ex then [] else dict_get (trk_allocs t1) v [])"
      using Cons.IH [of t1] by auto
    have "loop (clean_alloc wl ex) (u # ks) t = Inr t2" using 1(1) 2(1) False by (simp add: clean_alloc_def)
    moreover have "\<forall>v. dict_get (trk_allocs t2) v [] =
        (if v \<in> set (u # ks) \<and> v \<notin> ex then [] else dict_get (trk_allocs t) v [])"
      using 2(4) False by (simp add: 1(3) dict_get_delete)
    ultimately show ?thesis using 2(2,3) 1(2) by auto
  qed
qed auto

lemma absent_dict_get: "u \<notin> set (keys d) \<Longrightarrow> dict_get d u w = w"
  by (simp add: dict_get_def map_of_eq_None_iff [THEN iffD2])

lemma clean_usage_inv:
  assumes t: "trk_inv wl t"
  shows "\<exists>t'. clean_usage wl ins migs orphs t = Inr t' \<and> trk_inv wl t' \<and>
    (\<forall>u. claimed_by t' u = (if u \<in> Some ` (set ins \<union> set migs \<union> set orphs) then claimed_by t u else {}) \<and>
         allocated_to t' u = (if u \<in> Some ` (set ins \<union> set migs \<union> set orphs) then allocated_to t u else {}))"
proof -
  note D = trk_invD [OF t]
  let ?ex = "Some ` (set ins \<union> set migs \<union> set orphs)"
  have b: "books wl t [] (\<lambda>v. if v \<in> {} then {} else claimed_by t v) (allocated_to t)" using D(1) by simp
  have dist: "\<forall>u. distinct (dict_get (trk_claims t) u [])" using D(2) by blast
  have kept: "(if u \<in> set (keys d) \<and> u \<notin> ?ex then [] else dict_get d u []) =
      (if u \<in> ?ex then dict_get d u [] else [])" for u and d :: "(string option, string list) dict"
    using absent_dict_get [of u d "[]"] by auto
  from clean_claims_loop [OF b dist, of "keys (trk_claims t)" ?ex] obtain t1 where
    1: "loop (clean_claim wl ?ex) (keys (trk_claims t)) t = Inr t1" "trk_allocs t1 = trk_allocs t"
      "books wl t1 [] (claimed_by t1) (allocated_to t1)"
      "\<And>u. dict_get (trk_claims t1) u [] = (if u \<in> ?ex then dict_get (trk_claims t) u [] else [])"
    unfolding kept by (auto simp del: image_Un simp: allocated_to_def [abs_def])
  have "\<forall>u. distinct (dict_get (trk_allocs t1) u [])" using D(3) by (simp add: 1(2))
  from clean_allocs_loop [OF 1(3) this, of ?ex "keys (trk_allocs t1)"] obtain t2 where
    2: "loop (clean_alloc wl ?ex) (keys (trk_allocs t1)) t1 = Inr t2" "trk_claims t2 = trk_claims t1"
      "books wl t2 [] (claimed_by t1) (allocated_to t2)"
      "\<And>u. dict_get (trk_allocs t2) u [] = (if u \<in> ?ex then dict_get (trk_allocs t) u [] else [])"
    unfolding kept 1(2) by blast
  have "claimed_by t2 = claimed_by t1" by (simp add: fun_eq_iff claimed_by_def 2(2))
  then have "trk_inv wl t2" unfolding trk_inv_def using 2(2,3) D(2,3) by (simp add: 1(4) 2(4))
  then show ?thesis using 1(1) 2(1)
    by (auto simp: clean_usage_def Let_def claimed_by_def allocated_to_def 1(4) 2(2,4))
qed

section \<open>Starting\<close>

lemma init_loop:
  "wf_pools (trk_pools t) \<Longrightarrow> whitelisted wl xs \<Longrightarrow>
   \<exists>t'. loop (initial_usage wl) xs t = Inr t' \<and> wf_pools (trk_pools t') \<and>
     trk_devs t' = trk_devs t \<and> trk_stale t' = trk_stale t \<and>
     free_devs (trk_pools t') = free_devs (trk_pools t) +
       mset (map fst (filter (\<lambda>(a, d). dev_status d = AVAILABLE) xs)) \<and>
     (\<forall>u. dict_get (trk_claims t') u [] = dict_get (trk_claims t) u [] @
       map fst (filter (\<lambda>(a, d). dev_status d = CLAIMED \<and> dev_owner d = u) xs)) \<and>
     (\<forall>u. dict_get (trk_allocs t') u [] = dict_get (trk_allocs t) u [] @
       map fst (filter (\<lambda>(a, d). dev_status d = ALLOCATED \<and> dev_owner d = u) xs))"
proof (induction xs arbitrary: t)
  case (Cons x xs)
  obtain a d where x: "x = (a, d)" by (cases x)
  have w: "whitelisted wl xs" and l: "listed wl d" using Cons.prems(2) x by (auto simp: whitelisted_iff)
  obtain attrs where "create_pool_keys_from_dev wl d = Inr (Some attrs)" using l by (auto simp: listed_def)
  from add_device_spec [OF Cons.prems(1) this, of a] obtain ps where
    ps: "add_device wl a d (trk_pools t) = Inr ps" "wf_pools ps" "free_devs ps = free_devs (trk_pools t) + {#a#}"
    by blast
  define t1 where "t1 = (case dev_status d of
      CLAIMED \<Rightarrow> t\<lparr>trk_claims := append_at (dev_owner d) a (trk_claims t)\<rparr>
    | ALLOCATED \<Rightarrow> t\<lparr>trk_allocs := append_at (dev_owner d) a (trk_allocs t)\<rparr>
    | AVAILABLE \<Rightarrow> t\<lparr>trk_pools := ps\<rparr> | _ \<Rightarrow> t)"
  have s: "initial_usage wl x t = Inr t1"
    using ps(1) by (simp add: initial_usage_def x t1_def split: pci_status.split)
  have "wf_pools (trk_pools t1)" using ps(2) Cons.prems(1) by (simp add: t1_def split: pci_status.split)
  from Cons.IH [OF this w] obtain t2 where
    2: "loop (initial_usage wl) xs t1 = Inr t2" "wf_pools (trk_pools t2)" "trk_devs t2 = trk_devs t1"
      "trk_stale t2 = trk_stale t1" "free_devs (trk_pools t2) = free_devs (trk_pools t1) +
       mset (map fst (filter (\<lambda>(a, d). dev_status d = AVAILABLE) xs))"
      "\<And>u. dict_get (trk_claims t2) u [] = dict_get (trk_claims t1) u [] @
       map fst (filter (\<lambda>(a, d). dev_status d = CLAIMED \<and> dev_owner d = u) xs)"
      "\<And>u. dict_get (trk_allocs t2) u [] = dict_get (trk_allocs t1) u [] @
       map fst (filter (\<lambda>(a, d). dev_status d = ALLOCATED \<and> dev_owner d = u) xs)"
    by blast
  show ?case
    using s 2 ps(3) by (cases "dev_status d")
      (simp_all add: x t1_def append_at_def dict_get_update)
qed auto

lemma init_tracker_inv:
  assumes "wf_dict stored" and "whitelisted wl stored"
  shows "\<exists>t. init_tracker wl node stored = Inr t \<and> trk_inv wl t"
proof -
  define devs where "devs = (if node \<noteq> None \<and> node \<noteq> Some 0 then stored else [])"
  have d: "wf_dict devs" "whitelisted wl devs" using assms by (auto simp: devs_def whitelisted_iff)
  let ?t = "\<lparr>trk_node = node, trk_devs = devs, trk_pools = [], trk_claims = [], trk_allocs = [], trk_stale = []\<rparr>"
  from init_loop [of ?t wl devs] d(2) obtain t where
    t: "loop (initial_usage wl) devs ?t = Inr t" "wf_pools (trk_pools t)" "trk_devs t = devs" "trk_stale t = []"
      "free_devs (trk_pools t) = mset (map fst (filter (\<lambda>(a, d). dev_status d = AVAILABLE) devs))"
      "\<And>u. dict_get (trk_claims t) u [] = map fst (filter (\<lambda>(a, d). dev_status d = CLAIMED \<and> dev_owner d = u) devs)"
      "\<And>u. dict_get (trk_allocs t) u [] = map fst (filter (\<lambda>(a, d). dev_status d = ALLOCATED \<and> dev_owner d = u) devs)"
    by (auto simp: dict_get_def)
  have dist: "distinct (map fst (filter P devs))" for P using d(1) by (simp add: distinct_map_filter)
  have sets: "set (map fst (filter (\<lambda>(a, d). P d) devs)) = {a. \<exists>d. map_of devs a = Some d \<and> P d}" for P
    using d(1) by (force simp: image_iff)
  have "mset_set (avail devs) = free_devs (trk_pools t)"
    unfolding avail_def sets [symmetric] t(5) by (rule mset_set_set [OF dist])
  then have "books wl t [] (claimed_by t) (allocated_to t)"
    unfolding books_def claimed_by_def allocated_to_def t(3,6,7) holds_def sets
    using d t(2,4) by (simp add: stale_ok_def)
  then have "trk_inv wl t" unfolding trk_inv_def using dist by (simp add: t(6,7))
  then show ?thesis using t(1) by (simp add: init_tracker_def devs_def Let_def)
qed

section \<open>The life of a tracker\<close>

text \<open>
  Claims are for guests that have none, and a guest that is freed has devices claimed or devices
  allocated, but not both: the resize of a guest on its own node, which has both, is outside.
\<close>

inductive trk_step :: "devspec list \<Rightarrow> pci_tracker \<Rightarrow> pci_tracker \<Rightarrow> bool" for wl where
  claims: "dict_get (trk_claims t) (Some uuid) [] = [] \<Longrightarrow> \<forall>r \<in> set reqs. 0 \<le> req_count r \<Longrightarrow>
    claim_instance wl reqs cells uuid t = Inr (t', devs) \<Longrightarrow> trk_step wl t t'"
| allocates: "allocate_instance inst t = Inr (t', inst') \<Longrightarrow> trk_step wl t t'"
| frees: "dict_get (trk_claims t) (Some uuid) [] = [] \<or> dict_get (trk_allocs t) (Some uuid) [] = [] \<Longrightarrow>
    free_instance wl uuid t = Inr t' \<Longrightarrow> trk_step wl t t'"
| cleans: "clean_usage wl ins migs orphs t = Inr t' \<Longrightarrow> trk_step wl t t'"

inductive_cases trk_stepE: "trk_step wl t t'"

lemma trk_step_inv:
  assumes "trk_step wl t t'" and "trk_inv wl t"
  shows "trk_inv wl t'"
  using assms(1)
proof cases
  case (claims uuid reqs cells devs)
  then show ?thesis using claim_instance_inv [OF assms(2), of uuid reqs cells] by auto
next
  case (allocates inst inst')
  then show ?thesis using allocate_instance_inv [OF assms(2), of inst] by auto
next
  case (frees uuid)
  then show ?thesis using free_instance_inv [OF assms(2), of uuid] by auto
next
  case (cleans ins migs orphs)
  then show ?thesis using clean_usage_inv [OF assms(2), of ins migs orphs] by auto
qed

interpretation histories: guarded_system "trk_step wl" "trk_inv wl" for wl
  by unfold_locales (rule trk_step_inv)

lemma trk_reach_inv:
  assumes "wf_dict stored" "whitelisted wl stored" "init_tracker wl node stored = Inr t0"
    and "(trk_step wl)\<^sup>*\<^sup>* t0 t"
  shows "trk_inv wl t"
  by (rule histories.run_inv [OF assms(4)]) (use init_tracker_inv [OF assms(1,2), of node] assms(3) in auto)

lemma free_device_keys: "free_device wl a t = Inr t' \<Longrightarrow> keys (trk_devs t') = keys (trk_devs t)"
proof -
  assume f: "free_device wl a t = Inr t'"
  then obtain d where "map_of (trk_devs t) a = Some d" by (auto simp: free_device_def)
  then have a: "a \<in> set (keys (trk_devs t))" by (force dest: map_of_SomeD)
  obtain d' ps where "t' = t\<lparr>trk_devs := AList.update a d' (trk_devs t),
      trk_stale := AList.delete a (trk_stale t), trk_pools := ps\<rparr>"
    using f by (auto simp: free_device_def Let_def split_beta)
  then have "trk_devs t' = AList.update a d' (trk_devs t)" by simp
  then show ?thesis using keys_update_same [OF a] by simp
qed

lemma clean_claim_keys: "clean_claim wl ex u t = Inr t' \<Longrightarrow> keys (trk_devs t') = keys (trk_devs t)"
  unfolding clean_claim_def
  using loop_inv [where P = "\<lambda>s. keys (trk_devs s) = keys (trk_devs t)" and f = "free_device wl"]
    free_device_keys
  by (fastforce split: if_splits)

lemma free_owned_keys: "free_owned wl uuid t = Inr t' \<Longrightarrow> keys (trk_devs t') = keys (trk_devs t)"
  unfolding free_owned_def
proof (erule loop_inv [where P = "\<lambda>s. keys (trk_devs s) = keys (trk_devs t)"])
  fix x s s' assume "keys (trk_devs s) = keys (trk_devs t)"
    and "bind (dict_index (trk_devs s) x) (\<lambda>d. if held_by uuid d then free_device wl x s else Inr s) = Inr s'"
  then show "keys (trk_devs s') = keys (trk_devs t)" using free_device_keys [of wl x s s'] by (auto split: if_splits)
qed simp

lemma free_device_not_held:
  assumes "a \<in> set (keys (trk_devs t))" and "\<And>u. a \<notin> holds (trk_devs t) CLAIMED u"
    and "\<And>u. a \<notin> holds (trk_devs t) ALLOCATED u"
  shows "free_device wl a t = Inl PciDeviceInvalidStatus"
proof -
  obtain d where d: "map_of (trk_devs t) a = Some d"
    using assms(1) by (cases "map_of (trk_devs t) a") (auto simp: map_of_eq_None_iff)
  then have "dev_status d \<noteq> CLAIMED" "dev_status d \<noteq> ALLOCATED"
    using assms(2,3) [of "dev_owner d"] by (auto simp: holds_def)
  then show ?thesis using d by (simp add: free_device_def dict_index_def free_dev_def)
qed


text \<open>The periodic clean-up of a tracker in such a state never raises. Afterwards the guests the
  audit did not see hold nothing, the others hold what they held, and all the rest that is available
  is in the pools.\<close>

theorem clean_usage_releases:
  assumes "wf_dict stored" "whitelisted wl stored" "init_tracker wl node stored = Inr t0"
    and "(trk_step wl)\<^sup>*\<^sup>* t0 t"
  shows "\<exists>t'. clean_usage wl ins migs orphs t = Inr t' \<and>
    free_devs (trk_pools t') = mset_set (avail (trk_devs t')) \<and>
    (let seen = Some ` (set ins \<union> set migs \<union> set orphs) in
      holds (trk_devs t') CLAIMED u = (if u \<in> seen then holds (trk_devs t) CLAIMED u else {}) \<and>
      holds (trk_devs t') ALLOCATED u = (if u \<in> seen then holds (trk_devs t) ALLOCATED u else {}))"
proof -
  have t: "trk_inv wl t" by (rule trk_reach_inv [OF assms])
  from clean_usage_inv [OF t, of ins migs orphs] obtain t' where
    t': "clean_usage wl ins migs orphs t = Inr t'" "trk_inv wl t'"
      "\<And>u. claimed_by t' u = (if u \<in> Some ` (set ins \<union> set migs \<union> set orphs) then claimed_by t u else {})"
      "\<And>u. allocated_to t' u = (if u \<in> Some ` (set ins \<union> set migs \<union> set orphs) then allocated_to t u else {})"
    by blast
  note B = booksD [OF trk_invD(1) [OF t]] and B' = booksD [OF trk_invD(1) [OF t'(2)]]
  show ?thesis using t'(1) B'(5) by (simp add: B(6,7) B'(6,7) t'(3,4))
qed

text \<open>When the claim of an incoming migration is dropped, its devices are freed but the guest's
  entry stays in the table of claims. The next clean-up that does not see the guest frees the same
  devices again and raises, so the audit of the node fails.\<close>

theorem dropped_migration_breaks_audit:
  assumes "wf_dict stored" "whitelisted wl stored" "init_tracker wl node stored = Inr t0"
    and "(trk_step wl)\<^sup>*\<^sup>* t0 t"
    and held: "dict_get (trk_claims t) (Some uuid) [] \<noteq> []" "dict_get (trk_allocs t) (Some uuid) [] = []"
    and gone: "uuid \<notin> set ins" "uuid \<notin> set migs" "uuid \<notin> set orphs"
  shows "\<exists>t'. update_pci_for_migration wl reqs cells uuid (-1) t = Inr t' \<and>
    clean_usage wl ins migs orphs t' = Inl PciDeviceInvalidStatus"
proof -
  let ?u = "Some uuid" and ?ex = "Some ` (set ins \<union> set migs \<union> set orphs)"
  note D = trk_invD [OF trk_reach_inv [OF assms(1-4)]]
  note B = booksD [OF D(1)]
  from free_owned_spec [OF D(1), of uuid] obtain t1 where
    1: "free_owned wl uuid t = Inr t1" "books wl t1 [] ((claimed_by t)(?u := {})) ((allocated_to t)(?u := {}))"
      "trk_claims t1 = trk_claims t" "trk_allocs t1 = trk_allocs t"
    by blast
  obtain a as where as: "dict_get (trk_claims t) ?u [] = a # as" using held(1) by (cases "dict_get (trk_claims t) ?u []") auto
  have a: "a \<in> holds (trk_devs t) CLAIMED ?u" unfolding B(6) by (simp add: claimed_by_def as)
  have ak: "a \<in> set (keys (trk_devs t))" using a by (force simp: holds_def dest: map_of_SomeD)
  have ex: "?u \<in> set (keys (trk_claims t))" using as absent_dict_get [of ?u "trk_claims t" "[]"] by auto
  then obtain xs ys where ks: "keys (trk_claims t) = xs @ ?u # ys" "?u \<notin> set xs"
    by (meson split_list_first)
  have "books wl t1 [] (\<lambda>v. if v \<in> {?u} then {} else claimed_by t1 v) ((allocated_to t)(?u := {}))"
    by (rule books_cong [OF 1(2)]) (auto simp: claimed_by_def 1(3))
  from clean_claims_loop [OF this, of xs ?ex] D(2) ks(2) obtain t2 where
    2: "loop (clean_claim wl ?ex) xs t1 = Inr t2"
      "books wl t2 [] (\<lambda>v. if v \<in> {?u} then {} else claimed_by t2 v) ((allocated_to t)(?u := {}))"
      "\<And>v. dict_get (trk_claims t2) v [] = (if v \<in> set xs \<and> v \<notin> ?ex then [] else dict_get (trk_claims t) v [])"
    by (auto simp: 1(3))
  have k2: "keys (trk_devs t2) = keys (trk_devs t)"
    using loop_inv [OF 2(1), of "\<lambda>s. keys (trk_devs s) = keys (trk_devs t)"] clean_claim_keys free_owned_keys [OF 1(1)]
    by metis
  let ?t2 = "t2\<lparr>trk_claims := AList.delete ?u (trk_claims t2)\<rparr>"
  have "a \<notin> holds (trk_devs ?t2) CLAIMED v" for v
    using booksD(6) [OF 2(2)] holds_apart [OF a, of CLAIMED v] unfolding B(6)
    by (auto simp: claimed_by_def 2(3) split: if_splits)
  moreover have "a \<notin> holds (trk_devs ?t2) ALLOCATED v" for v
    using booksD(7) [OF 2(2)] holds_apart [OF a, of ALLOCATED v] unfolding B(7) by auto
  ultimately have "free_device wl a ?t2 = Inl PciDeviceInvalidStatus"
    by (intro free_device_not_held) (use ak k2 in auto)
  moreover have "dict_get (trk_claims t2) ?u [] = a # as" using ks(2) by (simp add: 2(3) as)
  ultimately have "clean_claim wl ?ex ?u t2 = Inl PciDeviceInvalidStatus"
    using gone by (auto simp: clean_claim_def)
  then have "clean_usage wl ins migs orphs t1 = Inl PciDeviceInvalidStatus"
    by (simp add: clean_usage_def Let_def 1(3) ks(1) loop_append 2(1))
  then show ?thesis using 1(1) ex by (simp add: update_pci_for_migration_def)
qed

section \<open>Witnesses\<close>

abbreviation nic_addr :: string where "nic_addr \<equiv> ''0000:0a:00.1''"

abbreviation start_tracker :: "pci_tracker result" where
  "start_tracker \<equiv> init_tracker [any_spec] (Some 1) [(nic_addr, nic)]"

abbreviation claimed_tracker :: "pci_tracker result" where
  "claimed_tracker \<equiv> bind start_tracker (\<lambda>t. bind (claim_instance [any_spec] [nic_request 1] [] ''vm1'' t) (\<lambda>(t', _). Inr t'))"

lemma claimed_tracker_facts:
  "case start_tracker of Inl _ \<Rightarrow> False | Inr t \<Rightarrow>
     (case claim_instance [any_spec] [nic_request 1] [] ''vm1'' t of
        Inl _ \<Rightarrow> False
      | Inr (t', devs) \<Rightarrow> devs = [nic_addr] \<and> dict_get (trk_claims t) (Some ''vm1'') [] = [] \<and>
          dict_get (trk_claims t') (Some ''vm1'') [] = [nic_addr] \<and> dict_get (trk_allocs t') (Some ''vm1'') [] = [])"
  by code_simp

lemma stored_nic: "wf_dict [(nic_addr, nic)]" "whitelisted [any_spec] [(nic_addr, nic)]"
  by (simp, code_simp)

lemma claimed_tracker_reached:
  obtains t0 t where "start_tracker = Inr t0" "claimed_tracker = Inr t" "(trk_step [any_spec])\<^sup>*\<^sup>* t0 t"
    "dict_get (trk_claims t) (Some ''vm1'') [] = [nic_addr]" "dict_get (trk_allocs t) (Some ''vm1'') [] = []"
proof -
  obtain t0 t devs where t: "start_tracker = Inr t0" "dict_get (trk_claims t0) (Some ''vm1'') [] = []"
      "claim_instance [any_spec] [nic_request 1] [] ''vm1'' t0 = Inr (t, devs)"
      "dict_get (trk_claims t) (Some ''vm1'') [] = [nic_addr]" "dict_get (trk_allocs t) (Some ''vm1'') [] = []"
    using claimed_tracker_facts by (auto split: sum.splits prod.splits)
  have "trk_step [any_spec] t0 t" by (rule trk_step.claims [OF t(2) _ t(3)]) simp
  then show ?thesis using that [of t0 t] t by auto
qed


theorem clean_usage_releases_witness:
  "case claimed_tracker of Inl _ \<Rightarrow> False
   | Inr t \<Rightarrow> (case clean_usage [any_spec] [] [] [] t of Inl _ \<Rightarrow> False
              | Inr t' \<Rightarrow> holds (trk_devs t') CLAIMED (Some ''vm1'') = {})"
proof -
  obtain t0 t where t: "start_tracker = Inr t0" "claimed_tracker = Inr t" "(trk_step [any_spec])\<^sup>*\<^sup>* t0 t"
    by (rule claimed_tracker_reached)
  show ?thesis unfolding t(2)
    using clean_usage_releases [OF stored_nic t(1,3), of "[]" "[]" "[]" "Some ''vm1''"] by auto
qed

theorem dropped_migration_breaks_audit_witness:
  "case claimed_tracker of Inl _ \<Rightarrow> False
   | Inr t \<Rightarrow> (case update_pci_for_migration [any_spec] [] [] ''vm1'' (-1) t of Inl _ \<Rightarrow> False
              | Inr t' \<Rightarrow> clean_usage [any_spec] [] [] [] t' = Inl PciDeviceInvalidStatus)"
proof -
  obtain t0 t where t: "start_tracker = Inr t0" "claimed_tracker = Inr t" "(trk_step [any_spec])\<^sup>*\<^sup>* t0 t"
    "dict_get (trk_claims t) (Some ''vm1'') [] = [nic_addr]" "dict_get (trk_allocs t) (Some ''vm1'') [] = []"
    by (rule claimed_tracker_reached)
  show ?thesis unfolding t(2)
    using dropped_migration_breaks_audit [OF stored_nic t(1,3), of "''vm1''" "[]" "[]" "[]" "[]" "[]"] t(4,5) by auto
qed

end
