(* ===== verification/NumaFit.thy ===== *)
theory NumaFit
  imports NumaConstraints PciStats
begin

text \<open>
  Placing a guest's NUMA cells on a host and accounting for them (nova/virt/hardware.py):
  packing pinned cells onto cores, fitting one cell, fitting a topology over the permutations of
  host cells, and the host usage that results. The functions of the code change the guest's cells
  in place, also when they then give up, so here they return the cells as they are afterwards.
\<close>

section \<open>Page sizes\<close>

fun verify_pagesizes :: "numa_cell \<Rightarrow> inst_cell \<Rightarrow> int list \<Rightarrow> int option result" where
  "verify_pagesizes host ic [] = Inr None"
| "verify_pagesizes host ic (p # ps) =
     bind (can_fit_hugepages host p (icell_memory ic * 1024)) (\<lambda>fits.
       if fits then Inr (Some p) else verify_pagesizes host ic ps)"

definition numa_cell_supports_pagesize_request :: "numa_cell \<Rightarrow> inst_cell \<Rightarrow> int option result" where
  "numa_cell_supports_pagesize_request host ic =
     (let avail_pagesize = rev (sort (map size_kb (mempages host))) in
      if pagesize ic = Some MEMPAGES_SMALL
      then verify_pagesizes host ic (if avail_pagesize = [] then [] else [last avail_pagesize])
      else if pagesize ic = Some MEMPAGES_LARGE then verify_pagesizes host ic (butlast avail_pagesize)
      else if pagesize ic = Some MEMPAGES_ANY then verify_pagesizes host ic avail_pagesize
      else verify_pagesizes host ic (case pagesize ic of None \<Rightarrow> [] | Some p \<Rightarrow> [p]))"

section \<open>Packing onto cores\<close>

text \<open>The sibling sets that offer at least so many CPUs, in the order they are given.\<close>

definition sibling_set :: "int set list \<Rightarrow> nat \<Rightarrow> int set list" where
  "sibling_set available_siblings threads_no =
     filter (\<lambda>sib. threads_no \<le> card sib) available_siblings"

definition max_threads :: "int set list \<Rightarrow> nat" where
  "max_threads available_siblings = fold max (map card available_siblings) 0"

text \<open>The loop over thread counts in descending order: the first packing found.\<close>

fun pack_threads ::
    "(int set \<Rightarrow> int list) \<Rightarrow> int set list \<Rightarrow> inst_cell \<Rightarrow> nat list \<Rightarrow> ((int \<times> int) list \<times> nat) option" where
  "pack_threads ord avail ic [] = None"
| "pack_threads ord avail ic (n # ns) =
     (let sibs = sibling_set avail n;
          threads_no = gcd n (icell_len ic mod n)
      in if n * length sibs < icell_len ic then pack_threads ord avail ic ns
         else if icell_thread_policy ic = Some REQUIRE \<and> threads_no \<le> 1
         then pack_threads ord avail ic ns
         else Some (zip (sorted_list_of_set (icell_cpuset ic)) (concat (map (\<lambda>s. take n (ord s)) sibs)),
                    threads_no))"

definition pack_instance_onto_cores ::
    "(int set \<Rightarrow> int list) \<Rightarrow> int set list \<Rightarrow> inst_cell \<Rightarrow> int \<Rightarrow> inst_cell option result" where
  "pack_instance_onto_cores ord available_siblings ic host_cell_id =
     (if icell_thread_policy ic = Some ISOLATE then Inl NotImplementedError
      else
        (case pack_threads ord available_siblings ic (rev [1..<Suc (max_threads available_siblings)]) of
           None \<Rightarrow> Inr None
         | Some (pinning, threads_no) \<Rightarrow>
             if pinning = [] then Inr None
             else Inr (Some ((pin_vcpus pinning ic)
               \<lparr>icell_cpu_topology := Some (topo 1 (int (length pinning div threads_no)) (int threads_no)),
                icell_id := host_cell_id\<rparr>))))"

definition numa_fit_instance_cell_with_pinning ::
    "(int set \<Rightarrow> int list) \<Rightarrow> numa_cell \<Rightarrow> inst_cell \<Rightarrow> inst_cell option result" where
  "numa_fit_instance_cell_with_pinning ord host ic =
     (if avail_cpus host < icell_len ic \<or> avail_memory host < icell_memory ic then Inr None
      else if siblings host \<noteq> []
      then pack_instance_onto_cores ord (free_siblings host) ic (cell_id host)
      else pack_instance_onto_cores ord [free_cpus host] ic (cell_id host))"

section \<open>Fitting a cell\<close>

record numa_limits =
  cpu_allocation_ratio :: rat
  ram_allocation_ratio :: rat

definition over_limit :: "numa_cell \<Rightarrow> inst_cell \<Rightarrow> numa_limits \<Rightarrow> bool" where
  "over_limit host ic lims \<longleftrightarrow>
     rat_of_int (cell_memory_usage host + icell_memory ic) >
       rat_of_int (cell_memory host) * ram_allocation_ratio lims \<or>
     rat_of_int (cell_cpu_usage host + int (icell_len ic)) >
       rat_of_int (int (card (cell_cpuset host))) * cpu_allocation_ratio lims"

text \<open>The cell as it is left, and whether it was returned; \<open>False\<close> is the result \<open>None\<close>.\<close>

definition numa_fit_instance_cell ::
    "(int set \<Rightarrow> int list) \<Rightarrow> numa_cell \<Rightarrow> inst_cell \<Rightarrow> numa_limits option \<Rightarrow> (inst_cell \<times> bool) result" where
  "numa_fit_instance_cell ord host ic limit_cell =
     (if icell_memory ic > cell_memory host \<or> icell_len ic > card (cell_cpuset host) then Inr (ic, False)
      else
        bind (if cpu_pinning_requested ic then
                bind (numa_fit_instance_cell_with_pinning ord host ic) (\<lambda>r.
                  case r of None \<Rightarrow> Inr (ic, False) | Some ic' \<Rightarrow> Inr (ic', True))
              else
                (case limit_cell of
                   None \<Rightarrow> Inr (ic, True)
                 | Some lims \<Rightarrow> Inr (ic, \<not> over_limit host ic lims)))
          (\<lambda>(ic', ok).
             if \<not> ok then Inr (ic', False)
             else if truthy (pagesize ic') then
               bind (numa_cell_supports_pagesize_request host ic') (\<lambda>p.
                 if truthy p then Inr (ic'\<lparr>icell_id := cell_id host, pagesize := p\<rparr>, True)
                 else Inr (ic', False))
             else Inr (ic'\<lparr>icell_id := cell_id host, pagesize := None\<rparr>, True)))"

section \<open>Fitting a topology\<close>

text \<open>\<open>itertools.permutations(xs, k)\<close>, in its order.\<close>

fun selections :: "'a list \<Rightarrow> ('a \<times> 'a list) list" where
  "selections [] = []"
| "selections (x # xs) = (x, xs) # map (\<lambda>(y, ys). (y, x # ys)) (selections xs)"

fun permutations :: "nat \<Rightarrow> 'a list \<Rightarrow> 'a list list" where
  "permutations 0 xs = [[]]"
| "permutations (Suc k) xs = concat (map (\<lambda>(y, ys). map ((#) y) (permutations k ys)) (selections xs))"

text \<open>One permutation: stops at the first cell that does not fit.\<close>

fun fit_cells ::
    "(int set \<Rightarrow> int list) \<Rightarrow> numa_limits option \<Rightarrow> numa_cell list \<Rightarrow> inst_cell list \<Rightarrow>
     (inst_cell list \<times> bool) result" where
  "fit_cells ord lims [] cells = Inr (cells, True)"
| "fit_cells ord lims (h # hs) [] = Inr ([], False)"
| "fit_cells ord lims (h # hs) (c # cs) =
     bind (numa_fit_instance_cell ord h c lims) (\<lambda>(c', ok).
       if ok then bind (fit_cells ord lims hs cs) (\<lambda>(cs', ok'). Inr (c' # cs', ok'))
       else Inr (c' # cs, False))"

fun fit_permutations ::
    "(int set \<Rightarrow> int list) \<Rightarrow> numa_limits option \<Rightarrow> pci_request list \<Rightarrow> pool list option \<Rightarrow>
     numa_cell list list \<Rightarrow> inst_cell list \<Rightarrow> (inst_cell list \<times> bool) result" where
  "fit_permutations ord lims reqs stats [] cells = Inr (cells, False)"
| "fit_permutations ord lims reqs stats (p # ps) cells =
     bind (fit_cells ord lims p cells) (\<lambda>(cells', ok).
       if ok \<and> (reqs = [] \<or>
          (case stats of None \<Rightarrow> False
           | Some pools \<Rightarrow> support_requests pools reqs (map icell_id cells')))
       then Inr (cells', True)
       else fit_permutations ord lims reqs stats ps cells')"

text \<open>The cells of the instance topology afterwards; with \<open>True\<close> they are also the result.\<close>

definition numa_fit_instance_to_host ::
    "(int set \<Rightarrow> int list) \<Rightarrow> numa_cell list option \<Rightarrow> inst_cell list option \<Rightarrow> numa_limits option \<Rightarrow>
     pci_request list \<Rightarrow> pool list option \<Rightarrow> (inst_cell list option \<times> bool) result" where
  "numa_fit_instance_to_host ord host inst lims reqs stats =
     (case (host, inst) of
        (Some (h # hs), Some (c # cs)) \<Rightarrow>
          if length (h # hs) < length (c # cs) then Inr (inst, False)
          else bind (fit_permutations ord lims reqs stats
                       (permutations (length (c # cs)) (h # hs)) (c # cs))
                 (\<lambda>(cells, ok). Inr (Some cells, ok))
      | _ \<Rightarrow> Inr (inst, False))"

section \<open>Usage\<close>

definition numa_pagesize_usage_from_cell :: "numa_cell \<Rightarrow> inst_cell \<Rightarrow> int \<Rightarrow> pages list" where
  "numa_pagesize_usage_from_cell host ic sign =
     map (\<lambda>p. if Some (size_kb p) = pagesize ic
          then p\<lparr>used_pages := max 0 (used_pages p + icell_memory ic * 1024 div size_kb p * sign)\<rparr>
          else p) (mempages host)"

text \<open>The body of the innermost loop; the state is the new cell, memory usage and CPU usage.\<close>

definition add_instance_cell ::
    "bool \<Rightarrow> bool \<Rightarrow> numa_cell \<Rightarrow> inst_cell \<Rightarrow> numa_cell \<times> int \<times> int \<Rightarrow> (numa_cell \<times> int \<times> int) result" where
  "add_instance_cell free pinning host ic st =
     (let (newcell, memory_usage, cpu_usage) = st;
          sign = (if free then -1 else 1)
      in if icell_id ic \<noteq> cell_id host then Inr st
         else
           (let newcell' =
              (if truthy (pagesize ic) \<and> the (pagesize ic) > 0
               then newcell\<lparr>mempages := numa_pagesize_usage_from_cell host ic sign\<rparr> else newcell);
                memory' = memory_usage + sign * icell_memory ic;
                cpu' = cpu_usage + sign * int (icell_len ic)
            in if pinning then
                 (case cpu_pinning ic of
                    None \<Rightarrow> Inl AttributeError
                  | Some d \<Rightarrow>
                      bind (if free then unpin_cpus (set (map snd d)) newcell'
                            else pin_cpus (set (map snd d)) newcell') (\<lambda>c. Inr (c, memory', cpu')))
               else Inr (newcell', memory', cpu')))"

definition add_instance ::
    "bool \<Rightarrow> numa_cell \<Rightarrow> inst_cell list \<Rightarrow> numa_cell \<times> int \<times> int \<Rightarrow> (numa_cell \<times> int \<times> int) result" where
  "add_instance free host inst st =
     bind (loop (add_instance_cell free (topology_pinning_requested inst) host) inst st)
       (\<lambda>(newcell, memory_usage, cpu_usage).
          Inr (newcell\<lparr>cell_cpu_usage := max 0 cpu_usage, cell_memory_usage := max 0 memory_usage\<rparr>,
               memory_usage, cpu_usage))"

definition usage_of_cell :: "bool \<Rightarrow> inst_cell list list \<Rightarrow> numa_cell \<Rightarrow> numa_cell result" where
  "usage_of_cell free instances host =
     bind (loop (add_instance free host) instances
             (host\<lparr>cell_cpu_usage := 0, cell_memory_usage := 0\<rparr>,
              cell_memory_usage host, cell_cpu_usage host))
       (\<lambda>(newcell, _, _). Inr newcell)"

definition numa_usage_from_instances ::
    "numa_cell list option \<Rightarrow> inst_cell list list option \<Rightarrow> bool \<Rightarrow> numa_cell list option result" where
  "numa_usage_from_instances host instances free =
     (case host of
        None \<Rightarrow> Inr None
      | Some cells \<Rightarrow>
          bind (traverse (usage_of_cell free (or_default instances [])) cells) (\<lambda>cs. Inr (Some cs)))"

text \<open>The conversion helper, for topologies that are objects already.\<close>

definition get_host_numa_usage_from_instance ::
    "numa_cell list option \<Rightarrow> inst_cell list option \<Rightarrow> bool \<Rightarrow> numa_cell list option result" where
  "get_host_numa_usage_from_instance host inst free =
     numa_usage_from_instances host (if nonempty inst then Some [the inst] else None) free"

section \<open>A packing pins to distinct free CPUs\<close>

lemma pack_threads_shape:
  assumes "pack_threads ord avail ic ns = Some (pinning, t)"
  shows "\<exists>n \<in> set ns. icell_len ic \<le> n * length (sibling_set avail n) \<and> t = gcd n (icell_len ic mod n) \<and>
    pinning = zip (sorted_list_of_set (icell_cpuset ic))
      (concat (map (\<lambda>s. take n (ord s)) (sibling_set avail n))) \<and>
    (icell_thread_policy ic = Some REQUIRE \<longrightarrow> 1 < t)"
  using assms
proof (induction ns)
  case (Cons n ns)
  then show ?case by (auto simp: Let_def not_le not_less split: if_splits)
qed simp

definition disjoint_sets_list :: "int set list \<Rightarrow> bool" where
  "disjoint_sets_list ss \<longleftrightarrow> sorted_wrt (\<lambda>A B. A \<inter> B = {}) ss \<and> list_all finite ss"

lemma usable_distinct:
  assumes "iteration_order ord" and "disjoint_sets_list ss"
  shows "distinct (concat (map (\<lambda>s. take n (ord s)) ss)) \<and>
    set (concat (map (\<lambda>s. take n (ord s)) ss)) \<subseteq> \<Union> (set ss)"
  using assms(2)
proof (induction ss)
  case (Cons s ss)
  have s: "set (take n (ord s)) \<subseteq> s" "distinct (take n (ord s))"
    using assms(1) Cons.prems set_take_subset [of n "ord s"]
    by (auto simp: iteration_order_def disjoint_sets_list_def)
  have IH: "distinct (concat (map (\<lambda>s. take n (ord s)) ss))"
    "set (concat (map (\<lambda>s. take n (ord s)) ss)) \<subseteq> \<Union> (set ss)"
    using Cons by (auto simp: disjoint_sets_list_def)
  have "s \<inter> \<Union> (set ss) = {}" using Cons.prems by (auto simp: disjoint_sets_list_def)
  then show ?case using s IH by (simp del: set_concat) blast
qed simp

lemma usable_length:
  assumes "iteration_order ord" and "list_all finite ss" and "\<forall>s \<in> set ss. n \<le> card s"
  shows "length (concat (map (\<lambda>s. take n (ord s)) ss)) = n * length ss"
  using assms(2,3)
proof (induction ss)
  case (Cons s ss)
  have "length (ord s) = card s"
    using assms(1) Cons.prems(1) by (metis distinct_card iteration_order_def list_all_iff list.set_intros(1))
  then show ?case using Cons by simp
qed simp

lemma sibling_set_disjoint: "disjoint_sets_list ss \<Longrightarrow> disjoint_sets_list (sibling_set ss n)"
  by (auto simp: disjoint_sets_list_def sibling_set_def sorted_wrt_filter list_all_iff)

lemma pack_threads_pins:
  assumes "pack_threads ord avail ic ns = Some (pinning, t)" and "0 \<notin> set ns"
    and ord: "iteration_order ord" and dis: "disjoint_sets_list avail" and fin: "finite (icell_cpuset ic)"
  shows "map fst pinning = sorted_list_of_set (icell_cpuset ic) \<and> distinct (map snd pinning) \<and>
    set (map snd pinning) \<subseteq> \<Union> (set avail) \<and> t dvd length pinning \<and> 0 < t"
proof -
  obtain n where n: "n \<in> set ns" "icell_len ic \<le> n * length (sibling_set avail n)"
    "t = gcd n (icell_len ic mod n)" and
    p: "pinning = zip (sorted_list_of_set (icell_cpuset ic))
      (concat (map (\<lambda>s. take n (ord s)) (sibling_set avail n)))"
    using pack_threads_shape [OF assms(1)] by blast
  let ?u = "concat (map (\<lambda>s. take n (ord s)) (sibling_set avail n))"
  have d: "disjoint_sets_list (sibling_set avail n)" using dis by (rule sibling_set_disjoint)
  have "length ?u = n * length (sibling_set avail n)"
    using d by (intro usable_length ord) (auto simp: disjoint_sets_list_def sibling_set_def)
  then have len: "icell_len ic \<le> length ?u" using n by simp
  have l: "length (sorted_list_of_set (icell_cpuset ic)) = icell_len ic"
    using fin by (simp add: icell_len_def)
  have snd: "map snd pinning = take (icell_len ic) ?u" and fst: "map fst pinning = sorted_list_of_set (icell_cpuset ic)"
    using len l by (simp_all add: p map_fst_zip_take map_snd_zip_take min_def)
  have u: "distinct ?u" "set ?u \<subseteq> \<Union> (set (sibling_set avail n))"
    using usable_distinct [OF ord d] by auto
  have "set (map snd pinning) \<subseteq> \<Union> (set avail)"
  proof -
    have "\<Union> (set (sibling_set avail n)) \<subseteq> \<Union> (set avail)" by (auto simp: sibling_set_def)
    then show ?thesis
      unfolding snd using u(2) set_take_subset [of "icell_len ic" ?u] by (meson subset_trans)
  qed
  moreover have "distinct (map snd pinning)" unfolding snd using u(1) by simp
  moreover have "length pinning = icell_len ic" using fst l by (metis length_map)
  moreover have "gcd n (icell_len ic mod n) dvd icell_len ic"
    by (metis dvd_mod_iff gcd_dvd1 gcd_dvd2)
  moreover have "0 < t" using n assms(2) by (auto simp: gcd_pos_nat intro: gr0I)
  ultimately show ?thesis using fst n(3) by simp
qed

text \<open>What a successful packing says about the cell.\<close>

definition packed_onto :: "int set \<Rightarrow> inst_cell \<Rightarrow> inst_cell \<Rightarrow> bool" where
  "packed_onto cpus ic ic' \<longleftrightarrow>
     icell_cpuset ic' = icell_cpuset ic \<and>
     (\<exists>m. cpu_pinning ic' = Some m \<and> wf_dict m \<and> set (keys m) = icell_cpuset ic \<and>
        inj_on (\<lambda>v. the (map_of m v)) (icell_cpuset ic) \<and> pinning_values ic' \<subseteq> cpus) \<and>
     (\<exists>t. icell_cpu_topology ic' = Some t \<and> sockets t * cores t * threads t = int (icell_len ic))"

lemma pack_instance_packed:
  assumes "pack_instance_onto_cores ord avail ic hid = Inr (Some ic')"
    and ord: "iteration_order ord" and dis: "disjoint_sets_list avail" and fin: "finite (icell_cpuset ic)"
    and old: "case cpu_pinning ic of None \<Rightarrow> True | Some m \<Rightarrow> wf_dict m \<and> set (keys m) \<subseteq> icell_cpuset ic"
  shows "packed_onto (\<Union> (set avail)) ic ic'"
proof -
  obtain pinning t where
    pk: "pack_threads ord avail ic (rev [1..<Suc (max_threads avail)]) = Some (pinning, t)" and
    ne: "pinning \<noteq> []" and
    c: "ic' = (pin_vcpus pinning ic)
      \<lparr>icell_cpu_topology := Some (topo 1 (int (length pinning div t)) (int t)), icell_id := hid\<rparr>"
    using assms(1) by (auto simp: pack_instance_onto_cores_def split: if_splits option.splits)
  note pins = pack_threads_pins [OF pk _ ord dis fin]
  then have f: "map fst pinning = sorted_list_of_set (icell_cpuset ic)" and d: "distinct (map snd pinning)"
    and sub: "set (map snd pinning) \<subseteq> \<Union> (set avail)" and t: "t dvd length pinning" "0 < t"
    by auto
  have fs: "fst ` set pinning = icell_cpuset ic" using f fin
    by (metis list.set_map set_sorted_list_of_set)
  have df: "distinct (map fst pinning)" by (simp add: f)
  define m where "m = or_default (cpu_pinning (pin_vcpus pinning ic)) []"
  have m: "map_of m = map_of (or_default (cpu_pinning ic) []) ++ map_of pinning"
    unfolding m_def using fs df by (intro pin_vcpus_lookup) auto
  have wf: "wf_dict m" unfolding m_def
    using old by (intro pin_vcpus_wf) (auto simp: or_default_def split: option.splits)
  have dm: "set (keys m) = icell_cpuset ic"
  proof -
    have "dom (map_of m) = dom (map_of (or_default (cpu_pinning ic) [])) \<union> dom (map_of pinning)"
      by (simp add: m Un_commute)
    then show ?thesis using fs old
      by (auto simp: dom_map_of_conv_image_fst or_default_def split: option.splits)
  qed
  have mp: "map_of m v = map_of pinning v" if "v \<in> icell_cpuset ic" for v
    using that fs by (auto simp: m map_add_def map_of_eq_None_iff split: option.splits)
  have val: "snd ` set m = snd ` set pinning"
  proof -
    have "set m = set pinning"
      using mp dm fs wf df by (intro set_eqI) (metis (no_types, opaque_lifting) fst_conv image_eqI
          list.set_map map_of_is_SomeI map_of_SomeD surj_pair)
    then show ?thesis by simp
  qed
  have inj: "inj_on (\<lambda>v. the (map_of m v)) (icell_cpuset ic)"
  proof (rule inj_onI)
    fix v w assume vw: "v \<in> icell_cpuset ic" "w \<in> icell_cpuset ic" "the (map_of m v) = the (map_of m w)"
    then obtain p q where "map_of pinning v = Some p" "map_of pinning w = Some q"
      using fs by (metis (no_types) image_iff map_of_eq_None_iff not_None_eq)
    then show "v = w" using vw mp d
      by (metis (no_types, lifting) distinct_map fst_conv inj_onD map_of_SomeD option.sel snd_conv)
  qed
  have "icell_cpuset ic \<noteq> {}" using fs ne by auto
  then have "m \<noteq> []" using dm by auto
  then have "cpu_pinning ic' = Some m" by (auto simp: c m_def or_default_def split: option.splits)
  moreover have "pinning_values ic' \<subseteq> \<Union> (set avail)"
    using val sub by (simp add: pinning_values_def calculation or_default_def)
  moreover have "int (length pinning div t) * int t = int (icell_len ic)"
    using t f fin by (metis dvd_div_mult_self icell_len_def length_map length_sorted_list_of_set of_nat_mult)
  ultimately show ?thesis using wf dm inj
    by (simp add: packed_onto_def c)
qed

definition host_cell_ok :: "numa_cell \<Rightarrow> bool" where
  "host_cell_ok host \<longleftrightarrow> disjoint_sets_list (siblings host) \<and> finite (cell_cpuset host)"

lemma free_siblings_ok:
  assumes "host_cell_ok host"
  shows "disjoint_sets_list (free_siblings host) \<and> \<Union> (set (free_siblings host)) \<subseteq> free_cpus host \<and>
    disjoint_sets_list [free_cpus host]"
  using assms
  by (auto simp: host_cell_ok_def disjoint_sets_list_def free_siblings_def sorted_wrt_map
      list_all_iff free_cpus_def elim!: sorted_wrt_mono_rel [rotated])

lemma packed_onto_mono: "packed_onto A ic ic' \<Longrightarrow> A \<subseteq> B \<Longrightarrow> packed_onto B ic ic'"
  by (auto simp: packed_onto_def)

lemma packed_onto_update [simp]:
  "packed_onto A ic (ic'\<lparr>icell_id := i, pagesize := p\<rparr>) = packed_onto A ic ic'"
  by (simp add: packed_onto_def pinning_values_def)

text \<open>Both fields the code assigns at the end, on whatever the pinning step left.\<close>

lemma fit_cell_shape:
  assumes "numa_fit_instance_cell ord host ic lims = Inr (ic', True)"
  shows "icell_memory ic \<le> cell_memory host \<and> icell_len ic \<le> card (cell_cpuset host) \<and>
    (\<exists>ic1 p. ic' = ic1\<lparr>icell_id := cell_id host, pagesize := p\<rparr> \<and>
      (if cpu_pinning_requested ic
       then numa_fit_instance_cell_with_pinning ord host ic = Inr (Some ic1)
       else ic1 = ic \<and> (\<forall>l. lims = Some l \<longrightarrow> \<not> over_limit host ic l)) \<and>
      (if truthy (pagesize ic1)
       then numa_cell_supports_pagesize_request host ic1 = Inr p \<and> truthy p else p = None))"
proof -
  let ?pin = "if cpu_pinning_requested ic then
      bind (numa_fit_instance_cell_with_pinning ord host ic) (\<lambda>r.
        case r of None \<Rightarrow> Inr (ic, False) | Some ic' \<Rightarrow> Inr (ic', True))
    else (case lims of None \<Rightarrow> Inr (ic, True) | Some l \<Rightarrow> Inr (ic, \<not> over_limit host ic l))"
  have size: "icell_memory ic \<le> cell_memory host" "icell_len ic \<le> card (cell_cpuset host)"
    using assms by (auto simp: numa_fit_instance_cell_def split: if_splits)
  with assms obtain ic1 ok where pin: "?pin = Inr (ic1, ok)" and rest:
    "(if \<not> ok then Inr (ic1, False)
      else if truthy (pagesize ic1) then
        bind (numa_cell_supports_pagesize_request host ic1) (\<lambda>p.
          if truthy p then Inr (ic1\<lparr>icell_id := cell_id host, pagesize := p\<rparr>, True)
          else Inr (ic1, False))
      else Inr (ic1\<lparr>icell_id := cell_id host, pagesize := None\<rparr>, True)) = Inr (ic', True)"
    unfolding numa_fit_instance_cell_def by (simp only: bind_eq_Inr split: if_split_asm) auto
  have ok: "ok" using rest by (simp split: if_splits)
  have "if cpu_pinning_requested ic
       then numa_fit_instance_cell_with_pinning ord host ic = Inr (Some ic1)
       else ic1 = ic \<and> (\<forall>l. lims = Some l \<longrightarrow> \<not> over_limit host ic l)"
    using pin ok by (auto split: if_splits option.splits)
  moreover obtain p where "ic' = ic1\<lparr>icell_id := cell_id host, pagesize := p\<rparr>"
    "if truthy (pagesize ic1)
       then numa_cell_supports_pagesize_request host ic1 = Inr p \<and> truthy p else p = None"
  proof (cases "truthy (pagesize ic1)")
    case True
    then obtain p where "numa_cell_supports_pagesize_request host ic1 = Inr p" "truthy p"
      "ic' = ic1\<lparr>icell_id := cell_id host, pagesize := p\<rparr>"
      using rest ok by (auto split: if_split_asm)
    then show ?thesis using True by (intro that) auto
  next
    case False
    then show ?thesis using rest ok by (intro that [of None]) auto
  qed
  ultimately show ?thesis using size by blast
qed

lemma fit_with_pinning_packed:
  assumes "numa_fit_instance_cell_with_pinning ord host ic = Inr (Some ic')"
    and "host_cell_ok host" and "iteration_order ord" and "finite (icell_cpuset ic)"
    and "cpu_pinning ic = None"
  shows "packed_onto (free_cpus host) ic ic' \<and> icell_memory ic \<le> avail_memory host"
proof -
  note fs = free_siblings_ok [OF assms(2)]
  obtain avail where "pack_instance_onto_cores ord avail ic (cell_id host) = Inr (Some ic')"
    and "disjoint_sets_list avail" "\<Union> (set avail) \<subseteq> free_cpus host" and "icell_memory ic \<le> avail_memory host"
    using assms(1) fs
    by (auto simp: numa_fit_instance_cell_with_pinning_def split: if_splits)
  then show ?thesis using pack_instance_packed assms(3-5) packed_onto_mono by fastforce
qed

text \<open>C19: a guest cell with dedicated CPUs that is fitted onto a host cell is pinned one to one, every
  vCPU of the cell to its own physical CPU, only to CPUs that are free there, with an exposed topology
  of exactly its number of vCPUs, so the host cell accepts the pinning when the guest is accounted.\<close>

theorem fitted_cell_can_be_pinned:
  assumes "numa_fit_instance_cell ord host ic lims = Inr (ic', True)" and "cpu_pinning_requested ic"
    and "host_cell_ok host" and "iteration_order ord" and "finite (icell_cpuset ic)"
    and "cpu_pinning ic = None"
  shows "packed_onto (free_cpus host) ic ic' \<and> icell_id ic' = cell_id host \<and>
    (\<exists>host'. pin_cpus (pinning_values ic') host = Inr host')"
proof -
  obtain ic1 p where 1: "numa_fit_instance_cell_with_pinning ord host ic = Inr (Some ic1)"
    "ic' = ic1\<lparr>icell_id := cell_id host, pagesize := p\<rparr>"
    using fit_cell_shape [OF assms(1)] assms(2) by auto
  then have pk: "packed_onto (free_cpus host) ic ic'"
    using fit_with_pinning_packed [OF 1(1) assms(3-6)] by simp
  then have "pinning_values ic' \<subseteq> free_cpus host" by (auto simp: packed_onto_def)
  then have "\<exists>host'. pin_cpus (pinning_values ic') host = Inr host'"
    using pinning.take_iff by (auto simp: free_cpus_def)
  with pk show ?thesis by (simp add: 1(2))
qed

abbreviation dedicated :: "inst_cell \<Rightarrow> inst_cell" where
  "dedicated c \<equiv> c\<lparr>icell_cpu_policy := Some DEDICATED\<rparr>"

theorem fitted_cell_can_be_pinned_witness:
  "\<exists>ic'. numa_fit_instance_cell sorted_list_of_set sample_cell (dedicated (new_inst_cell 0 {0, 1} 512)) None
     = Inr (ic', True) \<and> packed_onto {1, 2, 3} (dedicated (new_inst_cell 0 {0, 1} 512)) ic'"
proof -
  let ?ic = "dedicated (new_inst_cell 0 {0, 1} 512)"
  have ok: "case numa_fit_instance_cell sorted_list_of_set sample_cell ?ic None of
      Inr (_, True) \<Rightarrow> True | _ \<Rightarrow> False" by code_simp
  then obtain ic' where f: "numa_fit_instance_cell sorted_list_of_set sample_cell ?ic None = Inr (ic', True)"
    by (auto split: sum.splits bool.splits)
  have "free_cpus sample_cell = {1, 2, 3}" by (auto simp: free_cpus_def)
  then show ?thesis
    using fitted_cell_can_be_pinned [OF f _ _ iteration_order_sorted] f
    by (simp add: cpu_pinning_requested_def host_cell_ok_def disjoint_sets_list_def new_inst_cell_def)
qed

lemma verify_pagesizes_fits:
  "verify_pagesizes host ic ps = Inr (Some p) \<Longrightarrow> p \<in> set ps \<and>
   (\<exists>pg \<in> set (mempages host). size_kb pg = p \<and> icell_memory ic * 1024 \<le> free_kb pg \<and>
      p dvd icell_memory ic * 1024)"
proof (induction ps)
  case (Cons q ps)
  then show ?case
    using can_fit_hugepages_True [of "mempages host" q "icell_memory ic * 1024"]
    by (auto simp: can_fit_hugepages_def split: if_splits)
qed simp

text \<open>A cell that is fitted respects every bound it was checked against: the size of the host
  cell, the limits when they apply, and the page size asked for, which the host cell then has with
  enough free memory in whole pages.\<close>

theorem fitted_cell_in_bounds:
  assumes "numa_fit_instance_cell ord host ic lims = Inr (ic', True)"
  shows "icell_memory ic \<le> cell_memory host \<and> icell_len ic \<le> card (cell_cpuset host) \<and>
    (\<forall>l. \<not> cpu_pinning_requested ic \<and> lims = Some l \<longrightarrow> \<not> over_limit host ic l) \<and>
    (\<forall>p. \<not> cpu_pinning_requested ic \<and> pagesize ic' = Some p \<longrightarrow>
       (\<exists>pg \<in> set (mempages host). size_kb pg = p \<and> icell_memory ic * 1024 \<le> free_kb pg \<and>
          p dvd icell_memory ic * 1024))"
proof -
  note sh = fit_cell_shape [OF assms]
  have "\<exists>pg \<in> set (mempages host). size_kb pg = p \<and> icell_memory ic * 1024 \<le> free_kb pg \<and>
          p dvd icell_memory ic * 1024"
    if "\<not> cpu_pinning_requested ic" "pagesize ic' = Some p" for p
  proof -
    have "numa_cell_supports_pagesize_request host ic = Inr (Some p)"
      using sh that by (auto split: if_splits)
    then obtain ps where "verify_pagesizes host ic ps = Inr (Some p)"
      by (auto simp: numa_cell_supports_pagesize_request_def Let_def split: if_splits)
    from verify_pagesizes_fits [OF this] show ?thesis by blast
  qed
  then show ?thesis using sh by auto
qed

theorem fitted_cell_in_bounds_witness:
  "icell_len (new_inst_cell 7 {0, 1} 512) \<le> card (cell_cpuset sample_cell)"
proof -
  have "numa_fit_instance_cell sorted_list_of_set sample_cell (new_inst_cell 7 {0, 1} 512) None =
      Inr (new_inst_cell 0 {0, 1} 512, True)"
    by (simp add: numa_fit_instance_cell_def new_inst_cell_def icell_len_def cpu_pinning_requested_def
        truthy_def)
  from fitted_cell_in_bounds [OF this] show ?thesis by simp
qed

section \<open>Placing a topology\<close>

lemma selections_mset: "(y, ys) \<in> set (selections xs) \<Longrightarrow> mset xs = add_mset y (mset ys)"
  by (induction xs arbitrary: y ys) auto

lemma distinct_submset:
  assumes "mset xs \<subseteq># mset ys" and "distinct ys"
  shows "distinct xs"
proof -
  obtain zs where "mset ys = mset (xs @ zs)"
    using assms(1) by (metis ex_mset mset_append mset_subset_eq_exists_conv)
  then have "distinct (xs @ zs)" using assms(2) by (metis mset_eq_imp_distinct_iff)
  then show ?thesis by simp
qed

lemma permutations_sub: "p \<in> set (permutations k xs) \<Longrightarrow> mset p \<subseteq># mset xs \<and> length p = k"
proof (induction k arbitrary: xs p)
  case (Suc k)
  then obtain y ys q where "(y, ys) \<in> set (selections xs)" "p = y # q" "q \<in> set (permutations k ys)"
    by auto
  with Suc.IH [of q ys] selections_mset [of y ys xs] show ?case by simp
qed simp

lemma fit_cell_id: "numa_fit_instance_cell ord h c lims = Inr (c', True) \<Longrightarrow> icell_id c' = cell_id h"
  using fit_cell_shape by fastforce

lemma fit_cells_ids:
  "fit_cells ord lims hs cs = Inr (cs', True) \<Longrightarrow> length hs = length cs \<Longrightarrow>
   map icell_id cs' = map cell_id hs"
proof (induction hs arbitrary: cs cs')
  case (Cons h hs)
  then obtain c cs1 where "cs = c # cs1" by (cases cs) auto
  with Cons show ?case by (auto dest!: fit_cell_id split: if_splits)
qed simp

lemma fit_cells_length: "fit_cells ord lims hs cs = Inr (cs', ok) \<Longrightarrow> length hs \<le> length cs \<Longrightarrow> length cs' = length cs"
  by (induction ord lims hs cs arbitrary: cs' ok rule: fit_cells.induct) (auto split: if_splits)

lemma fit_permutations_result:
  assumes "fit_permutations ord lims reqs stats ps cs = Inr (cs', True)"
    and "\<forall>p \<in> set ps. length p = length cs"
  shows "(\<exists>p \<in> set ps. map icell_id cs' = map cell_id p) \<and>
    (reqs \<noteq> [] \<longrightarrow> (\<exists>pools. stats = Some pools \<and> support_requests pools reqs (map icell_id cs')))"
  using assms
proof (induction ps arbitrary: cs)
  case (Cons p ps)
  from Cons.prems(1) obtain cs1 ok where
    f: "fit_cells ord lims p cs = Inr (cs1, ok)" and
    r: "(if ok \<and> (reqs = [] \<or> (case stats of None \<Rightarrow> False
           | Some pools \<Rightarrow> support_requests pools reqs (map icell_id cs1)))
         then Inr (cs1, True) else fit_permutations ord lims reqs stats ps cs1) = Inr (cs', True)"
    by auto
  have "length cs1 = length cs" using fit_cells_length [OF f] Cons.prems(2) by simp
  then show ?case
    using r Cons.IH [of cs1] Cons.prems(2) fit_cells_ids [of ord lims p cs cs1] f
    by (auto split: if_splits option.splits)
qed simp

text \<open>A topology that is placed has every guest cell on a host cell of its own, and with PCI
  requests the host's pools support them on those cells.\<close>

theorem placement_is_injective:
  assumes "numa_fit_instance_to_host ord (Some host) (Some inst) lims reqs stats = Inr (Some cells, True)"
    and "distinct (map cell_id host)"
  shows "length cells = length inst \<and> distinct (map icell_id cells) \<and>
    set (map icell_id cells) \<subseteq> set (map cell_id host) \<and>
    (reqs \<noteq> [] \<longrightarrow> (\<exists>pools. stats = Some pools \<and> support_requests pools reqs (map icell_id cells)))"
proof -
  have ne: "inst \<noteq> []" "host \<noteq> []" using assms(1)
    by (auto simp: numa_fit_instance_to_host_def split: list.splits)
  then have "fit_permutations ord lims reqs stats (permutations (length inst) host) inst = Inr (cells, True)"
    using assms(1)
    by (cases inst; cases host) (auto simp: numa_fit_instance_to_host_def simp del: permutations.simps split: if_splits)
  from fit_permutations_result [OF this] obtain p where
    p: "p \<in> set (permutations (length inst) host)" "map icell_id cells = map cell_id p" and
    reqs: "reqs \<noteq> [] \<longrightarrow> (\<exists>pools. stats = Some pools \<and> support_requests pools reqs (map icell_id cells))"
    using permutations_sub by blast
  have sub: "mset p \<subseteq># mset host" and len: "length p = length inst"
    using permutations_sub [OF p(1)] by auto
  have "mset (map cell_id p) \<subseteq># mset (map cell_id host)"
    using image_mset_subseteq_mono [OF sub, of cell_id] by simp
  then have "distinct (map cell_id p)" using assms(2)
    by (rule distinct_submset)
  moreover have "set (map cell_id p) \<subseteq> set (map cell_id host)"
    using set_mset_mono [OF sub] by auto
  moreover have "length cells = length inst" using p(2) len by (metis length_map)
  ultimately show ?thesis using reqs p(2) by simp
qed

theorem placement_is_injective_witness:
  "distinct (map icell_id [new_inst_cell 0 {0} 512, new_inst_cell 1 {1} 512])"
proof -
  let ?host = "[sample_cell, sample_cell\<lparr>cell_id := 1\<rparr>]"
  have "numa_fit_instance_to_host sorted_list_of_set (Some ?host)
      (Some [new_inst_cell 7 {0} 512, new_inst_cell 8 {1} 512]) None [] None =
    Inr (Some [new_inst_cell 0 {0} 512, new_inst_cell 1 {1} 512], True)"
    by (simp add: numa_fit_instance_to_host_def numa_fit_instance_cell_def new_inst_cell_def icell_len_def
        cpu_pinning_requested_def truthy_def)
  from placement_is_injective [OF this] show ?thesis by simp
qed

definition two_sizes_host :: "numa_cell list" where
  "two_sizes_host =
     [sample_cell\<lparr>cell_memory := 4, mempages := [\<lparr>size_kb = 4, total_pages = 1024, used_pages = 0\<rparr>]\<rparr>,
      sample_cell\<lparr>cell_id := 1, cell_memory := 2, mempages := [\<lparr>size_kb = 1, total_pages = 2048, used_pages = 0\<rparr>]\<rparr>]"

definition any_size_guest :: "inst_cell list" where
  "any_size_guest = [(new_inst_cell 0 {0} 2)\<lparr>pagesize := Some MEMPAGES_ANY\<rparr>,
                     (new_inst_cell 1 {1} 4)\<lparr>pagesize := Some MEMPAGES_ANY\<rparr>]"

text \<open>Fitting writes the page size it settled on into the guest's cell even when the permutation
  fails later, so the next permutation asks for that size instead of any size: here the guest fits
  with its cells the other way round, but the attempt ends in an exception.\<close>

theorem resolved_page_size_sticks:
  "numa_fit_instance_to_host sorted_list_of_set (Some two_sizes_host) (Some any_size_guest) None [] None
     = Inl MemoryPageSizeNotSupported \<and>
   (\<exists>cells. fit_cells sorted_list_of_set None (rev two_sizes_host) any_size_guest = Inr (cells, True))"
proof -
  have "numa_fit_instance_to_host sorted_list_of_set (Some two_sizes_host) (Some any_size_guest) None [] None
     = Inl MemoryPageSizeNotSupported" by code_simp
  moreover have "case fit_cells sorted_list_of_set None (rev two_sizes_host) any_size_guest of
      Inr (_, True) \<Rightarrow> True | _ \<Rightarrow> False" by code_simp
  ultimately show ?thesis by (auto split: sum.splits bool.splits)
qed

section \<open>Accounting is undone by freeing\<close>

lemma loop_skip:
  "(\<And>x st. x \<in> set xs \<Longrightarrow> f x st = Inr st) \<Longrightarrow> loop f xs st = Inr st"
  by (induction xs) auto

lemma add_other_cell:
  "icell_id ic \<noteq> cell_id host \<Longrightarrow> add_instance_cell free pinning host ic st = Inr st"
  by (simp add: add_instance_cell_def split: prod.splits)

text \<open>With distinct cell ids, at most one guest cell concerns a host cell.\<close>

lemma loop_one_cell:
  assumes "distinct (map icell_id inst)"
  shows "loop (add_instance_cell free pinning host) inst st =
    (case filter (\<lambda>ic. icell_id ic = cell_id host) inst of
       [] \<Rightarrow> Inr st | ic # _ \<Rightarrow> add_instance_cell free pinning host ic st)"
  using assms
proof (induction inst arbitrary: st)
  case (Cons ic inst)
  show ?case
  proof (cases "icell_id ic = cell_id host")
    case True
    then have "\<forall>x \<in> set inst. icell_id x \<noteq> cell_id host" using Cons.prems by force
    then have "loop (add_instance_cell free pinning host) inst st' = Inr st'" for st'
      by (intro loop_skip add_other_cell) auto
    then show ?thesis using True by (cases "add_instance_cell free pinning host ic st") auto
  next
    case False
    then show ?thesis using Cons by (simp add: add_other_cell)
  qed
qed simp

definition usage_ok :: "numa_cell \<Rightarrow> bool" where
  "usage_ok host \<longleftrightarrow> 0 \<le> cell_cpu_usage host \<and> 0 \<le> cell_memory_usage host \<and>
     (\<forall>p \<in> set (mempages host). 0 \<le> used_pages p)"

lemma pages_undone:
  assumes "\<forall>p \<in> set ps. 0 \<le> used_pages p" and "0 \<le> m" and "0 < k"
  shows "map (\<lambda>p. if Some (size_kb p) = Some k then p\<lparr>used_pages := max 0 (used_pages p + m * 1024 div size_kb p * -1)\<rparr> else p)
      (map (\<lambda>p. if Some (size_kb p) = Some k then p\<lparr>used_pages := max 0 (used_pages p + m * 1024 div size_kb p * 1)\<rparr> else p) ps) = ps"
proof -
  have "0 \<le> m * 1024 div k" using assms by (simp add: pos_imp_zdiv_nonneg_iff)
  then show ?thesis using assms(1) by (induction ps) (auto simp: max_def)
qed

text \<open>The usage a guest adds to a host cell, with the cell written out.\<close>

lemma usage_of_cell_one:
  assumes "distinct (map icell_id inst)"
  shows "usage_of_cell free [inst] host =
    bind (case filter (\<lambda>ic. icell_id ic = cell_id host) inst of
            [] \<Rightarrow> Inr (host\<lparr>cell_cpu_usage := 0, cell_memory_usage := 0\<rparr>,
                       cell_memory_usage host, cell_cpu_usage host)
          | ic # _ \<Rightarrow> add_instance_cell free (topology_pinning_requested inst) host ic
              (host\<lparr>cell_cpu_usage := 0, cell_memory_usage := 0\<rparr>,
               cell_memory_usage host, cell_cpu_usage host))
      (\<lambda>(c, m, u). Inr (c\<lparr>cell_cpu_usage := max 0 u, cell_memory_usage := max 0 m\<rparr>))"
  by (simp add: usage_of_cell_def add_instance_def loop_one_cell [OF assms] split: bind_split list.split)

text \<open>The two directions on the fields of a host cell.\<close>

definition cell_pages :: "numa_cell \<Rightarrow> inst_cell \<Rightarrow> int \<Rightarrow> pages list" where
  "cell_pages host ic sign =
     (if truthy (pagesize ic) \<and> the (pagesize ic) > 0
      then numa_pagesize_usage_from_cell host ic sign else mempages host)"

lemma add_cell_fields:
  "icell_id ic = cell_id host \<Longrightarrow>
   add_instance_cell free pinning host ic
     (host\<lparr>cell_cpu_usage := 0, cell_memory_usage := 0\<rparr>, m, u) =
   (let sign = (if free then -1 else 1);
        c = host\<lparr>cell_cpu_usage := 0, cell_memory_usage := 0, mempages := cell_pages host ic sign\<rparr>;
        m' = m + sign * icell_memory ic; u' = u + sign * int (icell_len ic)
    in if pinning then
         (case cpu_pinning ic of
            None \<Rightarrow> Inl AttributeError
          | Some d \<Rightarrow> bind (if free then unpin_cpus (set (map snd d)) c else pin_cpus (set (map snd d)) c)
              (\<lambda>c. Inr (c, m', u')))
       else Inr (c, m', u'))"
proof -
  assume i: "icell_id ic = cell_id host"
  have mempages_if: "(if b then c\<lparr>mempages := x\<rparr> else c) = c\<lparr>mempages := if b then x else mempages c\<rparr>"
    for b x and c :: numa_cell
    by (cases c) simp
  have frame: "mempages (host\<lparr>cell_cpu_usage := 0, cell_memory_usage := 0\<rparr>) = mempages host"
    by simp
  show ?thesis
    unfolding add_instance_cell_def Let_def prod.case mempages_if cell_pages_def frame
    using i by simp
qed

lemma cell_pages_undone:
  assumes "usage_ok host" and "0 \<le> icell_memory ic" and "mempages host' = cell_pages host ic 1"
  shows "cell_pages host' ic (-1) = mempages host"
proof (cases "truthy (pagesize ic) \<and> the (pagesize ic) > 0")
  case True
  then obtain k where k: "pagesize ic = Some k" "0 < k" by (auto simp: truthy_def)
  then show ?thesis
    using True assms pages_undone [of "mempages host" "icell_memory ic" k]
    by (simp add: cell_pages_def numa_pagesize_usage_from_cell_def usage_ok_def)
next
  case False
  then have "cell_pages h ic sign = mempages h" for h sign by (simp only: cell_pages_def if_False)
  then show ?thesis using assms(3) by simp
qed

lemma pin_cpus_ok:
  assumes "pin_cpus S c = Inr c'"
  shows "S \<subseteq> cell_cpuset c" "pinned_cpus c \<inter> S = {}" "c' = c\<lparr>pinned_cpus := pinned_cpus c \<union> S\<rparr>"
proof -
  show sub: "S \<subseteq> cell_cpuset c" and dis: "pinned_cpus c \<inter> S = {}"
    using pinning.take_pre [OF assms] by blast+
  have "\<not> S - cell_cpuset c \<noteq> {}" "\<not> pinned_cpus c \<inter> S \<noteq> {}" using sub dis by blast+
  then have "pin_cpus S c = Inr (c\<lparr>pinned_cpus := pinned_cpus c \<union> S\<rparr>)"
    unfolding pin_cpus_def by (simp only: if_False)
  with assms show "c' = c\<lparr>pinned_cpus := pinned_cpus c \<union> S\<rparr>" by (metis sum.inject(2))
qed

lemma unpin_cpus_ok:
  assumes "S \<subseteq> cell_cpuset c" and "S \<subseteq> pinned_cpus c"
  shows "unpin_cpus S c = Inr (c\<lparr>pinned_cpus := pinned_cpus c - S\<rparr>)"
proof -
  have "\<not> S - cell_cpuset c \<noteq> {}" "\<not> pinned_cpus c \<inter> S \<noteq> S" using assms by blast+
  then show ?thesis unfolding unpin_cpus_def by (simp only: if_False)
qed

lemma add_cell_undone:
  assumes "usage_ok host" and "0 \<le> icell_memory ic" and i: "icell_id ic = cell_id host"
    and a: "add_instance_cell False pinning host ic (host\<lparr>cell_cpu_usage := 0, cell_memory_usage := 0\<rparr>,
        cell_memory_usage host, cell_cpu_usage host) = Inr (c, m, u)"
    and "host' = c\<lparr>cell_cpu_usage := max 0 u, cell_memory_usage := max 0 m\<rparr>"
  shows "add_instance_cell True pinning host' ic (host'\<lparr>cell_cpu_usage := 0, cell_memory_usage := 0\<rparr>,
        cell_memory_usage host', cell_cpu_usage host')
      = Inr (host\<lparr>cell_cpu_usage := 0, cell_memory_usage := 0\<rparr>, cell_memory_usage host, cell_cpu_usage host)"
proof -
  let ?c0 = "host\<lparr>cell_cpu_usage := 0, cell_memory_usage := 0, mempages := cell_pages host ic 1\<rparr>"
  have m: "m = cell_memory_usage host + icell_memory ic" "u = cell_cpu_usage host + int (icell_len ic)"
    using a unfolding add_cell_fields [OF i] by (auto simp: Let_def split: if_splits option.splits)
  then have mu: "max 0 m = m" "max 0 u = u" using assms(1,2) by (auto simp: usage_ok_def)
  have h: "host' = c\<lparr>cell_cpu_usage := cell_cpu_usage host + int (icell_len ic),
      cell_memory_usage := cell_memory_usage host + icell_memory ic\<rparr>"
    using assms(5) unfolding mu unfolding m .
  show ?thesis
  proof (cases pinning)
    case False
    then have c: "c = ?c0" using a unfolding add_cell_fields [OF i] by (simp add: Let_def)
    have "cell_pages host' ic (-1) = mempages host"
      by (rule cell_pages_undone [OF assms(1,2)]) (simp add: h c)
    moreover have i': "icell_id ic = cell_id host'" using i by (simp add: h c)
    ultimately show ?thesis
      unfolding add_cell_fields [OF i'] using False by (simp add: Let_def h c)
  next
    case True
    then obtain d where d: "cpu_pinning ic = Some d" and c: "pin_cpus (set (map snd d)) ?c0 = Inr c"
      using a unfolding add_cell_fields [OF i] by (auto simp: Let_def split: option.splits)
    let ?S = "set (map snd d)"
    have c': "c = ?c0\<lparr>pinned_cpus := pinned_cpus host \<union> ?S\<rparr>"
      and pre: "?S \<subseteq> cell_cpuset host" "pinned_cpus host \<inter> ?S = {}"
      using pin_cpus_ok [OF c] by simp_all
    have "cell_pages host' ic (-1) = mempages host"
      by (rule cell_pages_undone [OF assms(1,2)]) (simp add: h c')
    moreover have i': "icell_id ic = cell_id host'" using i by (simp add: h c')
    moreover have "unpin_cpus (set (map snd d)) (host'\<lparr>cell_cpu_usage := 0, cell_memory_usage := 0,
        mempages := mempages host\<rparr>) = Inr (host\<lparr>cell_cpu_usage := 0, cell_memory_usage := 0\<rparr>)"
    proof -
      have "pinned_cpus host \<union> ?S - ?S = pinned_cpus host" using pre by blast
      then show ?thesis using pre(1)
        unfolding h c' by (subst unpin_cpus_ok) (simp_all del: set_map Diff_cancel Un_Diff)
    qed
    ultimately show ?thesis
      unfolding add_cell_fields [OF i'] using True d by (simp add: Let_def h c')
  qed
qed

lemma usage_of_cell_undone:
  assumes "usage_ok host" and "distinct (map icell_id inst)" and "\<forall>ic \<in> set inst. 0 \<le> icell_memory ic"
    and u: "usage_of_cell False [inst] host = Inr host'"
  shows "usage_of_cell True [inst] host' = Inr host"
proof -
  note one = usage_of_cell_one [OF assms(2)]
  show ?thesis
  proof (cases "filter (\<lambda>ic. icell_id ic = cell_id host) inst")
    case Nil
    then have "host' = host" using u assms(1) by (auto simp: one usage_ok_def)
    then show ?thesis using u Nil by (simp add: one)
  next
    case (Cons ic ics)
    then have "ic \<in> set (filter (\<lambda>ic. icell_id ic = cell_id host) inst)"
      by (metis list.set_intros(1))
    then have ic: "icell_id ic = cell_id host" "0 \<le> icell_memory ic"
      using assms(3) by auto
    obtain c m v where a: "add_instance_cell False (topology_pinning_requested inst) host ic
        (host\<lparr>cell_cpu_usage := 0, cell_memory_usage := 0\<rparr>, cell_memory_usage host, cell_cpu_usage host) =
        Inr (c, m, v)" and h: "host' = c\<lparr>cell_cpu_usage := max 0 v, cell_memory_usage := max 0 m\<rparr>"
      using u Cons by (auto simp: one)
    have "cell_id c = cell_id host"
      using a unfolding add_cell_fields [OF ic(1)]
      by (auto simp: Let_def split: if_splits option.splits dest!: pin_cpus_ok(3))
    then have "cell_id host' = cell_id host" by (simp add: h)
    then show ?thesis
      using Cons add_cell_undone [OF assms(1) ic(2,1) a h] assms(1)
      by (simp add: one usage_ok_def)
  qed
qed

text \<open>C23: freeing a guest gives back exactly the usage its placement took: CPU and memory usage, used
  pages of every size and pinned CPUs of every host cell are as before.\<close>

theorem free_undoes_usage:
  assumes "numa_usage_from_instances (Some cells) (Some [inst]) False = Inr (Some cells')"
    and "\<forall>h \<in> set cells. usage_ok h" and "distinct (map icell_id inst)"
    and "\<forall>ic \<in> set inst. 0 \<le> icell_memory ic"
  shows "numa_usage_from_instances (Some cells') (Some [inst]) True = Inr (Some cells)"
proof -
  have "list_all2 (\<lambda>h h'. usage_of_cell False [inst] h = Inr h') cells cells'"
    using assms(1) by (auto simp: numa_usage_from_instances_def or_default_def traverse_eq_Inr)
  then have "list_all2 (\<lambda>h' h. usage_of_cell True [inst] h' = Inr h) cells' cells"
    using assms(2)
    by (induction rule: list_all2_induct) (auto dest: usage_of_cell_undone [OF _ assms(3,4)])
  then show ?thesis by (simp add: numa_usage_from_instances_def or_default_def traverse_eq_Inr)
qed

theorem free_undoes_usage_witness:
  "numa_usage_from_instances
     (Some [sample_cell\<lparr>cell_cpu_usage := 2, cell_memory_usage := 512\<rparr>]) (Some [[new_inst_cell 0 {0, 1} 512]]) True
   = Inr (Some [sample_cell])"
proof -
  have "numa_usage_from_instances (Some [sample_cell]) (Some [[new_inst_cell 0 {0, 1} 512]]) False =
     Inr (Some [sample_cell\<lparr>cell_cpu_usage := 2, cell_memory_usage := 512\<rparr>])"
    by (simp add: numa_usage_from_instances_def usage_of_cell_def add_instance_def add_instance_cell_def
        new_inst_cell_def or_default_def truthy_def icell_len_def topology_pinning_requested_def
        cpu_pinning_requested_def)
  from free_undoes_usage [OF this] show ?thesis by (simp add: usage_ok_def new_inst_cell_def)
qed

text \<open>Accounting a guest without a NUMA topology forgets what the host's cells had in use: the
  usage of every cell is set to zero, since it is only filled in inside the loop over the guests.\<close>

theorem usage_forgotten:
  "get_host_numa_usage_from_instance (Some cells) None free =
     Inr (Some (map (\<lambda>c. c\<lparr>cell_cpu_usage := 0, cell_memory_usage := 0\<rparr>) cells))"
proof -
  have "traverse (usage_of_cell free []) cells =
      Inr (map (\<lambda>c. c\<lparr>cell_cpu_usage := 0, cell_memory_usage := 0\<rparr>) cells)"
    by (induction cells) (simp_all add: usage_of_cell_def)
  then show ?thesis
    by (simp add: get_host_numa_usage_from_instance_def numa_usage_from_instances_def or_default_def)
qed

end
