(* ===== verification/HostState.thy ===== *)
theory HostState
  imports NumaFit
begin

text \<open>
  The scheduler's view of hosts (nova/scheduler/host_manager.py): the state of one host, updating it
  from a compute node record and consuming a request on it, and the host manager's tables of
  aggregates, instances and hosts. Database queries are arguments; a lock is held around each
  operation, so an operation is one step. Ratios and limits are exact rationals where the code has
  floats.
\<close>

section \<open>Records\<close>

record aggregate =
  agg_id :: int
  agg_hosts :: "string list"
  agg_metadata :: "(string, string) dict"

record guest =
  guest_uuid :: string
  guest_host :: string
  guest_type_id :: int

record service =
  svc_host :: string
  svc_disabled :: bool
  svc_last_seen :: int

record metric =
  metric_name :: string
  metric_value :: rat

record compute_node =
  cn_host :: string
  cn_hypervisor_hostname :: string
  cn_memory_mb :: int
  cn_free_disk_gb :: int
  cn_disk_available_least :: "int option"
  cn_local_gb_used :: int
  cn_free_ram_mb :: int
  cn_local_gb :: int
  cn_vcpus :: int
  cn_vcpus_used :: int
  cn_updated_at :: "int option"
  cn_numa_topology :: "numa_cell list option"
  cn_pci_device_pools :: "pool_obj list"
  cn_host_ip :: string
  cn_hypervisor_type :: string
  cn_hypervisor_version :: int
  cn_supported_hv_specs :: "string list list"
  cn_stats :: "(string, string) dict"
  cn_metrics :: "metric list"
  cn_cpu_allocation_ratio :: rat
  cn_ram_allocation_ratio :: rat

text \<open>The four entries the filters may leave in the \<open>limits\<close> dictionary.\<close>

record host_limits =
  lim_vcpu :: "rat option"
  lim_memory_mb :: "rat option"
  lim_disk_gb :: "rat option"
  lim_numa_topology :: "numa_limits option"

definition no_limits :: host_limits where
  "no_limits = \<lparr>lim_vcpu = None, lim_memory_mb = None, lim_disk_gb = None, lim_numa_topology = None\<rparr>"

record host_state =
  hs_host :: string
  hs_nodename :: string
  total_usable_ram_mb :: int
  total_usable_disk_gb :: int
  disk_mb_used :: int
  free_ram_mb :: int
  free_disk_mb :: int
  vcpus_total :: int
  vcpus_used :: int
  hs_pci_stats :: "pool list option"
  hs_numa_topology :: "numa_cell list option"
  num_instances :: int
  num_io_ops :: int
  hs_host_ip :: "string option"
  hs_hypervisor_type :: "string option"
  hs_hypervisor_version :: "int option"
  hs_supported_instances :: "string list list option"
  hs_limits :: host_limits
  hs_metrics :: "metric list option"
  hs_aggregates :: "aggregate list"
  hs_instances :: "(string, guest) dict"
  hs_ram_ratio :: "rat option"
  hs_cpu_ratio :: "rat option"
  hs_stats :: "(string, string) dict"
  hs_service :: "service option"
  hs_updated :: "int option"

definition new_host_state :: "string \<Rightarrow> string \<Rightarrow> host_state" where
  "new_host_state host node =
     \<lparr>hs_host = host, hs_nodename = node, total_usable_ram_mb = 0, total_usable_disk_gb = 0,
      disk_mb_used = 0, free_ram_mb = 0, free_disk_mb = 0, vcpus_total = 0, vcpus_used = 0,
      hs_pci_stats = None, hs_numa_topology = None, num_instances = 0, num_io_ops = 0,
      hs_host_ip = None, hs_hypervisor_type = None, hs_hypervisor_version = None,
      hs_supported_instances = None, hs_limits = no_limits, hs_metrics = None, hs_aggregates = [],
      hs_instances = [], hs_ram_ratio = None, hs_cpu_ratio = None, hs_stats = [],
      hs_service = None, hs_updated = None\<rparr>"

record server_group =
  group_policies :: "string list"
  group_hosts :: "string list"
  group_members :: "string list"

text \<open>A set image property as a filter reads it: its type and, for lists, its printed form.\<close>

datatype image_value = IText string | INumber int | IFlag bool | IListText string

record image =
  image_id :: string
  image_typed :: image_props
  image_values :: "(string, image_value) dict"

record request_spec =
  spec_vcpus :: int
  spec_memory_mb :: int
  spec_root_gb :: int
  spec_ephemeral_gb :: int
  spec_swap :: int
  spec_flavor :: flavor
  spec_image :: "image option"
  spec_project_id :: string
  spec_availability_zone :: "string option"
  spec_pci_requests :: "pci_request list option"
  spec_numa_topology :: "inst_cell list option"
  spec_retry_hosts :: "(string \<times> string) list option"
  spec_hints :: "(string, string list) dict"
  spec_group :: "server_group option"
  spec_ignore_hosts :: "string list"
  spec_force_hosts :: "string list"
  spec_force_nodes :: "string list"
  spec_num_instances :: int

section \<open>Updating a host\<close>

text \<open>
  A newer local state is kept. Both counters come from texts and may fail to convert; what was
  assigned before stays assigned.
\<close>

definition update_from_compute_node :: "compute_node \<Rightarrow> host_state \<Rightarrow> host_state \<times> unit result" where
  "update_from_compute_node c hs =
     (if (case (hs_updated hs, cn_updated_at c) of (Some u, Some v) \<Rightarrow> u > v | _ \<Rightarrow> False)
      then (hs, Inr ())
      else
        (let free_gb = (case cn_disk_available_least c of
                          None \<Rightarrow> cn_free_disk_gb c
                        | Some least \<Rightarrow> min least (cn_free_disk_gb c));
             hs1 = hs\<lparr>disk_mb_used := cn_local_gb_used c * 1024, free_ram_mb := cn_free_ram_mb c,
               total_usable_ram_mb := cn_memory_mb c, total_usable_disk_gb := cn_local_gb c,
               free_disk_mb := free_gb * 1024, vcpus_total := cn_vcpus c,
               vcpus_used := cn_vcpus_used c, hs_updated := cn_updated_at c,
               hs_numa_topology := cn_numa_topology c,
               hs_pci_stats := Some (init_stats (cn_pci_device_pools c)),
               hs_host_ip := Some (cn_host_ip c), hs_hypervisor_type := Some (cn_hypervisor_type c),
               hs_hypervisor_version := Some (cn_hypervisor_version c),
               hs_supported_instances := Some (cn_supported_hv_specs c), hs_stats := cn_stats c\<rparr>
         in case py_int (dict_get (cn_stats c) ''num_instances'' ''0'') of
              Inl e \<Rightarrow> (hs1, Inl e)
            | Inr n \<Rightarrow>
                (let hs2 = hs1\<lparr>num_instances := n\<rparr> in
                 case py_int (dict_get (cn_stats c) ''io_workload'' ''0'') of
                   Inl e \<Rightarrow> (hs2, Inl e)
                 | Inr k \<Rightarrow>
                     (hs2\<lparr>num_io_ops := k, hs_metrics := Some (cn_metrics c),
                          hs_cpu_ratio := Some (cn_cpu_allocation_ratio c),
                          hs_ram_ratio := Some (cn_ram_allocation_ratio c)\<rparr>, Inr ()))))"

definition update_host ::
    "compute_node option \<Rightarrow> service option \<Rightarrow> aggregate list option \<Rightarrow> (string, guest) dict option \<Rightarrow>
     host_state \<Rightarrow> host_state \<times> unit result" where
  "update_host compute svc aggs insts hs =
     (let (hs1, r) = (case compute of None \<Rightarrow> (hs, Inr ()) | Some c \<Rightarrow> update_from_compute_node c hs)
      in case r of
           Inl e \<Rightarrow> (hs1, Inl e)
         | Inr _ \<Rightarrow>
             (let hs2 = (case aggs of None \<Rightarrow> hs1 | Some a \<Rightarrow> hs1\<lparr>hs_aggregates := a\<rparr>);
                  hs3 = (case svc of None \<Rightarrow> hs2 | Some s \<Rightarrow> hs2\<lparr>hs_service := Some s\<rparr>);
                  hs4 = (case insts of None \<Rightarrow> hs3 | Some i \<Rightarrow> hs3\<lparr>hs_instances := i\<rparr>)
              in (hs4, Inr ())))"

section \<open>Consuming a request\<close>

text \<open>
  The host and the request afterwards and whether an exception ended it; the assignments made before
  an exception stay.
\<close>

definition locked_consume_from_request ::
    "(int set \<Rightarrow> int list) \<Rightarrow> host_state \<Rightarrow> request_spec \<Rightarrow> host_state \<times> request_spec \<times> unit result" where
  "locked_consume_from_request ord hs spec =
     (let disk_mb = (spec_root_gb spec + spec_ephemeral_gb spec) * 1024;
          hs1 = hs\<lparr>free_ram_mb := free_ram_mb hs - spec_memory_mb spec,
                   free_disk_mb := free_disk_mb hs - disk_mb,
                   vcpus_used := vcpus_used hs + spec_vcpus spec,
                   num_instances := num_instances hs + 1\<rparr>;
          pci_requests = (case (spec_pci_requests spec, hs_pci_stats hs) of
                            (Some rs, Some _) \<Rightarrow> rs | _ \<Rightarrow> [])
      in case numa_fit_instance_to_host ord (hs_numa_topology hs) (spec_numa_topology spec)
                (lim_numa_topology (hs_limits hs)) pci_requests (hs_pci_stats hs) of
           Inl e \<Rightarrow> (hs1, spec, Inl e)
         | Inr (cells, placed) \<Rightarrow>
             (let spec1 = spec\<lparr>spec_numa_topology := (if placed then cells else None)\<rparr>;
                  cell_ids = map icell_id (or_default (spec_numa_topology spec1) []);
                  (pools, applied) = (if pci_requests = [] then (hs_pci_stats hs, Inr ())
                    else (let (ps, r) = apply_requests (the (hs_pci_stats hs)) pci_requests cell_ids
                          in (Some ps, r)));
                  hs2 = hs1\<lparr>hs_pci_stats := pools\<rparr>
              in case applied of
                   Inl e \<Rightarrow> (hs2, spec1, Inl e)
                 | Inr _ \<Rightarrow>
                     (case get_host_numa_usage_from_instance (hs_numa_topology hs)
                             (spec_numa_topology spec1) False of
                        Inl e \<Rightarrow> (hs2, spec1, Inl e)
                      | Inr numa \<Rightarrow>
                          (hs2\<lparr>hs_numa_topology := numa, num_io_ops := num_io_ops hs2 + 1\<rparr>,
                           spec1, Inr ()))))"

text \<open>The decorator swallows every exception and stamps the time only on success.\<close>

definition consume_from_request ::
    "(int set \<Rightarrow> int list) \<Rightarrow> int \<Rightarrow> host_state \<Rightarrow> request_spec \<Rightarrow> host_state \<times> request_spec" where
  "consume_from_request ord now hs spec =
     (let (hs', spec', r) = locked_consume_from_request ord hs spec in
      (case r of Inl _ \<Rightarrow> hs' | Inr _ \<Rightarrow> hs'\<lparr>hs_updated := Some now\<rparr>, spec'))"

section \<open>The host manager's tables\<close>

text \<open>\<open>host_aggregates_map\<close> creates an empty set for a host that is looked up.\<close>

record agg_tables =
  aggs_by_id :: "(int, aggregate) dict"
  host_aggregates_map :: "(string, int set) dict"

definition touch :: "string \<Rightarrow> (string, int set) dict \<Rightarrow> (string, int set) dict" where
  "touch host m = (if host \<in> set (keys m) then m else m @ [(host, {})])"

definition map_add_agg :: "int \<Rightarrow> string \<Rightarrow> (string, int set) dict \<Rightarrow> (string, int set) dict" where
  "map_add_agg i host m = AList.update host (insert i (dict_get m host {})) m"

definition init_aggregates :: "aggregate list \<Rightarrow> agg_tables" where
  "init_aggregates aggs =
     fold (\<lambda>agg t. t\<lparr>aggs_by_id := AList.update (agg_id agg) agg (aggs_by_id t),
              host_aggregates_map :=
                fold (map_add_agg (agg_id agg)) (agg_hosts agg) (host_aggregates_map t)\<rparr>)
       aggs \<lparr>aggs_by_id = [], host_aggregates_map = []\<rparr>"

definition update_aggregate :: "aggregate \<Rightarrow> agg_tables \<Rightarrow> agg_tables" where
  "update_aggregate agg t =
     t\<lparr>aggs_by_id := AList.update (agg_id agg) agg (aggs_by_id t),
       host_aggregates_map :=
         map (\<lambda>(host, ids). (host, if agg_id agg \<in> ids \<and> host \<notin> set (agg_hosts agg)
                then ids - {agg_id agg} else ids))
           (fold (map_add_agg (agg_id agg)) (agg_hosts agg) (host_aggregates_map t))\<rparr>"

definition update_aggregates :: "aggregate list \<Rightarrow> agg_tables \<Rightarrow> agg_tables" where
  "update_aggregates aggs t = fold update_aggregate aggs t"

definition map_remove_agg :: "int \<Rightarrow> string \<Rightarrow> (string, int set) dict \<Rightarrow> (string, int set) dict" where
  "map_remove_agg i host m =
     (let m' = touch host m in AList.update host (dict_get m' host {} - {i}) m')"

definition delete_aggregate :: "aggregate \<Rightarrow> agg_tables \<Rightarrow> agg_tables" where
  "delete_aggregate agg t =
     t\<lparr>aggs_by_id := AList.delete (agg_id agg) (aggs_by_id t),
       host_aggregates_map :=
         fold (map_remove_agg (agg_id agg)) (agg_hosts agg) (host_aggregates_map t)\<rparr>"

text \<open>The ids are visited in the set's order \<open>ord\<close>; an id without an aggregate raises.\<close>

definition get_aggregates_info ::
    "(int set \<Rightarrow> int list) \<Rightarrow> string \<Rightarrow> agg_tables \<Rightarrow> aggregate list result \<times> agg_tables" where
  "get_aggregates_info ord host t =
     (traverse (dict_index (aggs_by_id t)) (ord (dict_get (host_aggregates_map t) host {})),
      t\<lparr>host_aggregates_map := touch host (host_aggregates_map t)\<rparr>)"

subsection \<open>Instances\<close>

text \<open>Per host: its instances by uuid and whether the host keeps sending updates.\<close>

type_synonym instance_info = "(string, (string, guest) dict \<times> bool) dict"

definition by_uuid :: "guest list \<Rightarrow> (string, guest) dict" where
  "by_uuid gs = fold (\<lambda>g. AList.update (guest_uuid g) g) gs []"

definition add_instance_info :: "guest \<Rightarrow> instance_info \<Rightarrow> instance_info" where
  "add_instance_info g info =
     (let (insts, updated) = dict_get info (guest_host g) ([], False) in
      AList.update (guest_host g) (AList.update (guest_uuid g) g insts, updated) info)"

text \<open>The nodes in batches of ten: \<open>query\<close> is the instances on the given hosts.\<close>

function init_batches ::
    "(string list \<Rightarrow> guest list) \<Rightarrow> string list \<Rightarrow> nat \<Rightarrow> instance_info \<Rightarrow> instance_info" where
  "init_batches query nodes start info =
     (if start \<le> length nodes
      then init_batches query nodes (start + 10)
             (fold add_instance_info (query (take 10 (drop start nodes))) info)
      else info)"
  by pat_completeness auto
termination
  by (relation "measure (\<lambda>(q, nodes, start, i). Suc (length nodes) - start)") auto

declare init_batches.simps [simp del]

definition init_instance_info :: "(string list \<Rightarrow> guest list) \<Rightarrow> string list \<Rightarrow> instance_info" where
  "init_instance_info query nodes = init_batches query nodes 0 []"

definition get_instance_info ::
    "(string \<Rightarrow> guest list) \<Rightarrow> string \<Rightarrow> instance_info \<Rightarrow> (string, guest) dict" where
  "get_instance_info by_host host info =
     (case map_of info host of
        Some (insts, True) \<Rightarrow> insts
      | _ \<Rightarrow> by_uuid (by_host host))"

definition recreate_instance_info ::
    "(string \<Rightarrow> guest list) \<Rightarrow> string \<Rightarrow> instance_info \<Rightarrow> instance_info" where
  "recreate_instance_info by_host host info =
     AList.update host (by_uuid (by_host host), False) info"

definition update_instance_info ::
    "(string \<Rightarrow> guest list) \<Rightarrow> string \<Rightarrow> guest list \<Rightarrow> instance_info \<Rightarrow> instance_info" where
  "update_instance_info by_host host insts info =
     (case map_of info host of
        Some (d, _) \<Rightarrow>
          AList.update host (fold (\<lambda>g. AList.update (guest_uuid g) g) insts d, True) info
      | None \<Rightarrow>
          if length insts > 1 then AList.update host (by_uuid insts, True) info
          else recreate_instance_info by_host host info)"

definition delete_instance_info ::
    "(string \<Rightarrow> guest list) \<Rightarrow> string \<Rightarrow> string \<Rightarrow> instance_info \<Rightarrow> instance_info" where
  "delete_instance_info by_host host uuid info =
     (case map_of info host of
        Some (d, _) \<Rightarrow> AList.update host (AList.delete uuid d, True) info
      | None \<Rightarrow> recreate_instance_info by_host host info)"

definition sync_instance_info ::
    "(string \<Rightarrow> guest list) \<Rightarrow> string \<Rightarrow> string list \<Rightarrow> instance_info \<Rightarrow> instance_info" where
  "sync_instance_info by_host host uuids info =
     (case map_of info host of
        Some (d, _) \<Rightarrow>
          if set (keys d) \<noteq> set uuids then recreate_instance_info by_host host info
          else AList.update host (d, True) info
      | None \<Rightarrow> recreate_instance_info by_host host info)"

subsection \<open>Hosts\<close>

type_synonym host_key = "string \<times> string"

record host_manager =
  hm_states :: "(host_key, host_state) dict"
  hm_aggs :: agg_tables
  hm_info :: instance_info

text \<open>The loop over compute nodes; the state is the manager and the keys seen.\<close>

definition refresh_host ::
    "(int set \<Rightarrow> int list) \<Rightarrow> (string, service) dict \<Rightarrow> (string \<Rightarrow> guest list) \<Rightarrow> compute_node \<Rightarrow>
     host_manager \<times> host_key set \<Rightarrow> (host_manager \<times> host_key set) result" where
  "refresh_host ord services by_host c st =
     (let (hm, seen) = st in
      case map_of services (cn_host c) of
        None \<Rightarrow> Inr st
      | Some svc \<Rightarrow>
          (let key = (cn_host c, cn_hypervisor_hostname c);
               hs = dict_get (hm_states hm) key (new_host_state (cn_host c) (cn_hypervisor_hostname c));
               (aggs, tables) = get_aggregates_info ord (cn_host c) (hm_aggs hm)
           in bind aggs (\<lambda>aggs.
                let (hs', r) = update_host (Some c) (Some svc) (Some aggs)
                      (Some (get_instance_info by_host (cn_host c) (hm_info hm))) hs
                in bind r (\<lambda>_. Inr (hm\<lparr>hm_states := AList.update key hs' (hm_states hm),
                                       hm_aggs := tables\<rparr>, insert key seen)))))"

definition get_all_host_states ::
    "(int set \<Rightarrow> int list) \<Rightarrow> service list \<Rightarrow> compute_node list \<Rightarrow> (string \<Rightarrow> guest list) \<Rightarrow>
     host_manager \<Rightarrow> host_manager result" where
  "get_all_host_states ord services computes by_host hm =
     (let service_refs = fold (\<lambda>s. AList.update (svc_host s) s) services [] in
      bind (loop (refresh_host ord service_refs by_host) computes (hm, {})) (\<lambda>(hm', seen).
        Inr (hm'\<lparr>hm_states := filter (\<lambda>(key, _). key \<in> seen) (hm_states hm')\<rparr>)))"

section \<open>Aggregates stay consistent\<close>

definition host_aggs :: "agg_tables \<Rightarrow> string \<Rightarrow> int set" where
  "host_aggs t h = dict_get (host_aggregates_map t) h {}"

definition agg_ok :: "agg_tables \<Rightarrow> bool" where
  "agg_ok t \<longleftrightarrow>
     (\<forall>i a. map_of (aggs_by_id t) i = Some a \<longrightarrow> agg_id a = i) \<and>
     (\<forall>h i. i \<in> host_aggs t h \<longleftrightarrow> (\<exists>a. map_of (aggs_by_id t) i = Some a \<and> h \<in> set (agg_hosts a)))"

text \<open>
  The notifications the manager receives. A deletion carries the aggregate as the sender knows it,
  which must name at least the hosts the manager knows.
\<close>

inductive agg_reach :: "agg_tables \<Rightarrow> bool" where
  reach_init: "distinct (map agg_id aggs) \<Longrightarrow> agg_reach (init_aggregates aggs)"
| reach_update: "agg_reach t \<Longrightarrow> agg_reach (update_aggregate agg t)"
| reach_delete: "agg_reach t \<Longrightarrow>
    (\<forall>a. map_of (aggs_by_id t) (agg_id agg) = Some a \<longrightarrow> set (agg_hosts a) \<subseteq> set (agg_hosts agg)) \<Longrightarrow>
    agg_reach (delete_aggregate agg t)"
| reach_lookup: "agg_reach t \<Longrightarrow> agg_reach (snd (get_aggregates_info ord h t))"

declare dict_get_update [simp]

lemma fold_map_add_agg:
  "dict_get (fold (map_add_agg i) hosts m) h {} = dict_get m h {} \<union> (if h \<in> set hosts then {i} else {})"
  by (induction hosts arbitrary: m) (auto simp: map_add_agg_def)

lemma dict_get_touch [simp]: "dict_get (touch h m) h' {} = dict_get m h' {}"
  by (auto simp: touch_def dict_get_def map_add_def split: option.splits)

lemma map_of_map_val: "map_of (map (\<lambda>(k, v). (k, f k v)) d) k = map_option (f k) (map_of d k)"
  by (induction d) auto

lemma dict_get_purge:
  "dict_get (map (\<lambda>(host, ids). (host, if P host ids then ids - {i} else ids)) m) h {} =
   (if P h (dict_get m h {}) then dict_get m h {} - {i} else dict_get m h {})"
  by (simp add: dict_get_def map_of_map_val split: option.split)

lemma fold_delete_agg:
  "dict_get (fold (map_remove_agg i) hosts m) h {} =
   dict_get m h {} - (if h \<in> set hosts then {i} else {})"
  by (induction hosts arbitrary: m) (auto simp: map_remove_agg_def Let_def)

lemma agg_okI:
  "(\<And>i a. map_of (aggs_by_id t) i = Some a \<Longrightarrow> agg_id a = i) \<Longrightarrow>
   (\<And>h i. i \<in> host_aggs t h \<longleftrightarrow> (\<exists>a. map_of (aggs_by_id t) i = Some a \<and> h \<in> set (agg_hosts a))) \<Longrightarrow>
   agg_ok t"
  by (simp add: agg_ok_def)

lemma agg_ok_id: "agg_ok t \<Longrightarrow> map_of (aggs_by_id t) i = Some a \<Longrightarrow> agg_id a = i"
  unfolding agg_ok_def by blast

lemma agg_ok_mem:
  "agg_ok t \<Longrightarrow> i \<in> host_aggs t h \<longleftrightarrow> (\<exists>a. map_of (aggs_by_id t) i = Some a \<and> h \<in> set (agg_hosts a))"
  unfolding agg_ok_def by blast

lemma init_aggregates_ok:
  assumes "distinct (map agg_id aggs)"
  shows "agg_ok (init_aggregates aggs)"
proof -
  define step :: "aggregate \<Rightarrow> agg_tables \<Rightarrow> agg_tables"
    where "step = (\<lambda>agg t. t\<lparr>aggs_by_id := AList.update (agg_id agg) agg (aggs_by_id t),
              host_aggregates_map :=
                fold (map_add_agg (agg_id agg)) (agg_hosts agg) (host_aggregates_map t)\<rparr>)"
  have "agg_ok (fold step aggs t)"
    if "agg_ok t" "distinct (map agg_id aggs)" "\<forall>a \<in> set aggs. map_of (aggs_by_id t) (agg_id a) = None"
    for t aggs
    using that
  proof (induction aggs arbitrary: t)
    case (Cons a aggs)
    have "agg_ok (step a t)"
    proof (rule agg_okI)
      fix i b
      assume "map_of (aggs_by_id (step a t)) i = Some b"
      then have "i = agg_id a \<and> b = a \<or> map_of (aggs_by_id t) i = Some b"
        by (simp add: step_def split: if_splits)
      then show "agg_id b = i" using agg_ok_id [OF Cons.prems(1)] by blast
    next
      fix h i
      show "i \<in> host_aggs (step a t) h \<longleftrightarrow>
        (\<exists>b. map_of (aggs_by_id (step a t)) i = Some b \<and> h \<in> set (agg_hosts b))"
      proof (cases "i = agg_id a")
        case True
        then have "i \<notin> host_aggs t h" using agg_ok_mem [OF Cons.prems(1), of i h] Cons.prems(3) by simp
        then show ?thesis using True by (simp add: step_def host_aggs_def fold_map_add_agg)
      next
        case False
        then show ?thesis using agg_ok_mem [OF Cons.prems(1), of i h]
          by (simp add: step_def host_aggs_def fold_map_add_agg)
      qed
    qed
    moreover have "\<forall>b \<in> set aggs. map_of (aggs_by_id (step a t)) (agg_id b) = None"
    proof
      fix b assume b: "b \<in> set aggs"
      then have "agg_id b \<noteq> agg_id a" using Cons.prems(2) by (simp add: image_iff) metis
      then show "map_of (aggs_by_id (step a t)) (agg_id b) = None"
        using b Cons.prems(3) by (simp add: step_def)
    qed
    ultimately show ?case using Cons.IH [of "step a t"] Cons.prems(2) by simp
  qed simp
  moreover have "agg_ok \<lparr>aggs_by_id = [], host_aggregates_map = []\<rparr>"
    by (rule agg_okI) (simp_all add: host_aggs_def dict_get_def)
  ultimately have "agg_ok (fold step aggs \<lparr>aggs_by_id = [], host_aggregates_map = []\<rparr>)"
    using assms by simp
  then show ?thesis unfolding init_aggregates_def step_def .
qed

lemma agg_reach_ok: "agg_reach t \<Longrightarrow> agg_ok t"
proof (induction rule: agg_reach.induct)
  case (reach_init aggs)
  then show ?case by (rule init_aggregates_ok)
next
  case (reach_update t agg)
  then show ?case
    by (auto simp: agg_ok_def update_aggregate_def host_aggs_def dict_get_purge fold_map_add_agg
        split: if_splits)
next
  case (reach_delete t agg)
  then show ?case
    by (auto simp: agg_ok_def delete_aggregate_def host_aggs_def fold_delete_agg split: if_splits)
next
  case (reach_lookup t ord h)
  then show ?case by (simp add: agg_ok_def get_aggregates_info_def host_aggs_def)
qed

lemma traverse_total: "\<forall>x \<in> set xs. \<exists>y. f x = Inr y \<Longrightarrow> \<exists>ys. traverse f xs = Inr ys"
  by (induction xs) auto



section \<open>Instance tracking\<close>

lemma init_batches_all:
  "init_batches (\<lambda>hs. concat (map q hs)) nodes start info =
   fold add_instance_info (concat (map q (drop start nodes))) info"
proof (induction "\<lambda>hs. concat (map q hs)" nodes start info rule: init_batches.induct)
  case (1 nodes start info)
  have "drop start nodes = take 10 (drop start nodes) @ drop (start + 10) nodes"
    by (metis append_take_drop_id drop_drop add.commute)
  then have "concat (map q (drop start nodes)) =
      concat (map q (take 10 (drop start nodes))) @ concat (map q (drop (start + 10) nodes))"
    by (metis concat_append map_append)
  with 1 show ?case by (subst init_batches.simps) simp
qed

text \<open>Loading the instances in batches of ten compute nodes finds the same instances as going
  through the nodes one by one: no node is skipped or loaded twice at a batch boundary.\<close>

theorem batches_cover_all_nodes:
  "init_instance_info (\<lambda>hosts. concat (map q hosts)) nodes =
   fold (\<lambda>node info. fold add_instance_info (q node) info) nodes []"
proof -
  have "fold add_instance_info (concat (map q nodes)) info =
      fold (\<lambda>node info. fold add_instance_info (q node) info) nodes info" for info
    by (induction nodes arbitrary: info) auto
  then show ?thesis by (simp add: init_instance_info_def init_batches_all)
qed

text \<open>After a host has reported the uuids of its instances, the instances the scheduler uses for
  it are either a tracked view with exactly those uuids or, when the view did not match, what the
  database says.\<close>

theorem sync_makes_view_exact:
  "let view = get_instance_info by_host host (sync_instance_info by_host host uuids info)
   in set (keys view) = set uuids \<or> view = by_uuid (by_host host)"
  by (auto simp: get_instance_info_def sync_instance_info_def recreate_instance_info_def Let_def
      split: option.splits)

section \<open>What a consumed request costs\<close>

lemma consume_charges:
  assumes "consume_from_request ord now hs spec = (hs', spec')"
  shows "free_ram_mb hs' = free_ram_mb hs - spec_memory_mb spec \<and>
    free_disk_mb hs' = free_disk_mb hs - (spec_root_gb spec + spec_ephemeral_gb spec) * 1024 \<and>
    vcpus_used hs' = vcpus_used hs + spec_vcpus spec \<and>
    num_instances hs' = num_instances hs + 1 \<and>
    hs_limits hs' = hs_limits hs \<and> total_usable_ram_mb hs' = total_usable_ram_mb hs \<and>
    (hs_updated hs' = Some now \<and> num_io_ops hs' = num_io_ops hs + 1 \<or>
     hs_updated hs' = hs_updated hs \<and> num_io_ops hs' = num_io_ops hs)"
  using assms
  by (auto simp: consume_from_request_def locked_consume_from_request_def Let_def
      split: sum.splits prod.splits option.splits)

text \<open>Consuming a request charges its memory, disk and CPUs to the host whatever happens to its
  NUMA and PCI demands: an exception there is swallowed after the charge, and only then is the time
  of the last update left as it was.\<close>

theorem consume_always_charges:
  "let hs' = fst (consume_from_request ord now hs spec) in
   free_ram_mb hs' = free_ram_mb hs - spec_memory_mb spec \<and>
   free_disk_mb hs' = free_disk_mb hs - (spec_root_gb spec + spec_ephemeral_gb spec) * 1024 \<and>
   vcpus_used hs' = vcpus_used hs + spec_vcpus spec \<and>
   num_instances hs' = num_instances hs + 1 \<and>
   hs_limits hs' = hs_limits hs \<and> total_usable_ram_mb hs' = total_usable_ram_mb hs \<and>
   (hs_updated hs' = Some now \<and> num_io_ops hs' = num_io_ops hs + 1 \<or>
    hs_updated hs' = hs_updated hs \<and> num_io_ops hs' = num_io_ops hs)"
  using consume_charges [of ord now hs spec] by (simp add: Let_def prod_eq_iff)

end
