(* ===== verification/FilterOps.thy ===== *)
theory FilterOps
  imports HostState "HOL-Library.List_Lexorder" "HOL-Library.Char_ord"
begin

text \<open>
  The individual host filters (nova/scheduler/filters): the helpers they share (utils.py), the
  comparison language of extra specs (extra_specs_ops.py) and the \<open>host_passes\<close> method of each
  filter. A filter that stores a limit returns the host it changed; an exception is an error value.
\<close>

section \<open>Configuration\<close>

text \<open>
  The options the filters and weighers read, the clock, the interpreter's iteration orders and the
  address library's membership test.
\<close>

record sched_conf =
  conf_disk_allocation_ratio :: rat
  conf_max_io_ops_per_host :: int
  conf_max_instances_per_host :: int
  conf_default_availability_zone :: string
  conf_isolated_hosts :: "string list"
  conf_isolated_images :: "string list"
  conf_restrict_isolated :: bool
  conf_image_namespace :: "string option"
  conf_image_separator :: string
  conf_weight_setting :: "string list"
  conf_service_down_time :: int
  conf_now :: int
  conf_str_order :: "string set \<Rightarrow> string list"
  conf_id_order :: "int set \<Rightarrow> int list"
  conf_key_order :: "host_key set \<Rightarrow> host_key list"
  conf_in_network :: "string \<Rightarrow> string option \<Rightarrow> bool result"
  conf_ram_weight_multiplier :: rat
  conf_io_ops_weight_multiplier :: rat
  conf_soft_affinity_weight_multiplier :: rat
  conf_soft_anti_affinity_weight_multiplier :: rat
  conf_metrics_weight_multiplier :: rat
  conf_metrics_required :: bool
  conf_weight_of_unavailable :: rat
  conf_host_subset_size :: int

text \<open>The documented defaults, and a plain request and host for examples.\<close>

definition plain_conf :: sched_conf where
  "plain_conf =
     \<lparr>conf_disk_allocation_ratio = 1, conf_max_io_ops_per_host = 8, conf_max_instances_per_host = 50,
      conf_default_availability_zone = ''nova'', conf_isolated_hosts = [], conf_isolated_images = [],
      conf_restrict_isolated = True, conf_image_namespace = None, conf_image_separator = ''.'',
      conf_weight_setting = [], conf_service_down_time = 60, conf_now = 0,
      conf_str_order = (\<lambda>A. []), conf_id_order = sorted_list_of_set, conf_key_order = (\<lambda>A. []),
      conf_in_network = (\<lambda>net ip. Inr False), conf_ram_weight_multiplier = 1,
      conf_io_ops_weight_multiplier = -1, conf_soft_affinity_weight_multiplier = 1,
      conf_soft_anti_affinity_weight_multiplier = 1, conf_metrics_weight_multiplier = 1,
      conf_metrics_required = True, conf_weight_of_unavailable = -10000, conf_host_subset_size = 1\<rparr>"

definition plain_spec :: "int \<Rightarrow> int \<Rightarrow> int \<Rightarrow> request_spec" where
  "plain_spec vcpus mem n =
     \<lparr>spec_vcpus = vcpus, spec_memory_mb = mem, spec_root_gb = 0, spec_ephemeral_gb = 0, spec_swap = 0,
      spec_flavor = plain_flavor vcpus mem [], spec_image = None, spec_project_id = ''p'',
      spec_availability_zone = None, spec_pci_requests = None, spec_numa_topology = None,
      spec_retry_hosts = None, spec_hints = [], spec_group = None, spec_ignore_hosts = [],
      spec_force_hosts = [], spec_force_nodes = [], spec_num_instances = n\<rparr>"

definition plain_host :: "host_key \<Rightarrow> int \<Rightarrow> host_state" where
  "plain_host k ram =
     (new_host_state (fst k) (snd k))\<lparr>total_usable_ram_mb := ram, free_ram_mb := ram,
        hs_ram_ratio := Some (3 / 2), hs_cpu_ratio := Some 16\<rparr>"

section \<open>Numbers in texts\<close>

datatype pyfloat = Finite rat | Infinite bool | NaN

fun fl_le :: "pyfloat \<Rightarrow> pyfloat \<Rightarrow> bool" where
  "fl_le (Finite a) (Finite b) = (a \<le> b)"
| "fl_le NaN y = False"
| "fl_le x NaN = False"
| "fl_le (Infinite neg) (Infinite neg') = (neg \<or> \<not> neg')"
| "fl_le (Infinite neg) (Finite b) = neg"
| "fl_le (Finite a) (Infinite neg) = (\<not> neg)"

definition fl_eq :: "pyfloat \<Rightarrow> pyfloat \<Rightarrow> bool" where
  "fl_eq x y \<longleftrightarrow> x \<noteq> NaN \<and> x = y"

text \<open>The digits before and after the point, and what follows them.\<close>

definition parse_mantissa :: "string \<Rightarrow> (rat \<times> string) option" where
  "parse_mantissa u =
     (let ds = takeWhile is_digit u; r = dropWhile is_digit u;
          dotted = (r \<noteq> [] \<and> hd r = CHR ''.'');
          fs = (if dotted then takeWhile is_digit (tl r) else []);
          rest = (if dotted then dropWhile is_digit (tl r) else r)
      in if ds = [] \<and> fs = [] then None
         else Some (rat_of_int (digits_val 0 ds) + frac_val fs, rest))"

definition parse_exponent :: "string \<Rightarrow> rat result" where
  "parse_exponent r =
     (case r of
        [] \<Rightarrow> Inr 1
      | e # s \<Rightarrow>
          if e \<noteq> CHR ''e'' \<and> e \<noteq> CHR ''E'' then Inl ValueError
          else
            (let neg = (s \<noteq> [] \<and> hd s = CHR ''-'');
                 ds = (if s \<noteq> [] \<and> (hd s = CHR ''-'' \<or> hd s = CHR ''+'') then tl s else s)
             in bind (parse_nat ds) (\<lambda>n. Inr (if neg then 1 / 10 ^ nat n else 10 ^ nat n))))"

text \<open>\<open>float(s)\<close>.\<close>

definition py_float :: "string \<Rightarrow> pyfloat result" where
  "py_float s =
     (let t = strip s; neg = (t \<noteq> [] \<and> hd t = CHR ''-'');
          u = (if t \<noteq> [] \<and> (hd t = CHR ''-'' \<or> hd t = CHR ''+'') then tl t else t)
      in if lower u = ''inf'' \<or> lower u = ''infinity'' then Inr (Infinite neg)
         else if lower u = ''nan'' then Inr NaN
         else case parse_mantissa u of
                None \<Rightarrow> Inl ValueError
              | Some (m, r) \<Rightarrow>
                  bind (parse_exponent r) (\<lambda>x. Inr (Finite (if neg then - (m * x) else m * x))))"

text \<open>A ratio or weight: infinities are outside the model and count as undecodable.\<close>

definition py_ratio :: "string \<Rightarrow> rat result" where
  "py_ratio s = bind (py_float s) (\<lambda>v. case v of Finite q \<Rightarrow> Inr q | _ \<Rightarrow> Inl ValueError)"

section \<open>Helpers\<close>

text \<open>The set of values as a list without repetition.\<close>

definition aggregate_values_from_key :: "host_state \<Rightarrow> string \<Rightarrow> string list" where
  "aggregate_values_from_key hs key_name =
     remdups (List.map_filter (\<lambda>a. map_of (agg_metadata a) key_name) (hs_aggregates hs))"

definition add_metadata :: "(string \<times> string) \<Rightarrow> (string, string set) dict \<Rightarrow> (string, string set) dict" where
  "add_metadata kv d =
     (case kv of (k, v) \<Rightarrow>
        AList.update k (dict_get d k {} \<union> set (map strip (split_on (CHR '','') v))) d)"

definition aggregate_metadata_get_by_host ::
    "host_state \<Rightarrow> string option \<Rightarrow> (string, string set) dict" where
  "aggregate_metadata_get_by_host hs key =
     fold (\<lambda>a d. if (case key of None \<Rightarrow> True | Some k \<Rightarrow> k \<in> set (keys (agg_metadata a)))
                 then fold add_metadata (agg_metadata a) d else d)
       (hs_aggregates hs) []"

definition validate_num_values ::
    "string list \<Rightarrow> 'a option \<Rightarrow> (string \<Rightarrow> 'a result) \<Rightarrow> ('a list \<Rightarrow> 'a) \<Rightarrow> 'a option result" where
  "validate_num_values vals dflt cast_to based_on =
     (if vals = [] then Inr dflt
      else bind (traverse cast_to vals) (\<lambda>ns. Inr (Some (based_on ns))))"

text \<open>The common body of the aggregate filters: an undecodable value falls back to the default.\<close>

definition aggregate_number ::
    "(string \<Rightarrow> 'a::linorder result) \<Rightarrow> string \<Rightarrow> 'a option \<Rightarrow> host_state \<Rightarrow> 'a option" where
  "aggregate_number cast_to key dflt hs =
     (case validate_num_values (aggregate_values_from_key hs key) dflt cast_to min_list of
        Inl _ \<Rightarrow> dflt
      | Inr v \<Rightarrow> v)"

datatype hint = OneHint string | ManyHints "string list"

definition get_scheduler_hint :: "request_spec \<Rightarrow> string \<Rightarrow> hint option \<Rightarrow> hint option" where
  "get_scheduler_hint spec name dflt =
     (case map_of (spec_hints spec) name of
        None \<Rightarrow> dflt
      | Some [x] \<Rightarrow> Some (OneHint x)
      | Some xs \<Rightarrow> Some (ManyHints xs))"

definition hint_given :: "hint option \<Rightarrow> bool" where
  "hint_given h = (case h of None \<Rightarrow> False | Some (OneHint x) \<Rightarrow> x \<noteq> [] | Some (ManyHints xs) \<Rightarrow> xs \<noteq> [])"

definition instance_uuids_overlap :: "host_state \<Rightarrow> hint \<Rightarrow> bool" where
  "instance_uuids_overlap hs uuids =
     (let us = (case uuids of OneHint u \<Rightarrow> [u] | ManyHints l \<Rightarrow> l)
      in set (keys (hs_instances hs)) \<inter> set us \<noteq> {})"

definition other_types_on_host :: "host_state \<Rightarrow> int \<Rightarrow> bool" where
  "other_types_on_host hs type_id = (set (map (guest_type_id \<circ> snd) (hs_instances hs)) - {type_id} \<noteq> {})"

section \<open>The extra specs language\<close>

definition num_op :: "string \<Rightarrow> (pyfloat \<Rightarrow> pyfloat \<Rightarrow> bool) option" where
  "num_op w =
     (if w = ''='' \<or> w = ''>='' then Some (\<lambda>x y. fl_le y x)
      else if w = ''=='' then Some fl_eq
      else if w = ''!='' then Some (\<lambda>x y. \<not> fl_eq x y)
      else if w = ''<='' then Some fl_le
      else None)"

definition str_op :: "string \<Rightarrow> (string \<Rightarrow> string \<Rightarrow> bool) option" where
  "str_op w =
     (if w = ''s=='' then Some (=)
      else if w = ''s!='' then Some (\<noteq>)
      else if w = ''s<'' then Some (<)
      else if w = ''s<='' then Some (\<le>)
      else if w = ''s>'' then Some (>)
      else if w = ''s>='' then Some (\<ge>)
      else if w = ''<in>'' then Some contains_str
      else None)"

text \<open>The loop over the words of an \<open><or>\<close>: a value, then a keyword to drop, and so on.\<close>

fun match_or :: "string list \<Rightarrow> string \<Rightarrow> bool result" where
  "match_or [] v = Inl IndexError"
| "match_or [w] v = Inr (w = v)"
| "match_or [w, k] v = Inr (w = v)"
| "match_or (w # k # x # ws) v = (if w = v then Inr True else match_or (x # ws) v)"

definition match :: "string option \<Rightarrow> string \<Rightarrow> bool result" where
  "match v req =
     (case words req of
        [] \<Rightarrow> Inr (v = Some req)
      | w # ws \<Rightarrow>
          if w \<noteq> ''<or>'' \<and> w \<noteq> ''<all-in>'' \<and> num_op w = None \<and> str_op w = None
          then Inr (v = Some req)
          else case v of
            None \<Rightarrow> Inr False
          | Some x \<Rightarrow>
              if w = ''<or>'' then match_or ws x
              else (case ws of
                 [] \<Rightarrow> Inr False
               | y # _ \<Rightarrow>
                   if w = ''<all-in>'' then Inr (list_all (contains_str x) ws)
                   else case num_op w of
                     Some f \<Rightarrow> bind (py_float x) (\<lambda>a. bind (py_float y) (\<lambda>b. Inr (f a b)))
                   | None \<Rightarrow> Inr (case str_op w of Some g \<Rightarrow> g x y | None \<Rightarrow> False)))"

section \<open>Filters that read the host\<close>

text \<open>The heartbeat of the database driver of the service group.\<close>

definition service_is_up :: "sched_conf \<Rightarrow> service \<Rightarrow> bool" where
  "service_is_up cf svc \<longleftrightarrow> \<bar>conf_now cf - svc_last_seen svc\<bar> \<le> conf_service_down_time cf"

definition compute_passes :: "sched_conf \<Rightarrow> host_state \<Rightarrow> bool result" where
  "compute_passes cf hs =
     (case hs_service hs of
        None \<Rightarrow> Inl TypeError
      | Some svc \<Rightarrow> Inr (if svc_disabled svc then False else service_is_up cf svc))"

definition core_ratio :: "bool \<Rightarrow> host_state \<Rightarrow> rat option" where
  "core_ratio aggregated hs =
     (if aggregated then aggregate_number py_ratio ''cpu_allocation_ratio'' (hs_cpu_ratio hs) hs
      else hs_cpu_ratio hs)"

definition core_passes :: "bool \<Rightarrow> host_state \<Rightarrow> request_spec \<Rightarrow> (host_state \<times> bool) result" where
  "core_passes aggregated hs spec =
     (if vcpus_total hs = 0 then Inr (hs, True)
      else case core_ratio aggregated hs of
        None \<Rightarrow> Inl TypeError
      | Some ratio \<Rightarrow>
          (let vcpus = rat_of_int (vcpus_total hs) * ratio;
               hs' = (if vcpus > 0 then hs\<lparr>hs_limits := (hs_limits hs)\<lparr>lim_vcpu := Some vcpus\<rparr>\<rparr> else hs)
           in if vcpus > 0 \<and> spec_vcpus spec > vcpus_total hs then Inr (hs', False)
              else Inr (hs', \<not> vcpus - rat_of_int (vcpus_used hs) < rat_of_int (spec_vcpus spec))))"

definition ram_ratio :: "bool \<Rightarrow> host_state \<Rightarrow> rat option" where
  "ram_ratio aggregated hs =
     (if aggregated then aggregate_number py_ratio ''ram_allocation_ratio'' (hs_ram_ratio hs) hs
      else hs_ram_ratio hs)"

definition ram_passes :: "bool \<Rightarrow> host_state \<Rightarrow> request_spec \<Rightarrow> (host_state \<times> bool) result" where
  "ram_passes aggregated hs spec =
     (if \<not> total_usable_ram_mb hs \<ge> spec_memory_mb spec then Inr (hs, False)
      else case ram_ratio aggregated hs of
        None \<Rightarrow> Inl TypeError
      | Some ratio \<Rightarrow>
          (let memory_mb_limit = rat_of_int (total_usable_ram_mb hs) * ratio;
               used_ram_mb = total_usable_ram_mb hs - free_ram_mb hs;
               usable_ram = memory_mb_limit - rat_of_int used_ram_mb
           in if \<not> usable_ram \<ge> rat_of_int (spec_memory_mb spec) then Inr (hs, False)
              else Inr (hs\<lparr>hs_limits := (hs_limits hs)\<lparr>lim_memory_mb := Some memory_mb_limit\<rparr>\<rparr>, True)))"

definition disk_ratio :: "sched_conf \<Rightarrow> bool \<Rightarrow> host_state \<Rightarrow> rat" where
  "disk_ratio cf aggregated hs =
     (if aggregated
      then the (aggregate_number py_ratio ''disk_allocation_ratio'' (Some (conf_disk_allocation_ratio cf)) hs)
      else conf_disk_allocation_ratio cf)"

definition requested_disk_mb :: "request_spec \<Rightarrow> int" where
  "requested_disk_mb spec = 1024 * (spec_root_gb spec + spec_ephemeral_gb spec) + spec_swap spec"

definition disk_passes :: "sched_conf \<Rightarrow> bool \<Rightarrow> host_state \<Rightarrow> request_spec \<Rightarrow> host_state \<times> bool" where
  "disk_passes cf aggregated hs spec =
     (let total_usable_disk_mb = total_usable_disk_gb hs * 1024;
          disk_mb_limit = rat_of_int total_usable_disk_mb * disk_ratio cf aggregated hs;
          used_disk_mb = total_usable_disk_mb - free_disk_mb hs;
          usable_disk_mb = disk_mb_limit - rat_of_int used_disk_mb
      in if \<not> usable_disk_mb \<ge> rat_of_int (requested_disk_mb spec) then (hs, False)
         else (hs\<lparr>hs_limits := (hs_limits hs)\<lparr>lim_disk_gb := Some (disk_mb_limit / 1024)\<rparr>\<rparr>, True))"

definition io_ops_passes :: "sched_conf \<Rightarrow> bool \<Rightarrow> host_state \<Rightarrow> bool" where
  "io_ops_passes cf aggregated hs =
     (num_io_ops hs <
       (if aggregated
        then the (aggregate_number py_int ''max_io_ops_per_host'' (Some (conf_max_io_ops_per_host cf)) hs)
        else conf_max_io_ops_per_host cf))"

definition num_instances_passes :: "sched_conf \<Rightarrow> bool \<Rightarrow> host_state \<Rightarrow> bool" where
  "num_instances_passes cf aggregated hs =
     (num_instances hs <
       (if aggregated
        then the (aggregate_number py_int ''max_instances_per_host'' (Some (conf_max_instances_per_host cf)) hs)
        else conf_max_instances_per_host cf))"

definition exact_core_passes :: "host_state \<Rightarrow> request_spec \<Rightarrow> bool" where
  "exact_core_passes hs spec =
     (if vcpus_total hs = 0 then False else \<not> spec_vcpus spec \<noteq> vcpus_total hs - vcpus_used hs)"

definition exact_disk_passes :: "host_state \<Rightarrow> request_spec \<Rightarrow> bool" where
  "exact_disk_passes hs spec \<longleftrightarrow> \<not> requested_disk_mb spec \<noteq> free_disk_mb hs"

definition exact_ram_passes :: "host_state \<Rightarrow> request_spec \<Rightarrow> bool" where
  "exact_ram_passes hs spec \<longleftrightarrow> \<not> spec_memory_mb spec \<noteq> free_ram_mb hs"

section \<open>Filters that read where the guest may go\<close>

definition retry_passes :: "host_state \<Rightarrow> request_spec \<Rightarrow> bool" where
  "retry_passes hs spec =
     (case spec_retry_hosts spec of
        None \<Rightarrow> True
      | Some tried \<Rightarrow> (hs_host hs, hs_nodename hs) \<notin> set tried)"

definition different_host_passes :: "host_state \<Rightarrow> request_spec \<Rightarrow> bool" where
  "different_host_passes hs spec =
     (let uuids = get_scheduler_hint spec ''different_host'' None in
      if hint_given uuids then \<not> instance_uuids_overlap hs (the uuids) else True)"

definition same_host_passes :: "host_state \<Rightarrow> request_spec \<Rightarrow> bool" where
  "same_host_passes hs spec =
     (let uuids = get_scheduler_hint spec ''same_host'' None in
      if hint_given uuids \<and> hs_instances hs \<noteq> [] then instance_uuids_overlap hs (the uuids) else True)"

definition hint_text :: "hint option \<Rightarrow> string result" where
  "hint_text h = (case h of Some (OneHint s) \<Rightarrow> Inr s | _ \<Rightarrow> Inl TypeError)"

definition cidr_affinity_passes :: "sched_conf \<Rightarrow> host_state \<Rightarrow> request_spec \<Rightarrow> bool result" where
  "cidr_affinity_passes cf hs spec =
     (let cidr = get_scheduler_hint spec ''cidr'' (Some (OneHint ''/24''));
          addr = get_scheduler_hint spec ''build_near_host_ip'' None
      in if hint_given addr
         then bind (hint_text addr) (\<lambda>a. bind (hint_text cidr) (\<lambda>c.
                conf_in_network cf (a @ c) (hs_host_ip hs)))
         else Inr True)"

definition group_policies_of :: "request_spec \<Rightarrow> string list" where
  "group_policies_of spec = (case spec_group spec of None \<Rightarrow> [] | Some g \<Rightarrow> group_policies g)"

definition group_hosts_of :: "request_spec \<Rightarrow> string list" where
  "group_hosts_of spec = (case spec_group spec of None \<Rightarrow> [] | Some g \<Rightarrow> group_hosts g)"

definition group_anti_affinity_passes :: "host_state \<Rightarrow> request_spec \<Rightarrow> bool" where
  "group_anti_affinity_passes hs spec =
     (if ''anti-affinity'' \<notin> set (group_policies_of spec) then True
      else if group_hosts_of spec \<noteq> [] then hs_host hs \<notin> set (group_hosts_of spec) else True)"

definition group_affinity_passes :: "host_state \<Rightarrow> request_spec \<Rightarrow> bool" where
  "group_affinity_passes hs spec =
     (if ''affinity'' \<notin> set (group_policies_of spec) then True
      else if group_hosts_of spec \<noteq> [] then hs_host hs \<in> set (group_hosts_of spec) else True)"

definition isolated_hosts_passes :: "sched_conf \<Rightarrow> host_state \<Rightarrow> request_spec \<Rightarrow> bool" where
  "isolated_hosts_passes cf hs spec =
     (if conf_isolated_images cf = []
      then \<not> conf_restrict_isolated cf \<or> hs_host hs \<notin> set (conf_isolated_hosts cf)
      else
        (let image_isolated = (case spec_image spec of None \<Rightarrow> False
                               | Some i \<Rightarrow> image_id i \<in> set (conf_isolated_images cf));
             host_isolated = (hs_host hs \<in> set (conf_isolated_hosts cf))
         in if conf_restrict_isolated cf then image_isolated = host_isolated
            else \<not> image_isolated \<or> host_isolated))"

definition type_affinity_passes :: "host_state \<Rightarrow> request_spec \<Rightarrow> bool" where
  "type_affinity_passes hs spec \<longleftrightarrow> \<not> other_types_on_host hs (flavor_id (spec_flavor spec))"

section \<open>Filters that read aggregates\<close>

definition availability_zone_passes :: "sched_conf \<Rightarrow> host_state \<Rightarrow> request_spec \<Rightarrow> bool" where
  "availability_zone_passes cf hs spec =
     (case spec_availability_zone spec of
        None \<Rightarrow> True
      | Some az \<Rightarrow>
          if az = [] then True
          else case map_of (aggregate_metadata_get_by_host hs (Some ''availability_zone'')) ''availability_zone'' of
                 Some zones \<Rightarrow> az \<in> zones
               | None \<Rightarrow> az = conf_default_availability_zone cf)"

definition multi_tenancy_passes :: "host_state \<Rightarrow> request_spec \<Rightarrow> bool" where
  "multi_tenancy_passes hs spec =
     (let metadata = aggregate_metadata_get_by_host hs (Some ''filter_tenant_id'') in
      if metadata \<noteq> [] then
        (case map_of metadata ''filter_tenant_id'' of
           None \<Rightarrow> True
         | Some ids \<Rightarrow> if ids \<noteq> {} then spec_project_id spec \<in> ids else True)
      else True)"

definition aggregate_type_affinity_passes :: "host_state \<Rightarrow> request_spec \<Rightarrow> bool" where
  "aggregate_type_affinity_passes hs spec =
     (let vals = aggregate_values_from_key hs ''instance_type'' in
      if list_ex (\<lambda>v. flavor_name (spec_flavor spec) \<in> set (map strip (split_on (CHR '','') v))) vals
      then True else vals = [])"

text \<open>The names of the fields of \<open>ImageMetaProps\<close>; any other name raises.\<close>

definition image_fields :: "string list" where
  "image_fields =
     [''hw_architecture'', ''hw_auto_disk_config'', ''hw_boot_menu'', ''hw_cdrom_bus'', ''hw_cpu_cores'',
      ''hw_cpu_sockets'', ''hw_cpu_max_cores'', ''hw_cpu_max_sockets'', ''hw_cpu_max_threads'',
      ''hw_cpu_policy'', ''hw_cpu_thread_policy'', ''hw_cpu_realtime_mask'', ''hw_cpu_threads'',
      ''hw_device_id'', ''hw_disk_bus'', ''hw_disk_type'', ''hw_floppy_bus'', ''hw_ipxe_boot'',
      ''hw_machine_type'', ''hw_mem_page_size'', ''hw_numa_nodes'', ''hw_numa_cpus'', ''hw_numa_mem'',
      ''hw_qemu_guest_agent'', ''hw_rng_model'', ''hw_serial_port_count'', ''hw_scsi_model'',
      ''hw_video_model'', ''hw_video_ram'', ''hw_vif_model'', ''hw_vm_mode'', ''hw_watchdog_action'',
      ''hw_vif_multiqueue_enabled'', ''img_bittorrent'', ''img_bdm_v2'', ''img_block_device_mapping'',
      ''img_cache_in_nova'', ''img_compression_level'', ''img_hv_requested_version'', ''img_hv_type'',
      ''img_config_drive'', ''img_linked_clone'', ''img_mappings'', ''img_owner_id'',
      ''img_root_device_name'', ''img_use_agent'', ''img_version'', ''os_admin_user'',
      ''os_command_line'', ''os_distro'', ''os_require_quiesce'', ''os_skip_agent_inject_files_at_boot'',
      ''os_skip_agent_inject_ssh'', ''os_type'']"

definition image_get :: "image \<Rightarrow> string \<Rightarrow> image_value option result" where
  "image_get i name =
     (if name \<notin> set image_fields then Inl AttributeError else Inr (map_of (image_values i) name))"

definition image_value_true :: "image_value \<Rightarrow> bool" where
  "image_value_true v =
     (case v of IText s \<Rightarrow> s \<noteq> [] | INumber n \<Rightarrow> n \<noteq> 0 | IFlag b \<Rightarrow> b | IListText s \<Rightarrow> s \<noteq> ''[]'')"

definition image_value_str :: "image_value \<Rightarrow> string" where
  "image_value_str v =
     (case v of IText s \<Rightarrow> s | INumber n \<Rightarrow> show_int n
      | IFlag b \<Rightarrow> (if b then ''True'' else ''False'') | IListText s \<Rightarrow> s)"

text \<open>The loop over the aggregates' keys, in the dictionary's order.\<close>

fun image_isolation_loop ::
    "sched_conf \<Rightarrow> image option \<Rightarrow> (string, string set) dict \<Rightarrow> string list \<Rightarrow> bool result" where
  "image_isolation_loop cf img metadata [] = Inr True"
| "image_isolation_loop cf img metadata (k # ks) =
     (if (case conf_image_namespace cf of
            None \<Rightarrow> False
          | Some ns \<Rightarrow> ns \<noteq> [] \<and> \<not> startswith k (ns @ conf_image_separator cf))
      then image_isolation_loop cf img metadata ks
      else bind (case img of None \<Rightarrow> Inr None | Some i \<Rightarrow> image_get i k) (\<lambda>prop.
        if (case prop of
              None \<Rightarrow> False
            | Some v \<Rightarrow> image_value_true v \<and> image_value_str v \<notin> dict_get metadata k {})
        then Inr False else image_isolation_loop cf img metadata ks))"

definition image_isolation_passes :: "sched_conf \<Rightarrow> host_state \<Rightarrow> request_spec \<Rightarrow> bool result" where
  "image_isolation_passes cf hs spec =
     (let metadata = aggregate_metadata_get_by_host hs None in
      image_isolation_loop cf (spec_image spec) metadata (conf_str_order cf (set (keys metadata))))"

text \<open>Whether some value matches, in the set's order; the first match ends the loop.\<close>

fun match_any :: "string \<Rightarrow> string list \<Rightarrow> bool result" where
  "match_any req [] = Inr False"
| "match_any req (v # vs) = bind (match (Some v) req) (\<lambda>b. if b then Inr True else match_any req vs)"

definition SCOPE :: string where "SCOPE = ''aggregate_instance_extra_specs''"

fun extra_specs_loop :: "sched_conf \<Rightarrow> (string, string set) dict \<Rightarrow> (string \<times> string) list \<Rightarrow> bool result" where
  "extra_specs_loop cf metadata [] = Inr True"
| "extra_specs_loop cf metadata ((key, req) # rest) =
     (let scope = split_once (CHR '':'') key in
      if length scope > 1 \<and> hd scope \<noteq> SCOPE then extra_specs_loop cf metadata rest
      else
        (let name = last scope; vals = dict_get metadata name {} in
         if vals = {} then Inr False
         else bind (match_any req (conf_str_order cf vals)) (\<lambda>b.
           if b then extra_specs_loop cf metadata rest else Inr False)))"

definition extra_specs_passes :: "sched_conf \<Rightarrow> host_state \<Rightarrow> request_spec \<Rightarrow> bool result" where
  "extra_specs_passes cf hs spec =
     extra_specs_loop cf (aggregate_metadata_get_by_host hs None) (extra_specs (spec_flavor spec))"

section \<open>NUMA, PCI and metrics\<close>

text \<open>An image without the property yields \<open>None\<close>, which is not the tested policy.\<close>

definition satisfies_cpu_policy :: "host_state \<Rightarrow> (string, string) dict \<Rightarrow> image_props \<Rightarrow> bool" where
  "satisfies_cpu_policy hs specs props =
     (case hs_numa_topology hs of
        None \<Rightarrow> True
      | Some cells \<Rightarrow>
          if cells = [] then True
          else if \<not> (map_of specs ''hw:cpu_policy'' = Some ''dedicated'' \<or> hw_cpu_policy props = Some DEDICATED)
          then True
          else if \<not> (map_of specs ''hw:cpu_thread_policy'' = Some ''require'' \<or>
                     hw_cpu_thread_policy props = Some REQUIRE)
          then True
          else list_all (\<lambda>c. siblings c \<noteq> []) cells)"

definition numa_topology_passes ::
    "sched_conf \<Rightarrow> host_state \<Rightarrow> request_spec \<Rightarrow> (host_state \<times> request_spec \<times> bool) result" where
  "numa_topology_passes cf hs spec =
     (case spec_image spec of
        None \<Rightarrow> Inl AttributeError
      | Some img \<Rightarrow>
          if \<not> satisfies_cpu_policy hs (extra_specs (spec_flavor spec)) (image_typed img)
          then Inr (hs, spec, False)
          else if nonempty (spec_numa_topology spec) \<and> nonempty (hs_numa_topology hs) then
            (case (hs_cpu_ratio hs, hs_ram_ratio hs) of
               (Some c, Some r) \<Rightarrow>
                 (let lims = \<lparr>cpu_allocation_ratio = c, ram_allocation_ratio = r\<rparr> in
                  bind (numa_fit_instance_to_host (conf_id_order cf) (hs_numa_topology hs)
                          (spec_numa_topology spec) (Some lims)
                          (or_default (spec_pci_requests spec) []) (hs_pci_stats hs))
                    (\<lambda>(cells, placed).
                      let spec' = spec\<lparr>spec_numa_topology := cells\<rparr> in
                      if placed
                      then Inr (hs\<lparr>hs_limits := (hs_limits hs)\<lparr>lim_numa_topology := Some lims\<rparr>\<rparr>, spec', True)
                      else Inr (hs, spec', False)))
             | _ \<Rightarrow> Inl ValueError)
          else if nonempty (spec_numa_topology spec) then Inr (hs, spec, False)
          else Inr (hs, spec, True))"

definition pci_passthrough_passes :: "host_state \<Rightarrow> request_spec \<Rightarrow> bool result" where
  "pci_passthrough_passes hs spec =
     (case spec_pci_requests spec of
        None \<Rightarrow> Inr True
      | Some reqs \<Rightarrow>
          (case hs_pci_stats hs of
             None \<Rightarrow> Inl AttributeError
           | Some pools \<Rightarrow> Inr (support_requests pools reqs [])))"

text \<open>\<open>parse_options\<close> of nova/scheduler/utils.py: the well-formed options, in order.\<close>

definition parse_options ::
    "string list \<Rightarrow> char \<Rightarrow> (string \<Rightarrow> 'a result) \<Rightarrow> (string \<times> 'a) list" where
  "parse_options opts sep converter =
     List.map_filter (\<lambda>opt.
       let (key, seen_sep, v) = partition_str sep opt in
       case converter v of
         Inl _ \<Rightarrow> None
       | Inr x \<Rightarrow> if key \<noteq> [] \<and> seen_sep then Some (key, x) else None) opts"

definition metrics_passes :: "sched_conf \<Rightarrow> host_state \<Rightarrow> bool result" where
  "metrics_passes cf hs =
     (case hs_metrics hs of
        None \<Rightarrow> Inl TypeError
      | Some ms \<Rightarrow>
          Inr (set (map fst (parse_options (conf_weight_setting cf) (CHR ''='') py_float))
                 \<subseteq> set (map metric_name ms)))"

section \<open>Isolation\<close>

text \<open>The result matrices of the isolated hosts filter: with the restriction an image and a host
  must be both isolated or both not; without it only an isolated image needs an isolated host. With
  no isolated image configured the restriction closes the isolated hosts to every guest.\<close>

theorem isolation_matrix:
  "isolated_hosts_passes cf hs spec \<longleftrightarrow>
   (let image_iso = (\<exists>i. spec_image spec = Some i \<and> image_id i \<in> set (conf_isolated_images cf));
        host_iso = (hs_host hs \<in> set (conf_isolated_hosts cf))
    in if conf_restrict_isolated cf then image_iso = host_iso
       else if image_iso then host_iso else True)"
  by (auto simp: isolated_hosts_passes_def Let_def split: option.splits)

section \<open>The words of an alternative\<close>

text \<open>The values of an alternative are its words at even positions.\<close>

fun alternatives :: "string list \<Rightarrow> string list" where
  "alternatives [] = []"
| "alternatives [w] = [w]"
| "alternatives (w # k # ws) = w # alternatives ws"

lemma match_or_alternatives:
  "ws \<noteq> [] \<Longrightarrow> match_or ws v = Inr (v \<in> set (alternatives ws))"
  by (induction ws v rule: match_or.induct) auto

lemma match_or_spec:
  assumes "words req = ''<or>'' # ws"
  shows "match (Some v) req = (if ws = [] then Inl IndexError else Inr (v \<in> set (alternatives ws)))"
  using assms by (simp add: match_def match_or_alternatives)

text \<open>A requirement \<open><or> v1 <or> v2 ...\<close> holds of exactly the listed values, but an \<open><or>\<close> with
  nothing after it does not fail to match: it raises an exception, which ends the whole request.\<close>

theorem or_matches_listed_values:
  assumes "words req = ''<or>'' # ws"
  shows "match (Some v) req = (if ws = [] then Inl IndexError else Inr (v \<in> set (alternatives ws)))"
  using assms by (rule match_or_spec)

theorem or_matches_listed_values_witness: "match (Some ''v1'') ''<or>'' = Inl IndexError"
proof -
  have "words ''<or>'' = [''<or>'']" by code_simp
  from or_matches_listed_values [OF this, of "''v1''"] show ?thesis by simp
qed

end
