(* ===== verification/Filters.thy ===== *)
theory Filters
  imports FilterOps
begin

text \<open>
  The filter handler (nova/filters.py) over the host filters: which filters run for which instance
  of a request, and the pipeline that keeps the hosts passing each of them. The locale states what a
  filter may do to a host; every filter but the NUMA one obeys it, and then the pipeline computes
  exactly the hosts every filter accepts.
\<close>

section \<open>The filters\<close>

text \<open>One constructor per class; the flag is true for the aggregate variant of a filter.\<close>

datatype host_filter =
    AllHostsFilter | ComputeFilter | CoreFilter bool | RamFilter bool | DiskFilter bool
  | IoOpsFilter bool | NumInstancesFilter bool | RetryFilter
  | DifferentHostFilter | SameHostFilter | SimpleCIDRAffinityFilter
  | ServerGroupAntiAffinityFilter | ServerGroupAffinityFilter
  | AggregateImagePropertiesIsolation | AggregateInstanceExtraSpecsFilter
  | AggregateMultiTenancyIsolation | AvailabilityZoneFilter
  | ExactCoreFilter | ExactDiskFilter | ExactRamFilter | IsolatedHostsFilter
  | NUMATopologyFilter | PciPassthroughFilter
  | TypeAffinityFilter | AggregateTypeAffinityFilter | MetricsFilter

fun run_filter_once_per_request :: "host_filter \<Rightarrow> bool" where
  "run_filter_once_per_request AllHostsFilter = True"
| "run_filter_once_per_request ComputeFilter = True"
| "run_filter_once_per_request DifferentHostFilter = True"
| "run_filter_once_per_request SameHostFilter = True"
| "run_filter_once_per_request SimpleCIDRAffinityFilter = True"
| "run_filter_once_per_request AggregateImagePropertiesIsolation = True"
| "run_filter_once_per_request AggregateInstanceExtraSpecsFilter = True"
| "run_filter_once_per_request AggregateMultiTenancyIsolation = True"
| "run_filter_once_per_request AvailabilityZoneFilter = True"
| "run_filter_once_per_request IsolatedHostsFilter = True"
| "run_filter_once_per_request AggregateTypeAffinityFilter = True"
| "run_filter_once_per_request f = False"

definition keep_host ::
    "host_state \<Rightarrow> request_spec \<Rightarrow> bool result \<Rightarrow> (host_state \<times> request_spec \<times> bool) result" where
  "keep_host hs spec r = bind r (\<lambda>b. Inr (hs, spec, b))"

definition keep_spec ::
    "request_spec \<Rightarrow> (host_state \<times> bool) result \<Rightarrow> (host_state \<times> request_spec \<times> bool) result" where
  "keep_spec spec r = bind r (\<lambda>(hs, b). Inr (hs, spec, b))"

fun host_passes ::
    "sched_conf \<Rightarrow> host_filter \<Rightarrow> host_state \<Rightarrow> request_spec \<Rightarrow>
     (host_state \<times> request_spec \<times> bool) result" where
  "host_passes cf AllHostsFilter hs spec = keep_host hs spec (Inr True)"
| "host_passes cf ComputeFilter hs spec = keep_host hs spec (compute_passes cf hs)"
| "host_passes cf (CoreFilter agg) hs spec = keep_spec spec (core_passes agg hs spec)"
| "host_passes cf (RamFilter agg) hs spec = keep_spec spec (ram_passes agg hs spec)"
| "host_passes cf (DiskFilter agg) hs spec = keep_spec spec (Inr (disk_passes cf agg hs spec))"
| "host_passes cf (IoOpsFilter agg) hs spec = keep_host hs spec (Inr (io_ops_passes cf agg hs))"
| "host_passes cf (NumInstancesFilter agg) hs spec = keep_host hs spec (Inr (num_instances_passes cf agg hs))"
| "host_passes cf RetryFilter hs spec = keep_host hs spec (Inr (retry_passes hs spec))"
| "host_passes cf DifferentHostFilter hs spec = keep_host hs spec (Inr (different_host_passes hs spec))"
| "host_passes cf SameHostFilter hs spec = keep_host hs spec (Inr (same_host_passes hs spec))"
| "host_passes cf SimpleCIDRAffinityFilter hs spec = keep_host hs spec (cidr_affinity_passes cf hs spec)"
| "host_passes cf ServerGroupAntiAffinityFilter hs spec =
     keep_host hs spec (Inr (group_anti_affinity_passes hs spec))"
| "host_passes cf ServerGroupAffinityFilter hs spec = keep_host hs spec (Inr (group_affinity_passes hs spec))"
| "host_passes cf AggregateImagePropertiesIsolation hs spec =
     keep_host hs spec (image_isolation_passes cf hs spec)"
| "host_passes cf AggregateInstanceExtraSpecsFilter hs spec = keep_host hs spec (extra_specs_passes cf hs spec)"
| "host_passes cf AggregateMultiTenancyIsolation hs spec = keep_host hs spec (Inr (multi_tenancy_passes hs spec))"
| "host_passes cf AvailabilityZoneFilter hs spec = keep_host hs spec (Inr (availability_zone_passes cf hs spec))"
| "host_passes cf ExactCoreFilter hs spec = keep_host hs spec (Inr (exact_core_passes hs spec))"
| "host_passes cf ExactDiskFilter hs spec = keep_host hs spec (Inr (exact_disk_passes hs spec))"
| "host_passes cf ExactRamFilter hs spec = keep_host hs spec (Inr (exact_ram_passes hs spec))"
| "host_passes cf IsolatedHostsFilter hs spec = keep_host hs spec (Inr (isolated_hosts_passes cf hs spec))"
| "host_passes cf NUMATopologyFilter hs spec = numa_topology_passes cf hs spec"
| "host_passes cf PciPassthroughFilter hs spec = keep_host hs spec (pci_passthrough_passes hs spec)"
| "host_passes cf TypeAffinityFilter hs spec = keep_host hs spec (Inr (type_affinity_passes hs spec))"
| "host_passes cf AggregateTypeAffinityFilter hs spec =
     keep_host hs spec (Inr (aggregate_type_affinity_passes hs spec))"
| "host_passes cf MetricsFilter hs spec = keep_host hs spec (metrics_passes cf hs)"

section \<open>The handler\<close>

text \<open>
  Hosts live in a store and are passed around as keys, since a filter changes the host object the
  manager holds. The handler is the same for any kind of filter, host and request.
\<close>

definition run_filter_for_index :: "bool \<Rightarrow> nat \<Rightarrow> bool" where
  "run_filter_for_index once index = (if once \<and> index > 0 then False else True)"

fun filter_all ::
    "('h \<Rightarrow> 's \<Rightarrow> ('h \<times> 's \<times> bool) result) \<Rightarrow> 'k list \<Rightarrow> ('k \<Rightarrow> 'h) \<Rightarrow> 's \<Rightarrow>
     ('k list \<times> ('k \<Rightarrow> 'h) \<times> 's) result" where
  "filter_all passes [] store spec = Inr ([], store, spec)"
| "filter_all passes (k # ks) store spec =
     bind (passes (store k) spec) (\<lambda>(h, spec', ok).
     bind (filter_all passes ks (store(k := h)) spec') (\<lambda>(ks', store', spec'').
       Inr (if ok then k # ks' else ks', store', spec'')))"

text \<open>The loop over the filters; it stops when no host is left.\<close>

fun get_filtered_objects ::
    "('f \<Rightarrow> 'h \<Rightarrow> 's \<Rightarrow> ('h \<times> 's \<times> bool) result) \<Rightarrow> ('f \<Rightarrow> bool) \<Rightarrow> nat \<Rightarrow> 'f list \<Rightarrow> 'k list \<Rightarrow>
     ('k \<Rightarrow> 'h) \<Rightarrow> 's \<Rightarrow> ('k list \<times> ('k \<Rightarrow> 'h) \<times> 's) result" where
  "get_filtered_objects passes once index [] ks store spec = Inr (ks, store, spec)"
| "get_filtered_objects passes once index (f # fs) ks store spec =
     (if run_filter_for_index (once f) index
      then bind (filter_all (passes f) ks store spec) (\<lambda>(ks', store', spec').
             if ks' = [] then Inr ([], store', spec')
             else get_filtered_objects passes once index fs ks' store' spec')
      else get_filtered_objects passes once index fs ks store spec)"

section \<open>What a filter promises\<close>

text \<open>
  A filter in \<open>pure\<close> leaves the request and the core of the host alone, and its verdict depends on
  the core only.
\<close>

locale pure_filters =
  fixes passes :: "'f \<Rightarrow> 'h \<Rightarrow> 's \<Rightarrow> ('h \<times> 's \<times> bool) result"
    and pure :: "'f \<Rightarrow> bool"
    and core :: "'h \<Rightarrow> 'c"
  assumes keeps: "pure f \<Longrightarrow> passes f h s = Inr (h', s', b) \<Longrightarrow> s' = s \<and> core h' = core h"
    and local_verdict: "pure f \<Longrightarrow> core h1 = core h2 \<Longrightarrow> passes f h1 s = Inr (h1', s1, b1) \<Longrightarrow>
      \<exists>h2' s2. passes f h2 s = Inr (h2', s2, b1)"
begin

definition accepts :: "'f \<Rightarrow> 'h \<Rightarrow> 's \<Rightarrow> bool" where
  "accepts f h s \<longleftrightarrow> (\<exists>h' s'. passes f h s = Inr (h', s', True))"

lemma accepts_core: "pure f \<Longrightarrow> core h1 = core h2 \<Longrightarrow> accepts f h1 s = accepts f h2 s"
  unfolding accepts_def using local_verdict by metis

lemma verdict_accepts: "passes f h s = Inr (h', s', b) \<Longrightarrow> b = accepts f h s"
  unfolding accepts_def by (cases b) auto

lemma filter_all_exact:
  assumes "pure f" and "filter_all (passes f) ks store s = Inr (ks', store', s')"
  shows "ks' = filter (\<lambda>k. accepts f (store k) s) ks \<and> s' = s \<and> (\<forall>k. core (store' k) = core (store k))"
  using assms(2)
proof (induction ks arbitrary: ks' store)
  case (Cons k ks)
  then obtain h s1 ok r store2 s2 where
    p: "passes f (store k) s = Inr (h, s1, ok)" and
    r: "filter_all (passes f) ks (store(k := h)) s1 = Inr (r, store2, s2)" and
    out: "ks' = (if ok then k # r else r)" "store' = store2" "s' = s2"
    by auto
  have s1: "s1 = s" and core: "core h = core (store k)" using keeps [OF assms(1) p] by auto
  have same: "core ((store(k := h)) x) = core (store x)" for x using core by simp
  have "r = filter (\<lambda>x. accepts f ((store(k := h)) x) s) ks \<and> s' = s \<and>
      (\<forall>x. core (store' x) = core ((store(k := h)) x))"
    using Cons.IH [of "store(k := h)" r] r unfolding s1 out(2,3) by blast
  moreover have "accepts f ((store(k := h)) x) s = accepts f (store x) s" for x
    using accepts_core [OF assms(1) same] .
  ultimately show ?case using verdict_accepts [OF p] out same by simp
qed simp

lemma filtered_exact:
  assumes "\<forall>f \<in> set fs. pure f"
    and "get_filtered_objects passes once index fs ks store s = Inr (ks', store', s')"
  shows "ks' = filter (\<lambda>k. \<forall>f \<in> set fs. run_filter_for_index (once f) index \<longrightarrow> accepts f (store k) s) ks
    \<and> s' = s \<and> (\<forall>k. core (store' k) = core (store k))"
  using assms
proof (induction fs arbitrary: ks store)
  case (Cons f fs)
  have pure: "pure f" and pures: "\<forall>g \<in> set fs. pure g" using Cons.prems(1) by auto
  show ?case
  proof (cases "run_filter_for_index (once f) index")
    case True
    then obtain r store1 s1 where
      one: "filter_all (passes f) ks store s = Inr (r, store1, s1)" and
      rest: "(if r = [] then Inr ([], store1, s1)
              else get_filtered_objects passes once index fs r store1 s1) = Inr (ks', store', s')"
      using Cons.prems(2) by auto
    have r: "r = filter (\<lambda>k. accepts f (store k) s) ks" and s1: "s1 = s"
      and same: "\<And>k. core (store1 k) = core (store k)"
      using filter_all_exact [OF pure one] by auto
    have acc: "accepts g (store1 k) s = accepts g (store k) s" if "g \<in> set fs" for g k
      using accepts_core same pures that by blast
    show ?thesis
    proof (cases "r = []")
      case True
      then have "\<forall>k \<in> set ks. \<not> accepts f (store k) s" using r by (simp add: filter_empty_conv)
      then have "filter (\<lambda>k. \<forall>g \<in> set (f # fs). run_filter_for_index (once g) index \<longrightarrow>
          accepts g (store k) s) ks = []"
        using \<open>run_filter_for_index (once f) index\<close> by (simp add: filter_empty_conv)
      then show ?thesis using True rest s1 same by simp
    next
      case False
      then have "get_filtered_objects passes once index fs r store1 s = Inr (ks', store', s')"
        using rest s1 by simp
      from Cons.IH [OF pures this] have
        k: "ks' = filter (\<lambda>k. \<forall>g \<in> set fs. run_filter_for_index (once g) index \<longrightarrow> accepts g (store1 k) s) r"
        and "s' = s" "\<forall>k. core (store' k) = core (store1 k)" by auto
      moreover have "ks' = filter (\<lambda>k. \<forall>g \<in> set (f # fs). run_filter_for_index (once g) index \<longrightarrow>
          accepts g (store k) s) ks"
        unfolding k r using True acc by (auto intro!: filter_cong)
      ultimately show ?thesis using same by simp
    qed
  next
    case False
    then show ?thesis using Cons by simp
  qed
qed simp

end

section \<open>What every filter promises\<close>

text \<open>
  The weaker contract of all filters: a part of the host and a part of the request are never
  touched. Then every host that is returned has been accepted by each filter that ran, at a moment
  when these parts were as they are now.
\<close>

locale stable_filters =
  fixes passes :: "'f \<Rightarrow> 'h \<Rightarrow> 's \<Rightarrow> ('h \<times> 's \<times> bool) result"
    and hcore :: "'h \<Rightarrow> 'c"
    and score :: "'s \<Rightarrow> 'd"
  assumes stable: "passes f h s = Inr (h', s', b) \<Longrightarrow> hcore h' = hcore h \<and> score s' = score s"
begin

definition passed :: "'f \<Rightarrow> 'h \<Rightarrow> 's \<Rightarrow> bool" where
  "passed f h s \<longleftrightarrow> (\<exists>h0 s0 h1 s1. hcore h0 = hcore h \<and> score s0 = score s \<and> passes f h0 s0 = Inr (h1, s1, True))"

lemma passed_core: "hcore h = hcore h' \<Longrightarrow> score s = score s' \<Longrightarrow> passed f h s = passed f h' s'"
  by (simp add: passed_def)

lemma passedI: "passes f h s = Inr (h', s', True) \<Longrightarrow> passed f h s"
  unfolding passed_def by blast

lemma filter_all_stable:
  assumes "filter_all (passes f) ks store s = Inr (ks', store', s')"
  shows "score s' = score s \<and> (\<forall>k. hcore (store' k) = hcore (store k)) \<and> set ks' \<subseteq> set ks \<and>
    (\<forall>k \<in> set ks'. passed f (store k) s)"
  using assms
proof (induction ks arbitrary: ks' store s)
  case (Cons k ks)
  then obtain h s1 ok r where
    p: "passes f (store k) s = Inr (h, s1, ok)" and
    r: "filter_all (passes f) ks (store(k := h)) s1 = Inr (r, store', s')" and
    out: "ks' = (if ok then k # r else r)"
    by auto
  have core: "hcore h = hcore (store k)" "score s1 = score s" using stable [OF p] by auto
  then have same: "hcore ((store(k := h)) x) = hcore (store x)" for x by simp
  have "passed f ((store(k := h)) x) s1 = passed f (store x) s" for x
    using same core(2) by (rule passed_core)
  moreover have "ok \<Longrightarrow> passed f (store k) s" using p passedI by (cases ok) auto
  ultimately show ?case using Cons.IH [OF r] out same core(2) by auto
qed simp

lemma filtered_stable:
  assumes "get_filtered_objects passes once index fs ks store s = Inr (ks', store', s')"
  shows "score s' = score s \<and> (\<forall>k. hcore (store' k) = hcore (store k)) \<and> set ks' \<subseteq> set ks \<and>
    (\<forall>f \<in> set fs. run_filter_for_index (once f) index \<longrightarrow> (\<forall>k \<in> set ks'. passed f (store k) s))"
  using assms
proof (induction fs arbitrary: ks store s)
  case (Cons f fs)
  show ?case
  proof (cases "run_filter_for_index (once f) index")
    case True
    then obtain r store1 s1 where
      one: "filter_all (passes f) ks store s = Inr (r, store1, s1)" and
      rest: "(if r = [] then Inr ([], store1, s1)
              else get_filtered_objects passes once index fs r store1 s1) = Inr (ks', store', s')"
      using Cons.prems by auto
    note r = filter_all_stable [OF one]
    have same: "passed g (store1 k) s1 = passed g (store k) s" for g k
      using r by (intro passed_core) auto
    show ?thesis
    proof (cases "r = []")
      case True
      then show ?thesis using rest r by auto
    next
      case False
      then have "get_filtered_objects passes once index fs r store1 s1 = Inr (ks', store', s')"
        using rest by simp
      from Cons.IH [OF this] show ?thesis using r same by auto
    qed
  next
    case False
    then show ?thesis using Cons by auto
  qed
qed simp

end

section \<open>The host filters keep the promise\<close>

definition not_numa :: "host_filter \<Rightarrow> bool" where
  "not_numa f \<longleftrightarrow> f \<noteq> NUMATopologyFilter"

definition host_core :: "host_state \<Rightarrow> host_state" where
  "host_core hs = hs\<lparr>hs_limits := no_limits\<rparr>"

lemma host_coreE:
  assumes "host_core h1 = host_core h2"
  obtains l where "h2 = h1\<lparr>hs_limits := l\<rparr>"
proof -
  have "h2 = (host_core h2)\<lparr>hs_limits := hs_limits h2\<rparr>" by (simp add: host_core_def)
  also have "\<dots> = h1\<lparr>hs_limits := hs_limits h2\<rparr>" unfolding assms [symmetric] by (simp add: host_core_def)
  finally show ?thesis using that by blast
qed

lemma host_core_limits [simp]: "host_core (h\<lparr>hs_limits := l\<rparr>) = host_core h"
  by (simp add: host_core_def)

lemma keep_host_Inr [simp]: "keep_host hs spec r = Inr (h, s, b) \<longleftrightarrow> h = hs \<and> s = spec \<and> r = Inr b"
  by (auto simp: keep_host_def)

lemma keep_spec_Inr [simp]: "keep_spec spec r = Inr (h, s, b) \<longleftrightarrow> s = spec \<and> r = Inr (h, b)"
  by (auto simp: keep_spec_def)

lemma limit_filters_keep_core:
  "core_passes agg hs spec = Inr (h, b) \<Longrightarrow> host_core h = host_core hs"
  "ram_passes agg hs spec = Inr (h, b) \<Longrightarrow> host_core h = host_core hs"
  "disk_passes cf agg hs spec = (h, b) \<Longrightarrow> host_core h = host_core hs"
  by (auto simp: core_passes_def ram_passes_def disk_passes_def Let_def split: if_splits option.splits)

lemma helpers_ignore_limits [simp]:
  "aggregate_values_from_key (hs\<lparr>hs_limits := l\<rparr>) = aggregate_values_from_key hs"
  "aggregate_metadata_get_by_host (hs\<lparr>hs_limits := l\<rparr>) = aggregate_metadata_get_by_host hs"
  "aggregate_number c k d (hs\<lparr>hs_limits := l\<rparr>) = aggregate_number c k d hs"
  "core_ratio agg (hs\<lparr>hs_limits := l\<rparr>) = core_ratio agg hs"
  "ram_ratio agg (hs\<lparr>hs_limits := l\<rparr>) = ram_ratio agg hs"
  "disk_ratio cf agg (hs\<lparr>hs_limits := l\<rparr>) = disk_ratio cf agg hs"
  "instance_uuids_overlap (hs\<lparr>hs_limits := l\<rparr>) = instance_uuids_overlap hs"
  "other_types_on_host (hs\<lparr>hs_limits := l\<rparr>) = other_types_on_host hs"
  by (simp_all add: fun_eq_iff aggregate_values_from_key_def aggregate_metadata_get_by_host_def
      aggregate_number_def core_ratio_def ram_ratio_def disk_ratio_def instance_uuids_overlap_def
      other_types_on_host_def)

lemma filters_ignore_limits [simp]:
  "compute_passes cf (hs\<lparr>hs_limits := l\<rparr>) = compute_passes cf hs"
  "io_ops_passes cf agg (hs\<lparr>hs_limits := l\<rparr>) = io_ops_passes cf agg hs"
  "num_instances_passes cf agg (hs\<lparr>hs_limits := l\<rparr>) = num_instances_passes cf agg hs"
  "retry_passes (hs\<lparr>hs_limits := l\<rparr>) spec = retry_passes hs spec"
  "different_host_passes (hs\<lparr>hs_limits := l\<rparr>) spec = different_host_passes hs spec"
  "same_host_passes (hs\<lparr>hs_limits := l\<rparr>) spec = same_host_passes hs spec"
  "cidr_affinity_passes cf (hs\<lparr>hs_limits := l\<rparr>) spec = cidr_affinity_passes cf hs spec"
  "group_anti_affinity_passes (hs\<lparr>hs_limits := l\<rparr>) spec = group_anti_affinity_passes hs spec"
  "group_affinity_passes (hs\<lparr>hs_limits := l\<rparr>) spec = group_affinity_passes hs spec"
  "image_isolation_passes cf (hs\<lparr>hs_limits := l\<rparr>) spec = image_isolation_passes cf hs spec"
  "extra_specs_passes cf (hs\<lparr>hs_limits := l\<rparr>) spec = extra_specs_passes cf hs spec"
  "multi_tenancy_passes (hs\<lparr>hs_limits := l\<rparr>) spec = multi_tenancy_passes hs spec"
  "availability_zone_passes cf (hs\<lparr>hs_limits := l\<rparr>) spec = availability_zone_passes cf hs spec"
  "exact_core_passes (hs\<lparr>hs_limits := l\<rparr>) spec = exact_core_passes hs spec"
  "exact_disk_passes (hs\<lparr>hs_limits := l\<rparr>) spec = exact_disk_passes hs spec"
  "exact_ram_passes (hs\<lparr>hs_limits := l\<rparr>) spec = exact_ram_passes hs spec"
  "isolated_hosts_passes cf (hs\<lparr>hs_limits := l\<rparr>) spec = isolated_hosts_passes cf hs spec"
  "pci_passthrough_passes (hs\<lparr>hs_limits := l\<rparr>) spec = pci_passthrough_passes hs spec"
  "type_affinity_passes (hs\<lparr>hs_limits := l\<rparr>) spec = type_affinity_passes hs spec"
  "aggregate_type_affinity_passes (hs\<lparr>hs_limits := l\<rparr>) spec = aggregate_type_affinity_passes hs spec"
  "metrics_passes cf (hs\<lparr>hs_limits := l\<rparr>) = metrics_passes cf hs"
  by (simp_all add: compute_passes_def io_ops_passes_def num_instances_passes_def retry_passes_def
      different_host_passes_def same_host_passes_def cidr_affinity_passes_def
      group_anti_affinity_passes_def group_affinity_passes_def image_isolation_passes_def
      extra_specs_passes_def multi_tenancy_passes_def availability_zone_passes_def
      exact_core_passes_def exact_disk_passes_def exact_ram_passes_def isolated_hosts_passes_def
      pci_passthrough_passes_def type_affinity_passes_def aggregate_type_affinity_passes_def
      metrics_passes_def Let_def cong: option.case_cong if_cong)

lemma limit_filters_verdict:
  "core_passes agg hs spec = Inr (h, b) \<Longrightarrow> \<exists>h'. core_passes agg (hs\<lparr>hs_limits := l\<rparr>) spec = Inr (h', b)"
  "ram_passes agg hs spec = Inr (h, b) \<Longrightarrow> \<exists>h'. ram_passes agg (hs\<lparr>hs_limits := l\<rparr>) spec = Inr (h', b)"
  "disk_passes cf agg hs spec = (h, b) \<Longrightarrow> \<exists>h'. disk_passes cf agg (hs\<lparr>hs_limits := l\<rparr>) spec = (h', b)"
  by (auto simp: core_passes_def ram_passes_def disk_passes_def Let_def split: if_splits option.splits)

lemma host_passes_keeps:
  "not_numa f \<Longrightarrow> host_passes cf f hs spec = Inr (h, s, b) \<Longrightarrow> s = spec \<and> host_core h = host_core hs"
  by (cases f) (auto simp: not_numa_def dest: limit_filters_keep_core)

lemma host_passes_verdict:
  "not_numa f \<Longrightarrow> host_passes cf f hs spec = Inr (h, s, b) \<Longrightarrow>
   \<exists>h' s'. host_passes cf f (hs\<lparr>hs_limits := l\<rparr>) spec = Inr (h', s', b)"
  by (cases f) (auto simp: not_numa_def dest: limit_filters_verdict)

interpretation host_filters: pure_filters "host_passes cf" not_numa host_core for cf
proof unfold_locales
  fix f h s h' s' b
  assume "not_numa f" "host_passes cf f h s = Inr (h', s', b)"
  then show "s' = s \<and> host_core h' = host_core h" by (rule host_passes_keeps)
next
  fix f h1 h2 s h1' s1 b1
  assume "not_numa f" "host_core h1 = host_core h2" "host_passes cf f h1 s = Inr (h1', s1, b1)"
  then show "\<exists>h2' s2. host_passes cf f h2 s = Inr (h2', s2, b1)"
    by (metis host_coreE host_passes_verdict)
qed

definition spec_core :: "request_spec \<Rightarrow> request_spec" where
  "spec_core spec = spec\<lparr>spec_numa_topology := None\<rparr>"

lemma spec_core_numa [simp]: "spec_core (s\<lparr>spec_numa_topology := t\<rparr>) = spec_core s"
  by (simp add: spec_core_def)

lemma numa_keeps_core:
  "numa_topology_passes cf hs spec = Inr (h, s, b) \<Longrightarrow> host_core h = host_core hs \<and> spec_core s = spec_core spec"
  by (auto simp: numa_topology_passes_def Let_def split: option.splits if_splits)

interpretation all_filters: stable_filters "host_passes cf" host_core spec_core for cf
proof unfold_locales
  fix f h s h' s' b
  assume p: "host_passes cf f h s = Inr (h', s', b)"
  show "host_core h' = host_core h \<and> spec_core s' = spec_core s"
  proof (cases "f = NUMATopologyFilter")
    case True
    then show ?thesis using p numa_keeps_core by simp
  next
    case False
    then show ?thesis using p host_passes_keeps [of f cf h s h' s' b] by (simp add: not_numa_def)
  qed
qed

section \<open>The pipeline\<close>

definition accepts :: "sched_conf \<Rightarrow> host_filter \<Rightarrow> host_state \<Rightarrow> request_spec \<Rightarrow> bool" where
  "accepts cf f hs spec \<longleftrightarrow> (case host_passes cf f hs spec of Inl _ \<Rightarrow> False | Inr (_, _, b) \<Rightarrow> b)"

lemma accepts_locale: "pure_filters.accepts (host_passes cf) f hs spec = accepts cf f hs spec"
  by (auto simp: host_filters.accepts_def accepts_def split: sum.splits prod.splits)

text \<open>C16: without the NUMA filter, the handler returns exactly the hosts that every filter due for
  this instance accepts, judged on the hosts as they were before any filter ran, in the order given;
  the request is unchanged and the hosts differ only in their limits.\<close>

theorem filtered_hosts_exact:
  assumes "\<forall>f \<in> set fs. f \<noteq> NUMATopologyFilter"
    and "get_filtered_objects (host_passes cf) run_filter_once_per_request index fs ks store spec =
      Inr (ks', store', spec')"
  shows "ks' = filter (\<lambda>k. \<forall>f \<in> set fs. index > 0 \<and> run_filter_once_per_request f \<or>
      accepts cf f (store k) spec) ks \<and> spec' = spec \<and>
    (\<forall>k. (store' k)\<lparr>hs_limits := no_limits\<rparr> = (store k)\<lparr>hs_limits := no_limits\<rparr>)"
proof -
  have pure: "\<forall>f \<in> set fs. not_numa f" using assms(1) by (simp add: not_numa_def)
  have run: "(run_filter_for_index (run_filter_once_per_request f) index \<longrightarrow> P) =
    (index > 0 \<and> run_filter_once_per_request f \<or> P)" for f P
    by (auto simp: run_filter_for_index_def)
  show ?thesis
    using host_filters.filtered_exact [OF pure assms(2)]
    unfolding accepts_locale run host_core_def .
qed

theorem filtered_hosts_exact_witness:
  "[(''a'', ''n'')] = filter (\<lambda>k.
     accepts plain_conf (RamFilter False) (plain_host k (if fst k = ''a'' then 1024 else 64)) (plain_spec 1 512 1) \<and>
     accepts plain_conf RetryFilter (plain_host k (if fst k = ''a'' then 1024 else 64)) (plain_spec 1 512 1))
     [(''a'', ''n''), (''b'', ''n'')]"
proof -
  let ?store = "\<lambda>k. plain_host k (if fst k = ''a'' then 1024 else 64)"
  have "\<exists>st. get_filtered_objects (host_passes plain_conf) run_filter_once_per_request 0
      [RamFilter False, RetryFilter] [(''a'', ''n''), (''b'', ''n'')] ?store (plain_spec 1 512 1) =
    Inr ([(''a'', ''n'')], st, plain_spec 1 512 1)"
    by (simp add: ram_passes_def ram_ratio_def retry_passes_def plain_host_def plain_spec_def
        keep_host_def keep_spec_def new_host_state_def run_filter_for_index_def)
  then obtain st where "get_filtered_objects (host_passes plain_conf) run_filter_once_per_request 0
      [RamFilter False, RetryFilter] [(''a'', ''n''), (''b'', ''n'')] ?store (plain_spec 1 512 1) =
    Inr ([(''a'', ''n'')], st, plain_spec 1 512 1)" by blast
  from filtered_hosts_exact [OF _ this] show ?thesis by simp
qed

end
