(* ===== verification/Weights.thy ===== *)
theory Weights
  imports FilterOps
begin

text \<open>
  Weighing hosts: nova/weights.py and the weighers of nova/scheduler/weights. A weigher object lives
  as long as the scheduler, and so do the bounds it has recorded; they are part of the state here.
\<close>

section \<open>Normalising\<close>

definition normalize :: "rat list \<Rightarrow> rat option \<Rightarrow> rat option \<Rightarrow> rat list" where
  "normalize weight_list minval maxval =
     (if weight_list = [] then []
      else
        (let hi = (case maxval of None \<Rightarrow> foldr max weight_list (hd weight_list) | Some m \<Rightarrow> m);
             lo = (case minval of None \<Rightarrow> foldr min weight_list (hd weight_list) | Some m \<Rightarrow> m)
         in if lo = hi then replicate (length weight_list) 0
            else map (\<lambda>i. (i - lo) / (hi - lo)) weight_list))"

section \<open>A weigher's bounds\<close>

text \<open>The attributes \<open>minval\<close> and \<open>maxval\<close>.\<close>

type_synonym bounds = "rat option \<times> rat option"

definition note_weight :: "rat \<Rightarrow> bounds \<Rightarrow> bounds" where
  "note_weight w b =
     (let lo = (case fst b of None \<Rightarrow> w | Some m \<Rightarrow> m);
          hi = (case snd b of None \<Rightarrow> w | Some m \<Rightarrow> m)
      in if w < lo then (Some w, Some hi)
         else if w > hi then (Some lo, Some w)
         else (Some lo, Some hi))"

text \<open>\<open>weigh\<close> is \<open>_weigh_object\<close>.\<close>

fun weigh_objects :: "('k \<Rightarrow> rat result) \<Rightarrow> 'k list \<Rightarrow> bounds \<Rightarrow> (rat list \<times> bounds) result" where
  "weigh_objects weigh [] b = Inr ([], b)"
| "weigh_objects weigh (k # ks) b =
     bind (weigh k) (\<lambda>w. bind (weigh_objects weigh ks (note_weight w b)) (\<lambda>(ws, b').
       Inr (w # ws, b')))"

section \<open>The handler\<close>

text \<open>One weigher: its multiplier, its method and its bounds.\<close>

definition add_weigher ::
    "rat \<Rightarrow> ('k \<Rightarrow> rat result) \<Rightarrow> ('k \<times> rat) list \<times> bounds \<Rightarrow> (('k \<times> rat) list \<times> bounds) result" where
  "add_weigher mul weigh st =
     (let (objs, b) = st in
      bind (weigh_objects weigh (map fst objs) b) (\<lambda>(ws, b').
        Inr (map2 (\<lambda>(k, weight) w. (k, weight + mul * w)) objs (normalize ws (fst b') (snd b')), b')))"

fun run_weighers ::
    "('w \<Rightarrow> rat) \<Rightarrow> ('w \<Rightarrow> 'k \<Rightarrow> rat result) \<Rightarrow> ('w \<times> bounds) list \<Rightarrow> ('k \<times> rat) list \<Rightarrow>
     (('k \<times> rat) list \<times> ('w \<times> bounds) list) result" where
  "run_weighers mul weigh [] objs = Inr (objs, [])"
| "run_weighers mul weigh ((w, b) # rest) objs =
     bind (add_weigher (mul w) (weigh w) (objs, b)) (\<lambda>(objs', b').
     bind (run_weighers mul weigh rest objs') (\<lambda>(objs'', rest').
       Inr (objs'', (w, b') # rest')))"

text \<open>With one host or none no weigher runs.\<close>

definition get_weighed_objects ::
    "('w \<Rightarrow> rat) \<Rightarrow> ('w \<Rightarrow> 'k \<Rightarrow> rat result) \<Rightarrow> ('w \<times> bounds) list \<Rightarrow> 'k list \<Rightarrow>
     (('k \<times> rat) list \<times> ('w \<times> bounds) list) result" where
  "get_weighed_objects mul weigh weighers obj_list =
     (let objs = map (\<lambda>k. (k, 0)) obj_list in
      if length objs \<le> 1 then Inr (objs, weighers)
      else bind (run_weighers mul weigh weighers objs) (\<lambda>(objs', weighers').
             Inr (sorted_desc snd objs', weighers')))"

section \<open>The weighers\<close>

datatype host_weigher =
    RAMWeigher | IoOpsWeigher | ServerGroupSoftAffinityWeigher | ServerGroupSoftAntiAffinityWeigher
  | MetricsWeigher

definition initial_bounds :: "host_weigher \<Rightarrow> bounds" where
  "initial_bounds w = (if w = RAMWeigher \<or> w = IoOpsWeigher then (Some 0, None) else (None, None))"

definition weight_multiplier :: "sched_conf \<Rightarrow> host_weigher \<Rightarrow> rat" where
  "weight_multiplier cf w =
     (case w of
        RAMWeigher \<Rightarrow> conf_ram_weight_multiplier cf
      | IoOpsWeigher \<Rightarrow> conf_io_ops_weight_multiplier cf
      | ServerGroupSoftAffinityWeigher \<Rightarrow> conf_soft_affinity_weight_multiplier cf
      | ServerGroupSoftAntiAffinityWeigher \<Rightarrow> conf_soft_anti_affinity_weight_multiplier cf
      | MetricsWeigher \<Rightarrow> conf_metrics_weight_multiplier cf)"

definition members_on_host :: "string \<Rightarrow> host_state \<Rightarrow> request_spec \<Rightarrow> int" where
  "members_on_host policy_name hs spec =
     (case spec_group spec of
        None \<Rightarrow> 0
      | Some g \<Rightarrow>
          if policy_name \<notin> set (group_policies g) then 0
          else int (card (set (keys (hs_instances hs)) \<inter> set (group_members g))))"

text \<open>The loop over the configured metrics; a later metric of the same name wins.\<close>

fun weigh_metrics :: "sched_conf \<Rightarrow> (string, rat) dict \<Rightarrow> (string \<times> rat) list \<Rightarrow> rat \<Rightarrow> rat result" where
  "weigh_metrics cf metrics_dict [] v = Inr v"
| "weigh_metrics cf metrics_dict ((name, ratio) # rest) v =
     (case map_of metrics_dict name of
        Some x \<Rightarrow> weigh_metrics cf metrics_dict rest (v + x * ratio)
      | None \<Rightarrow>
          if conf_metrics_required cf then Inl ComputeHostMetricNotFound
          else if ratio * conf_metrics_weight_multiplier cf \<noteq> 0 then Inr (conf_weight_of_unavailable cf)
          else weigh_metrics cf metrics_dict rest v)"

definition metrics_by_name :: "host_state \<Rightarrow> (string, rat) dict" where
  "metrics_by_name hs =
     fold (\<lambda>m. AList.update (metric_name m) (metric_value m)) (or_default (hs_metrics hs) []) []"

definition weigh_object :: "sched_conf \<Rightarrow> request_spec \<Rightarrow> host_weigher \<Rightarrow> host_state \<Rightarrow> rat result" where
  "weigh_object cf spec w hs =
     (case w of
        RAMWeigher \<Rightarrow> Inr (rat_of_int (free_ram_mb hs))
      | IoOpsWeigher \<Rightarrow> Inr (rat_of_int (num_io_ops hs))
      | ServerGroupSoftAffinityWeigher \<Rightarrow> Inr (rat_of_int (members_on_host ''soft-affinity'' hs spec))
      | ServerGroupSoftAntiAffinityWeigher \<Rightarrow>
          Inr (- rat_of_int (members_on_host ''soft-anti-affinity'' hs spec))
      | MetricsWeigher \<Rightarrow>
          weigh_metrics cf (metrics_by_name hs)
            (parse_options (conf_weight_setting cf) (CHR ''='') py_ratio) 0)"

definition get_weighed_hosts ::
    "sched_conf \<Rightarrow> request_spec \<Rightarrow> ('k \<Rightarrow> host_state) \<Rightarrow> (host_weigher \<times> bounds) list \<Rightarrow> 'k list \<Rightarrow>
     (('k \<times> rat) list \<times> (host_weigher \<times> bounds) list) result" where
  "get_weighed_hosts cf spec store weighers hosts =
     get_weighed_objects (weight_multiplier cf) (\<lambda>w k. weigh_object cf spec w (store k)) weighers hosts"

section \<open>The bounds cover the weights\<close>

definition in_bounds :: "bounds \<Rightarrow> rat \<Rightarrow> bool" where
  "in_bounds b w \<longleftrightarrow> (\<exists>lo hi. b = (Some lo, Some hi) \<and> lo \<le> w \<and> w \<le> hi)"

definition bounds_ok :: "bounds \<Rightarrow> bool" where
  "bounds_ok b \<longleftrightarrow> (case b of (Some lo, Some hi) \<Rightarrow> lo \<le> hi | _ \<Rightarrow> True)"

lemma in_bounds_note: "bounds_ok b \<Longrightarrow> in_bounds (note_weight w b) w"
  by (cases b) (auto simp: in_bounds_def note_weight_def bounds_ok_def Let_def split: option.splits)

lemma bounds_ok_note: "bounds_ok b \<Longrightarrow> bounds_ok (note_weight w b)"
  by (cases b) (auto simp: note_weight_def bounds_ok_def Let_def split: option.splits)

lemma in_bounds_mono: "in_bounds b v \<Longrightarrow> in_bounds (note_weight w b) v"
  by (auto simp: in_bounds_def note_weight_def Let_def)

lemma weigh_objects_in_bounds:
  assumes "weigh_objects weigh ks b = Inr (ws, b')" and "bounds_ok b"
  shows "length ws = length ks \<and> bounds_ok b' \<and> (\<forall>v. in_bounds b v \<longrightarrow> in_bounds b' v) \<and>
    (\<forall>w \<in> set ws. in_bounds b' w)"
  using assms
proof (induction ks arbitrary: b ws)
  case (Cons k ks)
  then obtain w ws' where w: "weigh k = Inr w" and ws: "ws = w # ws'"
    and rest: "weigh_objects weigh ks (note_weight w b) = Inr (ws', b')" by auto
  from Cons.IH [OF rest bounds_ok_note [OF Cons.prems(2)]]
  show ?case using ws in_bounds_note [OF Cons.prems(2), of w] in_bounds_mono [of b _ w] by auto
qed simp

lemma weigh_objects_values:
  "weigh_objects weigh ks b = Inr (ws, b') \<Longrightarrow> list_all2 (\<lambda>k w. weigh k = Inr w) ks ws"
proof (induction ks arbitrary: b ws)
  case (Cons k ks)
  then obtain w ws' where "weigh k = Inr w" "ws = w # ws'"
    "weigh_objects weigh ks (note_weight w b) = Inr (ws', b')" by auto
  then show ?case using Cons.IH by simp
qed simp

lemma length_normalize [simp]: "length (normalize ws lo hi) = length ws"
  by (simp add: normalize_def Let_def)

lemma normalize_range:
  assumes "\<forall>w \<in> set ws. in_bounds b w" and "x \<in> set (normalize ws (fst b) (snd b))"
  shows "0 \<le> x \<and> x \<le> 1"
proof -
  have "ws \<noteq> []" using assms(2) by (auto simp: normalize_def)
  then obtain w where "w \<in> set ws" by (cases ws) auto
  with assms(1) obtain lo hi where b: "b = (Some lo, Some hi)" by (auto simp: in_bounds_def)
  show ?thesis
  proof (cases "lo = hi")
    case True
    then show ?thesis using assms(2) \<open>ws \<noteq> []\<close> b by (auto simp: normalize_def)
  next
    case False
    then obtain v where v: "v \<in> set ws" "x = (v - lo) / (hi - lo)"
      using assms(2) \<open>ws \<noteq> []\<close> b by (auto simp: normalize_def)
    moreover have "lo \<le> v" "v \<le> hi" using assms(1) v(1) b by (auto simp: in_bounds_def)
    ultimately show ?thesis using False by (simp add: divide_le_eq)
  qed
qed

text \<open>Whatever a weigher has recorded before, the normalised weights it produces for a list of
  hosts lie between 0 and 1, one per host.\<close>

theorem normalized_weights_in_unit_interval:
  assumes "weigh_objects weigh ks b = Inr (ws, b')" and "bounds_ok b"
  shows "length (normalize ws (fst b') (snd b')) = length ks \<and>
    (\<forall>x \<in> set (normalize ws (fst b') (snd b')). 0 \<le> x \<and> x \<le> 1)"
proof -
  have "length ws = length ks" "\<forall>w \<in> set ws. in_bounds b' w"
    using weigh_objects_in_bounds [OF assms] by auto
  then show ?thesis using normalize_range [of ws b'] by simp
qed

theorem normalized_weights_in_unit_interval_witness:
  "length (normalize [5, 7] (Some 0) (Some 7)) = length [5::rat, 7] \<and>
   list_all (\<lambda>x. 0 \<le> x \<and> x \<le> 1) (normalize [5, 7] (Some 0) (Some 7))"
proof -
  have "weigh_objects Inr [5, 7] (Some 0, None) = Inr ([5, 7], (Some 0, Some 7))"
    by (simp add: note_weight_def)
  from normalized_weights_in_unit_interval [OF this] show ?thesis
    by (simp add: bounds_ok_def list_all_iff)
qed

section \<open>One weigher alone ranks by its weights\<close>

lemma normalize_monotone:
  assumes "\<forall>w \<in> set ws. in_bounds b w"
  shows "\<exists>f. (\<forall>v \<in> set ws. \<forall>w \<in> set ws. v < w \<longrightarrow> f v < (f w :: rat)) \<and>
    normalize ws (fst b) (snd b) = map f ws"
proof (cases "ws = []")
  case False
  then obtain w where "w \<in> set ws" by (cases ws) auto
  with assms obtain lo hi where b: "b = (Some lo, Some hi)" by (auto simp: in_bounds_def)
  show ?thesis
  proof (cases "lo = hi")
    case True
    then have "\<forall>w \<in> set ws. w = hi" using assms b by (auto simp: in_bounds_def)
    then have "\<forall>v \<in> set ws. \<forall>w \<in> set ws. v < w \<longrightarrow> (0 :: rat) < 0"
      by (metis order_less_irrefl)
    then show ?thesis using True \<open>ws \<noteq> []\<close> b
      by (intro exI [of _ "\<lambda>_. 0"]) (simp add: normalize_def map_replicate_const)
  next
    case False
    then have "lo < hi" using assms b \<open>w \<in> set ws\<close> by (auto simp: in_bounds_def)
    then show ?thesis using \<open>ws \<noteq> []\<close> b
      by (intro exI [of _ "\<lambda>i. (i - lo) / (hi - lo)"]) (auto simp: normalize_def divide_strict_right_mono)
  qed
qed (simp add: normalize_def)

lemma map2_zero_weights:
  assumes "length ws = length ks"
  shows "map2 (\<lambda>(k, weight) w. (k, weight + m * w)) (map (\<lambda>k. (k, 0)) ks) ws = zip ks (map ((*) (m :: rat)) ws)"
  using assms by (induction ks ws rule: list_induct2') auto

lemma single_weigher_result:
  assumes "get_weighed_objects mul weigh [(w, b)] ks = Inr (objs, ws')" and "2 \<le> length ks" and "bounds_ok b"
  shows "\<exists>ws f. list_all2 (\<lambda>k v. weigh w k = Inr v) ks ws \<and>
    (\<forall>u \<in> set ws. \<forall>v \<in> set ws. u < v \<longrightarrow> f u < (f v :: rat)) \<and>
    objs = sorted_desc snd (zip ks (map (\<lambda>v. mul w * f v) ws))"
proof -
  obtain ws b' where ws: "weigh_objects (weigh w) ks b = Inr (ws, b')"
    and objs: "objs = sorted_desc snd
      (map2 (\<lambda>(k, weight) v. (k, weight + mul w * v)) (map (\<lambda>k. (k, 0)) ks) (normalize ws (fst b') (snd b')))"
    using assms(1,2) by (auto simp: get_weighed_objects_def add_weigher_def comp_def)
  have len: "length ws = length ks" and cover: "\<forall>v \<in> set ws. in_bounds b' v"
    using weigh_objects_in_bounds [OF ws assms(3)] by auto
  from normalize_monotone [OF cover] obtain f where
    f: "\<forall>u \<in> set ws. \<forall>v \<in> set ws. u < v \<longrightarrow> f u < (f v :: rat)" and
    n: "normalize ws (fst b') (snd b') = map f ws" by blast
  have "objs = sorted_desc snd (zip ks (map (\<lambda>v. mul w * f v) ws))"
    unfolding objs n using len by (simp add: map2_zero_weights comp_def)
  then show ?thesis using f weigh_objects_values [OF ws] by blast
qed

lemma mset_sorted_desc [simp]: "mset (sorted_desc k xs) = mset xs"
  by (simp add: sorted_desc_def)

text \<open>With a single weigher of positive multiplier the result lists each host once, the hosts
  with the larger raw weights first, whatever bounds the weigher had recorded.\<close>

theorem single_weigher_ranks:
  assumes "get_weighed_objects mul weigh [(w, b)] ks = Inr (objs, weighers')"
    and "2 \<le> length ks" and "bounds_ok b" and "0 < mul w"
  shows "mset (map fst objs) = mset ks \<and>
    (\<exists>raw. (\<forall>k \<in> set ks. weigh w k = Inr (raw k)) \<and>
      sorted_wrt (\<lambda>x y. raw y \<le> raw x) (map fst objs))"
proof -
  from single_weigher_result [OF assms(1-3)] obtain ws f where
    vals: "list_all2 (\<lambda>k v. weigh w k = Inr v) ks ws" and
    mono: "\<forall>u \<in> set ws. \<forall>v \<in> set ws. u < v \<longrightarrow> f u < (f v :: rat)" and
    objs: "objs = sorted_desc snd (zip ks (map (\<lambda>v. mul w * f v) ws))" by blast
  define raw where "raw = (\<lambda>k. projr (weigh w k))"
  have len: "length ws = length ks" using vals by (simp add: list_all2_lengthD)
  have ws: "ws = map raw ks" using vals
    by (induction rule: list_all2_induct) (simp_all add: raw_def)
  have ok: "\<forall>k \<in> set ks. weigh w k = Inr (raw k)"
    using vals unfolding ws by (auto simp: list_all2_conv_all_nth in_set_conv_nth)
  have mem: "fst x \<in> set ks \<and> snd x = mul w * f (raw (fst x))" if "x \<in> set objs" for x
    using that by (auto simp: objs ws set_zip)
  have "sorted_wrt (\<lambda>x y. snd y \<le> snd x) objs" unfolding objs by (rule sorted_desc_sorted)
  then have "sorted_wrt (\<lambda>x y. raw (fst y) \<le> raw (fst x)) objs"
  proof (rule sorted_wrt_mono_rel [rotated])
    fix x y assume "x \<in> set objs" "y \<in> set objs" "snd y \<le> snd x"
    then have "f (raw (fst y)) \<le> f (raw (fst x))" using mem assms(4) by simp
    then show "raw (fst y) \<le> raw (fst x)"
      using mono mem \<open>x \<in> set objs\<close> \<open>y \<in> set objs\<close> unfolding ws
      by (metis image_eqI list.set_map not_le)
  qed
  then have "sorted_wrt (\<lambda>x y. raw y \<le> raw x) (map fst objs)" by (simp add: sorted_wrt_map)
  moreover have "mset (map fst objs) = mset ks"
    unfolding objs by (metis len length_map map_fst_zip mset_map mset_sorted_desc)
  ultimately show ?thesis using ok by blast
qed

theorem single_weigher_ranks_witness:
  "mset (map fst [(2, 1 :: rat), (1, 1 / 2)]) = mset [1, 2 :: rat]"
proof -
  have "get_weighed_objects (\<lambda>_. 1) (\<lambda>_ k. Inr k) [((), (Some 0, None))] [1, 2 :: rat] =
    Inr ([(2, 1), (1, 1 / 2)], [((), (Some 0, Some 2))])"
    by (simp add: get_weighed_objects_def add_weigher_def note_weight_def normalize_def sorted_desc_def)
  from single_weigher_ranks [OF this] show ?thesis by (simp add: bounds_ok_def)
qed

section \<open>The bounds outlive the request\<close>

definition two_hosts :: "bool \<Rightarrow> host_state" where
  "two_hosts k = (plain_host (''h'', ''n'') (if k then 2000 else 1000))\<lparr>num_io_ops := (if k then 2 else 1)\<rparr>"

text \<open>The bounds a weigher keeps from earlier requests change the ranking of a later one: of two
  hosts the one with twice the memory and twice the operations comes first when an earlier request
  has seen a busy host, and second when one has seen a large host.\<close>

theorem ranking_depends_on_history:
  "let rank = (\<lambda>bs. map_sum id (map fst \<circ> fst)
      (get_weighed_hosts plain_conf (plain_spec 1 1 1) two_hosts bs [True, False]))
   in rank [(RAMWeigher, (Some 0, Some 2000)), (IoOpsWeigher, (Some 0, Some 10))] = Inr [True, False] \<and>
      rank [(RAMWeigher, (Some 0, Some 20000)), (IoOpsWeigher, (Some 0, Some 2))] = Inr [False, True]"
  by (simp add: get_weighed_hosts_def get_weighed_objects_def add_weigher_def weigh_object_def
      two_hosts_def plain_host_def new_host_state_def note_weight_def normalize_def sorted_desc_def
      weight_multiplier_def plain_conf_def)

end
