(* ===== verification/FilterScheduler.thy ===== *)
theory FilterScheduler
  imports Filters Weights
begin

text \<open>
  The filter scheduler: choosing which filters and hosts take part (nova/scheduler/host_manager.py)
  and placing the instances of a request one after the other (nova/scheduler/filter_scheduler.py).
  Host objects are named by their key in the host manager's table. The random draw is an argument:
  \<open>draw num\<close> is the index drawn for the \<open>num\<close>-th instance.
\<close>

section \<open>Choosing filters and hosts\<close>

text \<open>\<open>known\<close> is the table of loaded filter classes; an unknown name raises once all were looked up.\<close>

definition choose_host_filters :: "(string, host_filter) dict \<Rightarrow> string list \<Rightarrow> host_filter list result" where
  "choose_host_filters known names =
     (if list_all (\<lambda>n. n \<in> set (keys known)) names
      then Inr (List.map_filter (map_of known) names) else Inl SchedulerHostFilterNotFound)"

definition strip_ignore_hosts :: "string list \<Rightarrow> host_key list \<Rightarrow> host_key list" where
  "strip_ignore_hosts ignored ks = filter (\<lambda>(h, n). h \<notin> set ignored) ks"

definition match_forced_hosts :: "string list \<Rightarrow> host_key list \<Rightarrow> host_key list" where
  "match_forced_hosts forced ks = filter (\<lambda>(h, n). h \<in> set forced) ks"

definition match_forced_nodes :: "string list \<Rightarrow> host_key list \<Rightarrow> host_key list" where
  "match_forced_nodes forced ks = filter (\<lambda>(h, n). n \<in> set forced) ks"

definition get_filtered_hosts ::
    "sched_conf \<Rightarrow> host_filter list \<Rightarrow> nat \<Rightarrow> host_key list \<Rightarrow> (host_key \<Rightarrow> host_state) \<Rightarrow> request_spec \<Rightarrow>
     (host_key list \<times> (host_key \<Rightarrow> host_state) \<times> request_spec) result" where
  "get_filtered_hosts cf filters index hosts store spec =
     (if spec_ignore_hosts spec \<noteq> [] \<or> spec_force_hosts spec \<noteq> [] \<or> spec_force_nodes spec \<noteq> [] then
        (let name_map = conf_key_order cf (set hosts);
             kept = strip_ignore_hosts (spec_ignore_hosts spec) name_map
         in if spec_ignore_hosts spec \<noteq> [] \<and> kept = [] then Inr ([], store, spec)
            else
              (let kept = (if spec_force_hosts spec \<noteq> [] then match_forced_hosts (spec_force_hosts spec) kept else kept);
                   kept = (if spec_force_nodes spec \<noteq> [] then match_forced_nodes (spec_force_nodes spec) kept else kept)
               in if spec_force_hosts spec \<noteq> [] \<or> spec_force_nodes spec \<noteq> [] then Inr (kept, store, spec)
                  else get_filtered_objects (host_passes cf) run_filter_once_per_request index filters kept store spec))
      else get_filtered_objects (host_passes cf) run_filter_once_per_request index filters hosts store spec)"

section \<open>Placing the instances\<close>

record sched_state =
  st_store :: "host_key \<Rightarrow> host_state"
  st_spec :: request_spec
  st_weighers :: "(host_weigher \<times> bounds) list"

text \<open>The best hosts that take part in the draw.\<close>

definition host_subset :: "sched_conf \<Rightarrow> 'a list \<Rightarrow> 'a list" where
  "host_subset cf weighed =
     (let size = max 1 (conf_host_subset_size cf) in
      if size < int (length weighed) then take (nat size) weighed else weighed)"

text \<open>\<open>random.choice\<close> picks one of them.\<close>

definition draw_host :: "sched_conf \<Rightarrow> nat \<Rightarrow> ('k \<times> rat) list \<Rightarrow> 'k" where
  "draw_host cf index weighed =
     (let candidates = host_subset cf weighed in fst (candidates ! (index mod length candidates)))"

text \<open>Recording a chosen host in the server group, if there is one.\<close>

definition add_to_group :: "string \<Rightarrow> request_spec \<Rightarrow> request_spec" where
  "add_to_group host spec =
     (case spec_group spec of
        None \<Rightarrow> spec
      | Some g \<Rightarrow> spec\<lparr>spec_group := Some (g\<lparr>group_hosts := group_hosts g @ [host]\<rparr>)\<rparr>)"

definition place_on :: "sched_conf \<Rightarrow> host_key \<Rightarrow> sched_state \<Rightarrow> sched_state" where
  "place_on cf k st =
     (let (hs, spec) = consume_from_request (conf_id_order cf) (conf_now cf) (st_store st k) (st_spec st)
      in st\<lparr>st_store := (st_store st)(k := hs), st_spec := add_to_group (hs_host hs) spec\<rparr>)"

text \<open>One instance: \<open>None\<close> when no host is left.\<close>

definition place_instance ::
    "sched_conf \<Rightarrow> host_filter list \<Rightarrow> (nat \<Rightarrow> nat) \<Rightarrow> nat \<Rightarrow> host_key list \<Rightarrow> sched_state \<Rightarrow>
     (host_key list \<times> host_key option \<times> sched_state) result" where
  "place_instance cf filters draw num hosts st =
     bind (get_filtered_hosts cf filters num hosts (st_store st) (st_spec st)) (\<lambda>(hosts', store, spec).
       let st1 = st\<lparr>st_store := store, st_spec := spec\<rparr> in
       if hosts' = [] then Inr ([], None, st1)
       else bind (get_weighed_hosts cf spec store (st_weighers st) hosts') (\<lambda>(weighed, weighers).
         let chosen = draw_host cf (draw num) weighed
         in Inr (hosts', Some chosen, place_on cf chosen (st1\<lparr>st_weighers := weighers\<rparr>))))"

fun schedule_loop ::
    "sched_conf \<Rightarrow> host_filter list \<Rightarrow> (nat \<Rightarrow> nat) \<Rightarrow> nat \<Rightarrow> nat \<Rightarrow> host_key list \<Rightarrow> sched_state \<Rightarrow>
     (host_key list \<times> sched_state) result" where
  "schedule_loop cf filters draw num 0 hosts st = Inr ([], st)"
| "schedule_loop cf filters draw num (Suc left) hosts st =
     bind (place_instance cf filters draw num hosts st) (\<lambda>(hosts', chosen, st').
       case chosen of
         None \<Rightarrow> Inr ([], st')
       | Some k \<Rightarrow>
           bind (schedule_loop cf filters draw (Suc num) left hosts' st') (\<lambda>(selected, st'').
             Inr (k # selected, st'')))"

definition schedule ::
    "sched_conf \<Rightarrow> host_filter list \<Rightarrow> (nat \<Rightarrow> nat) \<Rightarrow> host_key list \<Rightarrow> sched_state \<Rightarrow>
     (host_key list \<times> sched_state) result" where
  "schedule cf filters draw hosts st =
     schedule_loop cf filters draw 0 (nat (spec_num_instances (st_spec st))) hosts st"

type_synonym destination = "string \<times> string \<times> host_limits"

text \<open>
  The state afterwards and the destinations or the exception. An exception inside \<open>schedule\<close> leaves
  the state of the model as it was.
\<close>

definition select_destinations ::
    "sched_conf \<Rightarrow> host_filter list \<Rightarrow> (nat \<Rightarrow> nat) \<Rightarrow> host_key list \<Rightarrow> sched_state \<Rightarrow>
     sched_state \<times> destination list result" where
  "select_destinations cf filters draw hosts st =
     (case schedule cf filters draw hosts st of
        Inl e \<Rightarrow> (st, Inl e)
      | Inr (selected, st') \<Rightarrow>
          if int (length selected) < spec_num_instances (st_spec st)
          then (st'\<lparr>st_store := (\<lambda>k. if k \<in> set selected then (st_store st' k)\<lparr>hs_updated := None\<rparr>
                                    else st_store st' k)\<rparr>, Inl NoValidHost)
          else (st', Inr (map (\<lambda>k. let hs = st_store st' k in (hs_host hs, hs_nodename hs, hs_limits hs)) selected)))"

section \<open>What a placement step keeps\<close>

declare split_paired_All [simp del] split_paired_Ex [simp del]

lemma spec_coreD:
  assumes "spec_core s = spec_core t"
  shows "spec_memory_mb s = spec_memory_mb t" "spec_vcpus s = spec_vcpus t" "spec_group s = spec_group t"
    "spec_force_hosts s = spec_force_hosts t" "spec_force_nodes s = spec_force_nodes t"
    "spec_ignore_hosts s = spec_ignore_hosts t" "spec_num_instances s = spec_num_instances t"
    "spec_retry_hosts s = spec_retry_hosts t"
  using assms by (cases s; cases t; simp add: spec_core_def)+

lemma host_coreD:
  assumes "host_core s = host_core t"
  shows "total_usable_ram_mb s = total_usable_ram_mb t" "free_ram_mb s = free_ram_mb t"
    "hs_ram_ratio s = hs_ram_ratio t" "hs_host s = hs_host t" "hs_nodename s = hs_nodename t"
    "vcpus_total s = vcpus_total t" "vcpus_used s = vcpus_used t" "hs_cpu_ratio s = hs_cpu_ratio t"
    "num_instances s = num_instances t" "hs_instances s = hs_instances t"
  using assms by (cases s; cases t; simp add: host_core_def)+

lemma spec_core_add_to_group: "spec_core (add_to_group h s) = add_to_group h (spec_core s)"
  by (simp add: add_to_group_def spec_core_def split: option.split)

lemma add_to_group_keeps [simp]:
  "spec_memory_mb (add_to_group h s) = spec_memory_mb s" "spec_vcpus (add_to_group h s) = spec_vcpus s"
  "spec_force_hosts (add_to_group h s) = spec_force_hosts s"
  "spec_force_nodes (add_to_group h s) = spec_force_nodes s"
  "spec_ignore_hosts (add_to_group h s) = spec_ignore_hosts s"
  "group_policies_of (add_to_group h s) = group_policies_of s"
  by (simp_all add: add_to_group_def group_policies_of_def split: option.split)

lemma consume_spec_core: "spec_core (snd (consume_from_request ord now hs spec)) = spec_core spec"
  by (auto simp: consume_from_request_def locked_consume_from_request_def Let_def spec_core_def
      split: sum.splits prod.splits)

lemma consume_host:
  "consume_from_request ord now hs spec = (hs', spec') \<Longrightarrow>
   hs_host hs' = hs_host hs \<and> hs_nodename hs' = hs_nodename hs \<and> hs_ram_ratio hs' = hs_ram_ratio hs \<and>
   total_usable_ram_mb hs' = total_usable_ram_mb hs \<and>
   free_ram_mb hs' = free_ram_mb hs - spec_memory_mb spec \<and>
   hs_cpu_ratio hs' = hs_cpu_ratio hs \<and> vcpus_total hs' = vcpus_total hs \<and>
   vcpus_used hs' = vcpus_used hs + spec_vcpus spec"
  by (auto simp: consume_from_request_def locked_consume_from_request_def Let_def
      split: sum.splits prod.splits)

lemma place_on_effect:
  "hs_host (st_store (place_on cf k st) x) = hs_host (st_store st x)"
  "hs_ram_ratio (st_store (place_on cf k st) x) = hs_ram_ratio (st_store st x)"
  "total_usable_ram_mb (st_store (place_on cf k st) x) = total_usable_ram_mb (st_store st x)"
  "free_ram_mb (st_store (place_on cf k st) x) =
     free_ram_mb (st_store st x) - (if x = k then spec_memory_mb (st_spec st) else 0)"
  "hs_cpu_ratio (st_store (place_on cf k st) x) = hs_cpu_ratio (st_store st x)"
  "vcpus_total (st_store (place_on cf k st) x) = vcpus_total (st_store st x)"
  "vcpus_used (st_store (place_on cf k st) x) =
     vcpus_used (st_store st x) + (if x = k then spec_vcpus (st_spec st) else 0)"
  "spec_core (st_spec (place_on cf k st)) = add_to_group (hs_host (st_store st k)) (spec_core (st_spec st))"
proof -
  obtain hs spec where c: "consume_from_request (conf_id_order cf) (conf_now cf) (st_store st k) (st_spec st) = (hs, spec)"
    by (cases "consume_from_request (conf_id_order cf) (conf_now cf) (st_store st k) (st_spec st)")
  note h = consume_host [OF c]
  have s: "spec_core spec = spec_core (st_spec st)" using consume_spec_core c by (metis snd_conv)
  show "hs_host (st_store (place_on cf k st) x) = hs_host (st_store st x)"
    "hs_ram_ratio (st_store (place_on cf k st) x) = hs_ram_ratio (st_store st x)"
    "total_usable_ram_mb (st_store (place_on cf k st) x) = total_usable_ram_mb (st_store st x)"
    "free_ram_mb (st_store (place_on cf k st) x) =
       free_ram_mb (st_store st x) - (if x = k then spec_memory_mb (st_spec st) else 0)"
    "hs_cpu_ratio (st_store (place_on cf k st) x) = hs_cpu_ratio (st_store st x)"
    "vcpus_total (st_store (place_on cf k st) x) = vcpus_total (st_store st x)"
    "vcpus_used (st_store (place_on cf k st) x) =
       vcpus_used (st_store st x) + (if x = k then spec_vcpus (st_spec st) else 0)"
    "spec_core (st_spec (place_on cf k st)) = add_to_group (hs_host (st_store st k)) (spec_core (st_spec st))"
    using h s by (simp_all add: place_on_def c spec_core_add_to_group)
qed

lemma run_weighers_hosts:
  "run_weighers mul weigh ws objs = Inr (objs', ws') \<Longrightarrow> map fst objs' = map fst objs"
proof (induction ws arbitrary: objs ws')
  case (Cons wb ws)
  obtain w b where wb: "wb = (w, b)" by (cases wb)
  with Cons.prems obtain objs1 b1 ws1 where
    one: "add_weigher (mul w) (weigh w) (objs, b) = Inr (objs1, b1)" and
    rest: "run_weighers mul weigh ws objs1 = Inr (objs', ws1)" by auto
  obtain vs b2 where "weigh_objects (weigh w) (map fst objs) b = Inr (vs, b2)"
    and objs1: "objs1 = map2 (\<lambda>(k, weight) w'. (k, weight + mul w * w')) objs (normalize vs (fst b2) (snd b2))"
    using one by (auto simp: add_weigher_def)
  then have "length vs = length objs"
    using weigh_objects_values [of "weigh w" "map fst objs"] by (metis length_map list_all2_lengthD)
  then have "map fst objs1 = map fst objs"
    unfolding objs1 by (auto simp: list_eq_iff_nth_eq split: prod.splits)
  then show ?case using Cons.IH [OF rest] by simp
qed simp

lemma weighed_hosts_set:
  "get_weighed_objects mul weigh ws ks = Inr (objs, ws') \<Longrightarrow> fst ` set objs = set ks \<and> length objs = length ks"
proof (cases "length ks \<le> 1")
  case True
  then show "get_weighed_objects mul weigh ws ks = Inr (objs, ws') \<Longrightarrow> ?thesis"
    by (auto simp: get_weighed_objects_def image_image)
next
  case False
  assume "get_weighed_objects mul weigh ws ks = Inr (objs, ws')"
  then obtain objs1 where r: "run_weighers mul weigh ws (map (\<lambda>k. (k, 0)) ks) = Inr (objs1, ws')"
    and objs: "objs = sorted_desc snd objs1" using False by (auto simp: get_weighed_objects_def)
  have "map fst objs1 = ks" using run_weighers_hosts [OF r] by (simp add: comp_def)
  then show ?thesis unfolding objs by (metis length_map length_sorted_desc list.set_map set_sorted_desc)
qed

lemma host_subset_nonempty: "xs \<noteq> [] \<Longrightarrow> host_subset cf xs \<noteq> []"
  by (simp add: host_subset_def Let_def)

lemma host_subset_set: "set (host_subset cf xs) \<subseteq> set xs"
  by (auto simp: host_subset_def Let_def dest: in_set_takeD)

lemma draw_host_mem:
  assumes "weighed \<noteq> []"
  shows "draw_host cf i weighed \<in> fst ` set weighed"
proof -
  have "host_subset cf weighed \<noteq> []" using assms by (rule host_subset_nonempty)
  then have "host_subset cf weighed ! (i mod length (host_subset cf weighed)) \<in> set weighed"
    using host_subset_set [of cf weighed] by (meson length_greater_0_conv mod_less_divisor nth_mem subsetD)
  then show ?thesis by (simp add: draw_host_def Let_def)
qed

text \<open>The chosen host is one of the filtered ones.\<close>

lemma place_instance_chosen:
  assumes "place_instance cf fs draw num hosts st = Inr (hosts', Some k, st')"
  obtains store spec ws where
    "get_filtered_hosts cf fs num hosts (st_store st) (st_spec st) = Inr (hosts', store, spec)"
    "k \<in> set hosts'" "st' = place_on cf k \<lparr>st_store = store, st_spec = spec, st_weighers = ws\<rparr>"
proof -
  let ?f = "get_filtered_hosts cf fs num hosts (st_store st) (st_spec st)"
  obtain hs' store spec where f: "?f = Inr (hs', store, spec)"
    using assms by (cases ?f) (auto simp: place_instance_def)
  have ne: "hs' \<noteq> []" using assms by (auto simp: place_instance_def f Let_def)
  let ?w = "get_weighed_hosts cf spec store (st_weighers st) hs'"
  obtain weighed ws where w: "?w = Inr (weighed, ws)"
    using assms ne by (cases ?w) (auto simp: place_instance_def f Let_def)
  have eqs: "hosts' = hs'" "k = draw_host cf (draw num) weighed"
    "st' = place_on cf k (st\<lparr>st_store := store, st_spec := spec, st_weighers := ws\<rparr>)"
    using assms ne by (auto simp: place_instance_def f w Let_def)
  have "fst ` set weighed = set hs'" "length weighed = length hs'"
    using weighed_hosts_set [OF w [unfolded get_weighed_hosts_def]] by auto
  then have "k \<in> set hosts'"
    using eqs draw_host_mem [of weighed cf "draw num"] ne by (metis length_0_conv)
  moreover have "st' = place_on cf k \<lparr>st_store = store, st_spec = spec, st_weighers = ws\<rparr>"
    using eqs(3) by (cases st) simp
  ultimately show ?thesis using that f eqs(1) by blast
qed

lemma place_instance_none:
  assumes "place_instance cf fs draw num hosts st = Inr (hosts', None, st')"
  obtains store spec where
    "get_filtered_hosts cf fs num hosts (st_store st) (st_spec st) = Inr ([], store, spec)"
    "st' = st\<lparr>st_store := store, st_spec := spec\<rparr>"
proof -
  let ?f = "get_filtered_hosts cf fs num hosts (st_store st) (st_spec st)"
  obtain hs' store spec where f: "?f = Inr (hs', store, spec)"
    using assms by (cases ?f) (auto simp: place_instance_def)
  have "hs' = []" using assms by (cases "hs' = []") (auto simp: place_instance_def f Let_def)
  then show ?thesis using that f assms by (simp add: place_instance_def Let_def)
qed

lemma get_filtered_hosts_cases:
  assumes "get_filtered_hosts cf fs num hosts store spec = Inr (hosts', store', spec')"
  shows "(store' = store \<and> spec' = spec \<and>
      (hosts' = [] \<or> spec_force_hosts spec \<noteq> [] \<or> spec_force_nodes spec \<noteq> [])) \<or>
    (\<exists>ks. get_filtered_objects (host_passes cf) run_filter_once_per_request num fs ks store spec =
      Inr (hosts', store', spec'))"
  using assms by (fastforce simp: get_filtered_hosts_def Let_def split: if_splits)

lemma get_filtered_hosts_stable:
  assumes "get_filtered_hosts cf fs num hosts store spec = Inr (hosts', store', spec')"
  shows "spec_core spec' = spec_core spec \<and> (\<forall>k. host_core (store' k) = host_core (store k)) \<and>
    (spec_force_hosts spec = [] \<and> spec_force_nodes spec = [] \<longrightarrow>
     (\<forall>f \<in> set fs. run_filter_for_index (run_filter_once_per_request f) num \<longrightarrow>
       (\<forall>k \<in> set hosts'. all_filters.passed cf f (store k) spec)))"
  using get_filtered_hosts_cases [OF assms]
proof
  assume "\<exists>ks. get_filtered_objects (host_passes cf) run_filter_once_per_request num fs ks store spec =
      Inr (hosts', store', spec')"
  then obtain ks where "get_filtered_objects (host_passes cf) run_filter_once_per_request num fs ks store spec =
      Inr (hosts', store', spec')" by blast
  from all_filters.filtered_stable [OF this] show ?thesis by blast
qed auto

text \<open>One placed instance, seen from the host's resources and the request's core.\<close>

lemma placed_step:
  assumes "place_instance cf fs draw num hosts st = Inr (hosts1, Some x, st1)"
  shows "x \<in> set hosts1"
    and "spec_core (st_spec st1) = spec_core (add_to_group (hs_host (st_store st x)) (st_spec st))"
    and "hs_host (st_store st1 y) = hs_host (st_store st y)"
    and "total_usable_ram_mb (st_store st1 y) = total_usable_ram_mb (st_store st y)"
    and "hs_ram_ratio (st_store st1 y) = hs_ram_ratio (st_store st y)"
    and "free_ram_mb (st_store st1 y) =
      free_ram_mb (st_store st y) - (if y = x then spec_memory_mb (st_spec st) else 0)"
    and "spec_force_hosts (st_spec st) = [] \<Longrightarrow> spec_force_nodes (st_spec st) = [] \<Longrightarrow> f \<in> set fs \<Longrightarrow>
      run_filter_for_index (run_filter_once_per_request f) num \<Longrightarrow> k \<in> set hosts1 \<Longrightarrow>
      all_filters.passed cf f (st_store st k) (st_spec st)"
proof -
  obtain store spec ws where
    f: "get_filtered_hosts cf fs num hosts (st_store st) (st_spec st) = Inr (hosts1, store, spec)" and
    x: "x \<in> set hosts1" and st1: "st1 = place_on cf x \<lparr>st_store = store, st_spec = spec, st_weighers = ws\<rparr>"
    using place_instance_chosen [OF assms] by metis
  note stable = get_filtered_hosts_stable [OF f]
  have spec: "spec_core spec = spec_core (st_spec st)" using stable by blast
  have host: "host_core (store z) = host_core (st_store st z)" for z using stable by blast
  show "x \<in> set hosts1" by (rule x)
  show "spec_core (st_spec st1) = spec_core (add_to_group (hs_host (st_store st x)) (st_spec st))"
    unfolding st1 place_on_effect spec_core_add_to_group sched_state.simps spec host_coreD(4) [OF host] by (rule refl)
  show "hs_host (st_store st1 y) = hs_host (st_store st y)"
    "total_usable_ram_mb (st_store st1 y) = total_usable_ram_mb (st_store st y)"
    "hs_ram_ratio (st_store st1 y) = hs_ram_ratio (st_store st y)"
    "free_ram_mb (st_store st1 y) =
      free_ram_mb (st_store st y) - (if y = x then spec_memory_mb (st_spec st) else 0)"
    unfolding st1 place_on_effect sched_state.simps host_coreD(1-4) [OF host] spec_coreD(1) [OF spec]
    by (rule refl)+
  show "spec_force_hosts (st_spec st) = [] \<Longrightarrow> spec_force_nodes (st_spec st) = [] \<Longrightarrow> f \<in> set fs \<Longrightarrow>
      run_filter_for_index (run_filter_once_per_request f) num \<Longrightarrow> k \<in> set hosts1 \<Longrightarrow>
      all_filters.passed cf f (st_store st k) (st_spec st)"
    using stable by blast
qed

text \<open>The end of the loop: nothing but limits changes.\<close>

lemma unplaced_step:
  assumes "place_instance cf fs draw num hosts st = Inr (hosts1, None, st1)"
  shows "spec_core (st_spec st1) = spec_core (st_spec st)" and "host_core (st_store st1 y) = host_core (st_store st y)"
proof -
  obtain store spec where
    f: "get_filtered_hosts cf fs num hosts (st_store st) (st_spec st) = Inr ([], store, spec)"
    and st1: "st1 = st\<lparr>st_store := store, st_spec := spec\<rparr>"
    using place_instance_none [OF assms] by metis
  note stable = get_filtered_hosts_stable [OF f]
  show "spec_core (st_spec st1) = spec_core (st_spec st)" using stable st1 by simp
  show "host_core (st_store st1 y) = host_core (st_store st y)" using stable unfolding st1 by simp
qed

lemma schedule_loop_Suc:
  assumes "schedule_loop cf fs draw num (Suc left) hosts st = Inr (selected, st')"
  obtains
    (stop) hosts1 where "place_instance cf fs draw num hosts st = Inr (hosts1, None, st')" "selected = []"
  | (placed) hosts1 x st1 selected1 where
      "place_instance cf fs draw num hosts st = Inr (hosts1, Some x, st1)"
      "schedule_loop cf fs draw (Suc num) left hosts1 st1 = Inr (selected1, st')" "selected = x # selected1"
proof -
  obtain hosts1 c st1 where one: "place_instance cf fs draw num hosts st = Inr (hosts1, c, st1)" and
    rest: "(case c of None \<Rightarrow> Inr ([], st1)
       | Some k \<Rightarrow> bind (schedule_loop cf fs draw (Suc num) left hosts1 st1)
           (\<lambda>(selected, st''). Inr (k # selected, st''))) = Inr (selected, st')"
    using assms by (cases "place_instance cf fs draw num hosts st") auto
  show ?thesis
  proof (cases c)
    case None
    then show ?thesis using one rest stop by simp
  next
    case (Some x)
    then obtain selected1 where "schedule_loop cf fs draw (Suc num) left hosts1 st1 = Inr (selected1, st')"
      "selected = x # selected1"
      using rest by (cases "schedule_loop cf fs draw (Suc num) left hosts1 st1") auto
    then show ?thesis using one Some placed by blast
  qed
qed

section \<open>Memory is not overcommitted\<close>

lemma ram_passed:
  assumes "all_filters.passed cf (RamFilter False) h spec"
  shows "\<exists>ratio. hs_ram_ratio h = Some ratio \<and>
    rat_of_int (total_usable_ram_mb h - (free_ram_mb h - spec_memory_mb spec)) \<le>
      rat_of_int (total_usable_ram_mb h) * ratio"
proof -
  from assms obtain h0 s0 h1 s1 where
    c: "host_core h0 = host_core h" "spec_core s0 = spec_core spec" and
    p: "host_passes cf (RamFilter False) h0 s0 = Inr (h1, s1, True)"
    unfolding all_filters.passed_def by blast
  then obtain ratio where r: "hs_ram_ratio h0 = Some ratio"
    "rat_of_int (total_usable_ram_mb h0) * ratio - rat_of_int (total_usable_ram_mb h0 - free_ram_mb h0) \<ge>
      rat_of_int (spec_memory_mb s0)"
    by (auto simp: ram_passes_def ram_ratio_def Let_def split: if_splits option.splits)
  show ?thesis
    using r unfolding host_coreD [OF c(1)] spec_coreD [OF c(2)]
    by (intro exI [of _ ratio]) (simp add: algebra_simps)
qed

definition mem_in_limit :: "host_state \<Rightarrow> bool" where
  "mem_in_limit h \<longleftrightarrow> (case hs_ram_ratio h of None \<Rightarrow> False
     | Some ratio \<Rightarrow> rat_of_int (total_usable_ram_mb h - free_ram_mb h) \<le> rat_of_int (total_usable_ram_mb h) * ratio)"

lemma schedule_loop_memory:
  assumes "schedule_loop cf fs draw num left hosts st = Inr (selected, st')"
    and "RamFilter False \<in> set fs" and "spec_force_hosts (st_spec st) = []" "spec_force_nodes (st_spec st) = []"
  shows "free_ram_mb (st_store st' k) =
      free_ram_mb (st_store st k) - int (count_list selected k) * spec_memory_mb (st_spec st) \<and>
    total_usable_ram_mb (st_store st' k) = total_usable_ram_mb (st_store st k) \<and>
    hs_ram_ratio (st_store st' k) = hs_ram_ratio (st_store st k) \<and>
    (k \<in> set selected \<longrightarrow> mem_in_limit (st_store st' k))"
  using assms
proof (induction left arbitrary: num hosts st selected)
  case (Suc left)
  from Suc.prems(1) show ?case
  proof (cases rule: schedule_loop_Suc)
    case (stop hosts1)
    show ?thesis using host_coreD(1-3) [OF unplaced_step(2) [OF stop(1)]] stop(2) by simp
  next
    case (placed hosts1 x st1 selected1)
    note step = placed_step [OF placed(1)]
    have "run_filter_for_index (run_filter_once_per_request (RamFilter False)) num"
      by (simp add: run_filter_for_index_def)
    then have "all_filters.passed cf (RamFilter False) (st_store st x) (st_spec st)"
      using step(1,7) Suc.prems(2-4) by blast
    note ram = ram_passed [OF this]
    note same = spec_coreD [OF step(2), unfolded add_to_group_keeps]
    have lim: "mem_in_limit (st_store st1 x)"
      using ram unfolding mem_in_limit_def step(4-6) by auto
    have ih: "free_ram_mb (st_store st' k) =
      free_ram_mb (st_store st1 k) - int (count_list selected1 k) * spec_memory_mb (st_spec st1) \<and>
      total_usable_ram_mb (st_store st' k) = total_usable_ram_mb (st_store st1 k) \<and>
      hs_ram_ratio (st_store st' k) = hs_ram_ratio (st_store st1 k) \<and>
      (k \<in> set selected1 \<longrightarrow> mem_in_limit (st_store st' k))"
      by (rule Suc.IH [OF placed(2) Suc.prems(2)]) (simp_all add: same Suc.prems)
    have "mem_in_limit (st_store st' k)" if "k = x" "k \<notin> set selected1"
      using lim ih that by (auto simp: mem_in_limit_def count_list_0_iff split: option.splits)
    then show ?thesis using ih unfolding step(4-6) same placed(3) by (auto simp: algebra_simps)
  qed
qed simp

text \<open>C10: with the RAM filter enabled and no forced host, a request that is scheduled leaves every
  host charged with its memory once per instance placed there, and every host that got an instance
  within its memory times its allocation ratio - whatever the other filters, weighers and draws.\<close>

theorem schedule_respects_memory:
  assumes "schedule cf fs draw hosts st = Inr (selected, st')" and "RamFilter False \<in> set fs"
    and "spec_force_hosts (st_spec st) = []" and "spec_force_nodes (st_spec st) = []"
  shows "free_ram_mb (st_store st' k) =
      free_ram_mb (st_store st k) - int (count_list selected k) * spec_memory_mb (st_spec st) \<and>
    (k \<in> set selected \<longrightarrow> (\<exists>ratio. hs_ram_ratio (st_store st' k) = Some ratio \<and>
      rat_of_int (total_usable_ram_mb (st_store st' k) - free_ram_mb (st_store st' k)) \<le>
        rat_of_int (total_usable_ram_mb (st_store st' k)) * ratio))"
  using schedule_loop_memory [OF assms(1) [unfolded schedule_def] assms(2-4), of k]
  by (auto simp: mem_in_limit_def split: option.splits)

section \<open>Anti-affinity\<close>

lemma anti_affinity_passed:
  assumes "all_filters.passed cf ServerGroupAntiAffinityFilter h spec"
    and "''anti-affinity'' \<in> set (group_policies_of spec)"
  shows "hs_host h \<notin> set (group_hosts_of spec)"
proof -
  from assms obtain h0 s0 h1 s1 where
    c: "host_core h0 = host_core h" "spec_core s0 = spec_core spec" and
    p: "host_passes cf ServerGroupAntiAffinityFilter h0 s0 = Inr (h1, s1, True)"
    unfolding all_filters.passed_def by blast
  have g: "group_policies_of s0 = group_policies_of spec" "group_hosts_of s0 = group_hosts_of spec"
    by (simp_all add: group_policies_of_def group_hosts_of_def spec_coreD(3) [OF c(2)])
  show ?thesis using p assms(2) unfolding host_coreD(4) [OF c(1), symmetric]
    by (auto simp: group_anti_affinity_passes_def g split: if_splits)
qed

lemma group_hosts_add:
  "group_policies_of s \<noteq> [] \<Longrightarrow> group_hosts_of (add_to_group h s) = group_hosts_of s @ [h]"
  by (auto simp: add_to_group_def group_hosts_of_def group_policies_of_def split: option.splits)

lemma group_core:
  assumes "spec_core s = spec_core t"
  shows "group_policies_of s = group_policies_of t" "group_hosts_of s = group_hosts_of t"
  by (simp_all add: group_policies_of_def group_hosts_of_def spec_coreD(3) [OF assms])

lemma schedule_loop_anti_affinity:
  assumes "schedule_loop cf fs draw num left hosts st = Inr (selected, st')"
    and "ServerGroupAntiAffinityFilter \<in> set fs" and "''anti-affinity'' \<in> set (group_policies_of (st_spec st))"
    and "spec_force_hosts (st_spec st) = []" "spec_force_nodes (st_spec st) = []"
  shows "distinct (map (\<lambda>k. hs_host (st_store st k)) selected) \<and>
    (\<forall>k \<in> set selected. hs_host (st_store st k) \<notin> set (group_hosts_of (st_spec st)))"
  using assms
proof (induction left arbitrary: num hosts st selected)
  case (Suc left)
  from Suc.prems(1) show ?case
  proof (cases rule: schedule_loop_Suc)
    case (placed hosts1 x st1 selected1)
    note step = placed_step [OF placed(1)]
    have "run_filter_for_index (run_filter_once_per_request ServerGroupAntiAffinityFilter) num"
      by (simp add: run_filter_for_index_def)
    then have "all_filters.passed cf ServerGroupAntiAffinityFilter (st_store st x) (st_spec st)"
      using step(1,7) Suc.prems(2,4,5) by blast
    then have x: "hs_host (st_store st x) \<notin> set (group_hosts_of (st_spec st))"
      using anti_affinity_passed Suc.prems(3) by blast
    note same = spec_coreD [OF step(2), unfolded add_to_group_keeps]
    have pol: "group_policies_of (st_spec st1) = group_policies_of (st_spec st)"
      using group_core(1) [OF step(2)] by simp
    have "group_policies_of (st_spec st) \<noteq> []" using Suc.prems(3) by auto
    then have grp: "group_hosts_of (st_spec st1) = group_hosts_of (st_spec st) @ [hs_host (st_store st x)]"
      using group_core(2) [OF step(2)] group_hosts_add by simp
    have "distinct (map (\<lambda>k. hs_host (st_store st1 k)) selected1) \<and>
      (\<forall>k \<in> set selected1. hs_host (st_store st1 k) \<notin> set (group_hosts_of (st_spec st1)))"
      by (rule Suc.IH [OF placed(2) Suc.prems(2)]) (simp_all add: pol same Suc.prems)
    then show ?thesis unfolding step(3) grp placed(3) using x by auto
  qed simp
qed simp


section \<open>All or nothing\<close>

lemma schedule_loop_length:
  "schedule_loop cf fs draw num left hosts st = Inr (selected, st') \<Longrightarrow> length selected \<le> left"
proof (induction left arbitrary: num hosts st selected)
  case (Suc left)
  from Suc.prems show ?case by (cases rule: schedule_loop_Suc) (auto dest: Suc.IH)
qed simp


section \<open>Room is found\<close>

lemma weigh_objects_total: "\<forall>k \<in> set ks. \<exists>w. weigh k = Inr w \<Longrightarrow> \<exists>r. weigh_objects weigh ks b = Inr r"
proof (induction ks arbitrary: b)
  case (Cons k ks)
  then obtain w where w: "weigh k = Inr w" by auto
  have "\<forall>k \<in> set ks. \<exists>w. weigh k = Inr w" using Cons.prems by simp
  then obtain r where "weigh_objects weigh ks (note_weight w b) = Inr r" using Cons.IH by blast
  then show ?case using w by (cases r) simp
qed simp

lemma run_weighers_total:
  assumes "\<And>w k. w \<in> fst ` set ws \<Longrightarrow> k \<in> fst ` set objs \<Longrightarrow> \<exists>v. weigh w k = Inr v"
  shows "\<exists>objs' ws'. run_weighers mul weigh ws objs = Inr (objs', ws') \<and> map fst ws' = map fst ws"
  using assms
proof (induction ws arbitrary: objs)
  case (Cons wb ws)
  obtain w b where wb: "wb = (w, b)" by (cases wb)
  have "\<forall>k \<in> set (map fst objs). \<exists>v. weigh w k = Inr v" using Cons.prems [of w] wb by simp
  from weigh_objects_total [OF this] obtain r where "weigh_objects (weigh w) (map fst objs) b = Inr r" by blast
  then obtain objs1 b1 where one: "add_weigher (mul w) (weigh w) (objs, b) = Inr (objs1, b1)"
    by (cases r) (auto simp: add_weigher_def)
  have "run_weighers mul weigh [(w, b)] objs = Inr (objs1, [(w, b1)])" using one by simp
  from run_weighers_hosts [OF this] have "fst ` set objs1 = fst ` set objs" by (metis list.set_map)
  then have "\<And>w k. w \<in> fst ` set ws \<Longrightarrow> k \<in> fst ` set objs1 \<Longrightarrow> \<exists>v. weigh w k = Inr v"
    using Cons.prems by simp
  from Cons.IH [OF this] obtain objs' ws' where
    "run_weighers mul weigh ws objs1 = Inr (objs', ws')" "map fst ws' = map fst ws" by blast
  then show ?case using one wb by simp
qed simp

lemma weighed_hosts_total:
  assumes "MetricsWeigher \<notin> fst ` set ws"
  shows "\<exists>weighed ws'. get_weighed_hosts cf spec store ws ks = Inr (weighed, ws') \<and> map fst ws' = map fst ws"
proof -
  have "\<exists>v. weigh_object cf spec w h = Inr v" if "w \<noteq> MetricsWeigher" for w h
    using that by (cases w) (simp_all add: weigh_object_def)
  then have ok: "\<exists>v. weigh_object cf spec w (store k) = Inr v" if "w \<in> fst ` set ws" for w k
    using assms that by metis
  obtain objs ws' where
    r: "run_weighers (weight_multiplier cf) (\<lambda>w k. weigh_object cf spec w (store k)) ws
      (map (\<lambda>k. (k, 0)) ks) = Inr (objs, ws')" and "map fst ws' = map fst ws"
    using run_weighers_total [of ws "map (\<lambda>k. (k, 0)) ks" "\<lambda>w k. weigh_object cf spec w (store k)", OF ok]
    by blast
  then show ?thesis by (cases "length ks \<le> 1") (simp_all add: get_weighed_hosts_def get_weighed_objects_def)
qed

definition has_room :: "host_state \<Rightarrow> int \<Rightarrow> nat \<Rightarrow> bool" where
  "has_room h mem n \<longleftrightarrow> mem \<le> total_usable_ram_mb h \<and> (\<exists>ratio. hs_ram_ratio h = Some ratio \<and>
     rat_of_int (total_usable_ram_mb h - free_ram_mb h + int n * mem) \<le> rat_of_int (total_usable_ram_mb h) * ratio)"

lemma has_room_ram: "0 \<le> mem \<Longrightarrow> has_room h mem (Suc n) \<Longrightarrow> spec_memory_mb spec = mem \<Longrightarrow>
    \<exists>h'. ram_passes False h spec = Inr (h', True)"
proof -
  assume a: "0 \<le> mem" "has_room h mem (Suc n)" "spec_memory_mb spec = mem"
  then obtain ratio where r: "hs_ram_ratio h = Some ratio" and le: "mem \<le> total_usable_ram_mb h" and
    lim: "rat_of_int (total_usable_ram_mb h - free_ram_mb h + int (Suc n) * mem) \<le> rat_of_int (total_usable_ram_mb h) * ratio"
    by (auto simp: has_room_def)
  have "mem \<le> int (Suc n) * mem" using a(1) by (simp add: algebra_simps)
  then have "rat_of_int (total_usable_ram_mb h - free_ram_mb h + mem) \<le> rat_of_int (total_usable_ram_mb h) * ratio"
    using lim by (meson add_left_mono of_int_le_iff order_trans)
  then show ?thesis using r le a(3) by (simp add: ram_passes_def ram_ratio_def Let_def algebra_simps)
qed

lemma has_room_less: "0 \<le> mem \<Longrightarrow> has_room h mem (Suc n) \<Longrightarrow> has_room h mem n"
proof -
  assume a: "0 \<le> mem" "has_room h mem (Suc n)"
  then obtain ratio where r: "hs_ram_ratio h = Some ratio" and
    lim: "rat_of_int (total_usable_ram_mb h - free_ram_mb h + int (Suc n) * mem) \<le> rat_of_int (total_usable_ram_mb h) * ratio"
    by (auto simp: has_room_def)
  have "total_usable_ram_mb h - free_ram_mb h + int n * mem \<le> total_usable_ram_mb h - free_ram_mb h + int (Suc n) * mem"
    using a(1) by (simp add: algebra_simps)
  then have "rat_of_int (total_usable_ram_mb h - free_ram_mb h + int n * mem) \<le> rat_of_int (total_usable_ram_mb h) * ratio"
    using lim by (meson of_int_le_iff order_trans)
  then show ?thesis using r a(2) by (auto simp: has_room_def)
qed

text \<open>With only the RAM filter, filtering never raises and keeps a host with room.\<close>

lemma ram_filter_total:
  assumes "\<forall>k \<in> set ks. hs_ram_ratio (store k) \<noteq> None"
  shows "\<exists>ks' store'. filter_all (host_passes cf (RamFilter False)) ks store spec = Inr (ks', store', spec)"
  using assms
proof (induction ks arbitrary: store)
  case (Cons k ks)
  have "\<exists>h b. ram_passes False (store k) spec = Inr (h, b)"
    using Cons.prems by (auto simp: ram_passes_def ram_ratio_def Let_def)
  then obtain h b where p: "ram_passes False (store k) spec = Inr (h, b)" by blast
  then have pp: "host_passes cf (RamFilter False) (store k) spec = Inr (h, spec, b)"
    by (simp add: keep_spec_def)
  have "host_core h = host_core (store k)" using p by (rule limit_filters_keep_core)
  then have "\<forall>x \<in> set ks. hs_ram_ratio ((store(k := h)) x) \<noteq> None"
    using Cons.prems host_coreD(3) [of h "store k"] by auto
  from Cons.IH [OF this] obtain ks' store' where
    "filter_all (host_passes cf (RamFilter False)) ks (store(k := h)) spec = Inr (ks', store', spec)" by blast
  then show ?case using pp by (simp del: host_passes.simps)
qed simp

definition plain_request :: "request_spec \<Rightarrow> bool" where
  "plain_request spec \<longleftrightarrow>
     spec_ignore_hosts spec = [] \<and> spec_force_hosts spec = [] \<and> spec_force_nodes spec = []"

lemma ram_filtered:
  assumes "plain_request spec" and "k \<in> set hosts" and "has_room (store k) (spec_memory_mb spec) (Suc n)"
    and "0 \<le> spec_memory_mb spec" and "\<forall>x \<in> set hosts. hs_ram_ratio (store x) \<noteq> None"
  shows "\<exists>hosts' store'. get_filtered_hosts cf [RamFilter False] num hosts store spec = Inr (hosts', store', spec)
    \<and> k \<in> set hosts' \<and> set hosts' \<subseteq> set hosts"
proof -
  obtain hosts' store' where one: "filter_all (host_passes cf (RamFilter False)) hosts store spec = Inr (hosts', store', spec)"
    using ram_filter_total [OF assms(5)] by blast
  obtain h where "ram_passes False (store k) spec = Inr (h, True)"
    using has_room_ram [OF assms(4,3) refl] by blast
  then have "accepts cf (RamFilter False) (store k) spec" by (simp add: accepts_def keep_spec_def)
  moreover have "hosts' = filter (\<lambda>k. accepts cf (RamFilter False) (store k) spec) hosts"
    using host_filters.filter_all_exact [OF _ one] by (simp add: not_numa_def accepts_locale)
  ultimately have "k \<in> set hosts'" "set hosts' \<subseteq> set hosts" using assms(2) by auto
  moreover have "get_filtered_hosts cf [RamFilter False] num hosts store spec = Inr (hosts', store', spec)"
    using one \<open>k \<in> set hosts'\<close> assms(1)
    by (auto simp: get_filtered_hosts_def plain_request_def run_filter_for_index_def simp del: host_passes.simps)
  ultimately show ?thesis by blast
qed

lemma place_with_room:
  assumes "plain_request (st_spec st)" and "k \<in> set hosts" and "0 \<le> spec_memory_mb (st_spec st)"
    and "has_room (st_store st k) (spec_memory_mb (st_spec st)) (Suc n)"
    and "\<forall>x \<in> set hosts. hs_ram_ratio (st_store st x) \<noteq> None" and "MetricsWeigher \<notin> fst ` set (st_weighers st)"
  shows "\<exists>hosts1 x st1. place_instance cf [RamFilter False] draw num hosts st = Inr (hosts1, Some x, st1) \<and>
    k \<in> set hosts1 \<and> set hosts1 \<subseteq> set hosts \<and> map fst (st_weighers st1) = map fst (st_weighers st)"
proof -
  obtain hosts1 store1 where
    f: "get_filtered_hosts cf [RamFilter False] num hosts (st_store st) (st_spec st) = Inr (hosts1, store1, st_spec st)"
    and k: "k \<in> set hosts1" "set hosts1 \<subseteq> set hosts"
    using ram_filtered [OF assms(1,2,4,3,5)] by blast
  obtain weighed ws where w: "get_weighed_hosts cf (st_spec st) store1 (st_weighers st) hosts1 = Inr (weighed, ws)"
    and ws: "map fst ws = map fst (st_weighers st)"
    using weighed_hosts_total [OF assms(6)] by blast
  have "hosts1 \<noteq> []" using k by auto
  then show ?thesis using f w ws k
    by (simp add: place_instance_def Let_def place_on_def split: prod.split)
qed

lemma schedule_loop_room:
  assumes "plain_request (st_spec st)" and "k \<in> set hosts" and "0 \<le> spec_memory_mb (st_spec st)"
    and "has_room (st_store st k) (spec_memory_mb (st_spec st)) left"
    and "\<forall>x \<in> set hosts. hs_ram_ratio (st_store st x) \<noteq> None" and "MetricsWeigher \<notin> fst ` set (st_weighers st)"
  shows "\<exists>selected st'. schedule_loop cf [RamFilter False] draw num left hosts st = Inr (selected, st') \<and>
    length selected = left"
  using assms
proof (induction left arbitrary: num hosts st)
  case (Suc left)
  from place_with_room [OF Suc.prems] obtain hosts1 x st1 where
    one: "place_instance cf [RamFilter False] draw num hosts st = Inr (hosts1, Some x, st1)" and
    k: "k \<in> set hosts1" "set hosts1 \<subseteq> set hosts" and
    ws: "map fst (st_weighers st1) = map fst (st_weighers st)" by blast
  note step = placed_step [OF one]
  note same = spec_coreD [OF step(2), unfolded add_to_group_keeps]
  have "has_room (st_store st1 k) (spec_memory_mb (st_spec st)) left"
  proof (cases "k = x")
    case True
    have "free_ram_mb (st_store st1 k) = free_ram_mb (st_store st k) - spec_memory_mb (st_spec st)"
      using step(6) [of k] True by simp
    then show ?thesis using Suc.prems(4) step(4,5) [of k] by (auto simp: has_room_def algebra_simps)
  next
    case False
    then show ?thesis using has_room_less [OF Suc.prems(3,4)] step(4-6) [of k] by (auto simp: has_room_def)
  qed
  moreover have "MetricsWeigher \<notin> fst ` set (st_weighers st1)" using Suc.prems(6) ws by (metis list.set_map)
  moreover have "\<forall>x \<in> set hosts1. hs_ram_ratio (st_store st1 x) \<noteq> None" using Suc.prems(5) k step(5) by auto
  ultimately have "\<exists>selected st'. schedule_loop cf [RamFilter False] draw (Suc num) left hosts1 st1 = Inr (selected, st') \<and>
    length selected = left"
    using Suc.prems(1,3) same k(1) by (intro Suc.IH) (simp_all add: plain_request_def)
  then show ?case using one by auto
qed simp

text \<open>With the RAM filter alone, if some host has room for all instances of the request at once,
  the request succeeds, wherever the weighers and the draws put the instances.\<close>

theorem enough_memory_suffices:
  assumes "plain_request (st_spec st)" and "0 \<le> spec_memory_mb (st_spec st)"
    and "k \<in> set hosts" and "has_room (st_store st k) (spec_memory_mb (st_spec st)) (nat (spec_num_instances (st_spec st)))"
    and "\<forall>x \<in> set hosts. hs_ram_ratio (st_store st x) \<noteq> None" and "MetricsWeigher \<notin> fst ` set (st_weighers st)"
  shows "\<exists>st' dests. select_destinations cf [RamFilter False] draw hosts st = (st', Inr dests)"
proof -
  obtain selected st' where "schedule cf [RamFilter False] draw hosts st = Inr (selected, st')"
    "length selected = nat (spec_num_instances (st_spec st))"
    using schedule_loop_room [OF assms(1,3,2,4,5,6), of cf draw 0] by (auto simp: schedule_def)
  then show ?thesis by (auto simp: select_destinations_def)
qed

section \<open>Examples\<close>

text \<open>Two hosts with 1024 MB each and a request for two instances of 512 MB.\<close>

definition example_state :: "server_group option \<Rightarrow> sched_state" where
  "example_state g =
     \<lparr>st_store = (\<lambda>k. plain_host k 1024), st_spec = (plain_spec 1 512 2)\<lparr>spec_group := g\<rparr>,
      st_weighers = [(RAMWeigher, (Some 0, None))]\<rparr>"

definition example_hosts :: "host_key list" where
  "example_hosts = [(''a'', ''n''), (''b'', ''n'')]"

lemmas example_simps =
  schedule_def place_instance_def get_filtered_hosts_def get_weighed_hosts_def get_weighed_objects_def
  add_weigher_def weigh_object_def note_weight_def normalize_def sorted_desc_def weight_multiplier_def
  draw_host_def host_subset_def place_on_def add_to_group_def consume_from_request_def
  locked_consume_from_request_def numa_fit_instance_to_host_def get_host_numa_usage_from_instance_def
  run_filter_for_index_def ram_passes_def ram_ratio_def keep_spec_def keep_host_def
  group_anti_affinity_passes_def group_policies_of_def group_hosts_of_def
  numa_usage_from_instances_def or_default_def
  example_state_def example_hosts_def plain_host_def plain_spec_def plain_conf_def new_host_state_def

lemma example_schedule:
  "\<exists>st'. schedule plain_conf [RamFilter False, ServerGroupAntiAffinityFilter] (\<lambda>_. 0) example_hosts
     (example_state (Some \<lparr>group_policies = [''anti-affinity''], group_hosts = [], group_members = []\<rparr>)) =
   Inr ([(''a'', ''n''), (''b'', ''n'')], st')"
  by (simp add: example_simps numeral_2_eq_2 Let_def)

lemma example_plain: "plain_request (st_spec (example_state g))"
  by (simp add: plain_request_def example_state_def plain_spec_def)

lemma example_room: "has_room (st_store (example_state g) k) 512 2"
proof -
  have "has_room (plain_host k 1024) 512 2"
    unfolding has_room_def by (intro conjI exI [of _ "3 / 2"]) (simp_all add: plain_host_def)
  then show ?thesis by (simp add: example_state_def)
qed

lemma example_fields:
  "spec_memory_mb (st_spec (example_state g)) = 512" "spec_num_instances (st_spec (example_state g)) = 2"
  "hs_ram_ratio (st_store (example_state g) k) = Some (3 / 2)"
  "MetricsWeigher \<notin> fst ` set (st_weighers (example_state g))" "(''a'', ''n'') \<in> set example_hosts"
  by (simp_all add: example_state_def plain_spec_def plain_host_def example_hosts_def)

theorem schedule_respects_memory_witness:
  "case schedule plain_conf [RamFilter False, ServerGroupAntiAffinityFilter] (\<lambda>_. 0) example_hosts
      (example_state (Some \<lparr>group_policies = [''anti-affinity''], group_hosts = [], group_members = []\<rparr>)) of
     Inl _ \<Rightarrow> False | Inr (selected, st') \<Rightarrow> free_ram_mb (st_store st' (''a'', ''n'')) = 512"
proof -
  let ?st = "example_state (Some \<lparr>group_policies = [''anti-affinity''], group_hosts = [], group_members = []\<rparr>)"
  obtain st' where r: "schedule plain_conf [RamFilter False, ServerGroupAntiAffinityFilter] (\<lambda>_. 0) example_hosts ?st =
      Inr ([(''a'', ''n''), (''b'', ''n'')], st')"
    using example_schedule by blast
  have "free_ram_mb (st_store st' (''a'', ''n'')) = 512"
    using schedule_respects_memory [OF r, of "(''a'', ''n'')"] example_plain
    by (simp add: plain_request_def example_state_def plain_spec_def plain_host_def)
  then show ?thesis unfolding r by simp
qed


theorem enough_memory_suffices_witness:
  "\<exists>st' dests. select_destinations plain_conf [RamFilter False] (\<lambda>_. 7) example_hosts (example_state None) =
     (st', Inr dests)"
  by (rule enough_memory_suffices [where k = "(''a'', ''n'')", OF example_plain])
    (simp_all add: example_fields example_room)

lemma example_succeeds:
  "\<exists>st' dests. select_destinations plain_conf [RamFilter False] (\<lambda>_. 7) example_hosts (example_state None) =
     (st', Inr dests)"
proof -
  have "\<exists>selected st'. schedule plain_conf [RamFilter False] (\<lambda>_. 7) example_hosts (example_state None) =
      Inr (selected, st') \<and> length selected = 2"
    using schedule_loop_room [OF example_plain example_fields(5), of None 2 plain_conf "\<lambda>_. 7" 0]
    by (simp add: schedule_def example_fields example_room)
  then show ?thesis by (auto simp: select_destinations_def example_fields)
qed


end
