(* ===== verification/ComputeStats.thy ===== *)
theory ComputeStats
  imports HostState
begin

text \<open>
  The workload counters of a compute host (nova/compute/stats.py): a dictionary of counters keyed by
  texts built from the states of the instances, and the last known state of each instance. The
  counters refine the plain collection of instances; the scheduler reads two of them.
\<close>

section \<open>State\<close>

record inst_state =
  vm_state :: string
  task_state :: "string option"
  os_type :: "string option"
  project_id :: string

record stats =
  counters :: "(string, int) dict"
  inst_states :: "(string, inst_state) dict"

definition new_stats :: stats where
  "new_stats = \<lparr>counters = [], inst_states = []\<rparr>"

definition clear_stats :: "stats \<Rightarrow> stats" where
  "clear_stats s = s\<lparr>counters := [], inst_states := []\<rparr>"

text \<open>\<open>None\<close>, a dictionary, or a value of another type.\<close>

datatype digest = NoDigest | DictDigest "(string, int) dict" | OtherDigest

definition digest_stats :: "digest \<Rightarrow> stats \<Rightarrow> stats result" where
  "digest_stats d s =
     (case d of
        NoDigest \<Rightarrow> Inr s
      | DictDigest kv \<Rightarrow> Inr (s\<lparr>counters := fold (\<lambda>(k, v). AList.update k v) kv (counters s)\<rparr>)
      | OtherDigest \<Rightarrow> Inl ValueError)"

section \<open>Counting\<close>

definition text_of :: "string option \<Rightarrow> string" where
  "text_of x = (case x of None \<Rightarrow> ''None'' | Some s \<Rightarrow> s)"

definition vm_key :: "string \<Rightarrow> string" where "vm_key s = ''num_vm_'' @ s"
definition task_key :: "string option \<Rightarrow> string" where "task_key t = ''num_task_'' @ text_of t"
definition os_key :: "string option \<Rightarrow> string" where "os_key t = ''num_os_type_'' @ text_of t"
definition proj_key :: "string \<Rightarrow> string" where "proj_key p = ''num_proj_'' @ p"

definition counter :: "stats \<Rightarrow> string \<Rightarrow> int" where
  "counter s k = dict_get (counters s) k 0"

definition decrement :: "string \<Rightarrow> stats \<Rightarrow> stats" where
  "decrement k s = s\<lparr>counters := AList.update k (counter s k - 1) (counters s)\<rparr>"

definition increment :: "string \<Rightarrow> stats \<Rightarrow> stats" where
  "increment k s = s\<lparr>counters := AList.update k (counter s k + 1) (counters s)\<rparr>"

definition state_keys :: "inst_state \<Rightarrow> string list" where
  "state_keys i = [vm_key (vm_state i), task_key (task_state i), os_key (os_type i), proj_key (project_id i)]"

definition BUILDING :: string where "BUILDING = ''building''"
definition DELETED_STATE :: string where "DELETED_STATE = ''deleted''"

definition io_tasks :: "string list" where
  "io_tasks = [''resize_migrating'', ''rebuilding'', ''resize_prep'', ''image_snapshot'', ''image_backup'',
     ''rescuing'', ''unshelving'']"

definition io_workload :: "stats \<Rightarrow> int" where
  "io_workload s = counter s (vm_key BUILDING) + sum_list (map (\<lambda>t. counter s (task_key (Some t))) io_tasks)"

definition calculate_workload :: "stats \<Rightarrow> int" where
  "calculate_workload s =
     sum_list (map snd (filter (\<lambda>(k, v). startswith k ''num_task'' \<and> \<not> endswith k ''None'') (counters s)))"

definition stats_num_instances :: "stats \<Rightarrow> int" where
  "stats_num_instances s = counter s ''num_instances''"

definition num_instances_for_project :: "string \<Rightarrow> stats \<Rightarrow> int" where
  "num_instances_for_project p s = counter s (proj_key p)"

definition num_os_type :: "string option \<Rightarrow> stats \<Rightarrow> int" where
  "num_os_type t s = counter s (os_key t)"

text \<open>The old state is taken back, the new one stored and counted unless the instance is gone.\<close>

definition update_stats_for_instance :: "string \<Rightarrow> inst_state \<Rightarrow> stats \<Rightarrow> stats" where
  "update_stats_for_instance uuid inst s =
     (let s1 = (case map_of (inst_states s) uuid of
                  Some old \<Rightarrow> fold decrement (state_keys old) s
                | None \<Rightarrow> increment ''num_instances'' s);
          s2 = s1\<lparr>inst_states := AList.update uuid inst (inst_states s1)\<rparr>;
          s3 = (if vm_state inst = DELETED_STATE
                then (decrement ''num_instances'' s2)\<lparr>inst_states := AList.delete uuid (inst_states s2)\<rparr>
                else fold increment (state_keys inst) s2)
      in s3\<lparr>counters := AList.update ''io_workload'' (io_workload s3) (counters s3)\<rparr>)"

section \<open>The abstract view\<close>

text \<open>
  The specification: the instances that are not deleted, by uuid. An update replaces or removes one
  entry; every counter is a number of entries.
\<close>

definition abs_update :: "string \<Rightarrow> inst_state \<Rightarrow> (string \<rightharpoonup> inst_state) \<Rightarrow> (string \<rightharpoonup> inst_state)" where
  "abs_update uuid inst m = m(uuid := if vm_state inst = DELETED_STATE then None else Some inst)"

definition number :: "(inst_state \<Rightarrow> bool) \<Rightarrow> (string \<rightharpoonup> inst_state) \<Rightarrow> nat" where
  "number P m = card {u. \<exists>i. m u = Some i \<and> P i}"

definition all_keys :: "inst_state \<Rightarrow> string list" where
  "all_keys i = ''num_instances'' # state_keys i"

text \<open>What a key should count: how often the instances contribute it.\<close>

definition expected :: "string \<Rightarrow> (string, inst_state) dict \<Rightarrow> int" where
  "expected k d = sum_list (map (\<lambda>(u, i). int (count_list (all_keys i) k)) d)"

definition stats_inv :: "stats \<Rightarrow> bool" where
  "stats_inv s \<longleftrightarrow> wf_dict (counters s) \<and> wf_dict (inst_states s) \<and>
     (\<forall>k. k \<noteq> ''io_workload'' \<longrightarrow> counter s k = expected k (inst_states s)) \<and>
     (\<forall>(u, i) \<in> set (inst_states s). set (all_keys i) \<subseteq> set (keys (counters s)))"

named_theorems count_simps

lemma counter_increment [count_simps]: "counter (increment k s) j = counter s j + (if j = k then 1 else 0)"
  by (simp add: counter_def increment_def)

lemma counter_decrement [count_simps]: "counter (decrement k s) j = counter s j - (if j = k then 1 else 0)"
  by (simp add: counter_def decrement_def)

lemma counter_fold_increment [count_simps]:
  "counter (fold increment ks s) j = counter s j + int (count_list ks j)"
  by (induction ks arbitrary: s) (auto simp: count_simps)

lemma counter_fold_decrement [count_simps]:
  "counter (fold decrement ks s) j = counter s j - int (count_list ks j)"
  by (induction ks arbitrary: s) (auto simp: count_simps)

lemma counter_states [count_simps]: "counter (s\<lparr>inst_states := d\<rparr>) j = counter s j"
  by (simp add: counter_def)

lemma states_fold [count_simps]:
  "inst_states (fold increment ks s) = inst_states s" "inst_states (fold decrement ks s) = inst_states s"
  "inst_states (increment k s) = inst_states s" "inst_states (decrement k s) = inst_states s"
  by (induction ks arbitrary: s) (simp_all add: increment_def decrement_def)

lemma wf_counters_fold [count_simps]:
  "wf_dict (counters s) \<Longrightarrow> wf_dict (counters (fold increment ks s))"
  "wf_dict (counters s) \<Longrightarrow> wf_dict (counters (fold decrement ks s))"
  "wf_dict (counters s) \<Longrightarrow> wf_dict (counters (increment k s))"
  "wf_dict (counters s) \<Longrightarrow> wf_dict (counters (decrement k s))"
  by (induction ks arbitrary: s) (simp_all add: increment_def decrement_def)

lemma keys_step [count_simps]:
  "set (keys (counters (increment k s))) = insert k (set (keys (counters s)))"
  "set (keys (counters (decrement k s))) = insert k (set (keys (counters s)))"
  by (auto simp: increment_def decrement_def update_keys)

lemma keys_fold [count_simps]:
  "set (keys (counters (fold increment ks s))) = set ks \<union> set (keys (counters s))"
  "set (keys (counters (fold decrement ks s))) = set ks \<union> set (keys (counters s))"
  by (induction ks arbitrary: s) (simp_all only: fold_simps count_simps list.set, auto)

lemma counters_states [count_simps]: "counters (s\<lparr>inst_states := d\<rparr>) = counters s"
  by simp

lemma expected_update:
  "wf_dict d \<Longrightarrow> expected k (AList.update u i d) =
     expected k d + int (count_list (all_keys i) k) -
     (case map_of d u of None \<Rightarrow> 0 | Some old \<Rightarrow> int (count_list (all_keys old) k))"
proof (induction d)
  case (Cons x d)
  obtain v j where x: "x = (v, j)" by (cases x)
  have "u = v \<Longrightarrow> map_of d u = None" using Cons.prems x by (simp add: map_of_eq_None_iff)
  then show ?case using Cons x by (auto simp: expected_def split: option.splits)
qed (simp add: expected_def)

lemma expected_delete:
  "wf_dict d \<Longrightarrow> expected k (AList.delete u d) =
     expected k d - (case map_of d u of None \<Rightarrow> 0 | Some old \<Rightarrow> int (count_list (all_keys old) k))"
proof (induction d)
  case (Cons x d)
  obtain v j where x: "x = (v, j)" by (cases x)
  have "u = v \<Longrightarrow> map_of d u = None" using Cons.prems x by (simp add: map_of_eq_None_iff)
  moreover have "u = v \<Longrightarrow> AList.delete u d = d" using Cons.prems x
    by (intro delete_id) simp
  ultimately show ?case using Cons x by (auto simp: expected_def split: option.splits)
qed (simp add: expected_def)

text \<open>The four keys of an instance are of different shapes.\<close>

lemma key_shapes [count_simps]:
  "vm_key a = vm_key b \<longleftrightarrow> a = b" "proj_key a = proj_key b \<longleftrightarrow> a = b"
  "task_key t = task_key t' \<longleftrightarrow> text_of t = text_of t'" "os_key t = os_key t' \<longleftrightarrow> text_of t = text_of t'"
  "vm_key a \<noteq> task_key t" "vm_key a \<noteq> os_key t" "vm_key a \<noteq> proj_key b"
  "task_key t \<noteq> vm_key a" "task_key t \<noteq> os_key t'" "task_key t \<noteq> proj_key b"
  "os_key t \<noteq> vm_key a" "os_key t \<noteq> task_key t'" "os_key t \<noteq> proj_key b"
  "proj_key b \<noteq> vm_key a" "proj_key b \<noteq> task_key t" "proj_key b \<noteq> os_key t"
  "''num_instances'' \<noteq> vm_key a" "''num_instances'' \<noteq> task_key t" "''num_instances'' \<noteq> os_key t"
  "''num_instances'' \<noteq> proj_key b" "vm_key a \<noteq> ''num_instances''" "task_key t \<noteq> ''num_instances''"
  "os_key t \<noteq> ''num_instances''" "proj_key b \<noteq> ''num_instances''"
  "''io_workload'' \<noteq> vm_key a" "''io_workload'' \<noteq> task_key t" "''io_workload'' \<noteq> os_key t"
  "''io_workload'' \<noteq> proj_key b" "vm_key a \<noteq> ''io_workload''" "task_key t \<noteq> ''io_workload''"
  "os_key t \<noteq> ''io_workload''" "proj_key b \<noteq> ''io_workload''"
  by (simp_all add: vm_key_def task_key_def os_key_def proj_key_def)

lemma stats_invI:
  assumes "wf_dict (counters s)" "wf_dict (inst_states s)"
    and "\<And>k. k \<noteq> ''io_workload'' \<Longrightarrow> counter s k = expected k (inst_states s)"
    and "\<And>u i. (u, i) \<in> set (inst_states s) \<Longrightarrow> set (all_keys i) \<subseteq> set (keys (counters s))"
  shows "stats_inv s"
  using assms unfolding stats_inv_def by blast

lemma stats_invD:
  assumes "stats_inv s"
  shows "wf_dict (counters s)" "wf_dict (inst_states s)"
    and "k \<noteq> ''io_workload'' \<Longrightarrow> counter s k = expected k (inst_states s)"
    and "(u, i) \<in> set (inst_states s) \<Longrightarrow> set (all_keys i) \<subseteq> set (keys (counters s))"
  using assms unfolding stats_inv_def by blast+

lemma in_update: "(u, i) \<in> set (AList.update v j d) \<Longrightarrow> (u, i) = (v, j) \<or> (u, i) \<in> set d"
  by (induction d) (auto split: if_splits)

lemma in_delete: "(u, i) \<in> set (AList.delete v d) \<Longrightarrow> (u, i) \<in> set d"
  by (simp add: AList.delete_eq)

lemma update_stats_inv:
  assumes inv: "stats_inv s"
  shows "stats_inv (update_stats_for_instance uuid inst s)"
    and "map_of (inst_states (update_stats_for_instance uuid inst s)) = abs_update uuid inst (map_of (inst_states s))"
proof -
  define s1 where "s1 = (case map_of (inst_states s) uuid of
      Some old \<Rightarrow> fold decrement (state_keys old) s | None \<Rightarrow> increment ''num_instances'' s)"
  define s2 where "s2 = s1\<lparr>inst_states := AList.update uuid inst (inst_states s1)\<rparr>"
  define s3 where "s3 = (if vm_state inst = DELETED_STATE
      then (decrement ''num_instances'' s2)\<lparr>inst_states := AList.delete uuid (inst_states s2)\<rparr>
      else fold increment (state_keys inst) s2)"
  have upd: "update_stats_for_instance uuid inst s =
      s3\<lparr>counters := AList.update ''io_workload'' (io_workload s3) (counters s3)\<rparr>"
    unfolding update_stats_for_instance_def Let_def s1_def s2_def s3_def ..
  note D = stats_invD [OF inv]
  have st1: "inst_states s1 = inst_states s" by (simp add: s1_def count_simps split: option.split)
  have st3: "inst_states s3 = (if vm_state inst = DELETED_STATE
      then AList.delete uuid (AList.update uuid inst (inst_states s)) else AList.update uuid inst (inst_states s))"
    by (simp add: s3_def s2_def st1 count_simps)
  have wf1: "wf_dict (counters s1)" using D(1) by (simp add: s1_def count_simps split: option.split)
  then have wf3: "wf_dict (counters s3)" by (simp add: s3_def s2_def count_simps)
  have sub1: "set (keys (counters s)) \<subseteq> set (keys (counters s1))"
    by (auto simp only: s1_def count_simps split: option.split)
  have sub3: "set (keys (counters s1)) \<subseteq> set (keys (counters s3))"
    unfolding s3_def s2_def by (cases "vm_state inst = DELETED_STATE") (auto simp only: count_simps simp_thms if_True if_False)
  have new: "''num_instances'' \<in> set (keys (counters s1))"
  proof (cases "map_of (inst_states s) uuid")
    case None
    then show ?thesis by (simp only: s1_def option.case count_simps) simp
  next
    case (Some old)
    then have "''num_instances'' \<in> set (keys (counters s))"
      using D(4) [of uuid old] map_of_SomeD [of "inst_states s"] by (auto simp: all_keys_def)
    then show ?thesis using sub1 by blast
  qed
  have c1: "counter s1 k = (case map_of (inst_states s) uuid of
      None \<Rightarrow> counter s k + (if k = ''num_instances'' then 1 else 0)
    | Some old \<Rightarrow> counter s k - int (count_list (state_keys old) k))" for k
    by (simp add: s1_def count_simps split: option.split)
  have c3: "counter s3 k = (if vm_state inst = DELETED_STATE
      then counter s1 k - (if k = ''num_instances'' then 1 else 0)
      else counter s1 k + int (count_list (state_keys inst) k))" for k
    by (simp add: s3_def s2_def count_simps)
  have cnt: "counter s3 k = expected k (inst_states s3)" if "k \<noteq> ''io_workload''" for k
    using D(3) [OF that] D(2)
    by (cases "map_of (inst_states s) uuid")
      (auto simp: c3 c1 st3 expected_update expected_delete all_keys_def)
  let ?t = "s3\<lparr>counters := AList.update ''io_workload'' (io_workload s3) (counters s3)\<rparr>"
  have kt: "set (keys (counters s3)) \<subseteq> set (keys (counters ?t))" by (auto simp: update_keys)
  show "stats_inv (update_stats_for_instance uuid inst s)" unfolding upd
  proof (rule stats_invI)
    show "wf_dict (counters ?t)" using wf3 by simp
    show "wf_dict (inst_states ?t)" using D(2) by (simp add: st3)
    fix k :: string assume "k \<noteq> ''io_workload''"
    then show "counter ?t k = expected k (inst_states ?t)" using cnt by (simp add: counter_def)
  next
    fix u i assume "(u, i) \<in> set (inst_states ?t)"
    then have "(u, i) \<in> set (inst_states s) \<or> (i = inst \<and> vm_state inst \<noteq> DELETED_STATE)"
      using in_update [of u i uuid inst "inst_states s"] in_delete [of u i uuid "inst_states s"]
      by (auto simp: st3 AList.delete_update_same split: if_splits)
    then have "set (all_keys i) \<subseteq> set (keys (counters s3))"
    proof
      assume "(u, i) \<in> set (inst_states s)"
      then show ?thesis using D(4) sub1 sub3 by blast
    next
      assume i: "i = inst \<and> vm_state inst \<noteq> DELETED_STATE"
      then have "set (state_keys i) \<subseteq> set (keys (counters s3))"
        unfolding s3_def by (simp only: if_False count_simps) simp
      then show ?thesis using new sub3 by (auto simp: all_keys_def)
    qed
    then show "set (all_keys i) \<subseteq> set (keys (counters ?t))" using kt by blast
  qed
  show "map_of (inst_states (update_stats_for_instance uuid inst s)) = abs_update uuid inst (map_of (inst_states s))"
    unfolding upd by (auto simp: st3 abs_update_def fun_eq_iff)
qed

lemma new_stats_inv: "stats_inv new_stats"
  by (simp add: stats_inv_def new_stats_def counter_def expected_def dict_get_def)

definition run_updates :: "(string \<times> inst_state) list \<Rightarrow> stats" where
  "run_updates us = fold (\<lambda>(u, i). update_stats_for_instance u i) us new_stats"

definition abs_run :: "(string \<times> inst_state) list \<Rightarrow> (string \<rightharpoonup> inst_state)" where
  "abs_run us = fold (\<lambda>(u, i). abs_update u i) us Map.empty"

lemma run_updates_inv: "stats_inv (run_updates us) \<and> map_of (inst_states (run_updates us)) = abs_run us"
proof (induction us rule: rev_induct)
  case Nil
  show ?case by (simp add: run_updates_def abs_run_def new_stats_inv) (simp add: new_stats_def)
next
  case (snoc x us)
  then show ?case
    by (cases x) (simp add: run_updates_def abs_run_def update_stats_inv)
qed

lemma number_map_of: "wf_dict d \<Longrightarrow> number P (map_of d) = length (filter (\<lambda>(u, i). P i) d)"
proof -
  assume d: "wf_dict d"
  then have "{u. \<exists>i. map_of d u = Some i \<and> P i} = set (map fst (filter (\<lambda>(u, i). P i) d))"
    by (force simp: image_iff)
  moreover have "distinct (map fst (filter (\<lambda>(u, i). P i) d))"
    using d by (simp add: distinct_map_filter)
  ultimately show ?thesis
    unfolding number_def by (simp only: distinct_card) simp
qed

lemma expected_number:
  assumes "\<And>i. int (count_list (all_keys i) k) = (if P i then 1 else 0)"
  shows "expected k d = int (length (filter (\<lambda>(u, i). P i) d))"
  by (induction d) (auto simp: expected_def assms)

lemma expected_numbers:
  "expected ''num_instances'' d = int (length (filter (\<lambda>(u, i). True) d))"
  "expected (vm_key v) d = int (length (filter (\<lambda>(u, i). vm_state i = v) d))"
  "expected (task_key t) d = int (length (filter (\<lambda>(u, i). text_of (task_state i) = text_of t) d))"
  "expected (os_key t) d = int (length (filter (\<lambda>(u, i). text_of (os_type i) = text_of t) d))"
  "expected (proj_key p) d = int (length (filter (\<lambda>(u, i). project_id i = p) d))"
  by (intro expected_number; auto simp: all_keys_def state_keys_def count_simps)+

lemma stats_counters:
  assumes "stats_inv s" and "map_of (inst_states s) = m"
  shows "stats_num_instances s = int (number (\<lambda>_. True) m)"
    and "counter s (vm_key v) = int (number (\<lambda>i. vm_state i = v) m)"
    and "counter s (task_key t) = int (number (\<lambda>i. text_of (task_state i) = text_of t) m)"
    and "counter s (os_key t) = int (number (\<lambda>i. text_of (os_type i) = text_of t) m)"
    and "counter s (proj_key p) = int (number (\<lambda>i. project_id i = p) m)"
  unfolding stats_num_instances_def assms(2) [symmetric]
  using stats_invD(2,3) [OF assms(1)]
  by (simp_all add: count_simps number_map_of expected_numbers)

text \<open>The workload: the counters of the tasks other than \<open>None\<close> together.\<close>

definition busy_key :: "string \<Rightarrow> bool" where
  "busy_key k \<longleftrightarrow> startswith k ''num_task'' \<and> \<not> endswith k ''None''"

lemma busy_keys:
  "\<not> busy_key (vm_key v)" "\<not> busy_key (os_key t)" "\<not> busy_key (proj_key p)"
  "\<not> busy_key ''num_instances''" "\<not> busy_key ''io_workload''"
  "busy_key (task_key t) \<longleftrightarrow> \<not> endswith (task_key t) ''None''"
  by (simp_all add: busy_key_def startswith_def vm_key_def os_key_def proj_key_def task_key_def)

lemma sum_indicator:
  "distinct ks \<Longrightarrow> sum_list (map (\<lambda>k. if y = k then 1 else 0) (filter P ks)) =
     (if y \<in> set ks \<and> P y then 1 else (0::int))"
  by (induction ks) auto

lemma sum_list_filter_expected:
  assumes "distinct ks" and "\<forall>(u, i) \<in> set d. set (all_keys i) \<subseteq> set ks"
  shows "sum_list (map (\<lambda>k. expected k d) (filter P ks)) =
    sum_list (map (\<lambda>(u, i). int (length (filter P (all_keys i)))) d)"
  using assms(2)
proof (induction d)
  case (Cons x d)
  obtain u i where x: "x = (u, i)" by (cases x)
  have each: "sum_list (map (\<lambda>k. int (count_list xs k)) (filter P ks)) = int (length (filter P xs))"
    if "set xs \<subseteq> set ks" for xs
    using that
  proof (induction xs)
    case (Cons y ys)
    have "sum_list (map (\<lambda>k. int (count_list (y # ys) k)) (filter P ks)) =
        sum_list (map (\<lambda>k. int (count_list ys k)) (filter P ks)) +
        sum_list (map (\<lambda>k. if y = k then 1 else 0) (filter P ks))"
      by (simp add: sum_list_addf [symmetric] cong: map_cong) (rule arg_cong [where f = sum_list], auto)
    then show ?case using Cons sum_indicator [OF assms(1), of y P] by simp
  qed simp
  show ?case using Cons x each [of "all_keys i"] by (simp add: expected_def sum_list_addf)
qed (simp add: expected_def)

lemma workload_number:
  assumes s: "stats_inv s"
  shows "calculate_workload s =
    int (number (\<lambda>i. \<not> endswith (task_key (task_state i)) ''None'') (map_of (inst_states s)))"
proof -
  note D = stats_invD [OF s]
  have busy_total: "sum_list (map (\<lambda>(u, i). int (length (filter busy_key (all_keys i)))) d) =
      int (length (filter (\<lambda>(u, i). busy_key (task_key (task_state i))) d))" for d
    by (induction d) (auto simp: all_keys_def state_keys_def busy_keys)
  have val: "n = counter s k" if "(k, n) \<in> set (counters s)" for k n
    using D(1) that by (simp add: counter_def dict_get_def)
  have "map snd (filter (\<lambda>(k, v). busy_key k) (counters s)) =
      map (\<lambda>k. counter s k) (filter busy_key (keys (counters s)))"
    by (simp add: filter_map o_def) (rule map_cong, auto simp: val case_prod_unfold)
  also have "\<dots> = map (\<lambda>k. expected k (inst_states s)) (filter busy_key (keys (counters s)))"
    by (intro map_cong refl D(3)) (use busy_keys(5) in auto)
  finally have "calculate_workload s =
      sum_list (map (\<lambda>(u, i). int (length (filter busy_key (all_keys i)))) (inst_states s))"
    using sum_list_filter_expected [of "keys (counters s)" "inst_states s" busy_key] D(1,4)
    by (auto simp: calculate_workload_def busy_key_def [symmetric])
  also have "\<dots> = int (length (filter (\<lambda>(u, i). busy_key (task_key (task_state i))) (inst_states s)))"
    by (rule busy_total)
  finally show ?thesis using D(2) by (simp add: number_map_of busy_keys)
qed

lemma io_workload_number:
  assumes "stats_inv s" and "map_of (inst_states s) = m"
  shows "io_workload s = int (number (\<lambda>i. vm_state i = BUILDING) m) +
    sum_list (map (\<lambda>t. int (number (\<lambda>i. text_of (task_state i) = t) m)) io_tasks)"
  using stats_counters(3) [OF assms, of "Some _"]
  by (simp add: io_workload_def stats_counters(2) [OF assms] text_of_def)

section \<open>Refinement\<close>

text \<open>C24: Whatever sequence of instance updates the counters have seen, the remembered instances are
  exactly those the specification keeps (the last state of each instance that is not deleted), and
  every reading of the counters is a number of them: the number of instances, of a project's
  instances, of an operating system type, the I/O workload (building instances and those in one of
  the seven heavy tasks) and the workload (instances whose task is not printed as None).\<close>

theorem stats_refine_instances:
  "(let s = run_updates us; m = abs_run us in
      map_of (inst_states s) = m \<and>
      stats_num_instances s = int (number (\<lambda>_. True) m) \<and>
      num_instances_for_project p s = int (number (\<lambda>i. project_id i = p) m) \<and>
      num_os_type t s = int (number (\<lambda>i. text_of (os_type i) = text_of t) m) \<and>
      io_workload s = int (number (\<lambda>i. vm_state i = BUILDING) m) +
        sum_list (map (\<lambda>x. int (number (\<lambda>i. text_of (task_state i) = x) m)) io_tasks) \<and>
      calculate_workload s =
        int (number (\<lambda>i. \<not> endswith (task_key (task_state i)) ''None'') m))"
  using run_updates_inv [of us] stats_counters [of "run_updates us" "abs_run us"]
    io_workload_number [of "run_updates us" "abs_run us"] workload_number [of "run_updates us"]
  by (simp add: Let_def num_instances_for_project_def num_os_type_def)

end
