(* ===== verification/ResourceTracker.thy ===== *)
theory ResourceTracker
  imports ComputeStats PciTracker
begin

text \<open>
  The resource tracker of a compute node (nova/compute/resource_tracker.py) and the claims that guard
  it (nova/compute/claims.py): what the guests of the node use, counted when they arrive and leave,
  recomputed by a periodic audit and published for the scheduler. What comes from the virtualisation
  driver and the database is an argument; no plug-ins for extra resources are configured. Every
  operation runs under one lock and is one step. Where an exception other than a refused claim ends
  an operation, its partial changes are not recorded.
\<close>

section \<open>State\<close>

record tracked_node = compute_node +
  cn_memory_mb_used :: int
  cn_running_vms :: int
  cn_current_workload :: int

text \<open>The part of an instance, a flavor or a dictionary that counts as usage.\<close>

record usage =
  u_memory_mb :: int
  u_root_gb :: int
  u_ephemeral_gb :: int
  u_vcpus :: int
  u_numa :: "inst_cell list option"

record inst =
  i_uuid :: string
  i_state :: inst_state
  i_usage :: usage
  i_host :: "string option"
  i_node :: "string option"
  i_launched_on :: "string option"
  i_flavor :: flavor
  i_old_flavor :: "flavor option"
  i_new_flavor :: "flavor option"
  i_migration_numa :: "(inst_cell list option \<times> inst_cell list option) option"

record migration =
  m_uuid :: string
  m_dest_compute :: string
  m_dest_node :: string
  m_source_compute :: "string option"
  m_source_node :: "string option"
  m_old_type :: int
  m_new_type :: int
  m_type :: string
  m_updated_at :: int

text \<open>The node's configuration, and what the code asks the driver and the database for.\<close>

record rt_conf =
  rc_host :: string
  rc_node :: string
  rc_reserved_memory_mb :: int
  rc_reserved_disk_mb :: int
  rc_ram_ratio :: rat
  rc_cpu_ratio :: rat
  rc_overhead :: "usage \<Rightarrow> int"
  rc_whitelist :: "devspec list"
  rc_order :: "int set \<Rightarrow> int list"
  rc_requests :: "string \<Rightarrow> pci_request list"

record tracker =
  rt_compute :: "tracked_node option"
  rt_old :: "tracked_node option"
  rt_stats :: stats
  rt_instances :: "(string, inst) dict"
  rt_migrations :: "(string, migration \<times> flavor) dict"
  rt_pci :: "pci_tracker option"

definition disabled :: "tracker \<Rightarrow> bool" where
  "disabled rt \<longleftrightarrow> rt_compute rt = None"

text \<open>The driver's estimate does not look at the NUMA topology.\<close>

definition overhead :: "rt_conf \<Rightarrow> usage \<Rightarrow> int" where
  "overhead cf u = rc_overhead cf (u\<lparr>u_numa := None\<rparr>)"

definition flavor_usage :: "flavor \<Rightarrow> inst_cell list option \<Rightarrow> usage" where
  "flavor_usage f numa =
     \<lparr>u_memory_mb = flavor_memory_mb f, u_root_gb = flavor_root_gb f, u_ephemeral_gb = flavor_ephemeral_gb f,
      u_vcpus = flavor_vcpus f, u_numa = numa\<rparr>"

section \<open>Claims\<close>

text \<open>True when the resource is refused; without a limit it never is.\<close>

definition test_resource :: "rat option \<Rightarrow> int \<Rightarrow> int \<Rightarrow> bool" where
  "test_resource limit used requested =
     (case limit of None \<Rightarrow> False | Some l \<Rightarrow> rat_of_int requested > l - rat_of_int used)"

definition claim_memory :: "rt_conf \<Rightarrow> usage \<Rightarrow> int" where
  "claim_memory cf u = u_memory_mb u + overhead cf u"

definition claim_disk :: "usage \<Rightarrow> int" where
  "claim_disk u = u_root_gb u + u_ephemeral_gb u"

definition test_numa_topology ::
    "rt_conf \<Rightarrow> tracked_node \<Rightarrow> inst_cell list option \<Rightarrow> numa_limits option \<Rightarrow> pci_request list \<Rightarrow>
     pci_tracker option \<Rightarrow> (bool \<times> inst_cell list option) result" where
  "test_numa_topology cf node requested nl reqs pci =
     (if cn_numa_topology node = None then Inr (False, None)
      else if reqs \<noteq> [] \<and> pci = None then Inl AttributeError
      else bind (numa_fit_instance_to_host (rc_order cf) (cn_numa_topology node) requested nl reqs
                  (if reqs = [] then None else map_option trk_pools pci)) (\<lambda>(cells, placed).
        Inr (if nonempty requested \<and> \<not> placed then (True, None)
             else (False, if placed then cells else None))))"

definition test_pci ::
    "rt_conf \<Rightarrow> string \<Rightarrow> inst_cell list option \<Rightarrow> pci_tracker option \<Rightarrow> (pci_tracker option \<times> bool) result" where
  "test_pci cf uuid numa pci =
     (if rc_requests cf uuid = [] then Inr (pci, False)
      else case pci of
             None \<Rightarrow> Inl AttributeError
           | Some t \<Rightarrow>
               bind (claim_instance (rc_whitelist cf) (rc_requests cf uuid) (map icell_id (or_default numa [])) uuid t)
                 (\<lambda>(t', devs). Inr (Some t', devs = [])))"

text \<open>
  All five tests are made before any is looked at. The PCI tracker afterwards, and the topology that
  was claimed or the refusal.
\<close>

definition claim_test ::
    "rt_conf \<Rightarrow> host_limits \<Rightarrow> tracked_node \<Rightarrow> string \<Rightarrow> usage \<Rightarrow> pci_tracker option \<Rightarrow>
     pci_tracker option \<times> inst_cell list option result" where
  "claim_test cf lims node uuid u pci =
     (let no_memory = test_resource (lim_memory_mb lims) (cn_memory_mb_used node) (claim_memory cf u);
          no_disk = test_resource (lim_disk_gb lims) (cn_local_gb_used node) (claim_disk u);
          no_vcpus = test_resource (lim_vcpu lims) (cn_vcpus_used node) (u_vcpus u)
      in case test_numa_topology cf node (u_numa u) (lim_numa_topology lims) (rc_requests cf uuid) pci of
           Inl e \<Rightarrow> (pci, Inl e)
         | Inr (no_numa, claimed) \<Rightarrow>
             (case test_pci cf uuid (u_numa u) pci of
                Inl e \<Rightarrow> (pci, Inl e)
              | Inr (pci', no_pci) \<Rightarrow>
                  (pci', if no_memory \<or> no_disk \<or> no_vcpus \<or> no_numa \<or> no_pci
                         then Inl ComputeResourcesUnavailable else Inr claimed)))"

text \<open>The claim of an incoming move asks the pools only, and takes what the new flavor needs.\<close>

definition move_claim_test ::
    "rt_conf \<Rightarrow> host_limits \<Rightarrow> tracked_node \<Rightarrow> string \<Rightarrow> flavor \<Rightarrow> image_props \<Rightarrow> pci_request list \<Rightarrow>
     pci_tracker option \<Rightarrow> inst_cell list option result" where
  "move_claim_test cf lims node uuid f props new_requests pci =
     (let u = flavor_usage f None;
          no_memory = test_resource (lim_memory_mb lims) (cn_memory_mb_used node) (claim_memory cf u);
          no_disk = test_resource (lim_disk_gb lims) (cn_local_gb_used node) (claim_disk u);
          no_vcpus = test_resource (lim_vcpu lims) (cn_vcpus_used node) (u_vcpus u)
      in bind (numa_get_constraints (rc_order cf) f props) (\<lambda>requested.
         bind (test_numa_topology cf node requested (lim_numa_topology lims) (rc_requests cf uuid) pci)
           (\<lambda>(no_numa, claimed).
         bind (if new_requests = [] then Inr False
               else case pci of
                      None \<Rightarrow> Inl AttributeError
                    | Some t \<Rightarrow> Inr (\<not> support_requests (trk_pools t) new_requests [])) (\<lambda>no_pci.
           if no_memory \<or> no_disk \<or> no_vcpus \<or> no_numa \<or> no_pci
           then Inl ComputeResourcesUnavailable else Inr claimed))))"

section \<open>Usage\<close>

definition update_node_usage :: "rt_conf \<Rightarrow> stats \<Rightarrow> usage \<Rightarrow> int \<Rightarrow> tracked_node \<Rightarrow> tracked_node result" where
  "update_node_usage cf st u sign c =
     (let memory = cn_memory_mb_used c + sign * (u_memory_mb u + overhead cf u);
          disk = cn_local_gb_used c + sign * u_root_gb u + sign * u_ephemeral_gb u
      in bind (get_host_numa_usage_from_instance (cn_numa_topology c) (u_numa u) (sign = -1)) (\<lambda>numa.
           Inr (c\<lparr>cn_memory_mb_used := memory, cn_local_gb_used := disk,
                  cn_vcpus_used := cn_vcpus_used c + sign * u_vcpus u,
                  cn_free_ram_mb := cn_memory_mb c - memory, cn_free_disk_gb := cn_local_gb c - disk,
                  cn_running_vms := stats_num_instances st, cn_numa_topology := numa\<rparr>)))"

definition update_usage_of :: "rt_conf \<Rightarrow> usage \<Rightarrow> int \<Rightarrow> tracker \<Rightarrow> tracker result" where
  "update_usage_of cf u sign rt =
     (case rt_compute rt of
        None \<Rightarrow> Inl AttributeError
      | Some c \<Rightarrow> bind (update_node_usage cf (rt_stats rt) u sign c) (\<lambda>c'. Inr (rt\<lparr>rt_compute := Some c'\<rparr>)))"

definition set_compute :: "(tracked_node \<Rightarrow> tracked_node) \<Rightarrow> tracker \<Rightarrow> tracker" where
  "set_compute f rt = rt\<lparr>rt_compute := map_option f (rt_compute rt)\<rparr>"

text \<open>The pools of the PCI tracker as the node publishes them.\<close>

definition publish_pools :: "tracker \<Rightarrow> tracker result" where
  "publish_pools rt =
     (case rt_pci rt of
        None \<Rightarrow> Inr (set_compute (\<lambda>c. c\<lparr>cn_pci_device_pools := []\<rparr>) rt)
      | Some t \<Rightarrow> bind (to_device_pools_obj (trk_pools t)) (\<lambda>ps.
          Inr (set_compute (\<lambda>c. c\<lparr>cn_pci_device_pools := ps\<rparr>) rt)))"

definition pci_for_instance :: "rt_conf \<Rightarrow> string \<Rightarrow> int \<Rightarrow> tracker \<Rightarrow> tracker result" where
  "pci_for_instance cf uuid sign rt =
     (case rt_pci rt of
        None \<Rightarrow> Inr rt
      | Some t \<Rightarrow>
          bind (update_pci_for_instance (rc_whitelist cf) \<lparr>inst_uuid = uuid, inst_pci_devices = []\<rparr> sign t)
            (\<lambda>(t', _). Inr (rt\<lparr>rt_pci := Some t'\<rparr>)))"

text \<open>An instance that is new counts once, one that is deleted is taken back, any other is recounted.\<close>

definition update_usage_from_instance :: "rt_conf \<Rightarrow> inst \<Rightarrow> tracker \<Rightarrow> tracker result" where
  "update_usage_from_instance cf inst rt =
     (let uuid = i_uuid inst;
          is_new = uuid \<notin> set (keys (rt_instances rt));
          is_deleted = vm_state (i_state inst) = DELETED_STATE;
          sign = (if is_deleted then -1 else 1);
          tracked = (if is_new then AList.update uuid inst (rt_instances rt) else rt_instances rt);
          rt1 = rt\<lparr>rt_instances := (if is_deleted then AList.delete uuid tracked else tracked),
                   rt_stats := update_stats_for_instance uuid (i_state inst) (rt_stats rt)\<rparr>
      in bind (if is_new \<or> is_deleted
               then bind (pci_for_instance cf uuid sign rt1) (update_usage_of cf (i_usage inst) sign)
               else Inr rt1) (\<lambda>rt2.
           publish_pools (set_compute (\<lambda>c. c\<lparr>cn_current_workload := calculate_workload (rt_stats rt2)\<rparr>) rt2)))"

text \<open>
  Publishing: the statistics are copied into the node as texts; a node that has changed is saved.
\<close>

definition publish_stats :: "stats \<Rightarrow> (string, string) dict" where
  "publish_stats st = map (\<lambda>(k, v). (k, show_int v)) (counters st)"

definition update_published :: "tracker \<Rightarrow> tracker" where
  "update_published rt =
     (let rt1 = set_compute (\<lambda>c. c\<lparr>cn_stats := publish_stats (rt_stats rt)\<rparr>) rt
      in if rt_compute rt1 = rt_old rt1 then rt1
         else rt1\<lparr>rt_old := rt_compute rt1, rt_pci := map_option (save_tracker (\<lambda>_. True)) (rt_pci rt1)\<rparr>)"

section \<open>Operations\<close>

definition set_instance_host_and_node :: "rt_conf \<Rightarrow> inst \<Rightarrow> inst" where
  "set_instance_host_and_node cf inst =
     inst\<lparr>i_host := Some (rc_host cf), i_launched_on := Some (rc_host cf), i_node := Some (rc_node cf)\<rparr>"

definition instance_claim :: "rt_conf \<Rightarrow> host_limits \<Rightarrow> inst \<Rightarrow> tracker \<Rightarrow> tracker \<times> inst result" where
  "instance_claim cf lims inst rt =
     (case rt_compute rt of
        None \<Rightarrow> (rt, Inr (set_instance_host_and_node cf inst))
      | Some c \<Rightarrow>
          (case claim_test cf lims c (i_uuid inst) (i_usage inst) (rt_pci rt) of
             (pci, Inl e) \<Rightarrow> (rt\<lparr>rt_pci := pci\<rparr>, Inl e)
           | (pci, Inr claimed) \<Rightarrow>
               (let inst' = set_instance_host_and_node cf (inst\<lparr>i_usage := (i_usage inst)\<lparr>u_numa := claimed\<rparr>\<rparr>)
                in case update_usage_from_instance cf inst' (rt\<lparr>rt_pci := pci\<rparr>) of
                     Inl e \<Rightarrow> (rt\<lparr>rt_pci := pci\<rparr>, Inl e)
                   | Inr rt' \<Rightarrow> (update_published rt', Inr inst'))))"

definition deleted_inst :: "inst \<Rightarrow> inst" where
  "deleted_inst inst = inst\<lparr>i_state := (i_state inst)\<lparr>vm_state := DELETED_STATE\<rparr>\<rparr>"

definition abort_instance_claim :: "rt_conf \<Rightarrow> inst \<Rightarrow> tracker \<Rightarrow> tracker result" where
  "abort_instance_claim cf inst rt =
     bind (update_usage_from_instance cf (deleted_inst inst) rt) (\<lambda>rt'. Inr (update_published rt'))"

definition update_usage :: "rt_conf \<Rightarrow> inst \<Rightarrow> tracker \<Rightarrow> tracker result" where
  "update_usage cf inst rt =
     (if disabled rt \<or> i_uuid inst \<notin> set (keys (rt_instances rt)) then Inr rt
      else bind (update_usage_from_instance cf inst rt) (\<lambda>rt'. Inr (update_published rt')))"

section \<open>Migrations\<close>

text \<open>The test is \<open>migration_type in ('resize')\<close>, on a text and not on a tuple.\<close>

definition get_instance_type :: "inst \<Rightarrow> bool \<Rightarrow> migration \<Rightarrow> flavor option" where
  "get_instance_type inst new m =
     (if contains_str ''resize'' (m_type m) then (if new then i_new_flavor inst else i_old_flavor inst)
      else Some (i_flavor inst))"

definition migration_numa :: "inst \<Rightarrow> bool \<Rightarrow> inst_cell list option" where
  "migration_numa inst new =
     (case i_migration_numa inst of None \<Rightarrow> None | Some (n, old) \<Rightarrow> if new then n else old)"

definition trackable_migration :: "migration \<Rightarrow> bool" where
  "trackable_migration m \<longleftrightarrow> m_type m \<in> {''resize'', ''migration'', ''evacuation''}"

definition incoming :: "rt_conf \<Rightarrow> migration \<Rightarrow> bool" where
  "incoming cf m \<longleftrightarrow> m_dest_compute m = rc_host cf \<and> m_dest_node m = rc_node cf"

definition outbound :: "rt_conf \<Rightarrow> migration \<Rightarrow> bool" where
  "outbound cf m \<longleftrightarrow> m_source_compute m = Some (rc_host cf) \<and> m_source_node m = Some (rc_node cf)"

text \<open>Which flavor and topology a migration holds on this node, if any.\<close>

definition migration_holds :: "rt_conf \<Rightarrow> bool \<Rightarrow> inst \<Rightarrow> migration \<Rightarrow> flavor option \<times> inst_cell list option" where
  "migration_holds cf tracked inst m =
     (if incoming cf m \<and> outbound cf m then
        (if flavor_id (i_flavor inst) = m_old_type m
         then (get_instance_type inst True m, migration_numa inst True)
         else (get_instance_type inst False m, migration_numa inst False))
      else if incoming cf m \<and> \<not> tracked then (get_instance_type inst True m, migration_numa inst True)
      else if outbound cf m \<and> \<not> tracked then (get_instance_type inst False m, migration_numa inst False)
      else (None, None))"

definition pci_for_migration :: "rt_conf \<Rightarrow> inst \<Rightarrow> int \<Rightarrow> tracker \<Rightarrow> tracker result" where
  "pci_for_migration cf inst sign rt =
     (case rt_pci rt of
        None \<Rightarrow> Inr rt
      | Some t \<Rightarrow>
          bind (update_pci_for_migration (rc_whitelist cf) (rc_requests cf (i_uuid inst))
                  (map icell_id (or_default (u_numa (i_usage inst)) [])) (i_uuid inst) sign t)
            (\<lambda>t'. Inr (rt\<lparr>rt_pci := Some t'\<rparr>)))"

definition update_usage_from_migration :: "rt_conf \<Rightarrow> inst \<Rightarrow> migration \<Rightarrow> tracker \<Rightarrow> tracker result" where
  "update_usage_from_migration cf inst m rt =
     (if \<not> trackable_migration m then Inr rt
      else case migration_holds cf (m_uuid m \<in> set (keys (rt_instances rt))) inst m of
             (None, _) \<Rightarrow> Inr rt
           | (Some f, numa) \<Rightarrow>
               bind (pci_for_migration cf inst 1 rt) (\<lambda>rt1.
               bind (update_usage_of cf (flavor_usage f numa) 1 rt1) (\<lambda>rt2.
               bind (publish_pools rt2) (\<lambda>rt3.
                 Inr (rt3\<lparr>rt_migrations := AList.update (m_uuid m) (m, f) (rt_migrations rt3)\<rparr>)))))"

definition in_resize_state :: "inst \<Rightarrow> bool" where
  "in_resize_state inst \<longleftrightarrow>
     vm_state (i_state inst) = ''resized'' \<or>
     vm_state (i_state inst) \<in> {''active'', ''stopped''} \<and>
     task_state (i_state inst) \<in> {Some ''resize_prep'', Some ''resize_migrating'', Some ''resize_migrated'',
       Some ''resize_finish'', Some ''rebuilding''}"

text \<open>The most recently updated migration of each instance that exists and is being resized.\<close>

definition note_migration ::
    "(string \<Rightarrow> inst option) \<Rightarrow> migration \<Rightarrow> (string, migration) dict \<Rightarrow> (string, migration) dict" where
  "note_migration lookup m filtered =
     (case lookup (m_uuid m) of
        None \<Rightarrow> filtered
      | Some inst \<Rightarrow>
          if \<not> in_resize_state inst then filtered
          else case map_of filtered (m_uuid m) of
                 Some other \<Rightarrow> if m_updated_at m \<ge> m_updated_at other then AList.update (m_uuid m) m filtered else filtered
               | None \<Rightarrow> AList.update (m_uuid m) m filtered)"

definition update_usage_from_migrations ::
    "rt_conf \<Rightarrow> (string \<Rightarrow> inst option) \<Rightarrow> migration list \<Rightarrow> tracker \<Rightarrow> tracker result" where
  "update_usage_from_migrations cf lookup migrations rt =
     loop (\<lambda>(uuid, m) rt'.
       case lookup uuid of
         None \<Rightarrow> Inl KeyError
       | Some inst \<Rightarrow> update_usage_from_migration cf inst m rt')
       (fold (note_migration lookup) migrations []) (rt\<lparr>rt_migrations := []\<rparr>)"

definition move_claim ::
    "rt_conf \<Rightarrow> host_limits \<Rightarrow> inst \<Rightarrow> flavor \<Rightarrow> image_props \<Rightarrow> pci_request list \<Rightarrow> migration \<Rightarrow> tracker \<Rightarrow>
     (tracker \<times> inst) result" where
  "move_claim cf lims inst f props new_requests m rt =
     (case rt_compute rt of
        None \<Rightarrow> Inr (rt, inst)
      | Some c \<Rightarrow>
          bind (move_claim_test cf lims c (i_uuid inst) f props new_requests (rt_pci rt)) (\<lambda>claimed.
            let inst' = inst\<lparr>i_migration_numa := Some (claimed, u_numa (i_usage inst))\<rparr> in
            bind (update_usage_from_migration cf inst' m rt) (\<lambda>rt'. Inr (update_published rt', inst'))))"

text \<open>
  Dropping the claim of a move: the entry goes, the usage is taken back when the flavor is the one
  that was held. The new topology is given back for every prefix.
\<close>

definition drop_move_claim :: "rt_conf \<Rightarrow> inst \<Rightarrow> flavor option \<Rightarrow> bool \<Rightarrow> tracker \<Rightarrow> (tracker \<times> inst) result" where
  "drop_move_claim cf inst f new rt =
     (case map_of (rt_migrations rt) (i_uuid inst) of
        None \<Rightarrow> Inr (rt, inst)
      | Some (m, itype) \<Rightarrow>
          (let rt1 = rt\<lparr>rt_migrations := AList.delete (i_uuid inst) (rt_migrations rt)\<rparr>;
               f' = (case f of Some g \<Rightarrow> Some g | None \<Rightarrow> get_instance_type inst new m);
               inst' = inst\<lparr>i_migration_numa := None\<rparr>
           in if (case f' of Some g \<Rightarrow> flavor_id g = flavor_id itype | None \<Rightarrow> False) then
                bind (pci_for_migration cf inst (-1) rt1) (\<lambda>rt2.
                bind (update_usage_of cf (flavor_usage itype (migration_numa inst True)) (-1) rt2) (\<lambda>rt3.
                  Inr (update_published rt3, inst')))
              else Inr (rt1, inst')))"

section \<open>The audit\<close>

text \<open>What the driver reports. The keys that may be missing are optional.\<close>

record virt_resources =
  vr_vcpus :: int
  vr_memory_mb :: int
  vr_local_gb :: int
  vr_vcpus_used :: int
  vr_memory_mb_used :: int
  vr_local_gb_used :: int
  vr_numa_topology :: "numa_cell list option"
  vr_hypervisor_type :: "string option"
  vr_hypervisor_version :: "int option"
  vr_hypervisor_hostname :: "string option"
  vr_disk_available_least :: "int option option"
  vr_host_ip :: string
  vr_supported_instances :: "string list list option"
  vr_stats :: digest
  vr_pci_devices :: "props list option"

definition update_from_virt_driver :: "virt_resources \<Rightarrow> tracked_node \<Rightarrow> tracked_node" where
  "update_from_virt_driver r c =
     c\<lparr>cn_vcpus := vr_vcpus r, cn_memory_mb := vr_memory_mb r, cn_local_gb := vr_local_gb r,
       cn_vcpus_used := vr_vcpus_used r, cn_memory_mb_used := vr_memory_mb_used r,
       cn_local_gb_used := vr_local_gb_used r, cn_numa_topology := vr_numa_topology r,
       cn_hypervisor_type := or_default (vr_hypervisor_type r) (cn_hypervisor_type c),
       cn_hypervisor_version := or_default (vr_hypervisor_version r) (cn_hypervisor_version c),
       cn_hypervisor_hostname := or_default (vr_hypervisor_hostname r) (cn_hypervisor_hostname c),
       cn_disk_available_least := or_default (vr_disk_available_least r) (cn_disk_available_least c),
       cn_host_ip := vr_host_ip r,
       cn_supported_hv_specs := or_default (vr_supported_instances r) (cn_supported_hv_specs c)\<rparr>"

definition copy_resources :: "rt_conf \<Rightarrow> virt_resources \<Rightarrow> tracked_node \<Rightarrow> tracker \<Rightarrow> tracker result" where
  "copy_resources cf r c rt =
     bind (digest_stats (vr_stats r) (clear_stats (rt_stats rt))) (\<lambda>st.
       Inr (rt\<lparr>rt_stats := st,
         rt_compute := Some (update_from_virt_driver r
           (c\<lparr>cn_ram_allocation_ratio := rc_ram_ratio cf, cn_cpu_allocation_ratio := rc_cpu_ratio cf\<rparr>))\<rparr>))"

text \<open>The node known already, the stored one, or a new one, which starts from \<open>blank\<close>.\<close>

definition init_compute_node ::
    "rt_conf \<Rightarrow> virt_resources \<Rightarrow> tracked_node option \<Rightarrow> tracked_node \<Rightarrow> tracker \<Rightarrow> tracker result" where
  "init_compute_node cf r stored blank rt =
     copy_resources cf r
       (case rt_compute rt of
          Some c \<Rightarrow> c
        | None \<Rightarrow> (case stored of Some c \<Rightarrow> c | None \<Rightarrow> blank\<lparr>cn_host := rc_host cf\<rparr>)) rt"

definition reset_usage :: "rt_conf \<Rightarrow> tracked_node \<Rightarrow> tracked_node" where
  "reset_usage cf c =
     (let disk = rc_reserved_disk_mb cf div 1024; memory = rc_reserved_memory_mb cf in
      c\<lparr>cn_local_gb_used := disk, cn_memory_mb_used := memory, cn_vcpus_used := 0,
        cn_free_ram_mb := cn_memory_mb c - memory, cn_free_disk_gb := cn_local_gb c - disk,
        cn_current_workload := 0, cn_running_vms := 0\<rparr>)"

definition update_usage_from_instances :: "rt_conf \<Rightarrow> inst list \<Rightarrow> tracker \<Rightarrow> tracker result" where
  "update_usage_from_instances cf instances rt =
     loop (\<lambda>inst rt'. if vm_state (i_state inst) \<noteq> DELETED_STATE then update_usage_from_instance cf inst rt' else Inr rt')
       instances (set_compute (reset_usage cf) (rt\<lparr>rt_instances := []\<rparr>))"

text \<open>Guests the hypervisor runs and nobody tracks: memory only. \<open>running\<close> is in the order of the set.\<close>

definition find_orphaned_instances :: "(string, int) dict \<Rightarrow> tracker \<Rightarrow> (string, int) dict" where
  "find_orphaned_instances running rt =
     filter (\<lambda>(uuid, memory). uuid \<notin> set (keys (rt_instances rt)) \<union> set (keys (rt_migrations rt))) running"

definition orphan_usage :: "int \<Rightarrow> usage" where
  "orphan_usage memory = \<lparr>u_memory_mb = memory, u_root_gb = 0, u_ephemeral_gb = 0, u_vcpus = 0, u_numa = None\<rparr>"

definition update_usage_from_orphans :: "rt_conf \<Rightarrow> (string, int) dict \<Rightarrow> tracker \<Rightarrow> tracker result" where
  "update_usage_from_orphans cf orphans rt =
     loop (\<lambda>(uuid, memory). update_usage_of cf (orphan_usage memory) 1) orphans rt"

text \<open>The database behind the audit.\<close>

record audit_data =
  ad_stored_node :: "tracked_node option"
  ad_blank_node :: tracked_node
  ad_pci_node_id :: "int option"
  ad_stored_devices :: devs
  ad_instances :: "inst list"
  ad_lookup :: "string \<Rightarrow> inst option"
  ad_migrations :: "migration list"
  ad_running :: "(string, int) dict"
  ad_metrics :: "metric list"

definition audit_pci :: "rt_conf \<Rightarrow> audit_data \<Rightarrow> virt_resources \<Rightarrow> tracker \<Rightarrow> tracker result" where
  "audit_pci cf ad r rt =
     (case vr_pci_devices r of
        None \<Rightarrow> Inr rt
      | Some devices \<Rightarrow>
          bind (case rt_pci rt of
                  Some t \<Rightarrow> Inr t
                | None \<Rightarrow> init_tracker (rc_whitelist cf) (ad_pci_node_id ad) (ad_stored_devices ad)) (\<lambda>t.
          bind (update_devices (rc_whitelist cf) devices t) (\<lambda>t'. Inr (rt\<lparr>rt_pci := Some t'\<rparr>))))"

definition audit_clean_pci :: "rt_conf \<Rightarrow> audit_data \<Rightarrow> string list \<Rightarrow> tracker \<Rightarrow> tracker result" where
  "audit_clean_pci cf ad orphans rt =
     bind (case rt_pci rt of
             None \<Rightarrow> Inr rt
           | Some t \<Rightarrow> bind (clean_usage (rc_whitelist cf) (map i_uuid (ad_instances ad)) (map m_uuid (ad_migrations ad)) orphans t)
               (\<lambda>t'. Inr (rt\<lparr>rt_pci := Some t'\<rparr>))) publish_pools"

definition run_audit :: "rt_conf \<Rightarrow> audit_data \<Rightarrow> virt_resources \<Rightarrow> tracker \<Rightarrow> tracker result" where
  "run_audit cf ad r rt =
     bind (init_compute_node cf r (ad_stored_node ad) (ad_blank_node ad) rt) (\<lambda>rt1.
     bind (audit_pci cf ad r rt1) (\<lambda>rt2.
     bind (update_usage_from_instances cf (ad_instances ad) rt2) (\<lambda>rt3.
     bind (update_usage_from_migrations cf (ad_lookup ad) (ad_migrations ad) rt3) (\<lambda>rt4.
       let orphans = find_orphaned_instances (ad_running ad) rt4 in
     bind (update_usage_from_orphans cf orphans rt4) (\<lambda>rt5.
     bind (audit_clean_pci cf ad (keys orphans) rt5) (\<lambda>rt6.
       Inr (update_published (set_compute (\<lambda>c. c\<lparr>cn_metrics := ad_metrics ad\<rparr>) rt6))))))))"

text \<open>A driver that reports nothing disables the tracker.\<close>

definition update_available_resource ::
    "rt_conf \<Rightarrow> audit_data \<Rightarrow> virt_resources option \<Rightarrow> tracker \<Rightarrow> tracker result" where
  "update_available_resource cf ad r rt =
     (case r of None \<Rightarrow> Inr (rt\<lparr>rt_compute := None\<rparr>) | Some v \<Rightarrow> run_audit cf ad v rt)"

section \<open>What is in use\<close>

datatype kind = Memory | Disk | Vcpus

fun need :: "rt_conf \<Rightarrow> usage \<Rightarrow> kind \<Rightarrow> int" where
  "need cf u Memory = claim_memory cf u"
| "need cf u Disk = claim_disk u"
| "need cf u Vcpus = u_vcpus u"

fun in_use :: "tracked_node \<Rightarrow> kind \<Rightarrow> int" where
  "in_use c Memory = cn_memory_mb_used c"
| "in_use c Disk = cn_local_gb_used c"
| "in_use c Vcpus = cn_vcpus_used c"

definition instances_need :: "rt_conf \<Rightarrow> (string, inst) dict \<Rightarrow> kind \<Rightarrow> int" where
  "instances_need cf d k = sum_list (map (\<lambda>(u, i). need cf (i_usage i) k) d)"

definition migrations_need :: "rt_conf \<Rightarrow> (string, migration \<times> flavor) dict \<Rightarrow> kind \<Rightarrow> int" where
  "migrations_need cf d k = sum_list (map (\<lambda>(u, m, f). need cf (flavor_usage f None) k) d)"

definition orphans_need :: "rt_conf \<Rightarrow> (string, int) dict \<Rightarrow> kind \<Rightarrow> int" where
  "orphans_need cf d k = sum_list (map (\<lambda>(u, memory). need cf (orphan_usage memory) k) d)"

fun reserved :: "rt_conf \<Rightarrow> kind \<Rightarrow> int" where
  "reserved cf Memory = rc_reserved_memory_mb cf"
| "reserved cf Disk = rc_reserved_disk_mb cf div 1024"
| "reserved cf Vcpus = 0"

text \<open>The two free amounts agree with what is in use.\<close>

definition free_agrees :: "tracked_node \<Rightarrow> bool" where
  "free_agrees c \<longleftrightarrow> cn_free_ram_mb c = cn_memory_mb c - cn_memory_mb_used c \<and>
     cn_free_disk_gb c = cn_local_gb c - cn_local_gb_used c"

definition accounted :: "rt_conf \<Rightarrow> (kind \<Rightarrow> int) \<Rightarrow> tracker \<Rightarrow> bool" where
  "accounted cf B rt \<longleftrightarrow> (\<exists>c. rt_compute rt = Some c \<and> free_agrees c \<and>
     (\<forall>k. in_use c k = B k + instances_need cf (rt_instances rt) k + migrations_need cf (rt_migrations rt) k)) \<and>
     wf_dict (rt_instances rt)"

named_theorems rt_simps

lemma need_numa [rt_simps]: "need cf (u\<lparr>u_numa := x\<rparr>) k = need cf u k"
  by (cases k) (simp_all add: claim_memory_def claim_disk_def overhead_def)

lemma need_flavor [rt_simps]: "NO_MATCH None x \<Longrightarrow> need cf (flavor_usage f x) k = need cf (flavor_usage f None) k"
  by (cases k) (simp_all add: claim_memory_def claim_disk_def overhead_def flavor_usage_def)

lemma update_node_usage_eq:
  "update_node_usage cf st u sign c = Inr c' \<Longrightarrow>
   \<exists>numa. c' = c\<lparr>cn_memory_mb_used := cn_memory_mb_used c + sign * claim_memory cf u,
     cn_local_gb_used := cn_local_gb_used c + sign * u_root_gb u + sign * u_ephemeral_gb u,
     cn_vcpus_used := cn_vcpus_used c + sign * u_vcpus u,
     cn_free_ram_mb := cn_memory_mb c - (cn_memory_mb_used c + sign * claim_memory cf u),
     cn_free_disk_gb := cn_local_gb c - (cn_local_gb_used c + sign * u_root_gb u + sign * u_ephemeral_gb u),
     cn_running_vms := stats_num_instances st, cn_numa_topology := numa\<rparr>"
  unfolding update_node_usage_def Let_def claim_memory_def bind_eq_Inr by blast

lemma update_node_usage_use:
  assumes "update_node_usage cf st u sign c = Inr c'"
  shows "in_use c' k = in_use c k + sign * need cf u k" and "free_agrees c'"
    and "cn_running_vms c' = stats_num_instances st"
proof -
  obtain numa where c': "c' = c\<lparr>cn_memory_mb_used := cn_memory_mb_used c + sign * claim_memory cf u,
     cn_local_gb_used := cn_local_gb_used c + sign * u_root_gb u + sign * u_ephemeral_gb u,
     cn_vcpus_used := cn_vcpus_used c + sign * u_vcpus u,
     cn_free_ram_mb := cn_memory_mb c - (cn_memory_mb_used c + sign * claim_memory cf u),
     cn_free_disk_gb := cn_local_gb c - (cn_local_gb_used c + sign * u_root_gb u + sign * u_ephemeral_gb u),
     cn_running_vms := stats_num_instances st, cn_numa_topology := numa\<rparr>"
    using update_node_usage_eq [OF assms] by blast
  show "in_use c' k = in_use c k + sign * need cf u k"
    by (cases k) (simp_all add: c' claim_disk_def distrib_left)
  show "free_agrees c'" by (simp add: c' free_agrees_def)
  show "cn_running_vms c' = stats_num_instances st" by (simp add: c')
qed

lemma update_usage_of_use:
  assumes "update_usage_of cf u sign rt = Inr rt'" and "rt_compute rt = Some c"
  shows "\<exists>c'. rt' = rt\<lparr>rt_compute := Some c'\<rparr> \<and> free_agrees c' \<and>
    (\<forall>k. in_use c' k = in_use c k + sign * need cf u k) \<and> cn_running_vms c' = stats_num_instances (rt_stats rt)"
proof -
  obtain c' where c': "update_node_usage cf (rt_stats rt) u sign c = Inr c'" "rt' = rt\<lparr>rt_compute := Some c'\<rparr>"
    using assms by (auto simp: update_usage_of_def)
  then show ?thesis using update_node_usage_use [OF c'(1)] by blast
qed

text \<open>Publishing the pools and the workload leaves all that alone.\<close>

definition same_use :: "tracked_node \<Rightarrow> tracked_node \<Rightarrow> bool" where
  "same_use c c' \<longleftrightarrow> (\<forall>k. in_use c k = in_use c' k) \<and> free_agrees c = free_agrees c' \<and>
     cn_running_vms c = cn_running_vms c'"

lemma publish_pools_use:
  "publish_pools rt = Inr rt' \<Longrightarrow> \<exists>ps. rt' = set_compute (\<lambda>c. c\<lparr>cn_pci_device_pools := ps\<rparr>) rt"
  by (auto simp: publish_pools_def split: option.splits)

lemma in_use_updates [rt_simps]:
  "in_use (c\<lparr>cn_pci_device_pools := ps\<rparr>) k = in_use c k" "in_use (c\<lparr>cn_current_workload := w\<rparr>) k = in_use c k"
  "in_use (c\<lparr>cn_stats := s\<rparr>) k = in_use c k" "in_use (c\<lparr>cn_metrics := m\<rparr>) k = in_use c k"
  by (cases k; simp)+

lemma same_use_updates [rt_simps]:
  "same_use (c\<lparr>cn_pci_device_pools := ps\<rparr>) c" "same_use (c\<lparr>cn_current_workload := w\<rparr>) c"
  "same_use (c\<lparr>cn_stats := s\<rparr>) c" "same_use (c\<lparr>cn_metrics := m\<rparr>) c"
  by (simp_all add: same_use_def free_agrees_def rt_simps)

lemma same_use_trans: "same_use a b \<Longrightarrow> same_use b c \<Longrightarrow> same_use a c"
  by (simp add: same_use_def)

lemma update_published_use:
  "rt_instances (update_published rt) = rt_instances rt" "rt_migrations (update_published rt) = rt_migrations rt"
  "rt_stats (update_published rt) = rt_stats rt"
  "rt_compute (update_published rt) = map_option (\<lambda>c. c\<lparr>cn_stats := publish_stats (rt_stats rt)\<rparr>) (rt_compute rt)"
  by (simp_all add: update_published_def set_compute_def Let_def)

lemma pci_for_instance_frame:
  "pci_for_instance cf uuid sign rt = Inr rt' \<Longrightarrow> rt' = rt\<lparr>rt_pci := rt_pci rt'\<rparr>"
  by (auto simp: pci_for_instance_def split: option.splits)

definition tracked_after :: "inst \<Rightarrow> tracker \<Rightarrow> (string, inst) dict" where
  "tracked_after inst rt =
     (let tracked = (if i_uuid inst \<notin> set (keys (rt_instances rt))
                     then AList.update (i_uuid inst) inst (rt_instances rt) else rt_instances rt)
      in if vm_state (i_state inst) = DELETED_STATE then AList.delete (i_uuid inst) tracked else tracked)"

definition changes_usage :: "inst \<Rightarrow> tracker \<Rightarrow> bool" where
  "changes_usage inst rt \<longleftrightarrow> i_uuid inst \<notin> set (keys (rt_instances rt)) \<or> vm_state (i_state inst) = DELETED_STATE"

lemma from_instance_effect:
  assumes u: "update_usage_from_instance cf inst rt = Inr rt'" and c: "rt_compute rt = Some c"
  shows "rt_instances rt' = tracked_after inst rt" "rt_migrations rt' = rt_migrations rt" "rt_old rt' = rt_old rt"
    and "rt_stats rt' = update_stats_for_instance (i_uuid inst) (i_state inst) (rt_stats rt)"
    and "\<exists>c'. rt_compute rt' = Some c' \<and>
      (if changes_usage inst rt
       then free_agrees c' \<and> cn_running_vms c' = stats_num_instances (rt_stats rt') \<and>
         (\<forall>k. in_use c' k = in_use c k +
           (if vm_state (i_state inst) = DELETED_STATE then -1 else 1) * need cf (i_usage inst) k)
       else same_use c' c)"
proof -
  define sign :: int where "sign = (if vm_state (i_state inst) = DELETED_STATE then -1 else 1)"
  define rt1 where "rt1 = rt\<lparr>rt_instances := tracked_after inst rt,
    rt_stats := update_stats_for_instance (i_uuid inst) (i_state inst) (rt_stats rt)\<rparr>"
  obtain rt2 where 2: "(if changes_usage inst rt
      then bind (pci_for_instance cf (i_uuid inst) sign rt1) (update_usage_of cf (i_usage inst) sign)
      else Inr rt1) = Inr rt2"
      "publish_pools (set_compute (\<lambda>c. c\<lparr>cn_current_workload := calculate_workload (rt_stats rt2)\<rparr>) rt2) = Inr rt'"
    using u unfolding update_usage_from_instance_def Let_def bind_eq_Inr sign_def rt1_def tracked_after_def changes_usage_def
    by blast
  have r2: "rt_instances rt2 = tracked_after inst rt \<and> rt_migrations rt2 = rt_migrations rt \<and> rt_old rt2 = rt_old rt \<and>
      rt_stats rt2 = update_stats_for_instance (i_uuid inst) (i_state inst) (rt_stats rt) \<and>
      (\<exists>c'. rt_compute rt2 = Some c' \<and> (if changes_usage inst rt
        then free_agrees c' \<and> cn_running_vms c' = stats_num_instances (rt_stats rt2) \<and>
          (\<forall>k. in_use c' k = in_use c k + sign * need cf (i_usage inst) k)
        else same_use c' c))"
  proof (cases "changes_usage inst rt")
    case True
    then obtain r where r: "pci_for_instance cf (i_uuid inst) sign rt1 = Inr r"
        "update_usage_of cf (i_usage inst) sign r = Inr rt2"
      using 2(1) by auto
    define p where "p = rt_pci r"
    have "r = rt1\<lparr>rt_pci := p\<rparr>" unfolding p_def by (rule pci_for_instance_frame [OF r(1)])
    then have p: "update_usage_of cf (i_usage inst) sign (rt1\<lparr>rt_pci := p\<rparr>) = Inr rt2" using r(2) by simp
    have "rt_compute (rt1\<lparr>rt_pci := p\<rparr>) = Some c" using c by (simp add: rt1_def)
    from update_usage_of_use [OF p this] True show ?thesis by (auto simp: rt1_def)
  next
    case False
    then show ?thesis using 2(1) c by (auto simp: rt1_def same_use_def)
  qed
  obtain ps where rt': "rt' = set_compute (\<lambda>c. c\<lparr>cn_pci_device_pools := ps\<rparr>)
      (set_compute (\<lambda>c. c\<lparr>cn_current_workload := calculate_workload (rt_stats rt2)\<rparr>) rt2)"
    using publish_pools_use [OF 2(2)] by blast
  show "rt_instances rt' = tracked_after inst rt" "rt_migrations rt' = rt_migrations rt" "rt_old rt' = rt_old rt"
    "rt_stats rt' = update_stats_for_instance (i_uuid inst) (i_state inst) (rt_stats rt)"
    using r2 by (simp_all add: rt' set_compute_def)
  obtain c2 where c2: "rt_compute rt2 = Some c2" "if changes_usage inst rt
        then free_agrees c2 \<and> cn_running_vms c2 = stats_num_instances (rt_stats rt2) \<and>
          (\<forall>k. in_use c2 k = in_use c k + sign * need cf (i_usage inst) k)
        else same_use c2 c"
    using r2 by blast
  let ?c = "c2\<lparr>cn_current_workload := calculate_workload (rt_stats rt2), cn_pci_device_pools := ps\<rparr>"
  have s: "same_use ?c c2" by (rule same_use_trans; rule rt_simps)
  have "rt_compute rt' = Some ?c" "rt_stats rt' = rt_stats rt2" using c2(1) by (simp_all add: rt' set_compute_def)
  moreover have "if changes_usage inst rt
        then free_agrees ?c \<and> cn_running_vms ?c = stats_num_instances (rt_stats rt2) \<and>
          (\<forall>k. in_use ?c k = in_use c k + sign * need cf (i_usage inst) k)
        else same_use ?c c"
    using c2(2) s by (cases "changes_usage inst rt") (simp_all only: same_use_def if_True if_False simp_thms)
  ultimately show "\<exists>c'. rt_compute rt' = Some c' \<and>
      (if changes_usage inst rt
       then free_agrees c' \<and> cn_running_vms c' = stats_num_instances (rt_stats rt') \<and>
         (\<forall>k. in_use c' k = in_use c k +
           (if vm_state (i_state inst) = DELETED_STATE then -1 else 1) * need cf (i_usage inst) k)
       else same_use c' c)"
    unfolding sign_def by auto
qed

lemma instances_need_new:
  "u \<notin> set (keys d) \<Longrightarrow> instances_need cf (AList.update u i d) k = instances_need cf d k + need cf (i_usage i) k"
  by (induction d) (auto simp: instances_need_def)

lemma instances_need_delete:
  "wf_dict d \<Longrightarrow> map_of d u = Some i \<Longrightarrow> instances_need cf (AList.delete u d) k = instances_need cf d k - need cf (i_usage i) k"
proof (induction d)
  case (Cons x d)
  obtain v j where x: "x = (v, j)" by (cases x)
  have "u = v \<Longrightarrow> AList.delete u d = d" using Cons.prems x by (intro delete_id) simp
  then show ?case using Cons x by (auto simp: instances_need_def)
qed simp

lemma accounted_from_instance:
  assumes acc: "accounted cf B rt" and u: "update_usage_from_instance cf inst rt = Inr rt'"
    and del: "vm_state (i_state inst) = DELETED_STATE \<Longrightarrow>
      \<exists>old. map_of (rt_instances rt) (i_uuid inst) = Some old \<and> (\<forall>k. need cf (i_usage old) k = need cf (i_usage inst) k)"
  shows "accounted cf B rt'"
proof -
  obtain c where c: "rt_compute rt = Some c" "free_agrees c" "wf_dict (rt_instances rt)"
      "\<And>k. in_use c k = B k + instances_need cf (rt_instances rt) k + migrations_need cf (rt_migrations rt) k"
    using acc by (auto simp: accounted_def)
  note E = from_instance_effect [OF u c(1)]
  let ?del = "vm_state (i_state inst) = DELETED_STATE"
  obtain c' where c': "rt_compute rt' = Some c'" "if changes_usage inst rt
       then free_agrees c' \<and> cn_running_vms c' = stats_num_instances (rt_stats rt') \<and>
         (\<forall>k. in_use c' k = in_use c k + (if ?del then -1 else 1) * need cf (i_usage inst) k)
       else same_use c' c"
    using E(5) by blast
  have ins: "instances_need cf (tracked_after inst rt) k = instances_need cf (rt_instances rt) k +
      (if changes_usage inst rt then (if ?del then -1 else 1) * need cf (i_usage inst) k else 0)" for k
  proof (cases ?del)
    case True
    then obtain old where old: "map_of (rt_instances rt) (i_uuid inst) = Some old"
        "need cf (i_usage old) k = need cf (i_usage inst) k" using del by blast
    then have "i_uuid inst \<in> set (keys (rt_instances rt))" by (force dest: map_of_SomeD)
    then show ?thesis using True old instances_need_delete [OF c(3) old(1)]
      by (simp add: tracked_after_def changes_usage_def)
  next
    case False
    then show ?thesis using instances_need_new [of "i_uuid inst" "rt_instances rt"]
      by (simp add: tracked_after_def changes_usage_def)
  qed
  have "wf_dict (tracked_after inst rt)" using c(3) by (simp add: tracked_after_def Let_def)
  moreover have "free_agrees c'" "in_use c' k = B k + instances_need cf (tracked_after inst rt) k + migrations_need cf (rt_migrations rt) k" for k
    using c'(2) c(2,4) by (auto simp: ins same_use_def split: if_splits)
  ultimately show ?thesis unfolding accounted_def using c'(1) by (auto simp: E(1,2))
qed

lemma accounted_published:
  "accounted cf B rt \<Longrightarrow> accounted cf B (update_published rt)"
  using rt_simps by (auto simp: accounted_def update_published_use same_use_def)

lemma accounted_pci [rt_simps]: "accounted cf B (rt\<lparr>rt_pci := p\<rparr>) = accounted cf B rt"
  by (simp add: accounted_def)

lemma pci_for_migration_frame:
  "pci_for_migration cf inst sign rt = Inr rt' \<Longrightarrow> rt' = rt\<lparr>rt_pci := rt_pci rt'\<rparr>"
  by (auto simp: pci_for_migration_def split: option.splits)

lemma publish_pools_accounted:
  assumes "publish_pools rt = Inr rt'"
  shows "accounted cf B rt' = accounted cf B rt" "rt_instances rt' = rt_instances rt"
    "rt_migrations rt' = rt_migrations rt" "rt_stats rt' = rt_stats rt"
proof -
  obtain ps where rt': "rt' = set_compute (\<lambda>c. c\<lparr>cn_pci_device_pools := ps\<rparr>) rt"
    using publish_pools_use [OF assms] by blast
  show "accounted cf B rt' = accounted cf B rt"
    by (auto simp: rt' accounted_def set_compute_def rt_simps free_agrees_def)
  show "rt_instances rt' = rt_instances rt" "rt_migrations rt' = rt_migrations rt" "rt_stats rt' = rt_stats rt"
    by (simp_all add: rt' set_compute_def)
qed

lemma migrations_need_new:
  "u \<notin> set (keys d) \<Longrightarrow> migrations_need cf (AList.update u (m, f) d) k =
     migrations_need cf d k + need cf (flavor_usage f None) k"
  by (induction d) (auto simp: migrations_need_def)

lemma migrations_need_delete:
  "wf_dict d \<Longrightarrow> map_of d u = Some (m, f) \<Longrightarrow>
   migrations_need cf (AList.delete u d) k = migrations_need cf d k - need cf (flavor_usage f None) k"
proof (induction d)
  case (Cons x d)
  obtain v j where x: "x = (v, j)" by (cases x)
  have "u = v \<Longrightarrow> AList.delete u d = d" using Cons.prems x by (intro delete_id) simp
  then show ?case using Cons x by (auto simp: migrations_need_def)
qed simp

text \<open>Counting something that no table holds.\<close>

lemma accounted_usage_of:
  assumes "accounted cf B rt" and "update_usage_of cf u sign rt = Inr rt'"
  shows "accounted cf (\<lambda>k. B k + sign * need cf u k) rt'" "rt_instances rt' = rt_instances rt"
    "rt_migrations rt' = rt_migrations rt"
proof -
  obtain c where c: "rt_compute rt = Some c" "wf_dict (rt_instances rt)"
      "\<And>k. in_use c k = B k + instances_need cf (rt_instances rt) k + migrations_need cf (rt_migrations rt) k"
    using assms(1) by (auto simp: accounted_def)
  obtain c' where c': "rt' = rt\<lparr>rt_compute := Some c'\<rparr>" "free_agrees c'" "\<And>k. in_use c' k = in_use c k + sign * need cf u k"
    using update_usage_of_use [OF assms(2) c(1)] by blast
  show "accounted cf (\<lambda>k. B k + sign * need cf u k) rt'" using c c' by (simp add: accounted_def)
  show "rt_instances rt' = rt_instances rt" "rt_migrations rt' = rt_migrations rt" by (simp_all add: c'(1))
qed

lemma accounted_migration:
  assumes acc: "accounted cf B rt" and u: "update_usage_from_migration cf inst m rt = Inr rt'"
    and fresh: "m_uuid m \<notin> set (keys (rt_migrations rt))"
  shows "accounted cf B rt' \<and> rt_instances rt' = rt_instances rt \<and>
    (rt_migrations rt' = rt_migrations rt \<or> (\<exists>f. rt_migrations rt' = AList.update (m_uuid m) (m, f) (rt_migrations rt)))"
proof (cases "trackable_migration m \<and> fst (migration_holds cf (m_uuid m \<in> set (keys (rt_instances rt))) inst m) \<noteq> None")
  case False
  then have "rt' = rt" using u by (auto simp: update_usage_from_migration_def split: prod.splits option.splits if_splits)
  then show ?thesis using acc by simp
next
  case True
  then obtain f numa where h: "migration_holds cf (m_uuid m \<in> set (keys (rt_instances rt))) inst m = (Some f, numa)"
    by (cases "migration_holds cf (m_uuid m \<in> set (keys (rt_instances rt))) inst m") auto
  with u True obtain r1 r2 r3 where r: "pci_for_migration cf inst 1 rt = Inr r1"
      "update_usage_of cf (flavor_usage f numa) 1 r1 = Inr r2" "publish_pools r2 = Inr r3"
      "rt' = r3\<lparr>rt_migrations := AList.update (m_uuid m) (m, f) (rt_migrations r3)\<rparr>"
    by (auto simp: update_usage_from_migration_def)
  have r1: "r1 = rt\<lparr>rt_pci := rt_pci r1\<rparr>" by (rule pci_for_migration_frame [OF r(1)])
  have a1: "accounted cf B r1" using acc by (subst r1) (simp add: rt_simps)
  have t1: "rt_instances r1 = rt_instances rt" "rt_migrations r1 = rt_migrations rt" by (subst r1, simp)+
  note a2 = accounted_usage_of [OF a1 r(2)]
  note P = publish_pools_accounted [OF r(3)]
  have "need cf (flavor_usage f numa) k = need cf (flavor_usage f None) k" for k
    by (cases k) (simp_all add: claim_memory_def claim_disk_def overhead_def flavor_usage_def)
  then have "accounted cf B rt'"
    using a2(1) fresh unfolding P(1) [symmetric]
    by (simp add: r(4) accounted_def P(2,3) a2(2,3) t1 migrations_need_new) (metis add.assoc add.commute)
  then show ?thesis by (auto simp: r(4) P(2,3) a2(2,3) t1)
qed

definition keyed :: "(string, migration) dict \<Rightarrow> bool" where
  "keyed d \<longleftrightarrow> wf_dict d \<and> (\<forall>u m. (u, m) \<in> set d \<longrightarrow> m_uuid m = u)"

lemma keyed_note: "keyed d \<Longrightarrow> keyed (note_migration lookup m d)"
proof -
  assume d: "keyed d"
  have "keyed (AList.update (m_uuid m) m d)"
    using d in_update [of _ _ "m_uuid m" m d] unfolding keyed_def by (metis prod.inject wf_update)
  then show ?thesis using d
    by (cases "lookup (m_uuid m)"; cases "map_of d (m_uuid m)") (simp_all add: note_migration_def)
qed

lemma keyed_notes: "keyed d \<Longrightarrow> keyed (fold (note_migration lookup) ms d)"
  by (induction ms arbitrary: d) (simp_all add: keyed_note)

lemma set_keys_update: "set (keys (AList.update k v d)) = insert k (set (keys d))"
  by (auto simp only: update_keys set_append list.set split: if_splits)

lemma accounted_migrations_loop:
  assumes "loop (\<lambda>(uuid, m) rt'. case lookup uuid of None \<Rightarrow> Inl KeyError
      | Some inst \<Rightarrow> update_usage_from_migration cf inst m rt') ms rt = Inr rt'"
    and "accounted cf B rt" and "keyed ms"
    and "set (keys ms) \<inter> set (keys (rt_migrations rt)) = {}" and "wf_dict (rt_migrations rt)"
  shows "accounted cf B rt' \<and> wf_dict (rt_migrations rt')"
  using assms
proof (induction ms arbitrary: rt)
  case (Cons x ms)
  obtain u m where x: "x = (u, m)" by (cases x)
  then obtain inst r where r: "lookup u = Some inst" "update_usage_from_migration cf inst m rt = Inr r"
      "loop (\<lambda>(uuid, m) rt'. case lookup uuid of None \<Rightarrow> Inl KeyError
      | Some inst \<Rightarrow> update_usage_from_migration cf inst m rt') ms r = Inr rt'"
    using Cons.prems(1) by (auto split: option.splits)
  have u: "m_uuid m = u" "u \<notin> set (keys ms)" "u \<notin> set (keys (rt_migrations rt))" "keyed ms"
    and disj: "set (keys ms) \<inter> set (keys (rt_migrations rt)) = {}"
    using Cons.prems(3,4) x by (auto simp: keyed_def)
  have "accounted cf B r" and "rt_migrations r = rt_migrations rt \<or> (\<exists>f. rt_migrations r = AList.update u (m, f) (rt_migrations rt))"
    using accounted_migration [OF Cons.prems(2) r(2)] u by auto
  moreover from this have "set (keys ms) \<inter> set (keys (rt_migrations r)) = {}" "wf_dict (rt_migrations r)"
    using Cons.prems(5) u(2) disj by (elim disjE exE; simp only: set_keys_update wf_update; blast)+
  ultimately show ?case using Cons.IH [OF r(3)] u(4) by blast
qed simp

lemma accounted_migrations:
  assumes u: "update_usage_from_migrations cf lookup ms rt = Inr rt'"
    and acc: "accounted cf (\<lambda>k. B k - migrations_need cf (rt_migrations rt) k) rt"
  shows "accounted cf B rt' \<and> wf_dict (rt_migrations rt')"
proof -
  let ?ms = "fold (note_migration lookup) ms []"
  have a: "accounted cf B (rt\<lparr>rt_migrations := []\<rparr>)" using acc by (simp add: accounted_def migrations_need_def)
  have "keyed ?ms" by (rule keyed_notes) (simp add: keyed_def)
  from accounted_migrations_loop [OF u [unfolded update_usage_from_migrations_def] a this] show ?thesis by simp
qed

lemma accounted_orphans:
  "update_usage_from_orphans cf orphans rt = Inr rt' \<Longrightarrow> accounted cf B rt \<Longrightarrow>
   accounted cf (\<lambda>k. B k + orphans_need cf orphans k) rt' \<and> rt_instances rt' = rt_instances rt \<and>
   rt_migrations rt' = rt_migrations rt"
  unfolding update_usage_from_orphans_def
proof (induction orphans arbitrary: rt B)
  case Nil
  then show ?case by (simp add: orphans_need_def)
next
  case (Cons x xs)
  obtain u memory where x: "x = (u, memory)" by (cases x)
  obtain r where r: "update_usage_of cf (orphan_usage memory) 1 rt = Inr r"
      "loop (\<lambda>(uuid, memory). update_usage_of cf (orphan_usage memory) 1) xs r = Inr rt'"
    using Cons.prems(1) x by auto
  note A = accounted_usage_of [OF Cons.prems(2) r(1)]
  have "(\<lambda>k. B k + orphans_need cf (x # xs) k) =
      (\<lambda>k. B k + 1 * need cf (orphan_usage memory) k + orphans_need cf xs k)"
    by (simp add: orphans_need_def x add.assoc)
  then show ?case using Cons.IH [OF r(2) A(1)] by (simp only: A(2,3))
qed

lemma accounted_instances:
  assumes u: "update_usage_from_instances cf instances rt = Inr rt'" and c: "rt_compute rt = Some c"
  shows "accounted cf (\<lambda>k. reserved cf k - migrations_need cf (rt_migrations rt') k) rt' \<and>
    rt_migrations rt' = rt_migrations rt"
proof -
  let ?B = "\<lambda>k. reserved cf k - migrations_need cf (rt_migrations rt) k"
  let ?rt = "set_compute (reset_usage cf) (rt\<lparr>rt_instances := []\<rparr>)"
  have "in_use (reset_usage cf c) k = reserved cf k" for k by (cases k) (simp_all add: reset_usage_def Let_def)
  moreover have "free_agrees (reset_usage cf c)" by (simp add: reset_usage_def free_agrees_def Let_def)
  ultimately have start: "accounted cf ?B ?rt"
    using c by (simp add: accounted_def set_compute_def instances_need_def)
  have "accounted cf ?B rt' \<and> rt_migrations rt' = rt_migrations rt"
  proof (rule loop_inv [OF u [unfolded update_usage_from_instances_def],
        where P = "\<lambda>r. accounted cf ?B r \<and> rt_migrations r = rt_migrations rt"])
    show "accounted cf ?B ?rt \<and> rt_migrations ?rt = rt_migrations rt"
      using start by (simp add: set_compute_def)
    fix inst s s' assume s: "accounted cf ?B s \<and> rt_migrations s = rt_migrations rt"
      "(if vm_state (i_state inst) \<noteq> DELETED_STATE then update_usage_from_instance cf inst s else Inr s) = Inr s'"
    then show "accounted cf ?B s' \<and> rt_migrations s' = rt_migrations rt"
    proof (cases "vm_state (i_state inst) = DELETED_STATE")
      case False
      then have v: "update_usage_from_instance cf inst s = Inr s'" using s(2) by simp
      obtain d where "rt_compute s = Some d" using s(1) by (auto simp: accounted_def)
      from from_instance_effect(2) [OF v this] accounted_from_instance [OF _ v, of ?B] s(1) False
      show ?thesis by auto
    qed simp
  qed
  then show ?thesis by simp
qed

lemma audit_pci_frame: "audit_pci cf ad r rt = Inr rt' \<Longrightarrow> rt' = rt\<lparr>rt_pci := rt_pci rt'\<rparr>"
  by (auto simp: audit_pci_def split: option.splits)

text \<open>The audit from scratch.\<close>

lemma accounted_audit:
  assumes "run_audit cf ad r rt = Inr rt'"
  shows "accounted cf (\<lambda>k. reserved cf k + orphans_need cf (find_orphaned_instances (ad_running ad) rt') k) rt' \<and>
    wf_dict (rt_migrations rt')"
proof -
  obtain r1 r2 r3 r4 r5 r6 where r:
      "init_compute_node cf r (ad_stored_node ad) (ad_blank_node ad) rt = Inr r1"
      "audit_pci cf ad r r1 = Inr r2" "update_usage_from_instances cf (ad_instances ad) r2 = Inr r3"
      "update_usage_from_migrations cf (ad_lookup ad) (ad_migrations ad) r3 = Inr r4"
      "update_usage_from_orphans cf (find_orphaned_instances (ad_running ad) r4) r4 = Inr r5"
      "audit_clean_pci cf ad (keys (find_orphaned_instances (ad_running ad) r4)) r5 = Inr r6"
      "rt' = update_published (set_compute (\<lambda>c. c\<lparr>cn_metrics := ad_metrics ad\<rparr>) r6)"
    using assms unfolding run_audit_def Let_def bind_eq_Inr by blast
  obtain c1 where "rt_compute r1 = Some c1" using r(1) by (auto simp: init_compute_node_def copy_resources_def)
  then have "rt_compute r2 = Some c1" by (subst audit_pci_frame [OF r(2)]) simp
  then have "accounted cf (\<lambda>k. reserved cf k - migrations_need cf (rt_migrations r3) k) r3"
    using accounted_instances [OF r(3)] by blast
  then have a4: "accounted cf (reserved cf) r4" "wf_dict (rt_migrations r4)" using accounted_migrations [OF r(4)] by auto
  let ?os = "find_orphaned_instances (ad_running ad) r4"
  have a5: "accounted cf (\<lambda>k. reserved cf k + orphans_need cf ?os k) r5"
      "rt_instances r5 = rt_instances r4" "rt_migrations r5 = rt_migrations r4"
    using accounted_orphans [OF r(5) a4(1)] by auto
  obtain p where p: "publish_pools (r5\<lparr>rt_pci := p\<rparr>) = Inr r6"
  proof -
    have "\<exists>q. publish_pools q = Inr r6 \<and> q = r5\<lparr>rt_pci := rt_pci q\<rparr>"
      using r(6) by (auto simp: audit_clean_pci_def split: option.splits)
    then show ?thesis using that by metis
  qed
  note P = publish_pools_accounted [OF p]
  have a6: "accounted cf (\<lambda>k. reserved cf k + orphans_need cf ?os k) r6"
    using a5(1) by (simp add: P(1) rt_simps)
  then have "accounted cf (\<lambda>k. reserved cf k + orphans_need cf ?os k) (set_compute (\<lambda>c. c\<lparr>cn_metrics := ad_metrics ad\<rparr>) r6)"
    by (auto simp: accounted_def set_compute_def rt_simps free_agrees_def)
  then have "accounted cf (\<lambda>k. reserved cf k + orphans_need cf ?os k) rt'"
    unfolding r(7) by (rule accounted_published)
  moreover have "rt_instances rt' = rt_instances r4" "rt_migrations rt' = rt_migrations r4"
    using P(2,3) a5(2,3) by (simp_all add: r(7) update_published_use set_compute_def)
  ultimately show ?thesis using a4(2) by (simp add: find_orphaned_instances_def)
qed

section \<open>Between two audits\<close>

text \<open>
  What the compute manager asks of the tracker. An instance that is reported deleted needs what it
  needed when it was counted, a move is claimed for a guest that holds none, and dropped with the
  flavor it was claimed with.
\<close>

inductive rt_step :: "rt_conf \<Rightarrow> tracker \<Rightarrow> tracker \<Rightarrow> bool" for cf where
  claims: "instance_claim cf lims inst rt = (rt', r) \<Longrightarrow> vm_state (i_state inst) \<noteq> DELETED_STATE \<Longrightarrow>
    rt_step cf rt rt'"
| updates: "update_usage cf inst rt = Inr rt' \<Longrightarrow>
    (\<And>old k. vm_state (i_state inst) = DELETED_STATE \<Longrightarrow> map_of (rt_instances rt) (i_uuid inst) = Some old \<Longrightarrow>
      need cf (i_usage old) k = need cf (i_usage inst) k) \<Longrightarrow> rt_step cf rt rt'"
| aborts: "abort_instance_claim cf inst rt = Inr rt' \<Longrightarrow> map_of (rt_instances rt) (i_uuid inst) = Some old \<Longrightarrow>
    (\<And>k. need cf (i_usage old) k = need cf (i_usage inst) k) \<Longrightarrow> rt_step cf rt rt'"
| moves: "move_claim cf lims inst f props reqs m rt = Inr (rt', inst') \<Longrightarrow>
    m_uuid m \<notin> set (keys (rt_migrations rt)) \<Longrightarrow> rt_step cf rt rt'"
| drops: "drop_move_claim cf inst f new rt = Inr (rt', inst') \<Longrightarrow>
    (\<And>m itype. map_of (rt_migrations rt) (i_uuid inst) = Some (m, itype) \<Longrightarrow>
      \<exists>g. (case f of Some g \<Rightarrow> Some g | None \<Rightarrow> get_instance_type inst new m) = Some g \<and>
        flavor_id g = flavor_id itype) \<Longrightarrow> rt_step cf rt rt'"

definition rt_ok :: "rt_conf \<Rightarrow> (kind \<Rightarrow> int) \<Rightarrow> tracker \<Rightarrow> bool" where
  "rt_ok cf B rt \<longleftrightarrow> accounted cf B rt \<and> wf_dict (rt_migrations rt)"

lemma instance_claim_cases:
  assumes "instance_claim cf lims inst rt = (rt', r)" and "rt_compute rt = Some c"
  obtains (refused) e pci where "r = Inl e" "rt' = rt\<lparr>rt_pci := pci\<rparr>"
  | (granted) pci claimed inst' rt2 where
      "claim_test cf lims c (i_uuid inst) (i_usage inst) (rt_pci rt) = (pci, Inr claimed)"
      "inst' = set_instance_host_and_node cf (inst\<lparr>i_usage := (i_usage inst)\<lparr>u_numa := claimed\<rparr>\<rparr>)"
      "update_usage_from_instance cf inst' (rt\<lparr>rt_pci := pci\<rparr>) = Inr rt2"
      "r = Inr inst'" "rt' = update_published rt2"
  using assms unfolding instance_claim_def
  by (auto simp: Let_def split: prod.splits sum.splits)

lemma abort_accounted:
  assumes "accounted cf B rt" and "abort_instance_claim cf inst rt = Inr rt'"
    and "map_of (rt_instances rt) (i_uuid inst) = Some old"
    and "\<And>k. need cf (i_usage old) k = need cf (i_usage inst) k"
  shows "accounted cf B rt'"
proof -
  obtain r where r: "update_usage_from_instance cf (deleted_inst inst) rt = Inr r" "rt' = update_published r"
    using assms(2) by (auto simp: abort_instance_claim_def)
  have "accounted cf B r"
    by (rule accounted_from_instance [OF assms(1) r(1)]) (use assms(3,4) in \<open>auto simp: deleted_inst_def\<close>)
  then show ?thesis unfolding r(2) by (rule accounted_published)
qed

lemma rt_step_ok:
  assumes "rt_step cf rt rt'" and ok: "rt_ok cf B rt"
  shows "rt_ok cf B rt'"
proof -
  have acc: "accounted cf B rt" and wfm: "wf_dict (rt_migrations rt)" using ok by (auto simp: rt_ok_def)
  obtain c where c: "rt_compute rt = Some c" using acc by (auto simp: accounted_def)
  from assms(1) show ?thesis
  proof cases
    case (claims lims inst r)
    from claims(1) c show ?thesis
    proof (cases rule: instance_claim_cases)
      case (refused e pci)
      then show ?thesis using acc wfm by (simp add: rt_ok_def rt_simps)
    next
      case (granted pci claimed inst' rt2)
      have a: "accounted cf B (rt\<lparr>rt_pci := pci\<rparr>)" using acc by (simp add: rt_simps)
      have "vm_state (i_state inst') \<noteq> DELETED_STATE" using claims(2) by (simp add: granted(2) set_instance_host_and_node_def)
      then have "accounted cf B rt2" using accounted_from_instance [OF a granted(3)] by blast
      moreover have "rt_migrations rt2 = rt_migrations rt"
        using from_instance_effect(2) [OF granted(3), of c] c by simp
      ultimately show ?thesis using wfm unfolding granted(5) rt_ok_def
        by (simp add: accounted_published update_published_use)
    qed
  next
    case (updates inst)
    show ?thesis
    proof (cases "disabled rt \<or> i_uuid inst \<notin> set (keys (rt_instances rt))")
      case True
      then show ?thesis using updates(1) ok by (simp add: update_usage_def)
    next
      case False
      then obtain r where r: "update_usage_from_instance cf inst rt = Inr r" "rt' = update_published r"
        using updates(1) by (auto simp: update_usage_def)
      have "map_of (rt_instances rt) (i_uuid inst) \<noteq> None" using False by (simp add: map_of_eq_None_iff)
      then obtain old where "map_of (rt_instances rt) (i_uuid inst) = Some old" by blast
      then have "accounted cf B r" using accounted_from_instance [OF acc r(1)] updates(2) by blast
      then show ?thesis using wfm from_instance_effect(2) [OF r(1) c] unfolding r(2) rt_ok_def
        by (simp add: accounted_published update_published_use)
    qed
  next
    case (aborts inst old)
    have "rt_migrations rt' = rt_migrations rt"
      using aborts(1) from_instance_effect(2) [OF _ c]
      by (auto simp: abort_instance_claim_def update_published_use)
    then show ?thesis using abort_accounted [OF acc aborts] wfm by (simp add: rt_ok_def)
  next
    case (moves lims inst f props reqs m inst')
    then obtain j r where r: "update_usage_from_migration cf j m rt = Inr r" "rt' = update_published r"
      using c by (auto simp: move_claim_def Let_def)
    from accounted_migration [OF acc r(1) moves(2)] have "accounted cf B r" "wf_dict (rt_migrations r)"
      using wfm by auto
    then show ?thesis unfolding r(2) rt_ok_def by (simp add: accounted_published update_published_use)
  next
    case (drops inst f new inst')
    show ?thesis
    proof (cases "map_of (rt_migrations rt) (i_uuid inst)")
      case None
      then show ?thesis using drops(1) ok by (simp add: drop_move_claim_def)
    next
      case (Some mi)
      obtain m itype where mi: "mi = (m, itype)" by (cases mi)
      let ?rt = "rt\<lparr>rt_migrations := AList.delete (i_uuid inst) (rt_migrations rt)\<rparr>"
      obtain g where g: "(case f of Some g \<Rightarrow> Some g | None \<Rightarrow> get_instance_type inst new m) = Some g"
          "flavor_id g = flavor_id itype"
        using drops(2) Some mi by blast
      then obtain r1 r2 where r: "pci_for_migration cf inst (-1) ?rt = Inr r1"
          "update_usage_of cf (flavor_usage itype (migration_numa inst True)) (-1) r1 = Inr r2" "rt' = update_published r2"
        using drops(1) Some mi by (auto simp: drop_move_claim_def Let_def)
      have n: "need cf (flavor_usage itype (migration_numa inst True)) k = need cf (flavor_usage itype None) k" for k
        by (cases k) (simp_all add: claim_memory_def claim_disk_def overhead_def flavor_usage_def)
      have "accounted cf (\<lambda>k. B k + need cf (flavor_usage itype None) k) ?rt"
        using acc migrations_need_delete [OF wfm Some [unfolded mi]] by (auto simp: accounted_def)
      then have "accounted cf (\<lambda>k. B k + need cf (flavor_usage itype None) k) r1"
        by (subst pci_for_migration_frame [OF r(1)]) (simp add: rt_simps)
      from accounted_usage_of [OF this r(2)] have a2: "accounted cf B r2" "rt_migrations r2 = rt_migrations r1"
        by (simp_all add: n)
      have "rt_migrations r1 = rt_migrations ?rt" by (subst pci_for_migration_frame [OF r(1)]) simp
      then have "wf_dict (rt_migrations r2)" using wfm a2(2) by simp
      then show ?thesis using a2(1) unfolding r(3) rt_ok_def by (simp add: accounted_published update_published_use)
    qed
  qed
qed

interpretation runs: guarded_system "rt_step cf" "rt_ok cf B" for cf B
  by unfold_locales (rule rt_step_ok)


section \<open>Claims\<close>

fun limit_on :: "host_limits \<Rightarrow> kind \<Rightarrow> rat option" where
  "limit_on lims Memory = lim_memory_mb lims"
| "limit_on lims Disk = lim_disk_gb lims"
| "limit_on lims Vcpus = lim_vcpu lims"

lemma claim_test_granted:
  assumes "claim_test cf lims c uuid u pci = (pci', Inr claimed)"
  shows "\<not> test_resource (limit_on lims k) (in_use c k) (need cf u k)"
  using assms by (cases k) (auto simp: claim_test_def Let_def split: sum.splits prod.splits if_splits)

text \<open>What a granted claim of a new guest does to the node and the tables.\<close>

lemma granted_claim:
  assumes g: "instance_claim cf lims inst rt = (rt', Inr inst')" and c: "rt_compute rt = Some c"
    and new: "i_uuid inst \<notin> set (keys (rt_instances rt))" "vm_state (i_state inst) \<noteq> DELETED_STATE"
  shows "\<exists>c'. rt_compute rt' = Some c' \<and> (\<forall>k. in_use c' k = in_use c k + need cf (i_usage inst) k) \<and>
      rt_instances rt' = AList.update (i_uuid inst) inst' (rt_instances rt) \<and>
      rt_stats rt' = update_stats_for_instance (i_uuid inst) (i_state inst) (rt_stats rt) \<and>
      (\<forall>k. \<not> test_resource (limit_on lims k) (in_use c k) (need cf (i_usage inst) k)) \<and>
      i_uuid inst' = i_uuid inst \<and> i_state inst' = i_state inst \<and> (\<forall>k. need cf (i_usage inst') k = need cf (i_usage inst) k)"
  using g c
proof (cases rule: instance_claim_cases)
  case (granted pci claimed j rt2)
  have j: "inst' = j" "i_uuid j = i_uuid inst" "i_state j = i_state inst" "\<And>k. need cf (i_usage j) k = need cf (i_usage inst) k"
    using granted(4) by (simp_all add: granted(2) set_instance_host_and_node_def rt_simps)
  have c1: "rt_compute (rt\<lparr>rt_pci := pci\<rparr>) = Some c" using c by simp
  note E = from_instance_effect [OF granted(3) c1]
  have ch: "changes_usage j (rt\<lparr>rt_pci := pci\<rparr>)" using new(1) by (simp add: changes_usage_def j)
  obtain c2 where c2: "rt_compute rt2 = Some c2" "\<And>k. in_use c2 k = in_use c k + need cf (i_usage inst) k"
    using E(5) ch new(2) by (auto simp: j)
  have "rt_instances rt2 = AList.update (i_uuid inst) inst' (rt_instances rt)"
    using new by (simp add: E(1) tracked_after_def j)
  then show ?thesis using c2 E(4) claim_test_granted [OF granted(1)] j
    by (simp add: granted(5) update_published_use rt_simps)
qed simp

text \<open>C31: A claim that is granted for a new guest leaves the memory, disk and virtual CPUs in use within
  every limit the scheduler has sent, overhead included, and counts the guest exactly once.\<close>

theorem granted_claim_within_limits:
  assumes "instance_claim cf lims inst rt = (rt', Inr inst')" and "rt_compute rt = Some c"
    and "i_uuid inst \<notin> set (keys (rt_instances rt))" and "vm_state (i_state inst) \<noteq> DELETED_STATE"
  shows "\<exists>c'. rt_compute rt' = Some c' \<and> in_use c' k = in_use c k + need cf (i_usage inst) k \<and>
    (case limit_on lims k of None \<Rightarrow> True | Some l \<Rightarrow> rat_of_int (in_use c' k) \<le> l)"
proof -
  obtain c' where c': "rt_compute rt' = Some c'" "in_use c' k = in_use c k + need cf (i_usage inst) k"
      "\<not> test_resource (limit_on lims k) (in_use c k) (need cf (i_usage inst) k)"
    using granted_claim [OF assms] by blast
  then show ?thesis by (auto simp: test_resource_def split: option.splits)
qed

text \<open>A refused claim does not give back what it has already taken: when there is too little memory
  but there are PCI devices, the claim is refused and the devices stay claimed for the guest, which
  the tracker does not know.\<close>

theorem refused_claim_keeps_devices:
  assumes "rt_compute rt = Some c" and "cn_numa_topology c = None" and "rt_pci rt = Some t"
    and "rc_requests cf (i_uuid inst) \<noteq> []"
    and "claim_instance (rc_whitelist cf) (rc_requests cf (i_uuid inst))
      (map icell_id (or_default (u_numa (i_usage inst)) [])) (i_uuid inst) t = Inr (t', dev # devs)"
    and "lim_memory_mb lims = Some l" and "l < rat_of_int (cn_memory_mb_used c + claim_memory cf (i_usage inst))"
  shows "instance_claim cf lims inst rt = (rt\<lparr>rt_pci := Some t'\<rparr>, Inl ComputeResourcesUnavailable) \<and>
    dict_get (trk_claims t') (Some (i_uuid inst)) [] = dev # devs"
proof -
  have "test_resource (lim_memory_mb lims) (cn_memory_mb_used c) (claim_memory cf (i_usage inst))"
    using assms(6,7) by (simp add: test_resource_def)
  moreover have "dict_get (trk_claims t') (Some (i_uuid inst)) [] = dev # devs"
    using assms(5) by (auto simp: claim_instance_def dict_get_update split: if_splits)
  ultimately show ?thesis
    using assms(1-5) by (simp add: instance_claim_def claim_test_def test_numa_topology_def test_pci_def)
qed

text \<open>Without PCI devices and NUMA cells nothing can fail.\<close>

definition plain :: "tracker \<Rightarrow> bool" where
  "plain rt \<longleftrightarrow> rt_pci rt = None \<and> (\<exists>c. rt_compute rt = Some c \<and> cn_numa_topology c = None)"

lemma plain_update:
  assumes "plain rt"
  shows "\<exists>rt'. update_usage_from_instance cf inst rt = Inr rt' \<and> plain rt'"
proof -
  obtain c where c: "rt_pci rt = None" "rt_compute rt = Some c" "cn_numa_topology c = None"
    using assms by (auto simp: plain_def)
  have n: "\<exists>c'. update_node_usage cf st u sign c = Inr c' \<and> cn_numa_topology c' = None" for st u sign
    using c(3) by (simp add: update_node_usage_def get_host_numa_usage_from_instance_def
        numa_usage_from_instances_def Let_def)
  define rt1 where "rt1 = rt\<lparr>rt_instances := tracked_after inst rt,
    rt_stats := update_stats_for_instance (i_uuid inst) (i_state inst) (rt_stats rt)\<rparr>"
  define sign :: int where "sign = (if vm_state (i_state inst) = DELETED_STATE then -1 else 1)"
  have p1: "plain rt1" using c by (simp add: rt1_def plain_def)
  have use: "\<exists>rt2. update_usage_of cf u sign rt1 = Inr rt2 \<and> plain rt2" for u
  proof -
    obtain c' where "update_node_usage cf (rt_stats rt1) u sign c = Inr c'" "cn_numa_topology c' = None"
      using n [of "rt_stats rt1" u sign] by blast
    then show ?thesis using c by (simp add: update_usage_of_def rt1_def plain_def)
  qed
  then obtain rt2 where 2: "(if changes_usage inst rt
      then bind (pci_for_instance cf (i_uuid inst) sign rt1) (update_usage_of cf (i_usage inst) sign)
      else Inr rt1) = Inr rt2" "plain rt2"
    using c(1) p1 by (cases "changes_usage inst rt") (auto simp: pci_for_instance_def rt1_def)
  have "update_usage_from_instance cf inst rt =
      publish_pools (set_compute (\<lambda>c. c\<lparr>cn_current_workload := calculate_workload (rt_stats rt2)\<rparr>) rt2)"
    unfolding update_usage_from_instance_def Let_def
    using 2(1) unfolding rt1_def sign_def tracked_after_def changes_usage_def Let_def by simp
  then show ?thesis using 2(2) by (auto simp: publish_pools_def set_compute_def plain_def)
qed

lemma plain_published: "plain rt \<Longrightarrow> plain (update_published rt)"
  by (auto simp: plain_def update_published_use) (simp add: update_published_def set_compute_def Let_def)


section \<open>Witnesses\<close>

abbreviation sample_conf :: rt_conf where
  "sample_conf \<equiv> \<lparr>rc_host = ''h'', rc_node = ''n'', rc_reserved_memory_mb = 512, rc_reserved_disk_mb = 2048,
     rc_ram_ratio = 1, rc_cpu_ratio = 16, rc_overhead = (\<lambda>_. 64), rc_whitelist = [any_spec],
     rc_order = sorted_list_of_set, rc_requests = (\<lambda>_. [])\<rparr>"

abbreviation sample_flavor :: flavor where
  "sample_flavor \<equiv> \<lparr>flavor_id = 1, flavor_name = ''m1'', flavor_vcpus = 2, flavor_memory_mb = 1024,
     flavor_root_gb = 10, flavor_ephemeral_gb = 0, flavor_swap = 0, extra_specs = []\<rparr>"

abbreviation sample_inst :: "string \<Rightarrow> inst" where
  "sample_inst uuid \<equiv> \<lparr>i_uuid = uuid,
     i_state = \<lparr>vm_state = BUILDING, task_state = None, os_type = None, project_id = ''p''\<rparr>,
     i_usage = flavor_usage sample_flavor None, i_host = None, i_node = None, i_launched_on = None,
     i_flavor = sample_flavor, i_old_flavor = None, i_new_flavor = None, i_migration_numa = None\<rparr>"

abbreviation sample_node :: tracked_node where
  "sample_node \<equiv> \<lparr>cn_host = ''h'', cn_hypervisor_hostname = ''n'', cn_memory_mb = 4096, cn_free_disk_gb = 100,
     cn_disk_available_least = None, cn_local_gb_used = 0, cn_free_ram_mb = 4096, cn_local_gb = 100,
     cn_vcpus = 8, cn_vcpus_used = 0, cn_updated_at = None, cn_numa_topology = None, cn_pci_device_pools = [],
     cn_host_ip = ''10.0.0.1'', cn_hypervisor_type = ''QEMU'', cn_hypervisor_version = 1,
     cn_supported_hv_specs = [], cn_stats = [], cn_metrics = [], cn_cpu_allocation_ratio = 16,
     cn_ram_allocation_ratio = 1, cn_memory_mb_used = 0, cn_running_vms = 0, cn_current_workload = 0\<rparr>"

abbreviation sample_report :: virt_resources where
  "sample_report \<equiv> \<lparr>vr_vcpus = 8, vr_memory_mb = 4096, vr_local_gb = 100, vr_vcpus_used = 0,
     vr_memory_mb_used = 700, vr_local_gb_used = 3, vr_numa_topology = None, vr_hypervisor_type = None,
     vr_hypervisor_version = None, vr_hypervisor_hostname = None, vr_disk_available_least = None,
     vr_host_ip = ''10.0.0.1'', vr_supported_instances = None, vr_stats = NoDigest, vr_pci_devices = None\<rparr>"

abbreviation sample_data :: audit_data where
  "sample_data \<equiv> \<lparr>ad_stored_node = None, ad_blank_node = sample_node, ad_pci_node_id = None, ad_stored_devices = [],
     ad_instances = [sample_inst ''a''], ad_lookup = (\<lambda>_. None), ad_migrations = [],
     ad_running = [(''a'', 1024), (''lost'', 300)], ad_metrics = []\<rparr>"

abbreviation fresh_tracker :: tracker where
  "fresh_tracker \<equiv> \<lparr>rt_compute = None, rt_old = None, rt_stats = new_stats, rt_instances = [],
     rt_migrations = [], rt_pci = None\<rparr>"

abbreviation node_tracker :: tracker where
  "node_tracker \<equiv> fresh_tracker\<lparr>rt_compute := Some sample_node\<rparr>"

lemma sample_audit:
  "case run_audit sample_conf sample_data sample_report fresh_tracker of
     Inl _ \<Rightarrow> False
   | Inr rt \<Rightarrow> map (\<lambda>(u, i). u) (rt_instances rt) = [''a''] \<and> rt_migrations rt = [] \<and>
       instances_need sample_conf (rt_instances rt) Memory = 1088 \<and>
       find_orphaned_instances (ad_running sample_data) rt = [(''lost'', 300)]"
  by code_simp


abbreviation sample_limits :: host_limits where
  "sample_limits \<equiv> no_limits\<lparr>lim_memory_mb := Some 2000\<rparr>"

lemma sample_claim:
  "case instance_claim sample_conf sample_limits (sample_inst ''b'') node_tracker of
     (rt, Inr inst) \<Rightarrow> True | (rt, Inl _) \<Rightarrow> False"
  by code_simp

theorem granted_claim_within_limits_witness:
  "case instance_claim sample_conf sample_limits (sample_inst ''b'') node_tracker of
     (rt, Inl _) \<Rightarrow> False
   | (rt, Inr inst) \<Rightarrow> (case rt_compute rt of None \<Rightarrow> False | Some c \<Rightarrow> rat_of_int (in_use c Memory) \<le> 2000)"
proof -
  obtain rt inst where g: "instance_claim sample_conf sample_limits (sample_inst ''b'') node_tracker = (rt, Inr inst)"
    using sample_claim by (auto split: prod.splits sum.splits)
  have c: "rt_compute node_tracker = Some sample_node" by simp
  have n: "i_uuid (sample_inst ''b'') \<notin> set (keys (rt_instances node_tracker))"
      "vm_state (i_state (sample_inst ''b'')) \<noteq> DELETED_STATE"
    by (simp_all add: BUILDING_def DELETED_STATE_def)
  show ?thesis unfolding g using granted_claim_within_limits [OF g c n, of Memory] by auto
qed


abbreviation nic_conf :: rt_conf where
  "nic_conf \<equiv> sample_conf\<lparr>rc_requests := (\<lambda>_. [nic_request 1])\<rparr>"

theorem refused_claim_keeps_devices_witness:
  "case start_tracker of Inl _ \<Rightarrow> False
   | Inr t \<Rightarrow> (case instance_claim nic_conf (no_limits\<lparr>lim_memory_mb := Some 1000\<rparr>) (sample_inst ''vm1'')
         (node_tracker\<lparr>rt_pci := Some t\<rparr>) of
       (rt, r) \<Rightarrow> r = Inl ComputeResourcesUnavailable \<and>
         (case rt_pci rt of None \<Rightarrow> False | Some t' \<Rightarrow> dict_get (trk_claims t') (Some ''vm1'') [] = [nic_addr]))"
proof -
  obtain t t' where t: "start_tracker = Inr t" "claim_instance [any_spec] [nic_request 1] [] ''vm1'' t = Inr (t', [nic_addr])"
    using claimed_tracker_facts by (auto split: sum.splits prod.splits)
  let ?rt = "node_tracker\<lparr>rt_pci := Some t\<rparr>" and ?i = "sample_inst ''vm1''"
  have "rt_compute ?rt = Some sample_node" "cn_numa_topology sample_node = None" "rt_pci ?rt = Some t"
      "rc_requests nic_conf (i_uuid ?i) \<noteq> []"
      "claim_instance (rc_whitelist nic_conf) (rc_requests nic_conf (i_uuid ?i))
        (map icell_id (or_default (u_numa (i_usage ?i)) [])) (i_uuid ?i) t = Inr (t', nic_addr # [])"
      "lim_memory_mb (no_limits\<lparr>lim_memory_mb := Some 1000\<rparr>) = Some 1000"
      "1000 < rat_of_int (cn_memory_mb_used sample_node + claim_memory nic_conf (i_usage ?i))"
    using t(2) by (simp_all add: or_default_def flavor_usage_def claim_memory_def overhead_def)
  from refused_claim_keeps_devices [OF this] t(1) show ?thesis by simp
qed

end
