(* ===== verification/HeatDeps.thy ===== *)
theory HeatDeps
  imports Prelude
begin

text \<open>
  The dependency graph of the orchestration engine (heat/engine/dependencies.py): nodes with edges
  in both directions, a graph that creates a node when it is looked up, the topological sort and the
  part of a graph above a node. A set of keys is a list without repetition in its iteration order,
  and the graph an association list in the dictionary's order.
\<close>

section \<open>Nodes and graphs\<close>

record 'k dep_node =
  require :: "'k list"
  satisfy :: "'k list"

type_synonym 'k graph = "('k, 'k dep_node) dict"

definition new_node :: "'k dep_node" where
  "new_node = \<lparr>require = [], satisfy = []\<rparr>"

definition node_of :: "'k graph \<Rightarrow> 'k \<Rightarrow> 'k dep_node" where
  "node_of g k = dict_get g k new_node"

definition reverse_copy_node :: "'k dep_node \<Rightarrow> 'k dep_node" where
  "reverse_copy_node n = \<lparr>require = satisfy n, satisfy = require n\<rparr>"

definition stem :: "'k dep_node \<Rightarrow> bool" where
  "stem n \<longleftrightarrow> satisfy n = []"

definition leaf :: "'k dep_node \<Rightarrow> bool" where
  "leaf n \<longleftrightarrow> require n = []"

definition disjoint_node :: "'k dep_node \<Rightarrow> bool" where
  "disjoint_node n \<longleftrightarrow> leaf n \<and> stem n"

definition reverse_copy :: "'k graph \<Rightarrow> 'k graph" where
  "reverse_copy g = map (\<lambda>(k, n). (k, reverse_copy_node n)) g"

definition edges :: "'k graph \<Rightarrow> ('k \<times> 'k option) list" where
  "edges g = concat (map (\<lambda>(rqr, n).
     if disjoint_node n then [(rqr, None)] else map (\<lambda>rqd. (rqr, Some rqd)) (require n)) g)"

text \<open>Deleting a node removes it from the requirements of the nodes that require it.\<close>

definition drop_requirement :: "'k \<Rightarrow> 'k \<Rightarrow> 'k graph \<Rightarrow> 'k graph" where
  "drop_requirement key src g =
     (let n = node_of g src in
      AList.update src (if key \<in> set (require n) then n\<lparr>require := remove1 key (require n)\<rparr> else n) g)"

definition delete_node :: "'k \<Rightarrow> 'k graph \<Rightarrow> 'k graph" where
  "delete_node key g = AList.delete key (fold (drop_requirement key) (satisfy (node_of g key)) g)"

text \<open>
  The generator: what it yields before it ends or raises. One leaf is yielded and deleted in each of
  as many rounds as the graph has nodes.
\<close>

fun toposort_rounds :: "nat \<Rightarrow> 'k graph \<Rightarrow> 'k list \<times> unit result" where
  "toposort_rounds 0 g = ([], Inr ())"
| "toposort_rounds (Suc n) g =
     (case filter (\<lambda>(k, nd). leaf nd) g of
        [] \<Rightarrow> ([], Inl CircularDependencyException)
      | (k, _) # _ \<Rightarrow> (let (ks, r) = toposort_rounds n (delete_node k g) in (k # ks, r)))"

definition toposort :: "'k graph \<Rightarrow> 'k list \<times> unit result" where
  "toposort g = toposort_rounds (length g) g"

section \<open>Dependencies\<close>

definition add_edge :: "'k \<times> 'k option \<Rightarrow> 'k graph \<Rightarrow> 'k graph" where
  "add_edge e g =
     (case e of
        (requirer, None) \<Rightarrow> AList.update requirer (node_of g requirer) g
      | (requirer, Some required) \<Rightarrow>
          (let n = node_of g required;
               g1 = AList.update required (n\<lparr>satisfy := List.union (satisfy n) [requirer]\<rparr>) g;
               m = node_of g1 requirer
           in AList.update requirer (m\<lparr>require := List.union (require m) [required]\<rparr>) g1))"

definition dependencies :: "('k \<times> 'k option) list \<Rightarrow> 'k graph" where
  "dependencies es = fold add_edge es []"

definition deps_required_by :: "'k graph \<Rightarrow> 'k \<Rightarrow> 'k list result" where
  "deps_required_by g key = (if key \<in> set (keys g) then Inr (satisfy (node_of g key)) else Inl KeyError)"

definition deps_requires :: "'k graph \<Rightarrow> 'k \<Rightarrow> 'k list result" where
  "deps_requires g target = (if target \<in> set (keys g) then Inr (require (node_of g target)) else Inl KeyError)"

text \<open>
  The edges above a node. The recursion follows the requirers and ends only where there are none;
  \<open>None\<close> is a recursion deeper than the fuel.
\<close>

fun get_edges :: "nat \<Rightarrow> 'k graph \<Rightarrow> 'k \<Rightarrow> ('k \<times> 'k option) list option" where
  "get_edges 0 g key = None"
| "get_edges (Suc n) g key =
     map_option concat (those (map (\<lambda>rqr. map_option ((#) (rqr, Some key)) (get_edges n g rqr))
       (satisfy (node_of g key))))"

text \<open>\<open>self[last]\<close>: \<open>None\<close> inside the result is a recursion that has not ended within the fuel.\<close>

definition deps_getitem :: "nat \<Rightarrow> 'k graph \<Rightarrow> 'k \<Rightarrow> 'k graph option result" where
  "deps_getitem fuel g key =
     (if key \<notin> set (keys g) then Inl KeyError
      else if stem (node_of g key) then Inr (Some (dependencies [(key, None)]))
      else Inr (map_option dependencies (get_edges fuel g key)))"

definition leaves :: "'k graph \<Rightarrow> 'k list" where
  "leaves g = map fst (filter (\<lambda>(k, n). leaf n) g)"

definition roots :: "'k graph \<Rightarrow> 'k list" where
  "roots g = map fst (filter (\<lambda>(k, n). leaf n) (reverse_copy g))"

definition translate :: "('k \<Rightarrow> 'j) \<Rightarrow> 'k graph \<Rightarrow> 'j graph" where
  "translate transform g = dependencies (map (\<lambda>(a, b). (transform a, map_option transform b)) (edges g))"

definition deps_iter :: "'k graph \<Rightarrow> 'k list \<times> unit result" where
  "deps_iter g = toposort g"

definition deps_reversed :: "'k graph \<Rightarrow> 'k list \<times> unit result" where
  "deps_reversed g = toposort (reverse_copy g)"

section \<open>Well-formed graphs\<close>

definition nodes :: "'k graph \<Rightarrow> 'k set" where
  "nodes g = set (keys g)"

definition edge_rel :: "'k graph \<Rightarrow> ('k \<times> 'k) set" where
  "edge_rel g = {(a, b). b \<in> set (require (node_of g a))}"

definition wf_graph :: "'k graph \<Rightarrow> bool" where
  "wf_graph g \<longleftrightarrow> wf_dict g \<and>
     (\<forall>a b. b \<in> set (require (node_of g a)) \<longleftrightarrow> a \<in> set (satisfy (node_of g b))) \<and>
     (\<forall>a. distinct (require (node_of g a)) \<and> distinct (satisfy (node_of g a))) \<and>
     edge_rel g \<subseteq> nodes g \<times> nodes g"

named_theorems graph_simps

lemma node_of_update [graph_simps]: "node_of (AList.update k n g) j = (if j = k then n else node_of g j)"
  by (simp add: node_of_def dict_get_def)

lemma node_of_delete [graph_simps]: "node_of (AList.delete k g) j = (if j = k then new_node else node_of g j)"
  by (simp add: node_of_def dict_get_def)

lemma node_of_absent: "k \<notin> nodes g \<Longrightarrow> node_of g k = new_node"
  by (simp add: node_of_def dict_get_def nodes_def map_of_eq_None_iff [THEN iffD2])

lemma keys_update_set [graph_simps]: "nodes (AList.update k n g) = insert k (nodes g)"
  by (auto simp: nodes_def update_keys)

lemma keys_delete_set [graph_simps]: "nodes (AList.delete k g) = nodes g - {k}"
  by (auto simp: nodes_def delete_keys)

lemma wf_graphI:
  assumes "wf_dict g" and "\<And>a b. b \<in> set (require (node_of g a)) \<longleftrightarrow> a \<in> set (satisfy (node_of g b))"
    and "\<And>a. distinct (require (node_of g a)) \<and> distinct (satisfy (node_of g a))"
    and "edge_rel g \<subseteq> nodes g \<times> nodes g"
  shows "wf_graph g"
  using assms unfolding wf_graph_def by blast

lemma wf_graphD:
  assumes "wf_graph g"
  shows "wf_dict g" and "b \<in> set (require (node_of g a)) \<longleftrightarrow> a \<in> set (satisfy (node_of g b))"
    and "distinct (require (node_of g a))" and "distinct (satisfy (node_of g a))"
    and "edge_rel g \<subseteq> nodes g \<times> nodes g"
  using assms unfolding wf_graph_def by blast+

lemma edge_rel_iff: "(a, b) \<in> edge_rel g \<longleftrightarrow> b \<in> set (require (node_of g a))"
  by (simp add: edge_rel_def)

lemma wf_empty: "wf_graph []"
  by (rule wf_graphI) (simp_all add: node_of_def dict_get_def new_node_def edge_rel_def nodes_def)

lemma add_edge_require:
  "set (require (node_of (add_edge (a, r) g) x)) =
     set (require (node_of g x)) \<union> (if x = a then set_option r else {})"
  by (cases r) (auto simp: add_edge_def Let_def graph_simps)

lemma add_edge_satisfy:
  "set (satisfy (node_of (add_edge (a, r) g) x)) =
     set (satisfy (node_of g x)) \<union> (if r = Some x then {a} else {})"
  by (cases r) (auto simp: add_edge_def Let_def graph_simps)

lemma add_edge_keys: "nodes (add_edge (a, r) g) = insert a (set_option r \<union> nodes g)"
  by (cases r) (auto simp: add_edge_def Let_def graph_simps)

lemma add_edge_distinct:
  assumes "\<And>x. distinct (require (node_of g x)) \<and> distinct (satisfy (node_of g x))"
  shows "distinct (require (node_of (add_edge (a, r) g) x)) \<and> distinct (satisfy (node_of (add_edge (a, r) g) x))"
  using assms by (cases r) (auto simp: add_edge_def Let_def graph_simps)

lemma add_edge_wf:
  assumes "wf_graph g"
  shows "wf_graph (add_edge (a, r) g)"
proof (rule wf_graphI)
  show "wf_dict (add_edge (a, r) g)" using wf_graphD(1) [OF assms]
    by (cases r) (simp_all add: add_edge_def Let_def)
  show "\<And>x y. y \<in> set (require (node_of (add_edge (a, r) g) x)) \<longleftrightarrow>
      x \<in> set (satisfy (node_of (add_edge (a, r) g) y))"
    unfolding add_edge_require add_edge_satisfy using wf_graphD(2) [OF assms] by auto
  show "\<And>x. distinct (require (node_of (add_edge (a, r) g) x)) \<and> distinct (satisfy (node_of (add_edge (a, r) g) x))"
    by (rule add_edge_distinct) (use wf_graphD(3,4) [OF assms] in blast)
  show "edge_rel (add_edge (a, r) g) \<subseteq> nodes (add_edge (a, r) g) \<times> nodes (add_edge (a, r) g)"
    unfolding add_edge_keys using wf_graphD(5) [OF assms]
    by (auto simp: edge_rel_def add_edge_require split: if_splits)
qed

text \<open>What a list of edges builds.\<close>

definition edge_set :: "('k \<times> 'k option) list \<Rightarrow> ('k \<times> 'k) set" where
  "edge_set es = {(a, b). (a, Some b) \<in> set es}"

definition node_set :: "('k \<times> 'k option) list \<Rightarrow> 'k set" where
  "node_set es = fst ` set es \<union> {b. \<exists>a. (a, Some b) \<in> set es}"

lemma fold_add_edge:
  "wf_graph g \<Longrightarrow> wf_graph (fold add_edge es g) \<and>
   edge_rel (fold add_edge es g) = edge_rel g \<union> edge_set es \<and>
   nodes (fold add_edge es g) = nodes g \<union> node_set es"
proof (induction es arbitrary: g)
  case (Cons e es)
  obtain a r where e: "e = (a, r)" by (cases e)
  have "edge_rel (add_edge e g) = edge_rel g \<union> edge_set [e]"
    unfolding e by (auto simp: edge_rel_def edge_set_def add_edge_require split: if_splits)
  moreover have "nodes (add_edge e g) = nodes g \<union> node_set [e]"
    unfolding e add_edge_keys by (cases r) (auto simp: node_set_def)
  moreover have "wf_graph (add_edge e g)" unfolding e using Cons.prems by (rule add_edge_wf)
  ultimately show ?case using Cons.IH [of "add_edge e g"]
    by (auto simp: edge_set_def node_set_def)
qed (simp add: edge_set_def node_set_def)

lemma edge_rel_Nil [simp]: "edge_rel [] = {}"
  by (simp add: edge_rel_def node_of_def dict_get_def new_node_def)

lemma nodes_Nil [simp]: "nodes [] = {}"
  by (simp add: nodes_def)

lemma dependencies_wf: "wf_graph (dependencies es)"
  and dependencies_edges: "edge_rel (dependencies es) = edge_set es"
  and dependencies_keys: "nodes (dependencies es) = node_set es"
  using fold_add_edge [OF wf_empty, of es] by (simp_all add: dependencies_def)

section \<open>The topological sort\<close>

lemma node_of_drop:
  "node_of (drop_requirement k src g) j =
     (if j = src then (node_of g j)\<lparr>require := remove1 k (require (node_of g j))\<rparr> else node_of g j)"
  by (simp add: drop_requirement_def Let_def graph_simps remove1_idem)

lemma node_of_fold_drop:
  "distinct srcs \<Longrightarrow> node_of (fold (drop_requirement k) srcs g) j =
     (if j \<in> set srcs then (node_of g j)\<lparr>require := remove1 k (require (node_of g j))\<rparr> else node_of g j)"
  by (induction srcs arbitrary: g) (auto simp: node_of_drop)

lemma nodes_fold_drop: "nodes (fold (drop_requirement k) srcs g) = nodes g \<union> set srcs"
  by (induction srcs arbitrary: g) (auto simp: drop_requirement_def Let_def graph_simps)

lemma wf_dict_fold_drop: "wf_dict g \<Longrightarrow> wf_dict (fold (drop_requirement k) srcs g)"
  by (induction srcs arbitrary: g) (simp_all add: drop_requirement_def Let_def)

lemma length_nodes: "wf_dict g \<Longrightarrow> length g = card (nodes g)"
  unfolding nodes_def by (metis distinct_card length_map)

lemma finite_nodes [simp]: "finite (nodes g)"
  by (simp add: nodes_def)

text \<open>Deleting a leaf of a well-formed graph.\<close>

lemma delete_leaf:
  assumes "wf_graph g" and "k \<in> nodes g" and "require (node_of g k) = []"
  shows "wf_graph (delete_node k g)" and "nodes (delete_node k g) = nodes g - {k}"
    and "edge_rel (delete_node k g) = {(a, b) \<in> edge_rel g. b \<noteq> k}"
    and "length (delete_node k g) = length g - 1"
proof -
  note D = wf_graphD [OF assms(1)]
  let ?s = "satisfy (node_of g k)"
  have sub: "set ?s \<subseteq> nodes g" using D(2,5) by (auto simp: edge_rel_def)
  have node: "node_of (delete_node k g) j =
      (if j = k then new_node
       else if j \<in> set ?s then (node_of g j)\<lparr>require := remove1 k (require (node_of g j))\<rparr> else node_of g j)" for j
    by (simp add: delete_node_def graph_simps node_of_fold_drop [OF D(4)])
  show n: "nodes (delete_node k g) = nodes g - {k}"
    using sub by (auto simp: delete_node_def graph_simps nodes_fold_drop)
  have req: "set (require (node_of (delete_node k g) j)) = set (require (node_of g j)) - {k}" for j
    using D(2) [of k j] D(3) [of j] assms(3) by (auto simp: node new_node_def)
  have sat: "set (satisfy (node_of (delete_node k g) j)) = (if j = k then {} else set (satisfy (node_of g j)))" for j
    by (simp add: node new_node_def)
  have w: "wf_dict (delete_node k g)" using D(1) by (simp add: delete_node_def wf_dict_fold_drop)
  show e: "edge_rel (delete_node k g) = {(a, b) \<in> edge_rel g. b \<noteq> k}"
    by (auto simp: edge_rel_def req)
  show "wf_graph (delete_node k g)"
  proof (rule wf_graphI [OF w])
    show "\<And>a b. b \<in> set (require (node_of (delete_node k g) a)) \<longleftrightarrow>
        a \<in> set (satisfy (node_of (delete_node k g) b))"
      unfolding req sat using D(2) by auto
    show "\<And>a. distinct (require (node_of (delete_node k g) a)) \<and> distinct (satisfy (node_of (delete_node k g) a))"
      using D(3,4) by (simp add: node new_node_def)
    show "edge_rel (delete_node k g) \<subseteq> nodes (delete_node k g) \<times> nodes (delete_node k g)"
      unfolding e n using D(5) assms(3) by (auto simp: edge_rel_def)
  qed
  show "length (delete_node k g) = length g - 1"
    using length_nodes [OF w] length_nodes [OF D(1)] n assms(2) by simp
qed

lemma no_leaf_cycle:
  assumes "wf_graph g" and "g \<noteq> []" and "filter (\<lambda>(k, nd). leaf nd) g = []"
  shows "\<not> acyclic (edge_rel g)"
proof
  assume acyc: "acyclic (edge_rel g)"
  have fin: "finite (edge_rel g)"
    using wf_graphD(5) [OF assms(1)] by (rule finite_subset) simp
  have "wf ((edge_rel g)\<inverse>)" using fin acyc by (simp add: finite_acyclic_wf_converse)
  moreover have "nodes g \<noteq> {}" using assms(2) by (simp add: nodes_def)
  ultimately obtain a where a: "a \<in> nodes g" "\<And>b. (b, a) \<in> (edge_rel g)\<inverse> \<Longrightarrow> b \<notin> nodes g"
    by (metis all_not_in_conv wf_eq_minimal)
  have "b \<notin> set (require (node_of g a))" for b
    using a(2) [of b] wf_graphD(5) [OF assms(1)] by (auto simp: edge_rel_def)
  then have "require (node_of g a) = []" by (cases "require (node_of g a)") auto
  moreover obtain nd where "(a, nd) \<in> set g" using a(1) by (auto simp: nodes_def)
  moreover from this have "node_of g a = nd"
    using wf_graphD(1) [OF assms(1)] by (simp add: node_of_def dict_get_def)
  ultimately show False using assms(3) by (auto simp: filter_empty_conv leaf_def)
qed

lemma acyclic_sink:
  assumes "acyclic {(a, b) \<in> r. b \<noteq> k}" and "\<And>b. (k, b) \<notin> r"
  shows "acyclic r"
proof -
  have path: "(x, y) \<in> r\<^sup>+ \<Longrightarrow> y \<noteq> k \<Longrightarrow> (x, y) \<in> {(a, b) \<in> r. b \<noteq> k}\<^sup>+" for x y
  proof (induction rule: trancl_induct)
    case (step y z)
    then have "y \<noteq> k" using assms(2) by auto
    then show ?case using step by (metis (mono_tags, lifting) case_prodI mem_Collect_eq trancl.trancl_into_trancl)
  qed auto
  have "(x, x) \<notin> r\<^sup>+" for x
  proof
    assume c: "(x, x) \<in> r\<^sup>+"
    then have "x \<noteq> k" using assms(2) by (meson tranclD)
    then show False using path [OF c] assms(1) by (simp add: acyclic_def)
  qed
  then show ?thesis by (simp add: acyclic_def)
qed

text \<open>Every key comes after what it requires.\<close>

definition ordered_by :: "('k \<times> 'k) set \<Rightarrow> 'k list \<Rightarrow> bool" where
  "ordered_by r ks \<longleftrightarrow> (\<forall>us a vs. ks = us @ a # vs \<longrightarrow> (\<forall>b. (a, b) \<in> r \<longrightarrow> b \<in> set us))"

lemma ordered_by_Nil [simp]: "ordered_by r []"
  by (simp add: ordered_by_def)

lemma ordered_by_Cons:
  assumes "ordered_by {(a, b) \<in> r. b \<noteq> k} ks" and "\<And>b. (k, b) \<notin> r"
  shows "ordered_by r (k # ks)"
  unfolding ordered_by_def
proof (intro allI impI)
  fix us a vs b
  assume eq: "k # ks = us @ a # vs" and ab: "(a, b) \<in> r"
  show "b \<in> set us"
  proof (cases us)
    case Nil
    then show ?thesis using eq ab assms(2) by simp
  next
    case (Cons u us')
    then show ?thesis using eq ab assms(1) by (auto simp: ordered_by_def)
  qed
qed

lemma toposort_rounds_correct:
  assumes "wf_graph g" and "length g = n" and "toposort_rounds n g = (ks, r)"
  shows "distinct ks \<and> set ks \<subseteq> nodes g \<and> ordered_by (edge_rel g) ks \<and>
    (case r of Inr _ \<Rightarrow> set ks = nodes g \<and> acyclic (edge_rel g)
     | Inl e \<Rightarrow> e = CircularDependencyException \<and> \<not> acyclic (edge_rel g))"
  using assms
proof (induction n arbitrary: g ks r)
  case 0
  then show ?case by (auto simp: acyclic_def)
next
  case (Suc n)
  have ne: "g \<noteq> []" using Suc.prems(2) by auto
  show ?case
  proof (cases "filter (\<lambda>(k, nd). leaf nd) g")
    case Nil
    then show ?thesis using Suc.prems(3) no_leaf_cycle [OF Suc.prems(1) ne] by auto
  next
    case (Cons x xs)
    obtain k nd where x: "x = (k, nd)" by (cases x)
    have "(k, nd) \<in> set (filter (\<lambda>(k, nd). leaf nd) g)" unfolding Cons x by simp
    then have mem: "(k, nd) \<in> set g" "leaf nd" by auto
    then have k: "k \<in> nodes g" by (force simp: nodes_def)
    have "node_of g k = nd"
      using mem(1) wf_graphD(1) [OF Suc.prems(1)] by (simp add: node_of_def dict_get_def)
    then have lf: "require (node_of g k) = []" using mem(2) by (simp add: leaf_def)
    note del = delete_leaf [OF Suc.prems(1) k lf]
    obtain ks' where rest: "toposort_rounds n (delete_node k g) = (ks', r)" and ks: "ks = k # ks'"
      using Suc.prems(3) Cons x by (auto split: prod.splits)
    have sink: "(k, b) \<notin> edge_rel g" for b using lf by (simp add: edge_rel_def)
    have len: "length (delete_node k g) = n" using del(4) Suc.prems(2) by simp
    note IH = Suc.IH [OF del(1) len rest]
    have "ordered_by (edge_rel g) ks" unfolding ks
      using IH sink del(3) by (intro ordered_by_Cons) simp_all
    moreover have "distinct ks" "set ks \<subseteq> nodes g" using IH k unfolding ks del(2) by auto
    moreover have "acyclic (edge_rel g) = acyclic (edge_rel (delete_node k g))"
    proof
      assume "acyclic (edge_rel g)"
      then show "acyclic (edge_rel (delete_node k g))" by (rule acyclic_subset) (auto simp: del(3))
    next
      assume "acyclic (edge_rel (delete_node k g))"
      then show "acyclic (edge_rel g)" unfolding del(3) by (rule acyclic_sink [OF _ sink])
    qed
    ultimately show ?thesis using IH k ks unfolding del(2) by (auto split: sum.splits)
  qed
qed

text \<open>C17: iterating over the dependencies given by any list of edges yields every node once, each after
  all the nodes it requires, when the edges have no cycle; and exactly when they have one it raises,
  after a prefix in which the order holds as well.\<close>

theorem toposort_orders_or_detects_cycle:
  "let (ks, r) = deps_iter (dependencies es) in
     distinct ks \<and> set ks \<subseteq> node_set es \<and> ordered_by (edge_set es) ks \<and>
     (if acyclic (edge_set es) then r = Inr () \<and> set ks = node_set es
      else r = Inl CircularDependencyException)"
proof -
  obtain ks r where t: "deps_iter (dependencies es) = (ks, r)" by (cases "deps_iter (dependencies es)")
  from toposort_rounds_correct [OF dependencies_wf refl t [unfolded deps_iter_def toposort_def]]
  show ?thesis unfolding t dependencies_edges
    using dependencies_keys [of es] by (auto split: sum.splits)
qed

section \<open>The graph above a node\<close>

definition no_cycle_above :: "('k \<times> 'k) set \<Rightarrow> 'k \<Rightarrow> bool" where
  "no_cycle_above r key \<longleftrightarrow> (\<forall>x. (x, key) \<in> r\<^sup>* \<longrightarrow> (x, x) \<notin> r\<^sup>+)"

definition above :: "('k \<times> 'k) set \<Rightarrow> 'k \<Rightarrow> ('k \<times> 'k) set" where
  "above r key = {(a, b) \<in> r. (b, key) \<in> r\<^sup>*}"

lemma those_map_Some:
  "(\<And>x. x \<in> set xs \<Longrightarrow> f x = Some (h x)) \<Longrightarrow> those (map f xs) = Some (map h xs)"
  by (induction xs) auto

lemma those_None: "None \<in> set xs \<Longrightarrow> those xs = None"
  by (induction xs) (auto split: option.split)

lemma above_step: "above r key = (\<Union>x \<in> {x. (x, key) \<in> r}. insert (x, key) (above r x))"
proof (intro equalityI subsetI)
  fix e assume "e \<in> above r key"
  then obtain a b where e: "e = (a, b)" "(a, b) \<in> r" "(b, key) \<in> r\<^sup>*" by (auto simp: above_def)
  show "e \<in> (\<Union>x \<in> {x. (x, key) \<in> r}. insert (x, key) (above r x))"
  proof (cases "b = key")
    case True
    then show ?thesis using e by auto
  next
    case False
    then obtain x where "(b, x) \<in> r\<^sup>*" "(x, key) \<in> r" using e(3) by (meson rtranclE)
    then show ?thesis using e(1,2) by (auto simp: above_def)
  qed
next
  fix e assume "e \<in> (\<Union>x \<in> {x. (x, key) \<in> r}. insert (x, key) (above r x))"
  then show "e \<in> above r key"
    by (auto simp: above_def intro: rtrancl.rtrancl_into_rtrancl)
qed

lemma satisfy_edges: "wf_graph g \<Longrightarrow> set (satisfy (node_of g key)) = {x. (x, key) \<in> edge_rel g}"
  using wf_graphD(2) by (fastforce simp: edge_rel_def)

lemma get_edges_enough_fuel:
  assumes "wf_graph g" and "no_cycle_above (edge_rel g) key"
    and "card {x. (x, key) \<in> (edge_rel g)\<^sup>+} < n"
  shows "\<exists>es. get_edges n g key = Some es \<and> set es = (\<lambda>(a, b). (a, Some b)) ` above (edge_rel g) key"
  using assms(2,3)
proof (induction n arbitrary: key)
  case (Suc n)
  let ?r = "edge_rel g"
  let ?up = "\<lambda>k. {x. (x, k) \<in> ?r\<^sup>+}"
  have fin: "finite (?up k)" for k
  proof (rule finite_subset)
    show "?up k \<subseteq> nodes g" using wf_graphD(5) [OF assms(1)] by (auto dest: tranclD)
  qed simp
  have "\<exists>es. get_edges n g x = Some es \<and> set es = (\<lambda>(a, b). (a, Some b)) ` above ?r x"
    if x: "(x, key) \<in> ?r" for x
  proof (rule Suc.IH)
    show nc: "no_cycle_above ?r x"
      using Suc.prems(1) x unfolding no_cycle_above_def by (meson rtrancl.rtrancl_into_rtrancl)
    have "x \<notin> ?up x" using nc unfolding no_cycle_above_def by blast
    moreover have "x \<in> ?up key" using x by auto
    moreover have "?up x \<subseteq> ?up key" using x by (auto intro: trancl.trancl_into_trancl)
    ultimately have "card (?up x) < card (?up key)" by (intro psubset_card_mono fin) blast
    then show "card (?up x) < n" using Suc.prems(2) by simp
  qed
  then obtain h where h: "\<And>x. (x, key) \<in> ?r \<Longrightarrow> get_edges n g x = Some (h x) \<and>
      set (h x) = (\<lambda>(a, b). (a, Some b)) ` above ?r x" by metis
  note sat = satisfy_edges [OF assms(1), of key]
  have t: "those (map (\<lambda>rqr. map_option ((#) (rqr, Some key)) (get_edges n g rqr)) (satisfy (node_of g key))) =
      Some (map (\<lambda>x. (x, Some key) # h x) (satisfy (node_of g key)))"
    by (rule those_map_Some) (use h sat in auto)
  have "set (concat (map (\<lambda>x. (x, Some key) # h x) (satisfy (node_of g key)))) =
      (\<Union>x \<in> {x. (x, key) \<in> ?r}. insert (x, Some key) ((\<lambda>(a, b). (a, Some b)) ` above ?r x))"
    using h sat by auto
  also have "\<dots> = (\<lambda>(a, b). (a, Some b)) ` above ?r key"
    unfolding above_step [of ?r key] by auto
  finally show ?case using t by simp
qed simp

lemma get_edges_diverges:
  assumes "wf_graph g" and "(x, key) \<in> (edge_rel g)\<^sup>*" and "(x, x) \<in> (edge_rel g)\<^sup>+"
  shows "get_edges n g key = None"
  using assms(2,3)
proof (induction n arbitrary: key)
  case (Suc n)
  let ?r = "edge_rel g"
  obtain y where y: "(x, y) \<in> ?r\<^sup>*" "(y, key) \<in> ?r"
  proof (cases "x = key")
    case True
    then show ?thesis using Suc.prems(2) that by (meson tranclD2)
  next
    case False
    then show ?thesis using Suc.prems(1) that by (meson rtranclE)
  qed
  then have "get_edges n g y = None" using Suc.IH Suc.prems(2) by blast
  moreover have "y \<in> set (satisfy (node_of g key))" using y(2) satisfy_edges [OF assms(1)] by blast
  ultimately have "None \<in> set (map (\<lambda>rqr. map_option ((#) (rqr, Some key)) (get_edges n g rqr)) (satisfy (node_of g key)))"
    by force
  then show ?case by (simp add: those_None)
qed simp

lemma up_bound:
  assumes "wf_graph g" and "no_cycle_above (edge_rel g) key" and "key \<in> nodes g"
  shows "card {x. (x, key) \<in> (edge_rel g)\<^sup>+} < length g"
proof -
  have "(key, key) \<notin> (edge_rel g)\<^sup>+" using assms(2) by (auto simp: no_cycle_above_def)
  then have "{x. (x, key) \<in> (edge_rel g)\<^sup>+} \<subset> nodes g"
    using wf_graphD(5) [OF assms(1)] assms(3) by (auto dest: tranclD)
  then show ?thesis using length_nodes [OF wf_graphD(1) [OF assms(1)]] by (simp add: psubset_card_mono)
qed

lemma node_set_edges:
  "set ps = (\<lambda>(a, b). (a, Some b)) ` r \<Longrightarrow> node_set ps = Field r \<and> edge_set ps = r"
  by (force simp: node_set_def edge_set_def Field_def)

lemma partial_graph_cases:
  assumes "key \<in> node_set es"
  shows "(\<exists>fuel g. deps_getitem fuel (dependencies es) key = Inr (Some g)) =
      no_cycle_above (edge_set es) key" (is ?returns)
    and "no_cycle_above (edge_set es) key \<Longrightarrow>
      \<exists>g. deps_getitem (length (dependencies es)) (dependencies es) key = Inr (Some g) \<and>
        edge_rel g = above (edge_set es) key \<and> nodes g = insert key (Field (above (edge_set es) key))"
proof -
  let ?g = "dependencies es"
  have k: "key \<in> nodes ?g" "key \<in> set (keys ?g)"
    using assms dependencies_keys [of es] by (simp_all add: nodes_def)
  show part: "\<exists>g. deps_getitem (length ?g) ?g key = Inr (Some g) \<and>
      edge_rel g = above (edge_set es) key \<and> nodes g = insert key (Field (above (edge_set es) key))"
    if nc: "no_cycle_above (edge_set es) key"
  proof (cases "stem (node_of ?g key)")
    case True
    then have "{x. (x, key) \<in> edge_set es} = {}"
      using satisfy_edges [OF dependencies_wf, of es key] by (simp add: stem_def dependencies_edges)
    then have "above (edge_set es) key = {}" using above_step [of "edge_set es" key] by simp
    moreover have "edge_rel (dependencies [(key, None)]) = {}" "nodes (dependencies [(key, None)]) = {key}"
      by (simp_all add: dependencies_edges dependencies_keys edge_set_def node_set_def)
    ultimately show ?thesis using True k by (simp add: deps_getitem_def)
  next
    case False
    have nc': "no_cycle_above (edge_rel ?g) key" using nc by (simp add: dependencies_edges)
    from get_edges_enough_fuel [OF dependencies_wf nc' up_bound [OF dependencies_wf nc' k(1)]]
    obtain ps where ps: "get_edges (length ?g) ?g key = Some ps"
      and set: "set ps = (\<lambda>(a, b). (a, Some b)) ` above (edge_set es) key"
      by (auto simp: dependencies_edges)
    have "\<exists>y. (y, key) \<in> edge_set es"
      using False satisfy_edges [OF dependencies_wf, of es key]
      by (cases "satisfy (node_of ?g key)") (auto simp: stem_def dependencies_edges)
    then have "key \<in> Field (above (edge_set es) key)" by (auto simp: above_def Field_def)
    then show ?thesis using False k ps node_set_edges [OF set]
      by (auto simp: deps_getitem_def dependencies_edges dependencies_keys)
  qed
  show ?returns
  proof
    assume "no_cycle_above (edge_set es) key"
    then show "\<exists>fuel g. deps_getitem fuel ?g key = Inr (Some g)" using part by blast
  next
    assume "\<exists>fuel g. deps_getitem fuel ?g key = Inr (Some g)"
    then obtain fuel g where r: "deps_getitem fuel ?g key = Inr (Some g)" by blast
    show "no_cycle_above (edge_set es) key"
    proof (rule ccontr)
      assume "\<not> no_cycle_above (edge_set es) key"
      then obtain x where x: "(x, key) \<in> (edge_rel ?g)\<^sup>*" "(x, x) \<in> (edge_rel ?g)\<^sup>+"
        by (auto simp: no_cycle_above_def dependencies_edges)
      then have "get_edges fuel ?g key = None" by (rule get_edges_diverges [OF dependencies_wf])
      moreover have "\<not> stem (node_of ?g key)"
      proof
        assume "stem (node_of ?g key)"
        then have "{y. (y, key) \<in> edge_rel ?g} = {}"
          using satisfy_edges [OF dependencies_wf, of es key] by (simp add: stem_def)
        moreover have "\<exists>y. (y, key) \<in> edge_rel ?g"
          using x by (metis rtranclE tranclD2)
        ultimately show False by blast
      qed
      ultimately show False using r k by (simp add: deps_getitem_def)
    qed
  qed
qed

text \<open>C37: taking the part of the dependencies above a node returns if and only if no cycle leads to the
  node. A recursion as deep as the graph has nodes is then enough, and the result has exactly the
  edges between the nodes that transitively require the node; with a cycle no depth is enough.\<close>

theorem partial_graph_terminates:
  assumes "key \<in> node_set es"
  shows "if no_cycle_above (edge_set es) key
    then \<exists>g. deps_getitem (length (dependencies es)) (dependencies es) key = Inr (Some g) \<and>
      edge_rel g = above (edge_set es) key \<and> nodes g = insert key (Field (above (edge_set es) key))
    else \<nexists>fuel g. deps_getitem fuel (dependencies es) key = Inr (Some g)"
  using partial_graph_cases [OF assms] by auto

theorem partial_graph_terminates_witness:
  "\<exists>g. deps_getitem 2 (dependencies [(CHR ''a'', Some (CHR ''b''))]) (CHR ''b'') = Inr (Some g) \<and>
    edge_rel g = {(CHR ''a'', CHR ''b'')}"
proof -
  let ?es = "[(CHR ''a'', Some (CHR ''b''))]"
  have r: "edge_set ?es = {(CHR ''a'', CHR ''b'')}" by (auto simp: edge_set_def)
  have "trans {(CHR ''a'', CHR ''b'')}" by (simp add: trans_def)
  then have nc: "no_cycle_above (edge_set ?es) (CHR ''b'')" unfolding r no_cycle_above_def
    by (auto simp: trancl_id)
  have ab: "above (edge_set ?es) (CHR ''b'') = {(CHR ''a'', CHR ''b'')}"
    unfolding r by (auto simp: above_def)
  have len: "length (dependencies ?es) = 2"
    by (simp add: dependencies_def add_edge_def node_of_def Let_def)
  show ?thesis using partial_graph_terminates [of "CHR ''b''" ?es] nc ab len by (auto simp: node_set_def)
qed

end
