(* ===== verification/SyncPoint.thy ===== *)
theory SyncPoint
  imports PyString
begin

text \<open>
  Synchronisation points of the orchestration engine (heat/engine/sync_point.py and the queries of
  heat/db/sqlalchemy/api.py): the workers that complete the predecessors of a node merge their data
  into one row with a compare-and-swap loop, and the one that completes the set triggers the node.
  The workers are a step relation over the shared row; the row may be deleted at any time.
\<close>

section \<open>The row and one attempt\<close>

record ('k, 'v) sync_row =
  atomic_key :: int
  input_data :: "('k, 'v) dict"

definition create_row :: "('k, 'v) sync_row" where
  "create_row = \<lparr>atomic_key = 0, input_data = []\<rparr>"

definition dict_merge :: "('k, 'v) dict \<Rightarrow> ('k, 'v) dict \<Rightarrow> ('k, 'v) dict" where
  "dict_merge d new_data = fold (\<lambda>(k, v). AList.update k v) new_data d"

definition sync_get :: "('k, 'v) sync_row option \<Rightarrow> ('k, 'v) sync_row result" where
  "sync_get row = (case row of None \<Rightarrow> Inl SyncPointNotFound | Some r \<Rightarrow> Inr r)"

text \<open>The update query: the row afterwards and the number of rows it matched.\<close>

definition update_input_data ::
    "int \<Rightarrow> ('k, 'v) dict \<Rightarrow> ('k, 'v) sync_row option \<Rightarrow> ('k, 'v) sync_row option \<times> nat" where
  "update_input_data k data row =
     (case row of
        None \<Rightarrow> (None, 0)
      | Some r \<Rightarrow>
          if atomic_key r = k then (Some (r\<lparr>input_data := data, atomic_key := k + 1\<rparr>), 1)
          else (row, 0))"

text \<open>The first half of the loop body: the key that was read and the merged data.\<close>

definition sync_read ::
    "('k, 'v) dict \<Rightarrow> ('k, 'v) sync_row option \<Rightarrow> (int \<times> ('k, 'v) dict) result" where
  "sync_read new_data row =
     bind (sync_get row) (\<lambda>r. Inr (atomic_key r, dict_merge (input_data r) new_data))"

definition sync_ready :: "'k set \<Rightarrow> ('k, 'v) dict \<Rightarrow> bool" where
  "sync_ready predecessors data \<longleftrightarrow> predecessors - set (keys data) = {}"

section \<open>The workers\<close>

text \<open>\<open>Finished True\<close> is a worker that has propagated, \<open>Missing\<close> one that found no row.\<close>

datatype ('k, 'v) phase = Start | Got int "('k, 'v) dict" | Finished bool | Missing

record ('w, 'k, 'v) sync_state =
  sync_point :: "('k, 'v) sync_row option"
  phases :: "'w \<Rightarrow> ('k, 'v) phase"

inductive sync_step ::
    "'w set \<Rightarrow> 'k set \<Rightarrow> ('w \<Rightarrow> ('k, 'v) dict) \<Rightarrow> ('w, 'k, 'v) sync_state \<Rightarrow> ('w, 'k, 'v) sync_state \<Rightarrow> bool"
  for W preds new where
  reads: "w \<in> W \<Longrightarrow> phases s w = Start \<Longrightarrow> sync_read (new w) (sync_point s) = Inr (k, d) \<Longrightarrow>
    sync_step W preds new s (s\<lparr>phases := (phases s)(w := Got k d)\<rparr>)"
| misses: "w \<in> W \<Longrightarrow> phases s w = Start \<Longrightarrow> sync_read (new w) (sync_point s) = Inl SyncPointNotFound \<Longrightarrow>
    sync_step W preds new s (s\<lparr>phases := (phases s)(w := Missing)\<rparr>)"
| writes: "w \<in> W \<Longrightarrow> phases s w = Got k d \<Longrightarrow> update_input_data k d (sync_point s) = (row, n) \<Longrightarrow>
    sync_step W preds new s
      (s\<lparr>sync_point := row,
         phases := (phases s)(w := (if n = 0 then Start else Finished (sync_ready preds d)))\<rparr>)"

inductive_cases sync_stepE: "sync_step W preds new s t"

text \<open>A later traversal deletes the row: \<open>delete_all\<close>.\<close>

definition delete_point :: "('w, 'k, 'v) sync_state \<Rightarrow> ('w, 'k, 'v) sync_state" where
  "delete_point s = s\<lparr>sync_point := None\<rparr>"

inductive sync_reach ::
    "'w set \<Rightarrow> 'k set \<Rightarrow> ('w \<Rightarrow> ('k, 'v) dict) \<Rightarrow> ('w, 'k, 'v) sync_state \<Rightarrow> bool"
  for W preds new where
  created: "sync_reach W preds new \<lparr>sync_point = Some create_row, phases = (\<lambda>_. Start)\<rparr>"
| stepped: "sync_reach W preds new s \<Longrightarrow> sync_step W preds new s t \<Longrightarrow> sync_reach W preds new t"
| deleted: "sync_reach W preds new s \<Longrightarrow> sync_reach W preds new (delete_point s)"

section \<open>The invariant\<close>

definition finished :: "'w set \<Rightarrow> ('w, 'k, 'v) sync_state \<Rightarrow> 'w set" where
  "finished W s = {w \<in> W. \<exists>b. phases s w = Finished b}"

definition data_of :: "('w \<Rightarrow> ('k, 'v) dict) \<Rightarrow> 'w set \<Rightarrow> 'k set" where
  "data_of new ws = (\<Union>w \<in> ws. set (keys (new w)))"

definition propagated :: "'w set \<Rightarrow> ('w, 'k, 'v) sync_state \<Rightarrow> 'w set" where
  "propagated W s = {w \<in> W. phases s w = Finished True}"

text \<open>
  Each worker contributes a predecessor no other one does, and together they contribute all.
\<close>

definition covers :: "'w set \<Rightarrow> 'k set \<Rightarrow> ('w \<Rightarrow> ('k, 'v) dict) \<Rightarrow> bool" where
  "covers W preds new \<longleftrightarrow> finite W \<and> W \<noteq> {} \<and> preds \<subseteq> data_of new W \<and>
     (\<forall>w \<in> W. \<exists>k \<in> preds. k \<in> set (keys (new w)) \<and> (\<forall>v \<in> W. v \<noteq> w \<longrightarrow> k \<notin> set (keys (new v))))"

definition sync_inv ::
    "'w set \<Rightarrow> 'k set \<Rightarrow> ('w \<Rightarrow> ('k, 'v) dict) \<Rightarrow> ('w, 'k, 'v) sync_state \<Rightarrow> bool" where
  "sync_inv W preds new s \<longleftrightarrow>
     (\<forall>r. sync_point s = Some r \<longrightarrow>
        atomic_key r = int (card (finished W s)) \<and> set (keys (input_data r)) = data_of new (finished W s) \<and>
        (\<forall>w \<in> W. \<forall>k d. phases s w = Got k d \<longrightarrow> k \<le> atomic_key r \<and>
           (k = atomic_key r \<longrightarrow> set (keys d) = data_of new (finished W s) \<union> set (keys (new w))))) \<and>
     (if finished W s = W then \<exists>w. propagated W s = {w} else propagated W s = {})"

lemma keys_dict_merge: "set (keys (dict_merge d e)) = set (keys d) \<union> set (keys e)"
proof (induction e arbitrary: d)
  case (Cons x e)
  obtain k v where "x = (k, v)" by (cases x)
  then show ?case using Cons [of "AList.update k v d"]
    by (auto simp: dict_merge_def update_keys)
qed (simp add: dict_merge_def)

lemma covers_all:
  assumes "covers W preds new" and "D \<subseteq> W" and "preds \<subseteq> data_of new D"
  shows "D = W"
proof (rule ccontr)
  assume "D \<noteq> W"
  then obtain w where "w \<in> W" "w \<notin> D" using assms(2) by blast
  then obtain k where "k \<in> preds" "\<forall>v \<in> W. v \<noteq> w \<longrightarrow> k \<notin> set (keys (new v))"
    using assms(1) unfolding covers_def by blast
  then obtain v where "v \<in> D" "k \<in> set (keys (new v))" using assms(3) unfolding data_of_def by blast
  moreover from this have "v \<in> W" "v \<noteq> w" using assms(2) \<open>w \<notin> D\<close> by auto
  ultimately show False using \<open>\<forall>v \<in> W. v \<noteq> w \<longrightarrow> k \<notin> set (keys (new v))\<close> by blast
qed

lemma finished_keep:
  "phases s w = Start \<or> (\<exists>k d. phases s w = Got k d) \<Longrightarrow> p = Start \<or> p = Missing \<or> (\<exists>k d. p = Got k d) \<Longrightarrow>
   finished W (s\<lparr>phases := (phases s)(w := p)\<rparr>) = finished W s \<and>
   propagated W (s\<lparr>phases := (phases s)(w := p)\<rparr>) = propagated W s"
  by (auto simp: finished_def propagated_def)

lemma finished_row [simp]:
  "finished W (s\<lparr>sync_point := r\<rparr>) = finished W s" "propagated W (s\<lparr>sync_point := r\<rparr>) = propagated W s"
  by (simp_all add: finished_def propagated_def)

lemma sync_invI:
  assumes "\<And>r. sync_point s = Some r \<Longrightarrow> atomic_key r = int (card (finished W s)) \<and>
      set (keys (input_data r)) = data_of new (finished W s)"
    and "\<And>r w k d. sync_point s = Some r \<Longrightarrow> w \<in> W \<Longrightarrow> phases s w = Got k d \<Longrightarrow> k \<le> atomic_key r"
    and "\<And>r w k d. sync_point s = Some r \<Longrightarrow> w \<in> W \<Longrightarrow> phases s w = Got k d \<Longrightarrow> k = atomic_key r \<Longrightarrow>
      set (keys d) = data_of new (finished W s) \<union> set (keys (new w))"
    and "finished W s = W \<Longrightarrow> \<exists>w. propagated W s = {w}"
    and "finished W s \<noteq> W \<Longrightarrow> propagated W s = {}"
  shows "sync_inv W preds new s"
  unfolding sync_inv_def using assms by auto

lemma sync_invD:
  assumes "sync_inv W preds new s"
  shows "sync_point s = Some r \<Longrightarrow> atomic_key r = int (card (finished W s))"
    and "sync_point s = Some r \<Longrightarrow> set (keys (input_data r)) = data_of new (finished W s)"
    and "sync_point s = Some r \<Longrightarrow> w \<in> W \<Longrightarrow> phases s w = Got k d \<Longrightarrow> k \<le> atomic_key r"
    and "sync_point s = Some r \<Longrightarrow> w \<in> W \<Longrightarrow> phases s w = Got (atomic_key r) d \<Longrightarrow>
      set (keys d) = data_of new (finished W s) \<union> set (keys (new w))"
    and "finished W s = W \<Longrightarrow> \<exists>w. propagated W s = {w}"
    and "finished W s \<noteq> W \<Longrightarrow> propagated W s = {}"
  using assms unfolding sync_inv_def by auto

text \<open>A successful write by a worker that is not finished yet.\<close>

lemma sync_inv_write:
  assumes inv: "sync_inv W preds new s" and cov: "covers W preds new" and w: "w \<in> W"
    and got: "phases s w = Got k d" and row: "sync_point s = Some r" and k: "atomic_key r = k"
  shows "sync_inv W preds new (s\<lparr>sync_point := Some (r\<lparr>input_data := d, atomic_key := k + 1\<rparr>),
    phases := (phases s)(w := Finished (sync_ready preds d))\<rparr>)" (is "sync_inv _ _ _ ?t")
proof -
  have fin: "finite (finished W s)" using cov by (auto simp: finished_def covers_def)
  have new_w: "w \<notin> finished W s" using got by (simp add: finished_def)
  have ft: "finished W ?t = insert w (finished W s)" using w by (auto simp: finished_def)
  have none: "propagated W s = {}" using sync_invD(6) [OF inv] w new_w by blast
  have pt: "propagated W ?t = (if sync_ready preds d then {w} else {})"
    using none w by (auto simp: propagated_def)
  have d: "set (keys d) = data_of new (finished W ?t)"
    using sync_invD(4) [OF inv row w] got k unfolding ft by (auto simp: data_of_def)
  have ready: "sync_ready preds d \<longleftrightarrow> finished W ?t = W"
  proof
    assume "sync_ready preds d"
    then have "preds \<subseteq> data_of new (finished W ?t)" using d by (auto simp: sync_ready_def)
    moreover have "finished W ?t \<subseteq> W" by (auto simp: finished_def)
    ultimately show "finished W ?t = W" using covers_all [OF cov] by blast
  next
    assume "finished W ?t = W"
    then have "set (keys d) = data_of new W" using d by simp
    then show "sync_ready preds d" using cov unfolding covers_def sync_ready_def by blast
  qed
  show ?thesis
  proof (rule sync_invI)
    fix r' assume "sync_point ?t = Some r'"
    then have r': "r' = r\<lparr>input_data := d, atomic_key := k + 1\<rparr>" by simp
    show "atomic_key r' = int (card (finished W ?t)) \<and> set (keys (input_data r')) = data_of new (finished W ?t)"
      using sync_invD(1) [OF inv row] k d fin new_w unfolding r' ft by simp
  next
    fix r' v k' d' assume "sync_point ?t = Some r'" "v \<in> W" "phases ?t v = Got k' d'"
    then show "k' \<le> atomic_key r'"
      using sync_invD(3) [OF inv row] k by (fastforce split: if_splits)
  next
    fix r' v k' d' assume a: "sync_point ?t = Some r'" "v \<in> W" "phases ?t v = Got k' d'" "k' = atomic_key r'"
    then have "phases s v = Got (k + 1) d'" by (auto split: if_splits)
    then have "k + 1 \<le> k" using sync_invD(3) [OF inv row a(2)] k by blast
    then show "set (keys d') = data_of new (finished W ?t) \<union> set (keys (new v))" by simp
  next
    assume "finished W ?t = W" then show "\<exists>w. propagated W ?t = {w}" using pt ready by simp
  next
    assume "finished W ?t \<noteq> W" then show "propagated W ?t = {}" using pt ready by simp
  qed
qed

lemma sync_inv_phase:
  assumes inv: "sync_inv W preds new s"
    and "phases s w = Start \<or> (\<exists>k d. phases s w = Got k d)"
    and "p = Start \<or> p = Missing \<or> (\<exists>r d. sync_point s = Some r \<and> p = Got (atomic_key r) d \<and>
      set (keys d) = set (keys (input_data r)) \<union> set (keys (new w)))"
  shows "sync_inv W preds new (s\<lparr>phases := (phases s)(w := p)\<rparr>)" (is "sync_inv _ _ _ ?t")
proof -
  have "p = Start \<or> p = Missing \<or> (\<exists>k d. p = Got k d)" using assms(3) by blast
  note same = finished_keep [OF assms(2) this, of W]
  show ?thesis
  proof (rule sync_invI)
    fix r assume "sync_point ?t = Some r"
    then show "atomic_key r = int (card (finished W ?t)) \<and> set (keys (input_data r)) = data_of new (finished W ?t)"
      using sync_invD(1,2) [OF inv] same by simp
  next
    fix r v k d assume "sync_point ?t = Some r" "v \<in> W" "phases ?t v = Got k d"
    then show "k \<le> atomic_key r" using sync_invD(3) [OF inv] assms(3) by (auto split: if_splits)
  next
    fix r v k d assume a: "sync_point ?t = Some r" "v \<in> W" "phases ?t v = Got k d" "k = atomic_key r"
    show "set (keys d) = data_of new (finished W ?t) \<union> set (keys (new v))"
    proof (cases "v = w")
      case True
      then show ?thesis using a assms(3) sync_invD(2) [OF inv] same by auto
    next
      case False
      then show ?thesis using a sync_invD(4) [OF inv] same by simp
    qed
  next
    assume "finished W ?t = W" then show "\<exists>w. propagated W ?t = {w}" using sync_invD(5) [OF inv] same by simp
  next
    assume "finished W ?t \<noteq> W" then show "propagated W ?t = {}" using sync_invD(6) [OF inv] same by simp
  qed
qed

lemma sync_inv_step:
  assumes inv: "sync_inv W preds new s" and cov: "covers W preds new" and "sync_step W preds new s t"
  shows "sync_inv W preds new t"
  using assms(3)
proof (cases rule: sync_step.cases)
  case (reads w k d)
  then obtain r where r: "sync_point s = Some r" "k = atomic_key r" "d = dict_merge (input_data r) (new w)"
    by (auto simp: sync_read_def sync_get_def split: option.splits)
  have "set (keys d) = set (keys (input_data r)) \<union> set (keys (new w))" unfolding r(3) by (rule keys_dict_merge)
  then show ?thesis unfolding reads(1) using reads(3) r(1,2)
    by (intro sync_inv_phase [OF inv]) blast+
next
  case (misses w)
  then show ?thesis using sync_inv_phase [OF inv, of w Missing] by simp
next
  case (writes w k d row n)
  show ?thesis
  proof (cases "n = 0")
    case True
    then have "row = sync_point s"
      using writes(4) by (auto simp: update_input_data_def split: option.splits if_splits)
    then have "t = s\<lparr>phases := (phases s)(w := Start)\<rparr>" using writes(1) True by simp
    then show ?thesis using sync_inv_phase [OF inv, of w Start] writes(3) by simp
  next
    case False
    then obtain r where r: "sync_point s = Some r" "atomic_key r = k"
      "row = Some (r\<lparr>input_data := d, atomic_key := k + 1\<rparr>)"
      using writes(4) by (auto simp: update_input_data_def split: option.splits if_splits)
    then show ?thesis using sync_inv_write [OF inv cov writes(2,3) r(1,2)] writes(1) False by simp
  qed
qed

lemma sync_reach_inv:
  assumes "sync_reach W preds new s" and cov: "covers W preds new"
  shows "sync_inv W preds new s"
  using assms(1)
proof (induction rule: sync_reach.induct)
  case created
  have "W \<noteq> {}" using cov by (simp add: covers_def)
  then show ?case
    by (intro sync_invI) (auto simp: create_row_def finished_def propagated_def data_of_def)
next
  case (stepped s t)
  then show ?case using sync_inv_step cov by blast
next
  case (deleted s)
  then show ?case using sync_invD(5,6) [OF deleted.IH]
    by (intro sync_invI) (auto simp: delete_point_def finished_def propagated_def)
qed

section \<open>Exactly one trigger\<close>

text \<open>C13: whatever the interleaving of the workers that complete the predecessors of a node, and even
  when the row is deleted, at most one of them triggers the node; it does so only when all of them
  have stored their data, and once all have, one has.\<close>

theorem node_triggered_once:
  assumes "sync_reach W preds new s" and "covers W preds new"
  shows "card (propagated W s) = (if finished W s = W then 1 else 0)"
  using sync_invD(5,6) [OF sync_reach_inv [OF assms]] by auto

section \<open>Every schedule ends\<close>

text \<open>
  A worker whose read is up to date is one step from the end, one that has not read two, one with an
  outdated read three; the others are done or lost their row.
\<close>

definition phase_rank :: "('k, 'v) sync_row option \<Rightarrow> ('k, 'v) phase \<Rightarrow> nat" where
  "phase_rank row p =
     (case p of
        Start \<Rightarrow> 2
      | Got k _ \<Rightarrow> (case row of None \<Rightarrow> 3 | Some r \<Rightarrow> if atomic_key r = k then 1 else 3)
      | _ \<Rightarrow> 0)"

definition sync_measure :: "'w set \<Rightarrow> ('w, 'k, 'v) sync_state \<Rightarrow> nat \<times> nat" where
  "sync_measure W s = (card (W - finished W s), \<Sum>w\<in>W. phase_rank (sync_point s) (phases s w))"

lemma sum_rank_update:
  assumes "finite W" and "w \<in> W" and "phase_rank row p < phase_rank row (ph w)"
  shows "(\<Sum>v\<in>W. phase_rank row ((ph(w := p)) v)) < (\<Sum>v\<in>W. phase_rank row (ph v))"
  using assms by (intro sum_strict_mono_ex1) auto

lemma sync_step_decreases:
  assumes "finite W" and "sync_step W preds new s t"
  shows "(sync_measure W t, sync_measure W s) \<in> less_than <*lex*> less_than"
  using assms(2)
proof (cases rule: sync_step.cases)
  case (reads w k d)
  then obtain r where r: "sync_point s = Some r" "k = atomic_key r"
    by (auto simp: sync_read_def sync_get_def split: option.splits)
  have "finished W t = finished W s" using reads(1,3) by (auto simp: finished_def)
  moreover have "(\<Sum>v\<in>W. phase_rank (sync_point s) (((phases s)(w := Got k d)) v)) <
      (\<Sum>v\<in>W. phase_rank (sync_point s) (phases s v))"
    using reads(2,3) r by (intro sum_rank_update assms(1)) (simp_all add: phase_rank_def)
  ultimately show ?thesis using reads(1) by (simp add: sync_measure_def)
next
  case (misses w)
  have "finished W t = finished W s" using misses(1,3) by (auto simp: finished_def)
  moreover have "(\<Sum>v\<in>W. phase_rank (sync_point s) (((phases s)(w := Missing)) v)) <
      (\<Sum>v\<in>W. phase_rank (sync_point s) (phases s v))"
    using misses(2,3) by (intro sum_rank_update assms(1)) (simp_all add: phase_rank_def)
  ultimately show ?thesis using misses(1) by (simp add: sync_measure_def)
next
  case (writes w k d row n)
  show ?thesis
  proof (cases "n = 0")
    case True
    then have row: "row = sync_point s" and stale: "\<And>r. sync_point s = Some r \<Longrightarrow> atomic_key r \<noteq> k"
      using writes(4) by (auto simp: update_input_data_def split: option.splits if_splits)
    have "finished W t = finished W s" using writes(1,3) True by (auto simp: finished_def)
    moreover have "(\<Sum>v\<in>W. phase_rank (sync_point s) (((phases s)(w := Start)) v)) <
        (\<Sum>v\<in>W. phase_rank (sync_point s) (phases s v))"
      using writes(2,3) stale
      by (intro sum_rank_update assms(1)) (auto simp: phase_rank_def split: option.split)
    ultimately show ?thesis using writes(1) True row by (simp add: sync_measure_def)
  next
    case False
    have "W - finished W t \<subset> W - finished W s"
      using writes(1-3) False by (auto simp: finished_def)
    then have "card (W - finished W t) < card (W - finished W s)"
      using assms(1) by (intro psubset_card_mono) auto
    then show ?thesis by (simp add: sync_measure_def)
  qed
qed

lemma sync_progress:
  assumes "w \<in> W" and "\<not> (\<exists>b. phases s w = Finished b)" and "phases s w \<noteq> Missing"
  shows "\<exists>t. sync_step W preds new s t"
proof (cases "phases s w")
  case Start
  show ?thesis
  proof (cases "sync_point s")
    case None
    then show ?thesis using sync_step.misses [OF assms(1) Start] by (auto simp: sync_read_def sync_get_def)
  next
    case (Some r)
    then show ?thesis using sync_step.reads [OF assms(1) Start] by (auto simp: sync_read_def sync_get_def)
  qed
next
  case (Got k d)
  then show ?thesis
    using sync_step.writes [OF assms(1) Got] by (metis surj_pair)
qed (use assms in auto)

lemma update_keeps_row: "update_input_data k d (Some r) = (row, n) \<Longrightarrow> row \<noteq> None"
  by (auto simp: update_input_data_def split: if_splits)

lemma sync_reach_no_missing:
  "rtranclp (sync_step W preds new) \<lparr>sync_point = Some create_row, phases = (\<lambda>_. Start)\<rparr> s \<Longrightarrow>
   sync_reach W preds new s \<and> sync_point s \<noteq> None \<and> (\<forall>w. phases s w \<noteq> Missing)"
proof (induction rule: rtranclp_induct)
  case base
  then show ?case by (simp add: sync_reach.created)
next
  case (step s t)
  then have "sync_reach W preds new t" by (auto intro: sync_reach.stepped)
  moreover have "sync_point t \<noteq> None \<and> (\<forall>w. phases t w \<noteq> Missing)"
    using step(2) step(3)
  proof (cases rule: sync_step.cases)
    case (writes w k d row n)
    obtain r where "sync_point s = Some r" using step(3) by auto
    then have "row \<noteq> None" using writes(4) update_keeps_row by metis
    moreover have "sync_point t = row" "phases t = (phases s)(w := (if n = 0 then Start else Finished (sync_ready preds d)))"
      using writes(1) by simp_all
    ultimately show ?thesis using step(3) by simp
  qed (auto simp: sync_read_def sync_get_def split: option.splits)
  ultimately show ?case by blast
qed

text \<open>The compare-and-swap loops of any finite number of workers end: there is no infinite
  interleaving, however often a worker loses the race and reads again.\<close>

theorem sync_loops_terminate:
  assumes "finite W"
  shows "wf {(t, s). sync_step W preds new s t}"
proof (rule wf_subset)
  show "wf (inv_image (less_than <*lex*> less_than) (sync_measure W))"
    by (intro wf_inv_image wf_lex_prod wf_less_than)
  show "{(t, s). sync_step W preds new s t} \<subseteq> inv_image (less_than <*lex*> less_than) (sync_measure W)"
    using sync_step_decreases [OF assms] by (auto simp: inv_image_def)
qed

text \<open>C34: a run of the workers that cannot go on, with nobody deleting the row, has every worker
  finished and exactly one of them has triggered the node.\<close>

theorem finished_run_has_triggered:
  assumes "covers W preds new"
    and "rtranclp (sync_step W preds new) \<lparr>sync_point = Some create_row, phases = (\<lambda>_. Start)\<rparr> s"
    and "\<nexists>t. sync_step W preds new s t"
  shows "finished W s = W \<and> card (propagated W s) = 1"
proof -
  note r = sync_reach_no_missing [OF assms(2)]
  have "\<exists>b. phases s w = Finished b" if "w \<in> W" for w
    using sync_progress [OF that] assms(3) r by blast
  then have fin: "finished W s = W" by (auto simp: finished_def)
  moreover have "sync_inv W preds new s" using r assms(1) sync_reach_inv by blast
  ultimately show ?thesis using sync_invD(5) by fastforce
qed

section \<open>An example\<close>

definition two_workers :: "bool \<Rightarrow> (char, unit) dict" where
  "two_workers w = [(if w then CHR ''a'' else CHR ''b'', ())]"

definition both :: "char set" where
  "both = {CHR ''a'', CHR ''b''}"

lemma two_workers_cover: "covers UNIV both two_workers"
  by (auto simp: covers_def two_workers_def both_def data_of_def UNIV_bool)

text \<open>Both read, the first write wins, the second worker reads again and triggers the node.\<close>

lemma sync_step_eq: "sync_step W preds new s t \<Longrightarrow> t = t' \<Longrightarrow> sync_step W preds new s t'"
  by simp

definition race :: "nat \<Rightarrow> (bool, char, unit) sync_state" where
  "race i =
     (let row1 = \<lparr>atomic_key = 1, input_data = [(CHR ''a'', ())]\<rparr>;
          row2 = \<lparr>atomic_key = 2, input_data = [(CHR ''a'', ()), (CHR ''b'', ())]\<rparr>;
          a = [(CHR ''a'', ())]; b = [(CHR ''b'', ())]; ab = [(CHR ''a'', ()), (CHR ''b'', ())];
          st = (\<lambda>row p q. \<lparr>sync_point = Some row, phases = (\<lambda>w. if w then p else q)\<rparr>)
      in [st create_row Start Start, st create_row (Got 0 a) Start, st create_row (Got 0 a) (Got 0 b),
          st row1 (Finished False) (Got 0 b), st row1 (Finished False) Start,
          st row1 (Finished False) (Got 1 ab), st row2 (Finished False) (Finished True)] ! i)"

lemmas race_simps =
  race_def Let_def sync_read_def sync_get_def create_row_def dict_merge_def two_workers_def
  update_input_data_def sync_ready_def both_def fun_eq_iff

lemma race_run: "rtranclp (sync_step UNIV both two_workers) (race 0) (race 6)"
proof -
  have "sync_step UNIV both two_workers (race 0) (race 1)"
    by (rule sync_step_eq, rule sync_step.reads [where w = True and k = 0 and d = "[(CHR ''a'', ())]"]) (simp_all add: race_simps)
  moreover have "sync_step UNIV both two_workers (race 1) (race 2)"
    by (rule sync_step_eq, rule sync_step.reads [where w = False and k = 0 and d = "[(CHR ''b'', ())]"]) (simp_all add: race_simps)
  moreover have "sync_step UNIV both two_workers (race 2) (race 3)"
    by (rule sync_step_eq, rule sync_step.writes [where w = True and k = 0 and n = 1 and d = "[(CHR ''a'', ())]"]) (simp_all add: race_simps)
  moreover have "sync_step UNIV both two_workers (race 3) (race 4)"
    by (rule sync_step_eq, rule sync_step.writes [where w = False and k = 0 and n = 0 and d = "[(CHR ''b'', ())]"]) (simp_all add: race_simps)
  moreover have "sync_step UNIV both two_workers (race 4) (race 5)"
    by (rule sync_step_eq, rule sync_step.reads [where w = False and k = 1 and d = "[(CHR ''a'', ()), (CHR ''b'', ())]"]) (simp_all add: race_simps)
  moreover have "sync_step UNIV both two_workers (race 5) (race 6)"
    by (rule sync_step_eq, rule sync_step.writes [where w = False and k = 1 and n = 1 and d = "[(CHR ''a'', ()), (CHR ''b'', ())]"]) (simp_all add: race_simps)
  ultimately show ?thesis by (meson rtranclp.rtrancl_refl rtranclp.rtrancl_into_rtrancl)
qed

lemma race_start: "race 0 = \<lparr>sync_point = Some create_row, phases = (\<lambda>_. Start)\<rparr>"
  by (simp add: race_simps)

lemma race_over: "\<nexists>t. sync_step UNIV both two_workers (race 6) t"
  by (auto simp: race_simps elim!: sync_stepE split: if_splits)

theorem node_triggered_once_witness: "card (propagated UNIV (race 6)) = 1"
proof -
  have "sync_reach UNIV both two_workers (race 6)"
    using sync_reach_no_missing race_run unfolding race_start by blast
  from node_triggered_once [OF this two_workers_cover] show ?thesis
    by (auto simp: finished_def race_simps)
qed

theorem sync_loops_terminate_witness: "wf {(t, s). sync_step (UNIV :: bool set) both two_workers s t}"
  by (rule sync_loops_terminate) simp

theorem finished_run_has_triggered_witness: "finished UNIV (race 6) = (UNIV :: bool set)"
  using finished_run_has_triggered [OF two_workers_cover race_run [unfolded race_start] race_over] by blast

end
