(* ===== verification/SyncData.thy ===== *)
theory SyncData
  imports PyString
begin

text \<open>
  The data of a synchronisation point in its stored form (heat/engine/sync_point.py): the keys are
  pairs of a resource id and a direction, which the database can only hold as texts, so they are
  packed into texts on the way in and unpacked on the way out, at every level of nesting.
\<close>

section \<open>Keys and values\<close>

datatype data_key = KTuple int bool | KStr string

datatype data_value = VNone | VBool bool | VInt int | VStr string | VDict "(data_key \<times> data_value) list"

type_synonym data = "(data_key \<times> data_value) list"

definition py_bool :: "bool \<Rightarrow> string" where
  "py_bool b = (if b then ''True'' else ''False'')"

definition str_pack_tuple :: "int \<Rightarrow> bool \<Rightarrow> string" where
  "str_pack_tuple i b = ''tuple:'' @ ''('' @ show_int i @ '', '' @ py_bool b @ '')''"

text \<open>The literal reader of the language, on pairs of an integer and a truth value.\<close>

definition literal_pair :: "string \<Rightarrow> data_key result" where
  "literal_pair s =
     (if s = [] \<or> hd s \<noteq> CHR ''('' \<or> last s \<noteq> CHR '')'' then Inl SyntaxError
      else case split_on (CHR '','') (butlast (tl s)) of
             [a, b] \<Rightarrow>
               (let t = strip b in
                if t \<noteq> ''True'' \<and> t \<noteq> ''False'' then Inl ValueError
                else bind (reraise ValueError SyntaxError (py_int a)) (\<lambda>i. Inr (KTuple i (t = ''True''))))
           | _ \<Rightarrow> Inl ValueError)"

text \<open>\<open>s[s.index(':') + 1:]\<close>, read as a literal.\<close>

definition str_unpack_tuple :: "string \<Rightarrow> data_key result" where
  "str_unpack_tuple s =
     (case dropWhile (\<lambda>c. c \<noteq> CHR '':'') s of [] \<Rightarrow> Inl ValueError | _ # t \<Rightarrow> literal_pair t)"

definition pack_key :: "data_key \<Rightarrow> data_key" where
  "pack_key k = (case k of KTuple i b \<Rightarrow> KStr (str_pack_tuple i b) | KStr s \<Rightarrow> KStr s)"

definition unpack_key :: "data_key \<Rightarrow> data_key result" where
  "unpack_key k =
     (case k of
        KStr s \<Rightarrow> if startswith s ''tuple:('' then str_unpack_tuple s else Inr k
      | KTuple i b \<Rightarrow> Inr k)"

text \<open>Both loops rebuild the dictionary entry by entry.\<close>

fun serialize_value :: "data_value \<Rightarrow> data_value" and serialize_from :: "data \<Rightarrow> data \<Rightarrow> data" where
  "serialize_value (VDict d) = VDict (serialize_from [] d)"
| "serialize_value v = v"
| "serialize_from acc [] = acc"
| "serialize_from acc ((k, v) # d) = serialize_from (AList.update (pack_key k) (serialize_value v) acc) d"

fun deserialize_value :: "data_value \<Rightarrow> data_value result"
  and deserialize_from :: "data \<Rightarrow> data \<Rightarrow> data result" where
  "deserialize_value (VDict d) = bind (deserialize_from [] d) (\<lambda>d'. Inr (VDict d'))"
| "deserialize_value v = Inr v"
| "deserialize_from acc [] = Inr acc"
| "deserialize_from acc ((k, v) # d) =
     bind (unpack_key k) (\<lambda>k'. bind (deserialize_value v) (\<lambda>v'.
       deserialize_from (AList.update k' v' acc) d))"

definition serialize_input_data :: "data \<Rightarrow> data" where
  "serialize_input_data d = serialize_from [] d"

text \<open>Nothing stored yet is an empty dictionary.\<close>

definition deserialize_input_data :: "data option \<Rightarrow> data result" where
  "deserialize_input_data db =
     (case db of None \<Rightarrow> Inr [] | Some d \<Rightarrow> if d = [] then Inr [] else deserialize_from [] d)"

section \<open>The round trip\<close>

text \<open>Every dictionary has distinct keys, and no text key looks like a packed pair.\<close>

definition plain_key :: "data_key \<Rightarrow> bool" where
  "plain_key k \<longleftrightarrow> (case k of KTuple _ _ \<Rightarrow> True | KStr s \<Rightarrow> \<not> startswith s ''tuple:('')"

fun plain_value :: "data_value \<Rightarrow> bool" and plain_data :: "data \<Rightarrow> bool" where
  "plain_value (VDict d) = (plain_data d \<and> wf_dict d)"
| "plain_value v = True"
| "plain_data [] = True"
| "plain_data ((k, v) # d) = (plain_key k \<and> plain_value v \<and> plain_data d)"

lemma show_int_chars: "c \<in> set (show_int i) \<Longrightarrow> is_digit c \<or> c = CHR ''-''"
  by (auto simp: show_int_def dest: show_nat_digits split: if_splits)

lemma show_int_no_comma: "CHR '','' \<notin> set (show_int i)"
  using show_int_chars [of "CHR '',''" i] by (auto simp: is_digit_def)

lemma literal_pair_pack: "literal_pair (''('' @ show_int i @ '', '' @ py_bool b @ '')'') = Inr (KTuple i b)"
proof -
  have "split_on (CHR '','') (show_int i @ CHR '','' # (CHR '' '' # py_bool b)) = [show_int i, CHR '' '' # py_bool b]"
    using show_int_no_comma by (cases b) (simp_all add: split_on_append_sep py_bool_def)
  moreover have "strip (CHR '' '' # py_bool b) = py_bool b"
    by (cases b) (simp_all add: strip_def py_bool_def is_space_def)
  ultimately show ?thesis
    by (cases b) (simp_all add: literal_pair_def butlast_append py_int_show_int py_bool_def)
qed

lemma unpack_pack: "plain_key k \<Longrightarrow> unpack_key (pack_key k) = Inr k"
proof (cases k)
  case (KTuple i b)
  then show ?thesis
    using literal_pair_pack [of i b]
    by (simp add: unpack_key_def pack_key_def str_pack_tuple_def startswith_def str_unpack_tuple_def)
qed (simp add: unpack_key_def pack_key_def plain_key_def)

lemma pack_key_inj: "plain_key k \<Longrightarrow> plain_key k' \<Longrightarrow> pack_key k = pack_key k' \<Longrightarrow> k = k'"
  by (metis unpack_pack sum.inject(2))

lemma update_append: "k \<notin> set (keys acc) \<Longrightarrow> AList.update k v acc = acc @ [(k, v)]"
  by (induction acc) auto

lemma serialize_from_append:
  assumes "\<And>k. k \<in> set (keys d) \<Longrightarrow> plain_key k" and "wf_dict d"
    and "pack_key ` set (keys d) \<inter> set (keys acc) = {}"
  shows "serialize_from acc d = acc @ map (\<lambda>(k, v). (pack_key k, serialize_value v)) d"
  using assms
proof (induction d arbitrary: acc)
  case (Cons x d)
  obtain k v where x: "x = (k, v)" by (cases x)
  have in_acc: "pack_key k \<notin> set (keys acc)" using Cons.prems(3) unfolding x by auto
  have "pack_key k \<noteq> pack_key k'" if "k' \<in> set (keys d)" for k'
  proof -
    have "plain_key k" "plain_key k'" using Cons.prems(1) that unfolding x by auto
    moreover have "k \<noteq> k'" using Cons.prems(2) that unfolding x by auto
    ultimately show ?thesis using pack_key_inj by blast
  qed
  then have "pack_key ` set (keys d) \<inter> set (keys (acc @ [(pack_key k, serialize_value v)])) = {}"
    using Cons.prems(3) unfolding x by auto
  then have "serialize_from (acc @ [(pack_key k, serialize_value v)]) d =
      (acc @ [(pack_key k, serialize_value v)]) @ map (\<lambda>(k, v). (pack_key k, serialize_value v)) d"
    using Cons.prems(1,2) unfolding x by (intro Cons.IH) auto
  then show ?case unfolding x by (simp add: update_append [OF in_acc])
qed simp

lemma plain_data_keys: "plain_data d \<Longrightarrow> k \<in> set (keys d) \<Longrightarrow> plain_key k"
proof (induction d)
  case (Cons x d)
  then show ?case by (cases x) auto
qed simp

lemma deserialize_map:
  fixes d :: data
  assumes "\<forall>(k, v) \<in> set d. plain_key k \<and> deserialize_value (serialize_value v) = Inr v"
    and "wf_dict d" and "set (keys d) \<inter> set (keys acc) = {}"
  shows "deserialize_from acc (map (\<lambda>(k, v). (pack_key k, serialize_value v)) d) = Inr (acc @ d)"
  using assms
proof (induction d arbitrary: acc)
  case (Cons x d)
  obtain k v where x: "x = (k, v)" by (cases x)
  then show ?case using Cons.prems Cons.IH [of "acc @ [(k, v)]"]
    by (auto simp: unpack_pack update_append)
qed simp

lemma plain_values: "plain_data d \<Longrightarrow> (k, v) \<in> set d \<Longrightarrow> plain_value v"
  by (induction d) auto

lemma value_round_trip: "plain_value v \<Longrightarrow> deserialize_value (serialize_value v) = Inr v"
proof (induction v)
  case (VDict d)
  have d: "plain_data d" "wf_dict d" using VDict.prems by simp_all
  have "plain_key k \<and> deserialize_value (serialize_value v) = Inr v" if "(k, v) \<in> set d" for k v
  proof
    show "plain_key k" using plain_data_keys [OF d(1)] that by force
    show "deserialize_value (serialize_value v) = Inr v"
      using VDict.IH [OF that] plain_values [OF d(1) that] by (simp add: snds.intros)
  qed
  then have "deserialize_from [] (map (\<lambda>(k, v). (pack_key k, serialize_value v)) d) = Inr ([] @ d)"
    by (intro deserialize_map d(2)) auto
  moreover have "serialize_from [] d = [] @ map (\<lambda>(k, v). (pack_key k, serialize_value v)) d"
    using plain_data_keys [OF d(1)] d(2) by (intro serialize_from_append) auto
  ultimately show ?case by simp
qed simp_all

text \<open>Input data read back from the database is the data that was stored, at every level of nesting,
  as long as no text key starts like a packed pair.\<close>

theorem input_data_round_trip:
  assumes "plain_data d" and "wf_dict d"
  shows "deserialize_input_data (Some (serialize_input_data d)) = Inr d"
proof -
  have "deserialize_value (serialize_value (VDict d)) = Inr (VDict d)"
    using assms by (intro value_round_trip) simp
  then have "deserialize_from [] (serialize_from [] d) = Inr d" by simp
  then show ?thesis by (auto simp: deserialize_input_data_def serialize_input_data_def)
qed

theorem input_data_round_trip_witness:
  "deserialize_input_data (Some (serialize_input_data [(KTuple 7 True, VDict [(KStr ''id'', VInt 7)]), (KTuple 8 False, VNone)]))
   = Inr [(KTuple 7 True, VDict [(KStr ''id'', VInt 7)]), (KTuple 8 False, VNone)]"
  by (rule input_data_round_trip) (simp_all add: plain_key_def startswith_def)

end
