(* ===== verification/PyValue.thy ===== *)
theory PyValue
  imports PyString
begin

text \<open>
  Values of the language as far as decoded JSON and request data have them, with the operations the
  modelled code applies to them. A dictionary has texts as keys.
\<close>

datatype py_value = PyNone | PyBool bool | PyInt int | PyStr string | PyList "py_value list"
  | PyDict "(string \<times> py_value) list"

text \<open>\<open>v.get(k, default)\<close> and \<open>v[k]\<close>.\<close>

fun py_get :: "py_value \<Rightarrow> string \<Rightarrow> py_value \<Rightarrow> py_value result" where
  "py_get (PyDict d) k v = Inr (dict_get d k v)"
| "py_get _ k v = Inl AttributeError"

fun py_item :: "py_value \<Rightarrow> string \<Rightarrow> py_value result" where
  "py_item (PyDict d) k = dict_index d k"
| "py_item _ k = Inl TypeError"

text \<open>\<open>v[0]\<close> and \<open>v[-1]\<close>.\<close>

fun py_first :: "py_value \<Rightarrow> py_value result" where
  "py_first (PyList []) = Inl IndexError"
| "py_first (PyList (x # xs)) = Inr x"
| "py_first (PyStr []) = Inl IndexError"
| "py_first (PyStr (c # cs)) = Inr (PyStr [c])"
| "py_first (PyDict d) = Inl KeyError"
| "py_first _ = Inl TypeError"

fun py_last :: "py_value \<Rightarrow> py_value result" where
  "py_last (PyList xs) = (if xs = [] then Inl IndexError else Inr (last xs))"
| "py_last (PyStr cs) = (if cs = [] then Inl IndexError else Inr (PyStr [last cs]))"
| "py_last (PyDict d) = Inl KeyError"
| "py_last _ = Inl TypeError"

text \<open>What \<open>for x in v\<close> runs over.\<close>

fun py_iter :: "py_value \<Rightarrow> py_value list result" where
  "py_iter (PyList xs) = Inr xs"
| "py_iter (PyStr cs) = Inr (map (\<lambda>c. PyStr [c]) cs)"
| "py_iter (PyDict d) = Inr (map PyStr (keys d))"
| "py_iter _ = Inl TypeError"

fun truthy :: "py_value \<Rightarrow> bool" where
  "truthy PyNone = False"
| "truthy (PyBool b) = b"
| "truthy (PyInt n) = (n \<noteq> 0)"
| "truthy (PyStr s) = (s \<noteq> [])"
| "truthy (PyList xs) = (xs \<noteq> [])"
| "truthy (PyDict d) = (d \<noteq> [])"

text \<open>The text of a value; \<open>show\<close> is the printed form of lists and dictionaries.\<close>

fun py_text :: "(py_value \<Rightarrow> string) \<Rightarrow> py_value \<Rightarrow> string" where
  "py_text show PyNone = ''None''"
| "py_text show (PyBool b) = (if b then ''True'' else ''False'')"
| "py_text show (PyInt n) = show_int n"
| "py_text show (PyStr s) = s"
| "py_text show v = show v"

end
