(* ===== verification/RevokeTree.thy ===== *)
theory RevokeTree
  imports PyValue
begin

text \<open>
  Token revocation of the identity service (keystone/revoke): revocation events, the tree that
  indexes them by their attributes, the two searches of the tree (keystone/revoke/model.py and its
  older copy keystone/contrib/revoke/model.py), the stored events with their pruning and the cached
  tree of the manager. Points of time are microseconds since the epoch. The text of a point of time,
  which occurs in the keys of the tree only, is the parameter \<open>st\<close>.
\<close>

section \<open>Events and tokens\<close>

text \<open>\<open>_EVENT_NAMES\<close>: the attributes in the order of the levels of the tree.\<close>

datatype attr = Trust_id | Consumer_id | Access_token_id | Audit_id | Audit_chain_id | Expires_at
  | Domain_id | Project_id | User_id | Role_id | Domain_scope_id

definition event_names :: "attr list" where
  "event_names = [Trust_id, Consumer_id, Access_token_id, Audit_id, Audit_chain_id, Expires_at,
     Domain_id, Project_id, User_id, Role_id, Domain_scope_id]"

fun attr_name :: "attr \<Rightarrow> string" where
  "attr_name Trust_id = ''trust_id''"
| "attr_name Consumer_id = ''consumer_id''"
| "attr_name Access_token_id = ''access_token_id''"
| "attr_name Audit_id = ''audit_id''"
| "attr_name Audit_chain_id = ''audit_chain_id''"
| "attr_name Expires_at = ''expires_at''"
| "attr_name Domain_id = ''domain_id''"
| "attr_name Project_id = ''project_id''"
| "attr_name User_id = ''user_id''"
| "attr_name Role_id = ''role_id''"
| "attr_name Domain_scope_id = ''domain_scope_id''"

text \<open>The keyword arguments of an event.\<close>

record event_args =
  ea_trust_id :: "string option"
  ea_consumer_id :: "string option"
  ea_access_token_id :: "string option"
  ea_audit_id :: "string option"
  ea_audit_chain_id :: "string option"
  ea_expires_at :: "int option"
  ea_domain_id :: "string option"
  ea_project_id :: "string option"
  ea_user_id :: "string option"
  ea_role_id :: "string option"
  ea_issued_before :: "int option"
  ea_revoked_at :: "int option"

definition no_args :: event_args where
  "no_args = \<lparr>ea_trust_id = None, ea_consumer_id = None, ea_access_token_id = None, ea_audit_id = None,
     ea_audit_chain_id = None, ea_expires_at = None, ea_domain_id = None, ea_project_id = None,
     ea_user_id = None, ea_role_id = None, ea_issued_before = None, ea_revoked_at = None\<rparr>"

record revoke_event =
  ev_trust_id :: "string option"
  ev_consumer_id :: "string option"
  ev_access_token_id :: "string option"
  ev_audit_id :: "string option"
  ev_audit_chain_id :: "string option"
  ev_expires_at :: "int option"
  ev_domain_id :: "string option"
  ev_project_id :: "string option"
  ev_user_id :: "string option"
  ev_role_id :: "string option"
  ev_domain_scope_id :: "string option"
  ev_issued_before :: int
  ev_revoked_at :: int

definition trim_seconds :: "int \<Rightarrow> int" where
  "trim_seconds t = t - t mod 1000000"

text \<open>The constructor; \<open>now\<close> is the current time. A domain with an expiry stands for a domain-scoped token.\<close>

definition new_event :: "int \<Rightarrow> event_args \<Rightarrow> revoke_event" where
  "new_event now a =
     (let scoped = nonempty (ea_domain_id a) \<and> ea_expires_at a \<noteq> None;
          revoked_at = (case ea_revoked_at a of Some t \<Rightarrow> t | None \<Rightarrow> now)
      in \<lparr>ev_trust_id = ea_trust_id a, ev_consumer_id = ea_consumer_id a,
          ev_access_token_id = ea_access_token_id a, ev_audit_id = ea_audit_id a,
          ev_audit_chain_id = ea_audit_chain_id a, ev_expires_at = map_option trim_seconds (ea_expires_at a),
          ev_domain_id = (if scoped then None else ea_domain_id a), ev_project_id = ea_project_id a,
          ev_user_id = ea_user_id a, ev_role_id = ea_role_id a,
          ev_domain_scope_id = (if scoped then ea_domain_id a else None),
          ev_issued_before = (case ea_issued_before a of Some t \<Rightarrow> t | None \<Rightarrow> revoked_at),
          ev_revoked_at = revoked_at\<rparr>)"

text \<open>The text of an attribute of an event, \<open>None\<close> where it is not set.\<close>

fun event_text :: "(int \<Rightarrow> string) \<Rightarrow> revoke_event \<Rightarrow> attr \<Rightarrow> string option" where
  "event_text st e Trust_id = ev_trust_id e"
| "event_text st e Consumer_id = ev_consumer_id e"
| "event_text st e Access_token_id = ev_access_token_id e"
| "event_text st e Audit_id = ev_audit_id e"
| "event_text st e Audit_chain_id = ev_audit_chain_id e"
| "event_text st e Expires_at = map_option st (ev_expires_at e)"
| "event_text st e Domain_id = ev_domain_id e"
| "event_text st e Project_id = ev_project_id e"
| "event_text st e User_id = ev_user_id e"
| "event_text st e Role_id = ev_role_id e"
| "event_text st e Domain_scope_id = ev_domain_scope_id e"

definition level_key :: "attr \<Rightarrow> string \<Rightarrow> string" where
  "level_key a v = attr_name a @ ''='' @ v"

definition key_for_name :: "(int \<Rightarrow> string) \<Rightarrow> revoke_event \<Rightarrow> attr \<Rightarrow> string" where
  "key_for_name st e a =
     level_key a (case event_text st e a of None \<Rightarrow> ''*'' | Some v \<Rightarrow> if v = '''' then ''*'' else v)"

definition attr_keys :: "(int \<Rightarrow> string) \<Rightarrow> revoke_event \<Rightarrow> string list" where
  "attr_keys st e = map (key_for_name st e) event_names"

text \<open>The flattened view of a token.\<close>

record token_values =
  tk_trust_id :: "string option"
  tk_consumer_id :: "string option"
  tk_access_token_id :: "string option"
  tk_audit_id :: "string option"
  tk_audit_chain_id :: "string option"
  tk_expires_at :: "int option"
  tk_project_id :: "string option"
  tk_user_id :: "string option"
  tk_trustor_id :: "string option"
  tk_trustee_id :: "string option"
  tk_identity_domain_id :: "string option"
  tk_assignment_domain_id :: "string option"
  tk_roles :: "string list"
  tk_issued_at :: int

definition text_of :: "string option \<Rightarrow> string" where
  "text_of v = (case v of None \<Rightarrow> ''None'' | Some s \<Rightarrow> s)"

text \<open>The texts a level of the tree is searched for, the wild card first (\<open>_next_level_keys\<close>).\<close>

fun alternatives :: "(int \<Rightarrow> string) \<Rightarrow> token_values \<Rightarrow> attr \<Rightarrow> string list" where
  "alternatives st k Trust_id = [text_of (tk_trust_id k)]"
| "alternatives st k Consumer_id = [text_of (tk_consumer_id k)]"
| "alternatives st k Access_token_id = [text_of (tk_access_token_id k)]"
| "alternatives st k Audit_id = [text_of (tk_audit_id k)]"
| "alternatives st k Audit_chain_id = [text_of (tk_audit_chain_id k)]"
| "alternatives st k Expires_at = [text_of (map_option st (tk_expires_at k))]"
| "alternatives st k Domain_id = [text_of (tk_identity_domain_id k), text_of (tk_assignment_domain_id k)]"
| "alternatives st k Project_id = [text_of (tk_project_id k)]"
| "alternatives st k User_id = [text_of (tk_user_id k), text_of (tk_trustor_id k), text_of (tk_trustee_id k)]"
| "alternatives st k Role_id = tk_roles k"
| "alternatives st k Domain_scope_id = [text_of (tk_assignment_domain_id k)]"

definition next_level_keys :: "(int \<Rightarrow> string) \<Rightarrow> attr \<Rightarrow> token_values \<Rightarrow> string list" where
  "next_level_keys st a k = ''*'' # alternatives st k a"

text \<open>
  The view of a token of either version of the interface. \<open>parse_time\<close> reads a point of time; identifiers
  are texts or null.
\<close>

fun py_id :: "py_value \<Rightarrow> string option" where
  "py_id (PyStr s) = Some s"
| "py_id _ = None"

definition audit_ids :: "py_value \<Rightarrow> (string option \<times> string option) result" where
  "audit_ids t =
     bind (py_get t ''audit_ids'' (PyList [PyNone])) (\<lambda>ids.
     bind (py_first ids) (\<lambda>a. bind (py_last ids) (\<lambda>c. Inr (py_id a, py_id c))))"

definition py_time :: "(string \<Rightarrow> int result) \<Rightarrow> py_value \<Rightarrow> string \<Rightarrow> int result" where
  "py_time parse_time t k = bind (py_item t k) (\<lambda>v. case v of PyStr s \<Rightarrow> parse_time s | _ \<Rightarrow> Inl TypeError)"

definition build_token_values :: "(string \<Rightarrow> int result) \<Rightarrow> py_value \<Rightarrow> token_values result" where
  "build_token_values parse_time t =
     bind (py_time parse_time t ''expires_at'') (\<lambda>expires.
     bind (py_time parse_time t ''issued_at'') (\<lambda>issued.
     bind (audit_ids t) (\<lambda>(audit, chain).
     bind (py_get t ''user'' PyNone) (\<lambda>user.
     bind (if user \<noteq> PyNone
           then bind (py_item user ''id'') (\<lambda>u.
                bind (py_get user ''domain'' (PyDict [])) (\<lambda>dom.
                bind (py_get dom ''id'' PyNone) (\<lambda>d. Inr (py_id u, py_id d))))
           else Inr (None, None)) (\<lambda>(user_id, identity_domain).
     bind (py_get t ''tenant'' PyNone) (\<lambda>tenant.
     bind (py_get t ''project'' tenant) (\<lambda>project.
     bind (if project \<noteq> PyNone
           then bind (py_item project ''id'') (\<lambda>p.
                bind (py_item project ''domain'') (\<lambda>dom.
                bind (py_item dom ''id'') (\<lambda>d. Inr (py_id p, py_id d))))
           else bind (py_get t ''domain'' PyNone) (\<lambda>dom.
                if dom \<noteq> PyNone then bind (py_item dom ''id'') (\<lambda>d. Inr (None, py_id d)) else Inr (None, None)))
       (\<lambda>(project_id, assignment_domain).
     bind (py_get t ''roles'' PyNone) (\<lambda>roles.
     bind (if roles \<noteq> PyNone
           then bind (py_iter roles) (traverse (\<lambda>r. bind (py_item r ''id'') (\<lambda>i. Inr (text_of (py_id i)))))
           else Inr []) (\<lambda>role_list.
     bind (py_get t ''OS-TRUST:trust'' PyNone) (\<lambda>trust.
     bind (if trust = PyNone then Inr (None, None, None)
           else bind (py_item trust ''id'') (\<lambda>i.
                bind (bind (py_item trust ''trustor_user'') (\<lambda>u. py_item u ''id'')) (\<lambda>trustor.
                bind (bind (py_item trust ''trustee_user'') (\<lambda>u. py_item u ''id'')) (\<lambda>trustee.
                  Inr (py_id i, py_id trustor, py_id trustee))))) (\<lambda>(trust_id, trustor_id, trustee_id).
     bind (py_get t ''OS-OAUTH1'' PyNone) (\<lambda>oauth.
     bind (if oauth = PyNone then Inr (None, None)
           else bind (py_item oauth ''consumer_id'') (\<lambda>c.
                bind (py_item oauth ''access_token_id'') (\<lambda>a. Inr (py_id c, py_id a))))
       (\<lambda>(consumer_id, access_token_id).
     Inr \<lparr>tk_trust_id = trust_id, tk_consumer_id = consumer_id, tk_access_token_id = access_token_id,
          tk_audit_id = audit, tk_audit_chain_id = chain, tk_expires_at = Some (trim_seconds expires),
          tk_project_id = project_id, tk_user_id = user_id, tk_trustor_id = trustor_id,
          tk_trustee_id = trustee_id, tk_identity_domain_id = identity_domain,
          tk_assignment_domain_id = assignment_domain, tk_roles = role_list, tk_issued_at = issued\<rparr>))))))))))))))"

definition build_token_values_v2 :: "(string \<Rightarrow> int result) \<Rightarrow> string \<Rightarrow> py_value \<Rightarrow> token_values result" where
  "build_token_values_v2 parse_time default_domain access =
     bind (py_item access ''token'') (\<lambda>t.
     bind (py_time parse_time t ''expires'') (\<lambda>expires.
     bind (py_time parse_time t ''issued_at'') (\<lambda>issued.
     bind (audit_ids t) (\<lambda>(audit, chain).
     bind (bind (py_get access ''user'' (PyDict [])) (\<lambda>u. py_get u ''id'' PyNone)) (\<lambda>user.
     bind (py_get t ''tenant'' PyNone) (\<lambda>project.
     bind (if project \<noteq> PyNone then py_item project ''id'' else Inr PyNone) (\<lambda>project_id.
     bind (py_get t ''trust'' PyNone) (\<lambda>trust.
     bind (if trust = PyNone then Inr (None, None, None)
           else bind (py_item trust ''id'') (\<lambda>i.
                bind (py_item trust ''trustor_id'') (\<lambda>trustor.
                bind (py_item trust ''trustee_id'') (\<lambda>trustee.
                  Inr (py_id i, py_id trustor, py_id trustee))))) (\<lambda>(trust_id, trustor_id, trustee_id).
     bind (bind (py_get access ''metadata'' (PyDict [])) (\<lambda>m. py_get m ''roles'' (PyList []))) (\<lambda>roles.
     bind (py_iter roles) (\<lambda>role_list.
     Inr \<lparr>tk_trust_id = trust_id, tk_consumer_id = None, tk_access_token_id = None,
          tk_audit_id = audit, tk_audit_chain_id = chain, tk_expires_at = Some (trim_seconds expires),
          tk_project_id = py_id project_id, tk_user_id = py_id user, tk_trustor_id = trustor_id,
          tk_trustee_id = trustee_id, tk_identity_domain_id = Some default_domain,
          tk_assignment_domain_id = Some default_domain, tk_roles = map (text_of \<circ> py_id) role_list,
          tk_issued_at = issued\<rparr>)))))))))))"

section \<open>The tree\<close>

text \<open>
  A node is a dictionary with one entry per key of the next level; a leaf has the single entry
  \<open>issued_before\<close>, which no key of a level can be, as those contain an equals sign.
\<close>

datatype rtree = Node (issued_before: "int option") (subtrees: "(string \<times> rtree) list")

abbreviation empty_tree :: rtree where
  "empty_tree \<equiv> Node None []"

fun add_path :: "string list \<Rightarrow> int \<Rightarrow> rtree \<Rightarrow> rtree" where
  "add_path [] t (Node i ds) = Node (Some (max t (case i of None \<Rightarrow> t | Some u \<Rightarrow> u))) ds"
| "add_path (k # ks) t (Node i ds) = Node i (AList.update k (add_path ks t (dict_get ds k empty_tree)) ds)"

definition add_event :: "(int \<Rightarrow> string) \<Rightarrow> revoke_event \<Rightarrow> rtree \<Rightarrow> rtree" where
  "add_event st e = add_path (attr_keys st e) (ev_issued_before e)"

definition add_events :: "(int \<Rightarrow> string) \<Rightarrow> revoke_event list \<Rightarrow> rtree \<Rightarrow> rtree" where
  "add_events st es = fold (add_event st) es"

definition revoke_tree :: "(int \<Rightarrow> string) \<Rightarrow> revoke_event list \<Rightarrow> rtree" where
  "revoke_tree st es = add_events st es empty_tree"

text \<open>
  Removal walks down as far as the keys exist, takes the leaf's entry away if it is the one of the
  event, and on the way back deletes the children that have become empty.
\<close>

fun remove_path :: "string list \<Rightarrow> int \<Rightarrow> rtree \<Rightarrow> rtree result" where
  "remove_path [] t (Node i ds) =
     (case i of None \<Rightarrow> Inl KeyError | Some u \<Rightarrow> Inr (Node (if t = u then None else i) ds))"
| "remove_path (k # ks) t (Node i ds) =
     (case map_of ds k of
        None \<Rightarrow> Inr (Node i ds)
      | Some c \<Rightarrow> bind (remove_path ks t c) (\<lambda>c'.
          Inr (Node i (if c' = empty_tree then AList.delete k ds else AList.update k c' ds))))"

definition remove_event :: "(int \<Rightarrow> string) \<Rightarrow> revoke_event \<Rightarrow> rtree \<Rightarrow> rtree result" where
  "remove_event st e = remove_path (attr_keys st e) (ev_issued_before e)"

text \<open>The search, depth first.\<close>

fun search :: "(int \<Rightarrow> string) \<Rightarrow> token_values \<Rightarrow> attr list \<Rightarrow> rtree \<Rightarrow> bool" where
  "search st k [] t = (case issued_before t of None \<Rightarrow> False | Some i \<Rightarrow> i \<ge> tk_issued_at k)"
| "search st k (a # as) t =
     list_ex (\<lambda>v. case map_of (subtrees t) (level_key a v) of
       None \<Rightarrow> False | Some c \<Rightarrow> c \<noteq> empty_tree \<and> search st k as c) (next_level_keys st a k)"

definition is_revoked :: "(int \<Rightarrow> string) \<Rightarrow> rtree \<Rightarrow> token_values \<Rightarrow> bool" where
  "is_revoked st t k = search st k event_names t"

text \<open>The older search, level by level, over all trees that match so far; its last test is strict.\<close>

definition next_forest :: "(int \<Rightarrow> string) \<Rightarrow> token_values \<Rightarrow> attr \<Rightarrow> rtree list \<Rightarrow> rtree list" where
  "next_forest st k a forest =
     concat (map (\<lambda>t. List.map_filter (\<lambda>v. map_of (subtrees t) (level_key a v)) (next_level_keys st a k)) forest)"

fun partial_matches :: "(int \<Rightarrow> string) \<Rightarrow> token_values \<Rightarrow> attr list \<Rightarrow> rtree list \<Rightarrow> rtree list" where
  "partial_matches st k [] forest = forest"
| "partial_matches st k (a # as) forest =
     (let bundle = next_forest st k a forest in if bundle = [] then [] else partial_matches st k as bundle)"

definition is_revoked_by_level :: "(int \<Rightarrow> string) \<Rightarrow> rtree \<Rightarrow> token_values \<Rightarrow> bool" where
  "is_revoked_by_level st t k =
     list_ex (\<lambda>leaf. case issued_before leaf of None \<Rightarrow> False | Some i \<Rightarrow> i > tk_issued_at k)
       (partial_matches st k event_names [t])"

section \<open>Stored events and the manager\<close>

record revoke_conf =
  rv_expiration :: int
  rv_buffer :: int

text \<open>
  The events in the order they were stored, and the tree the manager has cached. Storing keeps the
  constructor's arguments only: \<open>domain_scope_id\<close> is not one of them.
\<close>

record revoke_api =
  api_events :: "event_args list"
  api_tree :: "rtree option"

definition stored_form :: "revoke_event \<Rightarrow> event_args" where
  "stored_form e =
     \<lparr>ea_trust_id = ev_trust_id e, ea_consumer_id = ev_consumer_id e,
      ea_access_token_id = ev_access_token_id e, ea_audit_id = ev_audit_id e,
      ea_audit_chain_id = ev_audit_chain_id e, ea_expires_at = ev_expires_at e,
      ea_domain_id = ev_domain_id e, ea_project_id = ev_project_id e, ea_user_id = ev_user_id e,
      ea_role_id = ev_role_id e, ea_issued_before = Some (ev_issued_before e),
      ea_revoked_at = Some (ev_revoked_at e)\<rparr>"

definition revoked_before_cutoff_time :: "revoke_conf \<Rightarrow> int \<Rightarrow> int" where
  "revoked_before_cutoff_time cf now = now - 1000000 * (rv_expiration cf + rv_buffer cf)"

definition row_revoked_at :: "event_args \<Rightarrow> int" where
  "row_revoked_at a = (case ea_revoked_at a of None \<Rightarrow> 0 | Some t \<Rightarrow> t)"

definition prune_expired_events :: "revoke_conf \<Rightarrow> int \<Rightarrow> event_args list \<Rightarrow> event_args list" where
  "prune_expired_events cf now rows = filter (\<lambda>a. \<not> row_revoked_at a < revoked_before_cutoff_time cf now) rows"

definition list_events :: "int \<Rightarrow> int option \<Rightarrow> event_args list \<Rightarrow> revoke_event list" where
  "list_events now last_fetch rows =
     map (new_event now)
       (filter (\<lambda>a. case last_fetch of None \<Rightarrow> True | Some t \<Rightarrow> row_revoked_at a > t) (sort_key row_revoked_at rows))"

definition revoke :: "revoke_conf \<Rightarrow> int \<Rightarrow> revoke_event \<Rightarrow> revoke_api \<Rightarrow> revoke_api" where
  "revoke cf now e api =
     \<lparr>api_events = prune_expired_events cf now (api_events api @ [stored_form e]), api_tree = None\<rparr>"

text \<open>The older store in memory keeps the events themselves, and drops them without the extra buffer.\<close>

definition kvs_revoke :: "revoke_conf \<Rightarrow> int \<Rightarrow> revoke_event \<Rightarrow> revoke_event list \<Rightarrow> revoke_event list" where
  "kvs_revoke cf now e events = filter (\<lambda>x. ev_revoked_at x > now - 1000000 * rv_expiration cf) (events @ [e])"

definition kvs_list_events :: "int option \<Rightarrow> revoke_event list \<Rightarrow> revoke_event list" where
  "kvs_list_events last_fetch events = filter (\<lambda>x. case last_fetch of None \<Rightarrow> True | Some t \<Rightarrow> ev_revoked_at x > t) events"

definition get_revoke_tree :: "(int \<Rightarrow> string) \<Rightarrow> int \<Rightarrow> revoke_api \<Rightarrow> revoke_api \<times> rtree" where
  "get_revoke_tree st now api =
     (case api_tree api of
        Some t \<Rightarrow> (api, t)
      | None \<Rightarrow> (let t = revoke_tree st (list_events now None (api_events api)) in (api\<lparr>api_tree := Some t\<rparr>, t)))"

definition check_token :: "(int \<Rightarrow> string) \<Rightarrow> int \<Rightarrow> token_values \<Rightarrow> revoke_api \<Rightarrow> revoke_api \<times> unit result" where
  "check_token st now k api =
     (let (api', t) = get_revoke_tree st now api in (api', if is_revoked st t k then Inl TokenNotFound else Inr ()))"

text \<open>The calls that revoke.\<close>

definition revoke_by_user :: "string \<Rightarrow> event_args" where
  "revoke_by_user u = no_args\<lparr>ea_user_id := Some u\<rparr>"

definition revoke_by_audit_id :: "string \<Rightarrow> event_args" where
  "revoke_by_audit_id a = no_args\<lparr>ea_audit_id := Some a\<rparr>"

definition revoke_by_grant :: "string \<Rightarrow> string option \<Rightarrow> string option \<Rightarrow> string option \<Rightarrow> event_args" where
  "revoke_by_grant role user domain project =
     no_args\<lparr>ea_user_id := user, ea_role_id := Some role, ea_domain_id := domain, ea_project_id := project\<rparr>"

definition revoke_by_expiration ::
    "string \<Rightarrow> int \<Rightarrow> string option \<Rightarrow> string option \<Rightarrow> event_args result" where
  "revoke_by_expiration user expires_at domain project =
     (if domain \<noteq> None \<and> project \<noteq> None then Inl UnexpectedError
      else Inr (no_args\<lparr>ea_user_id := Some user, ea_expires_at := Some expires_at, ea_domain_id := domain,
        ea_project_id := project\<rparr>))"

definition revoke_by_audit_chain_id ::
    "string \<Rightarrow> string option \<Rightarrow> string option \<Rightarrow> event_args result" where
  "revoke_by_audit_chain_id chain project domain =
     (if domain \<noteq> None \<and> project \<noteq> None then Inl UnexpectedError
      else Inr (no_args\<lparr>ea_audit_chain_id := Some chain, ea_domain_id := domain, ea_project_id := project\<rparr>))"


section \<open>The tree as a map from paths\<close>

fun path_lookup :: "rtree \<Rightarrow> string list \<Rightarrow> int option" where
  "path_lookup (Node i ds) [] = i"
| "path_lookup (Node i ds) (k # ks) = (case map_of ds k of None \<Rightarrow> None | Some c \<Rightarrow> path_lookup c ks)"

text \<open>All leaves lie at one depth, and apart from the root no node is empty.\<close>

fun full :: "nat \<Rightarrow> rtree \<Rightarrow> bool" where
  "full 0 (Node i ds) \<longleftrightarrow> ds = [] \<and> i \<noteq> None"
| "full (Suc n) (Node i ds) \<longleftrightarrow> i = None \<and> wf_dict ds \<and> ds \<noteq> [] \<and> (\<forall>c \<in> snd ` set ds. full n c)"

definition tree_ok :: "nat \<Rightarrow> rtree \<Rightarrow> bool" where
  "tree_ok n t \<longleftrightarrow> t = empty_tree \<or> full n t"

lemma lookup_empty [simp]: "path_lookup empty_tree ks = None"
  by (cases ks) auto

lemma lookup_add:
  "path_lookup (add_path ks t tr) qs =
     (if qs = ks then Some (case path_lookup tr ks of None \<Rightarrow> t | Some u \<Rightarrow> max t u) else path_lookup tr qs)"
proof (induction ks t tr arbitrary: qs rule: add_path.induct)
  case (1 t i ds)
  show ?case by (cases qs) (auto split: option.splits)
next
  case (2 k ks t i ds)
  show ?case using 2
    by (cases qs) (auto simp: dict_get_def split: option.splits)
qed

lemma full_not_empty: "full n t \<Longrightarrow> t \<noteq> empty_tree"
  by (cases n; cases t) auto

lemma update_not_Nil: "AList.update k v d \<noteq> []"
  by (induction d) auto

lemma full_update:
  assumes "full n c" and "wf_dict ds" and "\<forall>c \<in> snd ` set ds. full n c"
  shows "full (Suc n) (Node None (AList.update k c ds))"
  using assms set_update_subset [of k c ds] by (fastforce simp: update_not_Nil)

lemma full_children: "tree_ok (Suc n) (Node i ds) \<Longrightarrow> i = None \<and> wf_dict ds \<and> (\<forall>c \<in> snd ` set ds. full n c)"
  by (auto simp: tree_ok_def)

lemma full_add:
  assumes "tree_ok (length ks) tr"
  shows "full (length ks) (add_path ks t tr)"
  using assms
proof (induction ks t tr rule: add_path.induct)
  case (1 t i ds)
  then show ?case by (auto simp: tree_ok_def)
next
  case (2 k ks t i ds)
  note C = full_children [OF 2(2) [unfolded list.size add_0_right add_Suc_right]]
  have "tree_ok (length ks) (dict_get ds k empty_tree)"
    using C by (auto simp: dict_get_def tree_ok_def dest: map_of_SomeD split: option.splits)
  then show ?case using C full_update [OF 2(1), of ds k] by simp
qed

text \<open>Removal never fails on such trees, and takes exactly the one path out.\<close>

lemma remove_ok:
  assumes "full (length ks) tr"
  shows "\<exists>tr'. remove_path ks t tr = Inr tr' \<and> tree_ok (length ks) tr' \<and>
    path_lookup tr' = (if path_lookup tr ks = Some t then (path_lookup tr)(ks := None) else path_lookup tr)"
  using assms
proof (induction ks t tr rule: remove_path.induct)
  case (1 t i ds)
  then obtain u where u: "i = Some u" "ds = []" by auto
  have "path_lookup (Node None []) = (path_lookup (Node (Some u) []))([] := None)"
    by (rule ext) (simp, metis list.exhaust map_of.simps(1) option.simps(4) path_lookup.simps(2))
  then show ?case using u by (auto simp: tree_ok_def)
next
  case (2 k ks t i ds)
  show ?case
  proof (cases "map_of ds k")
    case None
    then show ?thesis using 2(2) by (auto simp: tree_ok_def)
  next
    case (Some c)
    have "full (length ks) c" using 2(2) Some by (auto dest: map_of_SomeD)
    then obtain c' where c': "remove_path ks t c = Inr c'" "tree_ok (length ks) c'"
        "path_lookup c' = (if path_lookup c ks = Some t then (path_lookup c)(ks := None) else path_lookup c)"
      using 2(1) [OF Some] by blast
    define ds' where "ds' = (if c' = empty_tree then AList.delete k ds else AList.update k c' ds)"
    have ch: "\<forall>x \<in> snd ` set ds. full (length ks) x" "wf_dict ds" "i = None" using 2(2) by auto
    have "tree_ok (Suc (length ks)) (Node None ds')"
    proof (cases "c' = empty_tree")
      case True
      moreover have "set (AList.delete k ds) \<subseteq> set ds" by (auto simp: AList.delete_eq)
      ultimately show ?thesis using ch by (auto simp: ds'_def tree_ok_def)
    next
      case False
      then show ?thesis using full_update [OF _ ch(2,1), of c' k] c'(2) by (simp add: ds'_def tree_ok_def)
    qed
    moreover have "path_lookup (Node None ds') qs = (if path_lookup (Node i ds) (k # ks) = Some t
        then (path_lookup (Node i ds))(k # ks := None) else path_lookup (Node i ds)) qs" for qs
    proof (cases qs)
      case (Cons q list)
      have "path_lookup (Node None ds') (q # list) = (if q = k then path_lookup c' list else path_lookup (Node i ds) (q # list))"
        by (simp add: ds'_def)
      also have "path_lookup c' list = (if path_lookup c ks = Some t \<and> list = ks then None else path_lookup c list)"
        by (simp add: c'(3))
      finally show ?thesis using Some by (simp add: Cons)
    qed (simp add: ch(3))
    ultimately show ?thesis using Some c'(1) ch(3) unfolding ds'_def by (auto simp: fun_eq_iff)
  qed
qed


section \<open>What the searches find\<close>

definition level_ok :: "(int \<Rightarrow> string) \<Rightarrow> token_values \<Rightarrow> attr \<Rightarrow> string \<Rightarrow> bool" where
  "level_ok st k a q \<longleftrightarrow> q \<in> level_key a ` set (next_level_keys st a k)"

lemma list_all2_Cons_ex: "(\<exists>p i. list_all2 R (a # as) p \<and> Q p i) \<longleftrightarrow> (\<exists>q p i. R a q \<and> list_all2 R as p \<and> Q (q # p) i)"
  by (auto simp: list_all2_Cons1)

lemma lookup_Cons:
  "path_lookup t (q # p) = Some i \<longleftrightarrow> (\<exists>c. map_of (subtrees t) q = Some c \<and> path_lookup c p = Some i)"
  by (cases t) (auto split: option.splits)

lemma set_map_filter: "set (List.map_filter f xs) = {y. \<exists>x \<in> set xs. f x = Some y}"
  by (induction xs) (auto simp: List.map_filter_simps split: option.splits)

lemma search_finds:
  "search st k as t \<longleftrightarrow> (\<exists>p i. list_all2 (level_ok st k) as p \<and> path_lookup t p = Some i \<and> i \<ge> tk_issued_at k)"
proof (induction as arbitrary: t)
  case Nil
  show ?case by (cases t) (auto split: option.splits)
next
  case (Cons a as)
  obtain j ds where t: "t = Node j ds" by (cases t)
  have "search st k (a # as) t \<longleftrightarrow>
      (\<exists>q c. level_ok st k a q \<and> map_of ds q = Some c \<and> c \<noteq> empty_tree \<and> search st k as c)"
    by (auto simp: t list_ex_iff level_ok_def split: option.splits)
  also have "\<dots> \<longleftrightarrow> (\<exists>q c p i. level_ok st k a q \<and> map_of ds q = Some c \<and> list_all2 (level_ok st k) as p \<and>
      path_lookup c p = Some i \<and> i \<ge> tk_issued_at k)"
    unfolding Cons.IH by (auto simp: lookup_empty) (metis lookup_empty option.distinct(1))
  also have "\<dots> \<longleftrightarrow> (\<exists>p i. list_all2 (level_ok st k) (a # as) p \<and> path_lookup t p = Some i \<and> i \<ge> tk_issued_at k)"
    unfolding list_all2_Cons_ex lookup_Cons t rtree.sel by blast
  finally show ?case .
qed

lemma partial_matches_find:
  "(\<exists>leaf \<in> set (partial_matches st k as forest). \<exists>i. issued_before leaf = Some i \<and> P i) \<longleftrightarrow>
   (\<exists>t \<in> set forest. \<exists>p i. list_all2 (level_ok st k) as p \<and> path_lookup t p = Some i \<and> P i)"
proof (induction as arbitrary: forest)
  case Nil
  have "issued_before t = path_lookup t []" for t by (cases t) auto
  then show ?case by auto
next
  case (Cons a as)
  have step: "c \<in> set (next_forest st k a forest) \<longleftrightarrow>
      (\<exists>t \<in> set forest. \<exists>q. level_ok st k a q \<and> map_of (subtrees t) q = Some c)" for c
    by (auto simp: next_forest_def level_ok_def set_map_filter)
  have "(\<exists>leaf \<in> set (partial_matches st k (a # as) forest). \<exists>i. issued_before leaf = Some i \<and> P i) \<longleftrightarrow>
      (\<exists>leaf \<in> set (partial_matches st k as (next_forest st k a forest)). \<exists>i. issued_before leaf = Some i \<and> P i)"
  proof (cases "next_forest st k a forest = []")
    case True
    then have "\<not> (\<exists>leaf \<in> set (partial_matches st k as (next_forest st k a forest)). \<exists>i. issued_before leaf = Some i \<and> P i)"
      unfolding Cons.IH by simp
    then show ?thesis using True by simp
  qed (simp add: Let_def)
  also have "\<dots> \<longleftrightarrow> (\<exists>t \<in> set forest. \<exists>q c p i. level_ok st k a q \<and> map_of (subtrees t) q = Some c \<and>
      list_all2 (level_ok st k) as p \<and> path_lookup c p = Some i \<and> P i)"
    unfolding Cons.IH by (simp only: Bex_def step) blast
  also have "\<dots> \<longleftrightarrow> (\<exists>t \<in> set forest. \<exists>p i. list_all2 (level_ok st k) (a # as) p \<and> path_lookup t p = Some i \<and> P i)"
    unfolding list_all2_Cons_ex lookup_Cons by blast
  finally show ?case .
qed

lemma revoke_tree_lookup:
  "path_lookup (add_events st es t) p =
     (let hits = map ev_issued_before (filter (\<lambda>e. attr_keys st e = p) es)
      in fold (\<lambda>i m. Some (case m of None \<Rightarrow> i | Some u \<Rightarrow> max i u)) hits (path_lookup t p))"
  by (induction es arbitrary: t) (auto simp: add_events_def add_event_def lookup_add Let_def)

section \<open>What an event revokes\<close>

text \<open>
  The reference: an event covers a token when every attribute that is set in the event is the one
  of the token, where a user may be its user, trustor or trustee, and a domain the one of its user or
  of its scope.
\<close>

definition covers :: "revoke_event \<Rightarrow> token_values \<Rightarrow> bool" where
  "covers e k \<longleftrightarrow>
     (\<forall>v. ev_trust_id e = Some v \<longrightarrow> tk_trust_id k = Some v) \<and>
     (\<forall>v. ev_consumer_id e = Some v \<longrightarrow> tk_consumer_id k = Some v) \<and>
     (\<forall>v. ev_access_token_id e = Some v \<longrightarrow> tk_access_token_id k = Some v) \<and>
     (\<forall>v. ev_audit_id e = Some v \<longrightarrow> tk_audit_id k = Some v) \<and>
     (\<forall>v. ev_audit_chain_id e = Some v \<longrightarrow> tk_audit_chain_id k = Some v) \<and>
     (\<forall>v. ev_expires_at e = Some v \<longrightarrow> tk_expires_at k = Some v) \<and>
     (\<forall>v. ev_domain_id e = Some v \<longrightarrow> Some v \<in> {tk_identity_domain_id k, tk_assignment_domain_id k}) \<and>
     (\<forall>v. ev_project_id e = Some v \<longrightarrow> tk_project_id k = Some v) \<and>
     (\<forall>v. ev_user_id e = Some v \<longrightarrow> Some v \<in> {tk_user_id k, tk_trustor_id k, tk_trustee_id k}) \<and>
     (\<forall>v. ev_role_id e = Some v \<longrightarrow> v \<in> set (tk_roles k)) \<and>
     (\<forall>v. ev_domain_scope_id e = Some v \<longrightarrow> tk_assignment_domain_id k = Some v)"

text \<open>The names the keys would confuse, which identifiers and points of time never are.\<close>

definition proper :: "string option \<Rightarrow> bool" where
  "proper v \<longleftrightarrow> v \<noteq> Some '''' \<and> v \<noteq> Some ''*'' \<and> v \<noteq> Some ''None''"

definition proper_time :: "(int \<Rightarrow> string) \<Rightarrow> bool" where
  "proper_time st \<longleftrightarrow> inj st \<and> (\<forall>t. proper (Some (st t)))"

definition proper_event :: "revoke_event \<Rightarrow> bool" where
  "proper_event e \<longleftrightarrow> list_all proper [ev_trust_id e, ev_consumer_id e, ev_access_token_id e, ev_audit_id e,
     ev_audit_chain_id e, ev_domain_id e, ev_project_id e, ev_user_id e, ev_role_id e, ev_domain_scope_id e]"

lemma level_key_inj [simp]: "level_key a v = level_key a w \<longleftrightarrow> v = w"
  by (simp add: level_key_def)

lemma level_ok_event:
  assumes "proper (event_text st e a)"
  shows "level_ok st k a (key_for_name st e a) \<longleftrightarrow> (\<forall>v. event_text st e a = Some v \<longrightarrow> v \<in> set (alternatives st k a))"
  using assms by (auto simp: level_ok_def key_for_name_def next_level_keys_def proper_def image_iff split: option.splits)

lemma text_of_Some [simp]: "text_of (Some v) = v"
  by (simp add: text_of_def)

lemma text_of_proper: "proper (Some v) \<Longrightarrow> v = text_of w \<longleftrightarrow> w = Some v"
  by (cases w) (auto simp: text_of_def proper_def)

lemma path_covers:
  assumes "proper_event e" and "proper_time st"
  shows "list_all2 (level_ok st k) event_names (attr_keys st e) \<longleftrightarrow> covers e k"
proof -
  have p: "proper (event_text st e a)" for a
    using assms by (cases a; cases "ev_expires_at e") (simp_all add: proper_event_def proper_time_def, simp add: proper_def)
  have t: "st v = text_of (map_option st w) \<longleftrightarrow> w = Some v" for v w
    using assms(2) text_of_proper [of "st v" "map_option st w"] by (auto simp: proper_time_def inj_eq)
  have s: "proper (Some v) \<Longrightarrow> v = text_of w \<longleftrightarrow> w = Some v" for v w
    by (rule text_of_proper)
  have "list_all2 (level_ok st k) event_names (attr_keys st e) \<longleftrightarrow>
      (\<forall>a \<in> set event_names. \<forall>v. event_text st e a = Some v \<longrightarrow> v \<in> set (alternatives st k a))"
    by (simp add: attr_keys_def list_all2_map2 list_all2_same level_ok_event [OF p])
  also have "\<dots> \<longleftrightarrow> covers e k"
    using assms(1) by (auto simp: event_names_def covers_def proper_event_def t s)
  finally show ?thesis .
qed

lemma fold_latest:
  "(\<exists>i. fold (\<lambda>i m. Some (case m of None \<Rightarrow> i | Some u \<Rightarrow> max i u)) hits m = Some i \<and> T \<le> i) \<longleftrightarrow>
   (\<exists>h \<in> set hits. T \<le> h) \<or> (\<exists>u. m = Some u \<and> (T :: int) \<le> u)"
  by (induction hits arbitrary: m) (auto split: option.splits simp: le_max_iff_disj)

lemma tree_paths:
  "(\<exists>p i. list_all2 (level_ok st k) event_names p \<and> path_lookup (revoke_tree st es) p = Some i \<and> T \<le> i) \<longleftrightarrow>
   (\<exists>e \<in> set es. list_all2 (level_ok st k) event_names (attr_keys st e) \<and> T \<le> ev_issued_before e)"
proof -
  have "(\<exists>i. path_lookup (revoke_tree st es) p = Some i \<and> T \<le> i) \<longleftrightarrow> (\<exists>e \<in> set es. attr_keys st e = p \<and> T \<le> ev_issued_before e)" for p
    unfolding revoke_tree_def revoke_tree_lookup Let_def fold_latest by auto
  then have "(\<exists>p i. list_all2 (level_ok st k) event_names p \<and> path_lookup (revoke_tree st es) p = Some i \<and> T \<le> i) \<longleftrightarrow>
      (\<exists>p. list_all2 (level_ok st k) event_names p \<and> (\<exists>e \<in> set es. attr_keys st e = p \<and> T \<le> ev_issued_before e))"
    by simp
  then show ?thesis by auto
qed

lemma is_revoked_paths:
  "is_revoked st t k \<longleftrightarrow> (\<exists>p i. list_all2 (level_ok st k) event_names p \<and> path_lookup t p = Some i \<and> tk_issued_at k \<le> i)"
  by (simp add: is_revoked_def search_finds)

lemma is_revoked_by_level_paths:
  "is_revoked_by_level st t k \<longleftrightarrow>
     (\<exists>p i. list_all2 (level_ok st k) event_names p \<and> path_lookup t p = Some i \<and> tk_issued_at k + 1 \<le> i)"
proof -
  have "is_revoked_by_level st t k \<longleftrightarrow>
      (\<exists>leaf \<in> set (partial_matches st k event_names [t]). \<exists>i. issued_before leaf = Some i \<and> tk_issued_at k < i)"
    by (auto simp: is_revoked_by_level_def list_ex_iff split: option.splits)
  then show ?thesis unfolding partial_matches_find by (simp add: add1_zle_eq)
qed

lemma tree_scan:
  assumes "proper_time st" and "\<forall>e \<in> set es. proper_event e"
  shows "(is_revoked st (revoke_tree st es) k \<longleftrightarrow> (\<exists>e \<in> set es. covers e k \<and> tk_issued_at k \<le> ev_issued_before e)) \<and>
    (is_revoked_by_level st (revoke_tree st es) k \<longleftrightarrow> (\<exists>e \<in> set es. covers e k \<and> tk_issued_at k < ev_issued_before e))"
proof -
  have c: "list_all2 (level_ok st k) event_names (attr_keys st e) \<longleftrightarrow> covers e k" if "e \<in> set es" for e
    using assms that path_covers by blast
  show ?thesis
    unfolding is_revoked_paths is_revoked_by_level_paths tree_paths by (simp add: c add1_zle_eq cong: bex_cong)
qed

text \<open>C4: The tree is an index only: for events with proper identifiers, both searches find a token
  revoked exactly when some event covers it that does not precede its issue, as a scan of the list of
  events would; the newer search counts an event of the same instant, the older one does not.\<close>

theorem revoke_tree_equals_scan:
  assumes "proper_time st" and "\<forall>e \<in> set es. proper_event e"
  shows "(is_revoked st (revoke_tree st es) k \<longleftrightarrow> (\<exists>e \<in> set es. covers e k \<and> tk_issued_at k \<le> ev_issued_before e)) \<and>
    (is_revoked_by_level st (revoke_tree st es) k \<longleftrightarrow> (\<exists>e \<in> set es. covers e k \<and> tk_issued_at k < ev_issued_before e))"
  by (rule tree_scan [OF assms])

lemma tree_ok_add_events: "tree_ok (length event_names) t \<Longrightarrow> tree_ok (length event_names) (add_events st es t)"
proof (induction es arbitrary: t)
  case (Cons e es)
  have "tree_ok (length event_names) (add_event st e t)"
    using full_add [of "attr_keys st e" t "ev_issued_before e"] Cons.prems
    by (simp add: add_event_def tree_ok_def attr_keys_def)
  then show ?case using Cons.IH by (simp add: add_events_def)
qed (simp add: add_events_def)

text \<open>Removing an event from the tree of a list of events never fails, and the tree then answers as
  if the events with the attributes of the removed one had not been there, provided it was the latest
  of them; otherwise nothing changes, because only the latest time is kept.\<close>

theorem removed_event_is_forgotten:
  assumes "proper_time st" and "\<forall>e' \<in> set es. proper_event e'" and "e \<in> set es"
  shows "\<exists>t. remove_event st e (revoke_tree st es) = Inr t \<and>
    (is_revoked st t k \<longleftrightarrow> (\<exists>e' \<in> set es. covers e' k \<and> tk_issued_at k \<le> ev_issued_before e' \<and>
      \<not> (attr_keys st e' = attr_keys st e \<and>
         (\<forall>x \<in> set es. attr_keys st x = attr_keys st e \<longrightarrow> ev_issued_before x \<le> ev_issued_before e))))"
proof -
  let ?tr = "revoke_tree st es" and ?p = "attr_keys st e"
  let ?last = "\<forall>x \<in> set es. attr_keys st x = ?p \<longrightarrow> ev_issued_before x \<le> ev_issued_before e"
  have look: "(\<exists>i. path_lookup ?tr p = Some i \<and> T \<le> i) \<longleftrightarrow> (\<exists>x \<in> set es. attr_keys st x = p \<and> T \<le> ev_issued_before x)" for p T
    unfolding revoke_tree_def revoke_tree_lookup Let_def fold_latest by auto
  have "tree_ok (length event_names) ?tr"
    unfolding revoke_tree_def by (rule tree_ok_add_events) (simp add: tree_ok_def)
  moreover obtain i where i: "path_lookup ?tr ?p = Some i" "ev_issued_before e \<le> i"
    using look [of ?p "ev_issued_before e"] assms(3) by blast
  then have "?tr \<noteq> empty_tree" by auto
  ultimately have "full (length ?p) ?tr" by (simp add: tree_ok_def attr_keys_def)
  from remove_ok [OF this, of "ev_issued_before e"] obtain t where
    t: "remove_event st e ?tr = Inr t"
      "path_lookup t = (if path_lookup ?tr ?p = Some (ev_issued_before e) then (path_lookup ?tr)(?p := None) else path_lookup ?tr)"
    by (auto simp: remove_event_def)
  have last: "path_lookup ?tr ?p = Some (ev_issued_before e) \<longleftrightarrow> ?last"
    using i look [of ?p i] look [of ?p "i + 1"] by (auto simp: not_less)
  have c: "list_all2 (level_ok st k) event_names (attr_keys st x) \<longleftrightarrow> covers x k" if "x \<in> set es" for x
    using assms(1,2) that path_covers by blast
  have "(\<exists>i. path_lookup t p = Some i \<and> T \<le> i) \<longleftrightarrow>
      (\<exists>x \<in> set es. attr_keys st x = p \<and> T \<le> ev_issued_before x \<and> \<not> (p = ?p \<and> ?last))" for p T
    using look [of p T] unfolding t(2) last by (cases "p = ?p \<and> ?last") auto
  then have "is_revoked st t k \<longleftrightarrow> (\<exists>p. list_all2 (level_ok st k) event_names p \<and>
      (\<exists>x \<in> set es. attr_keys st x = p \<and> tk_issued_at k \<le> ev_issued_before x \<and> \<not> (p = ?p \<and> ?last)))"
    unfolding is_revoked_paths by simp
  also have "\<dots> \<longleftrightarrow> (\<exists>x \<in> set es. covers x k \<and> tk_issued_at k \<le> ev_issued_before x \<and> \<not> (attr_keys st x = ?p \<and> ?last))"
    using c by blast
  finally show ?thesis using t(1) by blast
qed

section \<open>Pruning and caching\<close>

text \<open>The calls of the manager, each at its time.\<close>

datatype api_call = Revoke event_args | Check token_values

fun api_step :: "(int \<Rightarrow> string) \<Rightarrow> revoke_conf \<Rightarrow> int \<times> api_call \<Rightarrow> revoke_api \<Rightarrow> revoke_api" where
  "api_step st cf (now, Revoke a) api = revoke cf now (new_event now a) api"
| "api_step st cf (now, Check k) api = fst (check_token st now k api)"

abbreviation no_events :: revoke_api where
  "no_events \<equiv> \<lparr>api_events = [], api_tree = None\<rparr>"

definition run_api :: "(int \<Rightarrow> string) \<Rightarrow> revoke_conf \<Rightarrow> (int \<times> api_call) list \<Rightarrow> revoke_api" where
  "run_api st cf calls = fold (api_step st cf) calls no_events"

text \<open>An event as it comes back from the store.\<close>

definition reloaded :: "int \<Rightarrow> event_args \<Rightarrow> revoke_event" where
  "reloaded now a = new_event now (stored_form (new_event now a))"

definition revoked_in :: "(int \<times> api_call) list \<Rightarrow> (int \<times> event_args) set" where
  "revoked_in calls = {(t, a). (t, Revoke a) \<in> set calls}"

text \<open>The calls of the manager give neither time, and proper names.\<close>

definition proper_args :: "event_args \<Rightarrow> bool" where
  "proper_args a \<longleftrightarrow> ea_issued_before a = None \<and> ea_revoked_at a = None \<and>
     list_all proper [ea_trust_id a, ea_consumer_id a, ea_access_token_id a, ea_audit_id a,
       ea_audit_chain_id a, ea_domain_id a, ea_project_id a, ea_user_id a, ea_role_id a]"

lemma stored_reload: "new_event now' (stored_form (new_event now a)) = reloaded now a"
  by (simp add: reloaded_def new_event_def stored_form_def Let_def)

lemma proper_reloaded: "proper_args a \<Longrightarrow> proper_event (reloaded now a)"
  by (auto simp: proper_args_def proper_event_def reloaded_def new_event_def stored_form_def Let_def proper_def)

lemma reloaded_times:
  assumes "proper_args a"
  shows "ev_issued_before (reloaded now a) = now" "row_revoked_at (stored_form (new_event now a)) = now"
  using assms by (simp_all add: proper_args_def reloaded_def new_event_def stored_form_def row_revoked_at_def Let_def)

text \<open>What is stored: the events of the past, but for those too old; the cached tree is theirs.\<close>

definition api_inv :: "(int \<Rightarrow> string) \<Rightarrow> revoke_conf \<Rightarrow> (int \<times> api_call) list \<Rightarrow> int \<Rightarrow> revoke_api \<Rightarrow> bool" where
  "api_inv st cf calls now api \<longleftrightarrow>
     set (api_events api) \<subseteq> (\<lambda>(t, a). stored_form (new_event t a)) ` revoked_in calls \<and>
     (\<forall>(t, a) \<in> revoked_in calls. t < revoked_before_cutoff_time cf now \<or> stored_form (new_event t a) \<in> set (api_events api)) \<and>
     (\<forall>tr. api_tree api = Some tr \<longrightarrow> (\<forall>now. tr = revoke_tree st (list_events now None (api_events api))))"

lemma list_events_now:
  assumes "set rows \<subseteq> (\<lambda>(t, a). stored_form (new_event t a)) ` R"
  shows "list_events now None rows = list_events now' None rows"
  using assms by (auto simp: list_events_def stored_form_def new_event_def Let_def)

lemma cutoff_mono: "now \<le> now' \<Longrightarrow> revoked_before_cutoff_time cf now \<le> revoked_before_cutoff_time cf now'"
  by (simp add: revoked_before_cutoff_time_def)

lemma kept: "x \<in> set rows \<Longrightarrow> \<not> row_revoked_at x < revoked_before_cutoff_time cf now \<Longrightarrow>
    x \<in> set (prune_expired_events cf now rows)"
  by (simp add: prune_expired_events_def)

lemma api_inv_run:
  assumes "sorted (map fst calls)" and "\<forall>(t, a) \<in> revoked_in calls. proper_args a" and "\<forall>(t, c) \<in> set calls. t \<le> now"
  shows "api_inv st cf calls now (run_api st cf calls)"
  using assms
proof (induction calls arbitrary: now rule: rev_induct)
  case Nil
  then show ?case by (simp add: api_inv_def run_api_def revoked_in_def)
next
  case (snoc x calls)
  obtain t c where x: "x = (t, c)" by (cases x)
  let ?api = "run_api st cf calls"
  have "\<forall>(u, c) \<in> set calls. u \<le> t" using snoc.prems(1) by (auto simp: x sorted_append)
  then have IH: "api_inv st cf calls t ?api"
    using snoc.IH [of t] snoc.prems by (auto simp: sorted_append revoked_in_def)
  have le: "revoked_before_cutoff_time cf t \<le> revoked_before_cutoff_time cf now"
    using snoc.prems(3) by (intro cutoff_mono) (auto simp: x)
  have run: "run_api st cf (calls @ [x]) = api_step st cf (t, c) ?api" by (simp add: run_api_def x)
  show ?case
  proof (cases c)
    case (Check k)
    have r: "revoked_in (calls @ [x]) = revoked_in calls" by (auto simp: revoked_in_def x Check)
    have e: "api_events (run_api st cf (calls @ [x])) = api_events ?api"
      by (simp add: run Check check_token_def get_revoke_tree_def Let_def split: option.splits prod.splits)
    have "api_tree (run_api st cf (calls @ [x])) = Some tr \<Longrightarrow> tr = revoke_tree st (list_events now' None (api_events ?api))" for tr now'
      using IH list_events_now [of "api_events ?api" "revoked_in calls" t now']
      by (auto simp: api_inv_def run Check check_token_def get_revoke_tree_def Let_def split: option.splits)
    then show ?thesis using IH le unfolding api_inv_def r e by fastforce
  next
    case (Revoke a)
    have r: "revoked_in (calls @ [x]) = insert (t, a) (revoked_in calls)" by (auto simp: revoked_in_def x Revoke)
    have at: "row_revoked_at (stored_form (new_event t a)) = t"
      "\<And>u b. (u, b) \<in> revoked_in calls \<Longrightarrow> row_revoked_at (stored_form (new_event u b)) = u"
      using snoc.prems(2) by (auto simp: r reloaded_times)
    have e: "api_events (run_api st cf (calls @ [x])) =
        prune_expired_events cf t (api_events ?api @ [stored_form (new_event t a)])"
      "api_tree (run_api st cf (calls @ [x])) = None"
      by (simp_all add: run Revoke revoke_def)
    have "set (prune_expired_events cf t (api_events ?api @ [stored_form (new_event t a)])) \<subseteq>
        (\<lambda>(t, a). stored_form (new_event t a)) ` insert (t, a) (revoked_in calls)"
      using IH by (auto simp: api_inv_def prune_expired_events_def)
    moreover have "u < revoked_before_cutoff_time cf now \<or>
        stored_form (new_event u b) \<in> set (prune_expired_events cf t (api_events ?api @ [stored_form (new_event t a)]))"
      if ub: "(u, b) \<in> insert (t, a) (revoked_in calls)" for u b
    proof (cases "u < revoked_before_cutoff_time cf t")
      case False
      then have "stored_form (new_event u b) \<in> set (api_events ?api @ [stored_form (new_event t a)])"
        using IH ub by (auto simp: api_inv_def)
      moreover have "row_revoked_at (stored_form (new_event u b)) = u" using at ub by blast
      ultimately show ?thesis using False kept by (metis (no_types, lifting))
    qed (use le in simp)
    ultimately show ?thesis unfolding api_inv_def r e by blast
  qed
qed

lemma set_list_events: "set (list_events now None rows) = new_event now ` set rows"
  by (simp add: list_events_def)

lemma check_token_scan:
  assumes "proper_time st" and "sorted (map fst calls)" and "\<forall>(t, c) \<in> set calls. t \<le> now"
    and "\<forall>(t, a) \<in> revoked_in calls. proper_args a"
    and "0 \<le> rv_buffer cf" and "now \<le> tk_issued_at k + 1000000 * rv_expiration cf"
  shows "snd (check_token st now k (run_api st cf calls)) = Inl TokenNotFound \<longleftrightarrow>
    (\<exists>(t, a) \<in> revoked_in calls. covers (reloaded t a) k \<and> tk_issued_at k \<le> t)"
proof -
  let ?api = "run_api st cf calls" and ?R = "revoked_in calls"
  have I: "api_inv st cf calls now ?api" by (rule api_inv_run [OF assms(2,4,3)])
  then have rows: "set (api_events ?api) \<subseteq> (\<lambda>(t, a). stored_form (new_event t a)) ` ?R"
      "\<And>t a. (t, a) \<in> ?R \<Longrightarrow> revoked_before_cutoff_time cf now \<le> t \<Longrightarrow> stored_form (new_event t a) \<in> set (api_events ?api)"
    by (fastforce simp: api_inv_def)+
  let ?es = "list_events now None (api_events ?api)"
  have "snd (get_revoke_tree st now ?api) = revoke_tree st ?es"
    using I by (auto simp: api_inv_def get_revoke_tree_def Let_def split: option.splits)
  then have "snd (check_token st now k ?api) = Inl TokenNotFound \<longleftrightarrow> is_revoked st (revoke_tree st ?es) k"
    by (cases "get_revoke_tree st now ?api") (simp add: check_token_def)
  also have "\<dots> \<longleftrightarrow> (\<exists>e \<in> set ?es. covers e k \<and> tk_issued_at k \<le> ev_issued_before e)"
  proof -
    have "proper_event (new_event now row)" if r: "row \<in> set (api_events ?api)" for row
    proof -
      obtain t a where "(t, a) \<in> ?R" "row = stored_form (new_event t a)" using subsetD [OF rows(1) r] by auto
      then show ?thesis using assms(4) proper_reloaded by (auto simp: stored_reload)
    qed
    then have "\<forall>e \<in> set ?es. proper_event e" by (simp add: set_list_events)
    then show ?thesis using tree_scan [OF assms(1)] by blast
  qed
  also have "\<dots> \<longleftrightarrow> (\<exists>(t, a) \<in> ?R. covers (reloaded t a) k \<and> tk_issued_at k \<le> t)"
  proof (rule iffI)
    assume "\<exists>e \<in> set ?es. covers e k \<and> tk_issued_at k \<le> ev_issued_before e"
    then obtain row where "row \<in> set (api_events ?api)" "covers (new_event now row) k"
        "tk_issued_at k \<le> ev_issued_before (new_event now row)"
      by (auto simp: set_list_events)
    moreover from subsetD [OF rows(1) this(1)] obtain t a where "(t, a) \<in> ?R" "row = stored_form (new_event t a)" by auto
    moreover have "proper_args a" using calculation(4) assms(4) by blast
    ultimately have "(t, a) \<in> ?R" "covers (reloaded t a) k" "tk_issued_at k \<le> t"
      by (simp_all add: stored_reload reloaded_times)
    then show "\<exists>(t, a) \<in> ?R. covers (reloaded t a) k \<and> tk_issued_at k \<le> t" by blast
  next
    assume "\<exists>(t, a) \<in> ?R. covers (reloaded t a) k \<and> tk_issued_at k \<le> t"
    then obtain t a where ta: "(t, a) \<in> ?R" "covers (reloaded t a) k" "tk_issued_at k \<le> t" by blast
    have "revoked_before_cutoff_time cf now \<le> t"
      using assms(5,6) ta(3) by (simp add: revoked_before_cutoff_time_def)
    then have "new_event now (stored_form (new_event t a)) \<in> set ?es"
      using rows(2) [OF ta(1)] by (simp add: set_list_events)
    moreover have "ev_issued_before (reloaded t a) = t" using assms(4) ta(1) reloaded_times by blast
    ultimately show "\<exists>e \<in> set ?es. covers e k \<and> tk_issued_at k \<le> ev_issued_before e"
      using ta(2,3) by (auto simp: stored_reload)
  qed
  finally show ?thesis .
qed


text \<open>The store forgets the domain of a revoked domain-scoped token: the event as it was made covers
  tokens scoped to the domain only, but once stored it refuses every token of the user that has the
  same expiry, whatever its scope.\<close>

theorem stored_event_forgets_domain:
  assumes "proper_time st" and "revoke_by_expiration u x (Some d) None = Inr a" and "proper (Some d)" and "proper (Some u)"
    and "0 \<le> rv_expiration cf" and "0 \<le> rv_buffer cf"
    and "tk_user_id k = Some u" and "tk_expires_at k = Some (trim_seconds x)" and "tk_issued_at k \<le> now"
    and "tk_assignment_domain_id k \<noteq> Some d"
  shows "\<not> covers (new_event now a) k \<and>
    snd (check_token st now k (revoke cf now (new_event now a) no_events)) = Inl TokenNotFound"
proof -
  have a: "a = no_args\<lparr>ea_user_id := Some u, ea_expires_at := Some x, ea_domain_id := Some d\<rparr>"
    using assms(2) by (auto simp: revoke_by_expiration_def no_args_def)
  have d: "d \<noteq> ''''" using assms(3) by (simp add: proper_def)
  then have scope: "ev_domain_scope_id (new_event now a) = Some d"
    by (simp add: a new_event_def no_args_def Let_def neq_Nil_conv)
  have p: "proper_args a"
    using assms(3,4) by (simp add: a proper_args_def no_args_def) (simp add: proper_def)
  have trim: "trim_seconds (trim_seconds x) = trim_seconds x" by (simp add: trim_seconds_def)
  have c: "covers (reloaded now a) k"
    using assms(7,8) d
    by (simp add: covers_def reloaded_def new_event_def stored_form_def a no_args_def Let_def neq_Nil_conv trim)
  have "row_revoked_at (stored_form (new_event now a)) = now" using reloaded_times [OF p] by simp
  then have "api_events (revoke cf now (new_event now a) no_events) = [stored_form (new_event now a)]"
    using assms(5,6) by (simp add: revoke_def prune_expired_events_def revoked_before_cutoff_time_def)
  moreover have "api_tree (revoke cf now (new_event now a) no_events) = None" by (simp add: revoke_def)
  ultimately have "snd (get_revoke_tree st now (revoke cf now (new_event now a) no_events)) = revoke_tree st [reloaded now a]"
    by (simp add: get_revoke_tree_def Let_def list_events_def stored_reload)
  moreover have "is_revoked st (revoke_tree st [reloaded now a]) k"
    using tree_scan [OF assms(1), of "[reloaded now a]" k] proper_reloaded [OF p] c reloaded_times [OF p] assms(9)
    by simp
  ultimately have "snd (check_token st now k (revoke cf now (new_event now a) no_events)) = Inl TokenNotFound"
    by (cases "get_revoke_tree st now (revoke cf now (new_event now a) no_events)") (simp add: check_token_def)
  then show ?thesis using scope assms(10) by (simp add: covers_def)
qed


section \<open>Witnesses\<close>

lemma show_int_nonempty: "show_int t \<noteq> []" and show_int_no_star: "show_int t \<noteq> ''*''"
  and show_int_not_None: "show_int t \<noteq> ''None''"
proof -
  have i: "py_int (show_int t) = Inr t" by (rule py_int_show_int)
  have "py_int [] \<noteq> Inr t" "py_int ''*'' \<noteq> Inr t" "py_int ''None'' \<noteq> Inr t"
    by (simp_all add: py_int_def strip_def is_space_def parse_nat_def is_digit_def)
  then show "show_int t \<noteq> []" "show_int t \<noteq> ''*''" "show_int t \<noteq> ''None''" using i by auto
qed

lemma proper_time_show_int: "proper_time show_int"
proof -
  have "inj show_int" by (rule injI) (metis py_int_show_int sum.inject(2))
  then show ?thesis using show_int_nonempty show_int_no_star show_int_not_None
    by (simp add: proper_time_def proper_def)
qed

abbreviation sample_token :: token_values where
  "sample_token \<equiv> \<lparr>tk_trust_id = None, tk_consumer_id = None, tk_access_token_id = None, tk_audit_id = Some ''a1'',
     tk_audit_chain_id = Some ''a1'', tk_expires_at = Some 5000000, tk_project_id = Some ''p1'', tk_user_id = Some ''u1'',
     tk_trustor_id = None, tk_trustee_id = None, tk_identity_domain_id = Some ''default'',
     tk_assignment_domain_id = Some ''default'', tk_roles = [''r1'', ''r2''], tk_issued_at = 3000000\<rparr>"

abbreviation user_event :: "string \<Rightarrow> int \<Rightarrow> revoke_event" where
  "user_event u t \<equiv> new_event t (revoke_by_user u)"

lemma proper_user_event: "proper (Some u) \<Longrightarrow> proper_event (user_event u t)"
  by (simp add: proper_event_def new_event_def revoke_by_user_def no_args_def Let_def nonempty_def) (simp add: proper_def)

lemma user_event_fields: "ev_issued_before (user_event u t) = t"
    "covers (user_event u t) k \<longleftrightarrow> Some u \<in> {tk_user_id k, tk_trustor_id k, tk_trustee_id k}"
  by (auto simp: new_event_def revoke_by_user_def no_args_def Let_def nonempty_def covers_def)

theorem revoke_tree_equals_scan_witness:
  "is_revoked show_int (revoke_tree show_int [user_event ''u0'' 9000000, user_event ''u1'' 3000000]) sample_token \<and>
   \<not> is_revoked_by_level show_int (revoke_tree show_int [user_event ''u0'' 9000000, user_event ''u1'' 3000000]) sample_token"
proof -
  let ?es = "[user_event ''u0'' 9000000, user_event ''u1'' 3000000]"
  have "\<forall>e \<in> set ?es. proper_event e" using proper_user_event by (simp add: proper_def)
  from revoke_tree_equals_scan [OF proper_time_show_int this, of sample_token] show ?thesis
    by (simp add: user_event_fields)
qed

theorem removed_event_is_forgotten_witness:
  "\<exists>t. remove_event show_int (user_event ''u1'' 4000000)
        (revoke_tree show_int [user_event ''u1'' 4000000, user_event ''u0'' 4000000]) = Inr t \<and>
     \<not> is_revoked show_int t sample_token"
proof -
  let ?es = "[user_event ''u1'' 4000000, user_event ''u0'' 4000000]"
  have p: "\<forall>e \<in> set ?es. proper_event e" using proper_user_event by (simp add: proper_def)
  have m: "user_event ''u1'' 4000000 \<in> set ?es" by simp
  from removed_event_is_forgotten [OF proper_time_show_int p m, of sample_token] show ?thesis
    by (auto simp: user_event_fields)
qed

abbreviation sample_revoke_conf :: revoke_conf where
  "sample_revoke_conf \<equiv> \<lparr>rv_expiration = 10, rv_buffer = 1\<rparr>"

abbreviation sample_calls :: "(int \<times> api_call) list" where
  "sample_calls \<equiv> [(1000000, Revoke (revoke_by_user ''u0'')), (4000000, Revoke (revoke_by_user ''u1'')),
     (4500000, Check sample_token), (13000000, Revoke (revoke_by_user ''u2''))]"


theorem stored_event_forgets_domain_witness:
  "\<exists>a. revoke_by_expiration ''u1'' 5000000 (Some ''other'') None = Inr a \<and>
     \<not> covers (new_event 4000000 a) sample_token \<and>
     snd (check_token show_int 4000000 sample_token (revoke sample_revoke_conf 4000000 (new_event 4000000 a) no_events)) = Inl TokenNotFound"
proof -
  obtain a where a: "revoke_by_expiration ''u1'' 5000000 (Some ''other'') None = Inr a"
    by (simp add: revoke_by_expiration_def)
  have "\<not> covers (new_event 4000000 a) sample_token \<and>
     snd (check_token show_int 4000000 sample_token (revoke sample_revoke_conf 4000000 (new_event 4000000 a) no_events)) = Inl TokenNotFound"
    by (rule stored_event_forgets_domain [OF proper_time_show_int a]) (simp_all add: proper_def trim_seconds_def)
  then show ?thesis using a by blast
qed

abbreviation sample_body :: "(string \<times> py_value) list" where
  "sample_body \<equiv> [(''expires_at'', PyStr ''5000000''), (''issued_at'', PyStr ''3000000''),
     (''audit_ids'', PyList [PyStr ''a1'']), (''user'', PyDict [(''id'', PyStr ''u1''), (''domain'', PyDict [(''id'', PyStr ''default'')])]),
     (''roles'', PyList [PyDict [(''id'', PyStr ''r1'')]])]"

lemma sample_values:
  "case build_token_values py_int (PyDict sample_body) of Inl _ \<Rightarrow> False
   | Inr k \<Rightarrow> tk_issued_at k = 3000000 \<and> tk_user_id k = Some ''u1'' \<and> tk_roles k = [''r1''] \<and> tk_project_id k = None"
  by code_simp


end
