(* ===== verification/Policy.thy ===== *)
theory Policy
  imports PyValue
begin

text \<open>
  The policy language that guards the interfaces (oslo_policy): checks and their evaluation
  (_checks.py), the shift-reduce parser of rules (_parser.py), and the store of rules with the
  enforcer (policy.py). The built-in kinds of checks are modelled. Formatting with \<open>%\<close>, reading of
  literals, the printed form of lists and dictionaries and the remote server of an http check are
  parameters. Evaluation counts the depth of rule references, which the language limits.
\<close>

section \<open>Checks\<close>

datatype check = FalseCheck | TrueCheck | NotCheck check | AndCheck "check list" | OrCheck "check list"
  | RuleCheck string | RoleCheck string | HttpCheck string | GenericCheck string string

fun check_str :: "check \<Rightarrow> string" where
  "check_str FalseCheck = ''!''"
| "check_str TrueCheck = ''@''"
| "check_str (NotCheck c) = ''not '' @ check_str c"
| "check_str (AndCheck cs) = ''('' @ join '' and '' (map check_str cs) @ '')''"
| "check_str (OrCheck cs) = ''('' @ join '' or '' (map check_str cs) @ '')''"
| "check_str (RuleCheck m) = ''rule:'' @ m"
| "check_str (RoleCheck m) = ''role:'' @ m"
| "check_str (HttpCheck m) = ''http:'' @ m"
| "check_str (GenericCheck k m) = k @ '':'' @ m"

text \<open>
  What a rule is parsed to: a check, or a text. Only a check can be called.
\<close>

datatype parsed = Parsed check | Text string

datatype default_rule = NoDefault | DefaultName string | DefaultCheck check

record rules =
  rule_dict :: "(string, parsed) dict"
  default_rule :: default_rule

text \<open>\<open>rules[k]\<close> with the default rule (\<open>__missing__\<close>).\<close>

definition rules_item :: "rules \<Rightarrow> string \<Rightarrow> parsed result" where
  "rules_item rs k =
     (case map_of (rule_dict rs) k of
        Some p \<Rightarrow> Inr p
      | None \<Rightarrow>
          (case default_rule rs of
             NoDefault \<Rightarrow> Inl KeyError
           | DefaultCheck c \<Rightarrow> Inr (Parsed c)
           | DefaultName n \<Rightarrow> if n = '''' then Inl KeyError else dict_index (rule_dict rs) n))"

record policy_env =
  pe_rules :: rules
  pe_target :: py_value
  pe_creds :: py_value
  pe_format :: "string \<Rightarrow> py_value \<Rightarrow> string result"
  pe_literal :: "string \<Rightarrow> py_value result"
  pe_show :: "py_value \<Rightarrow> string"
  pe_http :: "string \<Rightarrow> py_value \<Rightarrow> py_value \<Rightarrow> bool result"

text \<open>\<open>or\<close> and \<open>and\<close> over calls that may raise, from the left.\<close>

fun or_else :: "bool result \<Rightarrow> bool result \<Rightarrow> bool result" where
  "or_else (Inr False) r = r"
| "or_else q r = q"

fun and_then :: "bool result \<Rightarrow> bool result \<Rightarrow> bool result" where
  "and_then (Inr True) r = r"
| "and_then q r = q"

definition catch_key_error :: "bool result \<Rightarrow> bool result" where
  "catch_key_error r = (if r = Inl KeyError then Inr False else r)"

fun lower_text :: "py_value \<Rightarrow> string result" where
  "lower_text (PyStr s) = Inr (lower s)"
| "lower_text _ = Inl AttributeError"

definition role_check :: "policy_env \<Rightarrow> string \<Rightarrow> bool result" where
  "role_check E m =
     bind (py_item (pe_creds E) ''roles'') (\<lambda>v.
     bind (py_iter v) (\<lambda>roles.
     bind (traverse lower_text roles) (\<lambda>names. Inr (lower m \<in> set names))))"

text \<open>The search for a dotted path; a list is searched element by element.\<close>

fun find_in_dict :: "(py_value \<Rightarrow> string) \<Rightarrow> string \<Rightarrow> string list \<Rightarrow> py_value \<Rightarrow> bool result" where
  "find_in_dict sh m [] v = Inr (m = py_text sh v)"
| "find_in_dict sh m (k # ks) v =
     (case py_item v k of
        Inl e \<Rightarrow> catch_key_error (Inl e)
      | Inr (PyList vs) \<Rightarrow> foldr (\<lambda>x r. or_else (find_in_dict sh m ks x) r) vs (Inr False)
      | Inr w \<Rightarrow> find_in_dict sh m ks w)"

definition generic_check :: "policy_env \<Rightarrow> string \<Rightarrow> string \<Rightarrow> bool result" where
  "generic_check E k m =
     (case pe_format E m (pe_target E) of
        Inl e \<Rightarrow> catch_key_error (Inl e)
      | Inr t \<Rightarrow>
          (case pe_literal E k of
             Inr v \<Rightarrow> Inr (t = py_text (pe_show E) v)
           | Inl ValueError \<Rightarrow> find_in_dict (pe_show E) t (split_on CHR ''.'' k) (pe_creds E)
           | Inl e \<Rightarrow> Inl e))"

text \<open>
  Calling a check; \<open>n\<close> more references to rules fit on the stack. The \<open>try\<close> of a reference covers the
  whole evaluation of the rule.
\<close>

function eval :: "policy_env \<Rightarrow> nat \<Rightarrow> check \<Rightarrow> bool result"
  and eval_and :: "policy_env \<Rightarrow> nat \<Rightarrow> check list \<Rightarrow> bool result"
  and eval_or :: "policy_env \<Rightarrow> nat \<Rightarrow> check list \<Rightarrow> bool result" where
  "eval E n FalseCheck = Inr False"
| "eval E n TrueCheck = Inr True"
| "eval E n (NotCheck c) = bind (eval E n c) (\<lambda>b. Inr (\<not> b))"
| "eval E n (AndCheck cs) = eval_and E n cs"
| "eval E n (OrCheck cs) = eval_or E n cs"
| "eval E 0 (RuleCheck m) = Inl RuntimeError"
| "eval E (Suc n) (RuleCheck m) =
     catch_key_error (case rules_item (pe_rules E) m of
       Inl e \<Rightarrow> Inl e | Inr (Text s) \<Rightarrow> Inl TypeError | Inr (Parsed c) \<Rightarrow> eval E n c)"
| "eval E n (RoleCheck m) = role_check E m"
| "eval E n (HttpCheck m) =
     bind (pe_format E (''http:'' @ m) (pe_target E)) (\<lambda>url. pe_http E url (pe_target E) (pe_creds E))"
| "eval E n (GenericCheck k m) = generic_check E k m"
| "eval_and E n [] = Inr True"
| "eval_and E n (c # cs) = and_then (eval E n c) (eval_and E n cs)"
| "eval_or E n [] = Inr False"
| "eval_or E n (c # cs) = or_else (eval E n c) (eval_or E n cs)"
  by pat_completeness auto
termination
  by (relation "inv_image (less_than <*lex*> less_than) (\<lambda>x. case x of
        Inl (E, n, c) \<Rightarrow> (n, size c)
      | Inr (Inl (E, n, cs)) \<Rightarrow> (n, size_list size cs)
      | Inr (Inr (E, n, cs)) \<Rightarrow> (n, size_list size cs))") auto

section \<open>Parsing\<close>

definition parse_check :: "string \<Rightarrow> check" where
  "parse_check r =
     (if r = ''!'' then FalseCheck
      else if r = ''@'' then TrueCheck
      else case split_once CHR '':'' r of
             [kind, m] \<Rightarrow>
               if kind = ''rule'' then RuleCheck m
               else if kind = ''role'' then RoleCheck m
               else if kind = ''http'' then HttpCheck m
               else GenericCheck kind m
           | _ \<Rightarrow> FalseCheck)"

text \<open>
  The tokens and values of the parser's two stacks, side by side: words of the language with their
  text, checks, and the two kinds of expressions with the rules of their check.
\<close>

datatype word = LPAR | RPAR | AND | OR | NOT | STRING

datatype item = Raw word string | Chk check | AndExpr "check list" | OrExpr "check list"

text \<open>\<open>_mix_or_and_expr\<close>: the last alternative takes the new check.\<close>

definition mix_or_and :: "check list \<Rightarrow> check \<Rightarrow> check list" where
  "mix_or_and cs d =
     (case last cs of
        AndCheck ds \<Rightarrow> butlast cs @ [AndCheck (ds @ [d])]
      | c \<Rightarrow> butlast cs @ [AndCheck [c, d]])"

text \<open>The reducers: a parenthesised value, and a check that joins what stands before the operator.\<close>

fun as_check :: "item \<Rightarrow> check option" where
  "as_check (Chk c) = Some c"
| "as_check (AndExpr cs) = Some (AndCheck cs)"
| "as_check (OrExpr cs) = Some (OrCheck cs)"
| "as_check (Raw w v) = None"

fun join_and :: "check \<Rightarrow> item \<Rightarrow> item option" where
  "join_and d (Chk c) = Some (AndExpr [c, d])"
| "join_and d (AndExpr cs) = Some (AndExpr (cs @ [d]))"
| "join_and d (OrExpr cs) = Some (OrExpr (mix_or_and cs d))"
| "join_and d (Raw w v) = None"

fun join_or :: "check \<Rightarrow> item \<Rightarrow> item option" where
  "join_or d (Chk c) = Some (OrExpr [c, d])"
| "join_or d (AndExpr cs) = Some (OrExpr [AndCheck cs, d])"
| "join_or d (OrExpr cs) = Some (OrExpr (cs @ [d]))"
| "join_or d (Raw w v) = None"

text \<open>One reduction at the top of the stack, which is the head of the list.\<close>

definition reduce_operator :: "check \<Rightarrow> word \<Rightarrow> item list \<Rightarrow> item list option" where
  "reduce_operator d w s =
     (if w = NOT then Some (Chk (NotCheck d) # s)
      else case s of
             [] \<Rightarrow> None
           | x # t \<Rightarrow>
               map_option (\<lambda>y. y # t) (if w = AND then join_and d x else if w = OR then join_or d x else None))"

definition reduce_top :: "item \<Rightarrow> item \<Rightarrow> item list \<Rightarrow> item list option" where
  "reduce_top x y s =
     (case x of
        Chk d \<Rightarrow> (case y of Raw w v \<Rightarrow> reduce_operator d w s | _ \<Rightarrow> None)
      | Raw w v \<Rightarrow>
          (case s of
             Raw u v' # t \<Rightarrow> if w = RPAR \<and> u = LPAR then map_option (\<lambda>c. Chk c # t) (as_check y) else None
           | _ \<Rightarrow> None)
      | _ \<Rightarrow> None)"

fun reduce_once :: "item list \<Rightarrow> item list option" where
  "reduce_once (x # y # s) = reduce_top x y s"
| "reduce_once s = None"

lemma reduce_once_shrinks: "reduce_once s = Some t \<Longrightarrow> length t < length s"
  by (induction s rule: reduce_once.induct) (auto simp: reduce_top_def reduce_operator_def split: item.splits list.splits if_splits)

function reduce :: "item list \<Rightarrow> item list" where
  "reduce s = (case reduce_once s of None \<Rightarrow> s | Some t \<Rightarrow> reduce t)"
  by pat_completeness auto
termination
  by (relation "measure length") (auto dest: reduce_once_shrinks)

declare reduce.simps [simp del]

definition shift :: "item \<Rightarrow> item list \<Rightarrow> item list" where
  "shift x s = reduce (x # s)"

definition parse_result :: "item list \<Rightarrow> parsed result" where
  "parse_result s =
     (case s of
        [Chk c] \<Rightarrow> Inr (Parsed c)
      | [AndExpr cs] \<Rightarrow> Inr (Parsed (AndCheck cs))
      | [OrExpr cs] \<Rightarrow> Inr (Parsed (OrCheck cs))
      | [Raw w v] \<Rightarrow> Inr (Text v)
      | _ \<Rightarrow> Inl ValueError)"

text \<open>
  The tokens of a piece of a rule without space: leading and trailing parentheses are tokens of their
  own, what is between is a word of the language, a quoted string or a check.
\<close>

definition token_items :: "string \<Rightarrow> item list" where
  "token_items tok =
     (let tok1 = dropWhile (\<lambda>c. c = CHR ''('') tok;
          opening = replicate (length tok - length tok1) (Raw LPAR ''('');
          clean = rev (dropWhile (\<lambda>c. c = CHR '')'') (rev tok1));
          closing = replicate (length tok1 - length clean) (Raw RPAR '')'')
      in if tok1 = [] then opening
         else opening @
           (if lower clean = ''and'' then [Raw AND clean]
            else if lower clean = ''or'' then [Raw OR clean]
            else if lower clean = ''not'' then [Raw NOT clean]
            else if clean = [] then []
            else if length tok1 \<ge> 2 \<and> hd tok1 = last tok1 \<and> (hd tok1 = CHR 0x22 \<or> hd tok1 = CHR 0x27)
            then [Raw STRING (butlast (tl tok1))]
            else [Chk (parse_check clean)]) @ closing)"

definition parse_tokenize :: "string \<Rightarrow> item list" where
  "parse_tokenize r = concat (map token_items (words r))"

definition parse_text_rule :: "string \<Rightarrow> parsed" where
  "parse_text_rule r =
     (if r = '''' then Parsed TrueCheck
      else case parse_result (fold shift (parse_tokenize r) []) of
             Inl _ \<Rightarrow> Parsed FalseCheck | Inr p \<Rightarrow> p)"

text \<open>The older form: a list of alternatives, each a text or a list of texts.\<close>

fun parse_check_value :: "py_value \<Rightarrow> check" where
  "parse_check_value (PyStr s) = parse_check s"
| "parse_check_value _ = FalseCheck"

definition parse_alternative :: "py_value \<Rightarrow> check result" where
  "parse_alternative inner =
     bind (case inner of PyStr s \<Rightarrow> Inr [inner] | _ \<Rightarrow> py_iter inner) (\<lambda>vs.
       case map parse_check_value vs of [c] \<Rightarrow> Inr c | cs \<Rightarrow> Inr (AndCheck cs))"

definition parse_list_rule :: "py_value \<Rightarrow> check result" where
  "parse_list_rule r =
     (if \<not> truthy r then Inr TrueCheck
      else bind (py_iter r) (\<lambda>inners.
           bind (traverse parse_alternative (filter truthy inners)) (\<lambda>alts.
             case alts of [] \<Rightarrow> Inr FalseCheck | [c] \<Rightarrow> Inr c | cs \<Rightarrow> Inr (OrCheck cs))))"

fun parse_rule :: "py_value \<Rightarrow> parsed result" where
  "parse_rule (PyStr s) = Inr (parse_text_rule s)"
| "parse_rule v = bind (parse_list_rule v) (\<lambda>c. Inr (Parsed c))"

section \<open>Rules and the enforcer\<close>

definition rules_from_dict :: "(string, py_value) dict \<Rightarrow> default_rule \<Rightarrow> rules result" where
  "rules_from_dict d def =
     bind (traverse (\<lambda>(k, v). bind (parse_rule v) (\<lambda>p. Inr (k, p))) d) (\<lambda>ps.
       Inr \<lparr>rule_dict = ps, default_rule = def\<rparr>)"

definition set_rules :: "(string, parsed) dict \<Rightarrow> bool \<Rightarrow> default_rule \<Rightarrow> rules \<Rightarrow> rules" where
  "set_rules new overwrite def rs =
     (if overwrite then \<lparr>rule_dict = new, default_rule = def\<rparr>
      else rs\<lparr>rule_dict := fold (\<lambda>(k, p). AList.update k p) new (rule_dict rs)\<rparr>)"

text \<open>The named rule for the target and credentials of the environment; loading of files has been done.\<close>

definition enforce :: "policy_env \<Rightarrow> nat \<Rightarrow> string \<Rightarrow> bool \<Rightarrow> bool result" where
  "enforce E n rule do_raise =
     bind (if rule_dict (pe_rules E) = [] then Inr False
           else catch_key_error (case rules_item (pe_rules E) rule of
                  Inl e \<Rightarrow> Inl e | Inr (Text s) \<Rightarrow> Inl TypeError | Inr (Parsed c) \<Rightarrow> eval E n c)) (\<lambda>b.
       if do_raise \<and> \<not> b then Inl PolicyNotAuthorized else Inr b)"

section \<open>Checks that evaluate alike\<close>

definition same :: "check \<Rightarrow> check \<Rightarrow> bool" where
  "same c d \<longleftrightarrow> (\<forall>E n. eval E n c = eval E n d)"

lemma and_then_simps [simp]: "and_then r (Inr True) = r" "and_then (and_then p q) r = and_then p (and_then q r)"
proof -
  show "and_then r (Inr True) = r" by (cases "(r, Inr True :: bool result)" rule: and_then.cases) auto
  show "and_then (and_then p q) r = and_then p (and_then q r)" by (cases "(p, q)" rule: and_then.cases) auto
qed

lemma or_else_simps [simp]: "or_else r (Inr False) = r" "or_else (or_else p q) r = or_else p (or_else q r)"
proof -
  show "or_else r (Inr False) = r" by (cases "(r, Inr False :: bool result)" rule: or_else.cases) auto
  show "or_else (or_else p q) r = or_else p (or_else q r)" by (cases "(p, q)" rule: or_else.cases) auto
qed

lemma eval_and_append [simp]: "eval_and E n (cs @ ds) = and_then (eval_and E n cs) (eval_and E n ds)"
  by (induction cs) auto

lemma eval_or_append [simp]: "eval_or E n (cs @ ds) = or_else (eval_or E n cs) (eval_or E n ds)"
  by (induction cs) auto

lemma eval_and_same: "list_all2 same cs ds \<Longrightarrow> eval_and E n cs = eval_and E n ds"
  by (induction rule: list_all2_induct) (auto simp: same_def)

lemma eval_or_same: "list_all2 same cs ds \<Longrightarrow> eval_or E n cs = eval_or E n ds"
  by (induction rule: list_all2_induct) (auto simp: same_def)

section \<open>Rules as expressions\<close>

text \<open>
  The language: a word without space, the negation of what follows, and a parenthesised sequence of
  expressions joined by \<open>and\<close> (true) and \<open>or\<close> (false).
\<close>

datatype rule_expr = Leaf string | Neg rule_expr | Group rule_expr "(bool \<times> rule_expr) list"

abbreviation operator :: "bool \<Rightarrow> string" where
  "operator b \<equiv> (if b then ''and'' else ''or'')"

text \<open>The reference: alternatives of conjunctions, as \<open>and\<close> binds tighter than \<open>or\<close>.\<close>

definition join_group :: "check list list \<Rightarrow> bool \<times> check \<Rightarrow> check list list" where
  "join_group gs x = (if fst x then butlast gs @ [last gs @ [snd x]] else gs @ [[snd x]])"

definition conjunctions :: "check \<Rightarrow> (bool \<times> check) list \<Rightarrow> check list list" where
  "conjunctions c ops = foldl join_group [[c]] ops"

fun by_precedence :: "rule_expr \<Rightarrow> check" where
  "by_precedence (Leaf w) = parse_check w"
| "by_precedence (Neg e) = NotCheck (by_precedence e)"
| "by_precedence (Group e ops) =
     OrCheck (map AndCheck (conjunctions (by_precedence e) (map (\<lambda>(b, x). (b, by_precedence x)) ops)))"

fun expr_items :: "rule_expr \<Rightarrow> item list" where
  "expr_items (Leaf w) = [Chk (parse_check w)]"
| "expr_items (Neg e) = Raw NOT ''not'' # expr_items e"
| "expr_items (Group e ops) =
     Raw LPAR ''('' # expr_items e @
     concat (map (\<lambda>(b, x). Raw (if b then AND else OR) (operator b) # expr_items x) ops) @ [Raw RPAR '')'']"

fun print_expr :: "rule_expr \<Rightarrow> string" where
  "print_expr (Leaf w) = w"
| "print_expr (Neg e) = ''not '' @ print_expr e"
| "print_expr (Group e ops) =
     ''('' @ print_expr e @ concat (map (\<lambda>(b, x). '' '' @ operator b @ '' '' @ print_expr x) ops) @ '')''"

text \<open>What a value of the parser stands for.\<close>

fun stands_for :: "item \<Rightarrow> check list list \<Rightarrow> bool" where
  "stands_for (Chk c) gs \<longleftrightarrow> (\<exists>g. gs = [[g]] \<and> same c g)"
| "stands_for (AndExpr cs) gs \<longleftrightarrow> (\<exists>g. gs = [g] \<and> list_all2 same cs g)"
| "stands_for (OrExpr cs) gs \<longleftrightarrow> cs \<noteq> [] \<and> list_all2 (\<lambda>c g. same c (AndCheck g)) cs gs"
| "stands_for (Raw w v) gs \<longleftrightarrow> False"

lemma stands_for_check:
  assumes "stands_for x gs"
  shows "\<exists>c. as_check x = Some c \<and> same c (OrCheck (map AndCheck gs))"
proof (cases x)
  case (Chk c)
  then show ?thesis using assms by (auto simp: same_def)
next
  case (AndExpr cs)
  then show ?thesis using assms eval_and_same by (fastforce simp: same_def)
next
  case (OrExpr cs)
  then have "list_all2 same cs (map AndCheck gs)" using assms by (simp add: list_all2_map2)
  then show ?thesis using OrExpr eval_or_same by (fastforce simp: same_def)
qed (use assms in simp)

lemma same_refl [simp]: "same c c"
  by (simp add: same_def)

lemma join_and_stands:
  assumes "stands_for x gs" and "same d h" and "gs \<noteq> []"
  shows "\<exists>y. join_and d x = Some y \<and> stands_for y (join_group gs (True, h))"
proof (cases x)
  case (OrExpr cs)
  then have cs: "cs \<noteq> []" "list_all2 (\<lambda>c g. same c (AndCheck g)) cs gs" using assms(1) by auto
  then obtain bs c where b: "cs = bs @ [c]" by (meson rev_exhaust)
  then obtain hs g where g: "gs = hs @ [g]" "list_all2 (\<lambda>c g. same c (AndCheck g)) bs hs" "same c (AndCheck g)"
    using cs(2) by (auto simp: list_all2_append1 list_all2_Cons1)
  have "\<exists>c'. mix_or_and cs d = bs @ [c'] \<and> same c' (AndCheck (g @ [h]))"
    using g(3) assms(2) by (cases c) (auto simp: mix_or_and_def b same_def)
  then show ?thesis using OrExpr g by (auto simp: join_group_def intro!: list_all2_appendI)
qed (use assms in \<open>auto simp: join_group_def intro!: list_all2_appendI\<close>)

lemma join_or_stands:
  assumes "stands_for x gs" and "same d h" and "gs \<noteq> []"
  shows "\<exists>y. join_or d x = Some y \<and> stands_for y (join_group gs (False, h))"
proof (cases x)
  case (AndExpr cs)
  then show ?thesis using assms eval_and_same by (fastforce simp: join_group_def same_def)
qed (use assms in \<open>auto simp: join_group_def same_def intro!: list_all2_appendI\<close>)

section \<open>The parser follows the precedence\<close>

lemma reduce_None: "reduce_once s = None \<Longrightarrow> reduce s = s"
  by (subst reduce.simps) simp

lemma reduce_Some: "reduce_once s = Some t \<Longrightarrow> reduce s = reduce t"
  by (subst reduce.simps) simp

lemma reduce_word: "w \<noteq> RPAR \<Longrightarrow> reduce (Raw w v # s) = Raw w v # s"
  by (rule reduce_None) (cases s; auto simp: reduce_top_def split: list.splits item.splits)

lemma reduce_expr: "reduce (AndExpr cs # s) = AndExpr cs # s" "reduce (OrExpr cs # s) = OrExpr cs # s"
  by (rule reduce_None, cases s, simp_all add: reduce_top_def)+

lemma reduce_not: "reduce (Chk c # Raw NOT v # s) = reduce (Chk (NotCheck c) # s)"
  by (rule reduce_Some) (simp add: reduce_top_def reduce_operator_def)

lemma reduce_and: "join_and d x = Some y \<Longrightarrow> reduce (Chk d # Raw AND v # x # s) = y # s"
  by (subst reduce_Some [where t = "y # s"]) (cases x; auto simp: reduce_top_def reduce_operator_def reduce_expr)+

lemma reduce_or: "join_or d x = Some y \<Longrightarrow> reduce (Chk d # Raw OR v # x # s) = y # s"
  by (subst reduce_Some [where t = "y # s"]) (cases x; auto simp: reduce_top_def reduce_operator_def reduce_expr)+

lemma reduce_close: "as_check x = Some c \<Longrightarrow> reduce (Raw RPAR v # x # Raw LPAR w # s) = reduce (Chk c # s)"
  by (rule reduce_Some) (simp add: reduce_top_def)

lemma shift_word: "w \<noteq> RPAR \<Longrightarrow> shift (Raw w v) s = Raw w v # s"
  by (simp add: shift_def reduce_word)

lemma shift_close: "as_check x = Some c \<Longrightarrow> shift (Raw RPAR v) (x # Raw LPAR w # s) = reduce (Chk c # s)"
  by (simp add: shift_def reduce_close)

text \<open>A check stays where no operator precedes it.\<close>

definition base :: "item list \<Rightarrow> bool" where
  "base s \<longleftrightarrow> s = [] \<or> (\<exists>v t. s = Raw LPAR v # t)"

lemma reduce_base: "base s \<Longrightarrow> reduce (Chk c # s) = Chk c # s"
  by (rule reduce_None) (auto simp: base_def reduce_top_def reduce_operator_def split: list.splits)

lemma join_group_nonempty [simp]: "join_group gs x \<noteq> []"
  by (simp add: join_group_def)

abbreviation op_items :: "(bool \<times> rule_expr) list \<Rightarrow> item list" where
  "op_items ops \<equiv> concat (map (\<lambda>(b, x). Raw (if b then AND else OR) (operator b) # expr_items x) ops)"

abbreviation op_checks :: "(bool \<times> rule_expr) list \<Rightarrow> (bool \<times> check) list" where
  "op_checks ops \<equiv> map (\<lambda>(b, x). (b, by_precedence x)) ops"

lemma shift_ops:
  assumes "stands_for x gs" and "gs \<noteq> []"
    and "\<And>b e s. (b, e) \<in> set xs \<Longrightarrow> \<exists>c. same c (by_precedence e) \<and> fold shift (expr_items e) s = reduce (Chk c # s)"
  shows "\<exists>y. stands_for y (foldl join_group gs (op_checks xs)) \<and> fold shift (op_items xs) (x # s) = y # s"
  using assms
proof (induction xs arbitrary: x gs)
  case (Cons bx xs)
  obtain b u where bx: "bx = (b, u)" by (cases bx)
  define w where "w = (if b then AND else OR)"
  have w: "w \<noteq> RPAR" by (simp add: w_def)
  obtain d where d: "same d (by_precedence u)"
      "fold shift (expr_items u) (Raw w (operator b) # x # s) = reduce (Chk d # Raw w (operator b) # x # s)"
    using Cons.prems(3) [of b u] bx by auto
  obtain y where y: "stands_for y (join_group gs (b, by_precedence u))"
      "reduce (Chk d # Raw w (operator b) # x # s) = y # s"
    using join_and_stands [OF Cons.prems(1) d(1) Cons.prems(2)] join_or_stands [OF Cons.prems(1) d(1) Cons.prems(2)]
      reduce_and reduce_or by (cases b) (auto simp: w_def)
  have "\<exists>z. stands_for z (foldl join_group (join_group gs (b, by_precedence u)) (op_checks xs)) \<and>
      fold shift (op_items xs) (y # s) = z # s"
    by (rule Cons.IH [OF y(1) join_group_nonempty]) (use Cons.prems(3) in auto)
  then obtain z where
    z: "stands_for z (foldl join_group (join_group gs (b, by_precedence u)) (op_checks xs))" "fold shift (op_items xs) (y # s) = z # s"
    by blast
  have "shift (Raw w (operator b)) (x # s) = Raw w (operator b) # x # s" by (rule shift_word [OF w])
  then show ?case using z d(2) y(2) by (auto simp: bx w_def)
qed auto

lemma shift_expr: "\<exists>c. same c (by_precedence e) \<and> fold shift (expr_items e) s = reduce (Chk c # s)"
proof (induction e arbitrary: s)
  case (Leaf w)
  show ?case by (rule exI [of _ "parse_check w"]) (simp add: shift_def)
next
  case (Neg e)
  obtain c where c: "same c (by_precedence e)"
      "fold shift (expr_items e) (Raw NOT ''not'' # s) = reduce (Chk c # Raw NOT ''not'' # s)"
    using Neg by blast
  have "same (NotCheck c) (by_precedence (Neg e))" using c(1) by (simp add: same_def)
  then show ?case using c(2) by (auto simp: shift_word reduce_not)
next
  case (Group e ops)
  obtain c where c: "same c (by_precedence e)"
      "fold shift (expr_items e) (Raw LPAR ''('' # s) = reduce (Chk c # Raw LPAR ''('' # s)"
    using Group.IH(1) by blast
  have "stands_for (Chk c) [[by_precedence e]]" using c(1) by simp
  moreover have "\<exists>c. same c (by_precedence x) \<and> fold shift (expr_items x) t = reduce (Chk c # t)" if "(b, x) \<in> set ops" for b x t
    using Group.IH(2) [OF that, of x] by (simp add: snds.simps)
  ultimately obtain y where y: "stands_for y (conjunctions (by_precedence e) (op_checks ops))"
      "fold shift (op_items ops) (Chk c # Raw LPAR ''('' # s) = y # Raw LPAR ''('' # s"
    unfolding conjunctions_def using shift_ops by blast
  from stands_for_check [OF y(1)] obtain c' where c': "as_check y = Some c'" "same c' (by_precedence (Group e ops))"
    by auto
  have "reduce (Chk c # Raw LPAR ''('' # s) = Chk c # Raw LPAR ''('' # s" by (rule reduce_base) (simp add: base_def)
  then show ?case using c(2) y(2) c' by (auto simp: shift_word shift_close)
qed

lemma parse_items:
  "\<exists>c. same c (by_precedence (Group e ops)) \<and> parse_result (fold shift (expr_items e @ op_items ops) []) = Inr (Parsed c)"
proof -
  obtain c where c: "same c (by_precedence e)" "fold shift (expr_items e) [] = [Chk c]"
    using shift_expr [of e "[]"] by (auto simp: reduce_base base_def)
  have "stands_for (Chk c) [[by_precedence e]]" using c(1) by simp
  from shift_ops [OF this] shift_expr obtain y where
    y: "stands_for y (conjunctions (by_precedence e) (op_checks ops))" "fold shift (op_items ops) [Chk c] = [y]"
    unfolding conjunctions_def by blast
  from stands_for_check [OF y(1)] obtain c' where "as_check y = Some c'" "same c' (by_precedence (Group e ops))" by auto
  then show ?thesis using c(2) y(2) by (cases y) (auto simp: parse_result_def)
qed

section \<open>The tokenizer\<close>

text \<open>A word a check is printed as: no space, no parenthesis at its ends, no quotes around it, not a word of the language.\<close>

definition plain_word :: "string \<Rightarrow> bool" where
  "plain_word w \<longleftrightarrow> w \<noteq> [] \<and> list_all (Not \<circ> is_space) w \<and> hd w \<noteq> CHR ''('' \<and> last w \<noteq> CHR '')'' \<and>
     hd w \<noteq> CHR 0x22 \<and> hd w \<noteq> CHR 0x27 \<and> lower w \<notin> {''and'', ''or'', ''not''}"

lemma words_append:
  assumes "list_all (Not \<circ> is_space) w" and "w \<noteq> []" and "rest = [] \<or> is_space (hd rest)"
  shows "words (w @ rest) = w # words rest"
proof -
  obtain x xs where w: "w = x # xs" using assms(2) by (cases w) auto
  have a: "list_all (Not \<circ> is_space) xs" "\<not> is_space x" using assms(1) by (simp_all add: w)
  have "takeWhile (Not \<circ> is_space) (xs @ rest) = xs" "dropWhile (Not \<circ> is_space) (xs @ rest) = rest"
    using a(1) assms(3) by (induction xs) (cases rest; simp)+
  then show ?thesis by (subst words.simps) (simp add: w a(2))
qed

lemma words_space: "is_space c \<Longrightarrow> words (c # s) = words s"
  by (subst (1 2) words.simps) simp

lemma token_items_wrapped:
  assumes "w \<noteq> []" and "hd w \<noteq> CHR ''(''" and "last w \<noteq> CHR '')''"
    and "w \<in> {''and'', ''or'', ''not''} \<or> plain_word w"
  shows "token_items (replicate a CHR ''('' @ w @ replicate b CHR '')'') =
    replicate a (Raw LPAR ''('') @
    (if w = ''and'' then [Raw AND w] else if w = ''or'' then [Raw OR w] else if w = ''not'' then [Raw NOT w]
     else [Chk (parse_check w)]) @ replicate b (Raw RPAR '')'')"
proof -
  have d1: "dropWhile (\<lambda>c. c = CHR ''('') (replicate a CHR ''('' @ w @ t) = w @ t" for t
    using assms(1,2) by (induction a) (cases w; simp)+
  have d2: "dropWhile (\<lambda>c. c = CHR '')'') (rev (w @ replicate b CHR '')'')) = rev w"
  proof -
    obtain v c where w: "w = v @ [c]" using assms(1) by (meson rev_exhaust)
    have "dropWhile (\<lambda>c. c = CHR '')'') (replicate b CHR '')'' @ rev w) = rev w"
      using assms(3) by (induction b) (simp_all add: w)
    then show ?thesis by simp
  qed
  have l: "lower ''and'' = ''and''" "lower ''or'' = ''or''" "lower ''not'' = ''not''" by code_simp+
  have h: "hd (w @ t) = hd w" for t using assms(1) by simp
  show ?thesis
    using assms(1,4) unfolding token_items_def Let_def d1 d2 rev_rev_ident
    by (auto simp: l plain_word_def h)
qed

fun plain_expr :: "rule_expr \<Rightarrow> bool" where
  "plain_expr (Leaf w) \<longleftrightarrow> plain_word w"
| "plain_expr (Neg e) \<longleftrightarrow> plain_expr e"
| "plain_expr (Group e ops) \<longleftrightarrow> plain_expr e \<and> (\<forall>x \<in> set ops. plain_expr (snd x))"

abbreviation print_ops :: "(bool \<times> rule_expr) list \<Rightarrow> string" where
  "print_ops ops \<equiv> concat (map (\<lambda>(b, x). '' '' @ operator b @ '' '' @ print_expr x) ops)"

lemma not_space_parens [simp]: "list_all (Not \<circ> is_space) (replicate a CHR ''('')" "list_all (Not \<circ> is_space) (replicate a CHR '')'')"
  by (induction a) (simp_all add: is_space_def)

lemma is_space_blank [simp]: "is_space CHR '' ''"
  by (simp add: is_space_def)

lemma tokenize_blank [simp]: "parse_tokenize (CHR '' '' # s) = parse_tokenize s"
  by (simp add: parse_tokenize_def words_space)

lemma tokenize_word:
  assumes "w \<in> {''and'', ''or'', ''not''} \<or> plain_word w" and "rest = [] \<or> is_space (hd rest)"
  shows "parse_tokenize (replicate a CHR ''('' @ w @ replicate b CHR '')'' @ rest) =
    replicate a (Raw LPAR ''('') @
    (if w = ''and'' then [Raw AND w] else if w = ''or'' then [Raw OR w] else if w = ''not'' then [Raw NOT w]
     else [Chk (parse_check w)]) @ replicate b (Raw RPAR '')'') @ parse_tokenize rest"
proof -
  have w: "w \<noteq> []" "hd w \<noteq> CHR ''(''" "last w \<noteq> CHR '')''" "list_all (Not \<circ> is_space) w"
    using assms(1) by (auto simp: plain_word_def is_space_def)
  let ?w = "replicate a CHR ''('' @ w @ replicate b CHR '')''"
  have "words (?w @ rest) = ?w # words rest"
    by (rule words_append) (use w assms(2) in simp_all)
  then show ?thesis
    using token_items_wrapped [OF w(1-3) assms(1), of a b] by (simp add: parse_tokenize_def)
qed

definition tokenizes :: "rule_expr \<Rightarrow> bool" where
  "tokenizes e \<longleftrightarrow> (\<forall>a b rest. rest = [] \<or> is_space (hd rest) \<longrightarrow>
     parse_tokenize (replicate a CHR ''('' @ print_expr e @ replicate b CHR '')'' @ rest) =
       replicate a (Raw LPAR ''('') @ expr_items e @ replicate b (Raw RPAR '')'') @ parse_tokenize rest)"

lemma tokenizesD: "tokenizes e \<Longrightarrow> rest = [] \<or> is_space (hd rest) \<Longrightarrow>
   parse_tokenize (replicate a CHR ''('' @ print_expr e @ replicate b CHR '')'' @ rest) =
     replicate a (Raw LPAR ''('') @ expr_items e @ replicate b (Raw RPAR '')'') @ parse_tokenize rest"
  by (simp only: tokenizes_def)

lemma tokenizes_ops:
  assumes "tokenizes e" and "\<And>b x. (b, x) \<in> set ops \<Longrightarrow> tokenizes x" and "rest = [] \<or> is_space (hd rest)"
  shows "parse_tokenize (replicate a CHR ''('' @ print_expr e @ print_ops ops @ replicate m CHR '')'' @ rest) =
    replicate a (Raw LPAR ''('') @ expr_items e @ op_items ops @ replicate m (Raw RPAR '')'') @ parse_tokenize rest"
  using assms(1,2)
proof (induction ops arbitrary: e a)
  case Nil
  then show ?case using tokenizesD [OF _ assms(3)] by simp
next
  case (Cons bx ops)
  obtain b x where bx: "bx = (b, x)" by (cases bx)
  let ?more = "print_expr x @ print_ops ops @ replicate m CHR '')'' @ rest"
  have "parse_tokenize (replicate a CHR ''('' @ print_expr e @ replicate 0 CHR '')'' @ '' '' @ operator b @ '' '' @ ?more) =
      replicate a (Raw LPAR ''('') @ expr_items e @ replicate 0 (Raw RPAR '')'') @ parse_tokenize ('' '' @ operator b @ '' '' @ ?more)"
    by (rule tokenizesD [OF Cons.prems(1)]) simp
  moreover have "parse_tokenize (replicate 0 CHR ''('' @ operator b @ replicate 0 CHR '')'' @ '' '' @ ?more) =
      Raw (if b then AND else OR) (operator b) # parse_tokenize ?more"
    by (subst tokenize_word) auto
  moreover have "parse_tokenize (replicate 0 CHR ''('' @ ?more) = expr_items x @ op_items ops @ replicate m (Raw RPAR '')'') @ parse_tokenize rest"
    by (subst Cons.IH) (use Cons.prems(2) bx in auto)
  ultimately show ?case by (simp add: bx)
qed

lemma plain_tokenizes: "plain_expr e \<Longrightarrow> tokenizes e"
proof (induction e)
  case (Leaf w)
  then have "w \<notin> {''and'', ''or'', ''not''}" by (auto simp: plain_word_def lower_def)
  then show ?case using tokenize_word [of w] Leaf by (auto simp: tokenizes_def)
next
  case (Neg e)
  have "parse_tokenize (replicate a CHR ''('' @ ''not '' @ print_expr e @ replicate b CHR '')'' @ rest) =
      replicate a (Raw LPAR ''('') @ Raw NOT ''not'' # parse_tokenize (print_expr e @ replicate b CHR '')'' @ rest)" for a b rest
    using tokenize_word [of "''not''" "'' '' @ print_expr e @ replicate b CHR '')'' @ rest" a 0] by simp
  moreover have "tokenizes e" using Neg by simp
  then have "parse_tokenize (replicate 0 CHR ''('' @ print_expr e @ replicate b CHR '')'' @ rest) =
      replicate 0 (Raw LPAR ''('') @ expr_items e @ replicate b (Raw RPAR '')'') @ parse_tokenize rest"
    if "rest = [] \<or> is_space (hd rest)" for b rest
    using that unfolding tokenizes_def by blast
  ultimately show ?case by (simp add: tokenizes_def)
next
  case (Group e ops)
  have x: "tokenizes x" if "(b, x) \<in> set ops" for b x
    using Group.IH(2) [OF that, of x] Group.prems that by (auto simp: snds.simps)
  have e: "tokenizes e" using Group by simp
  show ?case
    unfolding tokenizes_def
  proof (intro allI impI)
    fix a b and rest :: string
    assume r: "rest = [] \<or> is_space (hd rest)"
    show "parse_tokenize (replicate a CHR ''('' @ print_expr (Group e ops) @ replicate b CHR '')'' @ rest) =
        replicate a (Raw LPAR ''('') @ expr_items (Group e ops) @ replicate b (Raw RPAR '')'') @ parse_tokenize rest"
      using tokenizes_ops [OF e x r, where a = "Suc a" and m = "Suc b"] by (simp add: replicate_app_Cons_same)
  qed
qed

section \<open>What rules mean\<close>

text \<open>C6: A rule written as expressions joined by \<open>and\<close>, \<open>or\<close>, \<open>not\<close> and parentheses is parsed, by greedy
  reductions, to a check that always evaluates, exceptions included, as the check built by the usual
  precedence: negation binds tightest, then \<open>and\<close>, then \<open>or\<close>.\<close>

theorem rule_follows_precedence:
  assumes "plain_expr e" and "\<forall>x \<in> set ops. plain_expr (snd x)"
  shows "\<exists>c. parse_text_rule (print_expr e @ print_ops ops) = Parsed c \<and>
    (\<forall>E n. eval E n c = eval E n (by_precedence (Group e ops)))"
proof -
  have x: "tokenizes x" if "(b, x) \<in> set ops" for b x using assms(2) that plain_tokenizes by force
  have "parse_tokenize (print_expr e @ print_ops ops) = expr_items e @ op_items ops"
    using tokenizes_ops [OF plain_tokenizes [OF assms(1)] x, where a = 0 and m = 0 and rest = "[]"]
    by (simp add: parse_tokenize_def words.simps [of "[]"])
  moreover obtain c where "same c (by_precedence (Group e ops))"
      "parse_result (fold shift (expr_items e @ op_items ops) []) = Inr (Parsed c)"
    using parse_items by blast
  moreover have "print_expr e \<noteq> []" using assms(1) by (cases e) (auto simp: plain_word_def)
  ultimately show ?thesis by (auto simp: parse_text_rule_def same_def)
qed

text \<open>Checks whose texts can be read back.\<close>

fun printable :: "check \<Rightarrow> bool" where
  "printable FalseCheck \<longleftrightarrow> True"
| "printable TrueCheck \<longleftrightarrow> True"
| "printable (NotCheck c) \<longleftrightarrow> printable c"
| "printable (AndCheck cs) \<longleftrightarrow> cs \<noteq> [] \<and> (\<forall>c \<in> set cs. printable c)"
| "printable (OrCheck cs) \<longleftrightarrow> cs \<noteq> [] \<and> (\<forall>c \<in> set cs. printable c)"
| "printable (GenericCheck k m) \<longleftrightarrow> plain_word (k @ '':'' @ m) \<and> CHR '':'' \<notin> set k \<and> k \<notin> {''rule'', ''role'', ''http''}"
| "printable c \<longleftrightarrow> plain_word (check_str c)"

fun expr_of :: "check \<Rightarrow> rule_expr" where
  "expr_of (NotCheck c) = Neg (expr_of c)"
| "expr_of (AndCheck (c # cs)) = Group (expr_of c) (map (\<lambda>x. (True, expr_of x)) cs)"
| "expr_of (OrCheck (c # cs)) = Group (expr_of c) (map (\<lambda>x. (False, expr_of x)) cs)"
| "expr_of c = Leaf (check_str c)"

lemma print_list:
  "(\<And>x. x \<in> set (c # cs) \<Longrightarrow> print_expr (expr_of x) = check_str x) \<Longrightarrow>
   print_expr (expr_of c) @ print_ops (map (\<lambda>x. (b, expr_of x)) cs) = join ('' '' @ operator b @ '' '') (map check_str (c # cs))"
  by (induction cs arbitrary: c) auto

lemma print_expr_of: "printable c \<Longrightarrow> print_expr (expr_of c) = check_str c"
proof (induction c)
  case (AndCheck cs)
  then obtain d ds where d: "cs = d # ds" by (cases cs) auto
  then show ?case using print_list [of d ds True] AndCheck by auto
next
  case (OrCheck cs)
  then obtain d ds where d: "cs = d # ds" by (cases cs) auto
  then show ?case using print_list [of d ds False] OrCheck by auto
qed auto

lemma plain_expr_of: "printable c \<Longrightarrow> plain_expr (expr_of c)"
proof (induction c)
  case (AndCheck cs)
  then show ?case by (cases cs) auto
next
  case (OrCheck cs)
  then show ?case by (cases cs) auto
next
  case FalseCheck
  show ?case by (simp add: plain_word_def is_space_def lower_def)
next
  case TrueCheck
  show ?case by (simp add: plain_word_def is_space_def lower_def)
qed auto

lemma parse_check_str:
  "parse_check (''rule:'' @ m) = RuleCheck m" "parse_check (''role:'' @ m) = RoleCheck m"
  "parse_check (''http:'' @ m) = HttpCheck m"
  "CHR '':'' \<notin> set k \<Longrightarrow> k \<notin> {''rule'', ''role'', ''http''} \<Longrightarrow> parse_check (k @ '':'' @ m) = GenericCheck k m"
  using split_once_sep [of "CHR '':''" "''rule''" m] split_once_sep [of "CHR '':''" "''role''" m]
    split_once_sep [of "CHR '':''" "''http''" m] split_once_sep [of "CHR '':''" k m]
  by (auto simp: parse_check_def append_eq_Cons_conv)

lemma conjunctions_and: "conjunctions c (map (\<lambda>x. (True, f x)) cs) = [c # map f cs]"
proof -
  have "foldl join_group [g] (map (\<lambda>x. (True, f x)) cs) = [g @ map f cs]" for g
    by (induction cs arbitrary: g) (auto simp: join_group_def)
  then show ?thesis by (simp add: conjunctions_def)
qed

lemma conjunctions_or: "conjunctions c (map (\<lambda>x. (False, f x)) cs) = [c] # map (\<lambda>x. [f x]) cs"
proof -
  have "foldl join_group gs (map (\<lambda>x. (False, f x)) cs) = gs @ map (\<lambda>x. [f x]) cs" for gs
    by (induction cs arbitrary: gs) (auto simp: join_group_def)
  then show ?thesis by (simp add: conjunctions_def)
qed

lemma same_expr_of: "printable c \<Longrightarrow> same (by_precedence (expr_of c)) c"
proof (induction c)
  case (NotCheck c)
  then show ?case by (simp add: same_def)
next
  case (AndCheck cs)
  then obtain d ds where d: "cs = d # ds" by (cases cs) auto
  have "list_all2 same (map (by_precedence \<circ> expr_of) cs) cs"
    using AndCheck by (simp add: list_all2_map1 list_all2_same)
  then show ?case using eval_and_same by (fastforce simp: d same_def conjunctions_and comp_def)
next
  case (OrCheck cs)
  then obtain d ds where d: "cs = d # ds" by (cases cs) auto
  have "list_all2 same (map (\<lambda>x. AndCheck [by_precedence (expr_of x)]) cs) cs"
    using OrCheck by (simp add: list_all2_map1 list_all2_same same_def)
  then show ?case using eval_or_same by (fastforce simp: d same_def conjunctions_or comp_def)
next
  case (RuleCheck m)
  then show ?case by (simp add: parse_check_str [simplified] same_def)
next
  case (RoleCheck m)
  then show ?case by (simp add: parse_check_str [simplified] same_def)
next
  case (HttpCheck m)
  then show ?case by (simp add: parse_check_str [simplified] same_def)
next
  case (GenericCheck k m)
  then show ?case using parse_check_str(4) [of k m] by (simp add: same_def)
qed (simp_all add: parse_check_def same_def)

text \<open>C38: Printing a check and parsing the text gives a check that always evaluates alike, as long as the
  words of the check can be told from the words of the language and no list of checks is empty.\<close>

theorem check_round_trip:
  assumes "printable c"
  shows "\<exists>d. parse_text_rule (check_str c) = Parsed d \<and> (\<forall>E n. eval E n d = eval E n c)"
proof -
  have p: "parse_tokenize (print_expr (expr_of c)) = expr_items (expr_of c)"
    using tokenizes_ops [OF plain_tokenizes [OF plain_expr_of [OF assms]], of "[]" "[]" 0 0]
    by (simp add: parse_tokenize_def words.simps [of "[]"])
  obtain d where d: "same d (by_precedence (Group (expr_of c) []))"
      "parse_result (fold shift (expr_items (expr_of c)) []) = Inr (Parsed d)"
    using parse_items [of "expr_of c" "[]"] by auto
  have "same (by_precedence (Group (expr_of c) [])) (by_precedence (expr_of c))"
    by (simp add: same_def conjunctions_def)
  then have "same d c" using d(1) same_expr_of [OF assms] by (simp add: same_def)
  moreover have "check_str c \<noteq> []" using assms by (cases c) auto
  ultimately show ?thesis using d(2) p print_expr_of [OF assms] by (auto simp: parse_text_rule_def same_def)
qed

section \<open>References to rules\<close>

text \<open>C40: A reference to a rule turns a missing credential into a refusal of that rule, so its negation
  grants: with \<open>a\<close> standing for a role check and credentials without roles, the rule \<open>not rule:a\<close>
  is allowed, whereas the same check written in place is refused.\<close>

theorem reference_fails_open:
  assumes "py_item (pe_creds E) ''roles'' = Inl KeyError"
    and "map_of (rule_dict (pe_rules E)) a = Some (Parsed (RoleCheck r))"
    and "map_of (rule_dict (pe_rules E)) x = Some (Parsed (NotCheck (RuleCheck a)))"
    and "map_of (rule_dict (pe_rules E)) y = Some (Parsed (NotCheck (RoleCheck r)))"
  shows "enforce E (Suc n) x True = Inr True \<and> enforce E (Suc n) y True = Inl PolicyNotAuthorized"
  using assms by (auto simp: enforce_def rules_item_def role_check_def catch_key_error_def)

text \<open>A rule that is a word of the language or a parenthesis is kept as a text, which nobody can call.\<close>

theorem lone_operator_is_text:
  assumes "w \<in> {''and'', ''or'', ''not'', ''(''}" and "map_of (rule_dict (pe_rules E)) x = Some (parse_text_rule w)"
  shows "enforce E n x do_raise = Inl TypeError"
proof -
  have "parse_text_rule ''and'' = Text ''and''" "parse_text_rule ''or'' = Text ''or''"
    "parse_text_rule ''not'' = Text ''not''" "parse_text_rule ''('' = Text ''(''"
    by code_simp+
  then show ?thesis using assms by (auto simp: enforce_def rules_item_def catch_key_error_def)
qed

fun refs :: "check \<Rightarrow> string set" where
  "refs (RuleCheck m) = {m}"
| "refs (NotCheck c) = refs c"
| "refs (AndCheck cs) = (\<Union>c \<in> set cs. refs c)"
| "refs (OrCheck cs) = (\<Union>c \<in> set cs. refs c)"
| "refs c = {}"

fun parsed_refs :: "parsed \<Rightarrow> string set" where
  "parsed_refs (Parsed c) = refs c"
| "parsed_refs (Text s) = {}"

fun default_refs :: "default_rule \<Rightarrow> string set" where
  "default_refs (DefaultCheck c) = refs c"
| "default_refs _ = {}"

text \<open>The names that occur in a store of rules, and which rule refers to which.\<close>

definition rule_names :: "rules \<Rightarrow> string set" where
  "rule_names rs = default_refs (default_rule rs) \<union> (\<Union>p \<in> snd ` set (rule_dict rs). parsed_refs p)"

definition references :: "rules \<Rightarrow> (string \<times> string) set" where
  "references rs = {(m, k). k \<in> rule_names rs \<and> (\<exists>c. rules_item rs k = Inr (Parsed c) \<and> m \<in> refs c)}"

lemma finite_refs [simp]: "finite (refs c)"
  by (induction c) auto

lemma finite_rule_names: "finite (rule_names rs)"
proof -
  have "finite (parsed_refs p)" for p by (cases p) auto
  moreover have "finite (default_refs d)" for d by (cases d) auto
  ultimately show ?thesis by (simp add: rule_names_def)
qed

lemma rules_item_refs: "rules_item rs k = Inr (Parsed c) \<Longrightarrow> refs c \<subseteq> rule_names rs"
proof -
  assume a: "rules_item rs k = Inr (Parsed c)"
  have d: "refs c \<subseteq> rule_names rs" if "map_of (rule_dict rs) n = Some (Parsed c)" for n
    using map_of_SomeD [OF that] by (force simp: rule_names_def)
  show ?thesis
  proof (cases "map_of (rule_dict rs) k")
    case None
    then show ?thesis using a d
      by (cases "default_rule rs") (auto simp: rules_item_def rule_names_def split: if_splits)
  qed (use a d in \<open>auto simp: rules_item_def\<close>)
qed

definition rank :: "rules \<Rightarrow> string \<Rightarrow> nat" where
  "rank rs k = card {m \<in> rule_names rs. (m, k) \<in> (references rs)\<^sup>+}"

lemma rank_step:
  assumes "acyclic (references rs)" and "(m, k) \<in> references rs"
  shows "rank rs m < rank rs k"
  unfolding rank_def
proof (rule psubset_card_mono)
  show "finite {m \<in> rule_names rs. (m, k) \<in> (references rs)\<^sup>+}" using finite_rule_names by simp
  have m: "m \<in> rule_names rs" using assms(2) rules_item_refs by (auto simp: references_def)
  have "(m, m) \<notin> (references rs)\<^sup>+" using assms(1) by (simp add: acyclic_def)
  then show "{l \<in> rule_names rs. (l, m) \<in> (references rs)\<^sup>+} \<subset> {l \<in> rule_names rs. (l, k) \<in> (references rs)\<^sup>+}"
    using m assms(2) by (auto intro: trancl_into_trancl)
qed

lemma rank_bound:
  assumes "acyclic (references rs)" and "k \<in> rule_names rs"
  shows "rank rs k < card (rule_names rs)"
  unfolding rank_def
proof (rule psubset_card_mono [OF finite_rule_names])
  have "(k, k) \<notin> (references rs)\<^sup>+" using assms(1) by (simp add: acyclic_def)
  then show "{m \<in> rule_names rs. (m, k) \<in> (references rs)\<^sup>+} \<subset> rule_names rs" using assms(2) by auto
qed

text \<open>The parameters never run out of stack.\<close>

definition shallow :: "policy_env \<Rightarrow> bool" where
  "shallow E \<longleftrightarrow> (\<forall>m t. pe_format E m t \<noteq> Inl RuntimeError) \<and> (\<forall>k. pe_literal E k \<noteq> Inl RuntimeError) \<and>
     (\<forall>u t c. pe_http E u t c \<noteq> Inl RuntimeError)"

lemma and_then_deep: "and_then p q = Inl RuntimeError \<Longrightarrow> p = Inl RuntimeError \<or> q = Inl RuntimeError"
  by (cases "(p, q)" rule: and_then.cases) auto

lemma or_else_deep: "or_else p q = Inl RuntimeError \<Longrightarrow> p = Inl RuntimeError \<or> q = Inl RuntimeError"
  by (cases "(p, q)" rule: or_else.cases) auto

lemma py_errors: "py_item v k \<noteq> Inl RuntimeError" "py_iter v \<noteq> Inl RuntimeError" "lower_text v \<noteq> Inl RuntimeError"
  by (cases v; auto simp: dict_index_def split: option.splits)+

lemma find_in_dict_shallow: "find_in_dict sh m ks v \<noteq> Inl RuntimeError"
proof (induction ks arbitrary: v)
  case (Cons k ks)
  have "foldr (\<lambda>x r. or_else (find_in_dict sh m ks x) r) vs (Inr False) \<noteq> Inl RuntimeError" for vs
    by (induction vs) (use Cons or_else_deep in auto)
  then show ?case using Cons py_errors(1) [of v k]
    by (auto simp: catch_key_error_def split: sum.splits py_value.splits)
qed simp

lemma role_check_shallow: "role_check E m \<noteq> Inl RuntimeError"
proof -
  have "traverse lower_text vs \<noteq> Inl RuntimeError" for vs
    by (induction vs) (auto simp: bind_eq_Inl py_errors)
  then show ?thesis by (auto simp: role_check_def bind_eq_Inl py_errors)
qed

lemma eval_shallow:
  assumes "shallow E" and "acyclic (references (pe_rules E))"
  shows "\<forall>m \<in> refs c. m \<in> rule_names (pe_rules E) \<and> rank (pe_rules E) m < n \<Longrightarrow> eval E n c \<noteq> Inl RuntimeError"
    and "\<forall>c \<in> set cs. \<forall>m \<in> refs c. m \<in> rule_names (pe_rules E) \<and> rank (pe_rules E) m < n \<Longrightarrow> eval_and E n cs \<noteq> Inl RuntimeError"
    and "\<forall>c \<in> set cs. \<forall>m \<in> refs c. m \<in> rule_names (pe_rules E) \<and> rank (pe_rules E) m < n \<Longrightarrow> eval_or E n cs \<noteq> Inl RuntimeError"
  using assms
proof (induction E n c and E n cs and E n cs rule: eval_eval_and_eval_or.induct)
  case (7 E n m)
  show ?case
  proof (cases "rules_item (pe_rules E) m")
    case (Inl e)
    then have "e = KeyError" by (auto simp: rules_item_def dict_index_def split: option.splits default_rule.splits if_splits)
    then show ?thesis using Inl by (simp add: catch_key_error_def)
  next
    case (Inr p)
    show ?thesis
    proof (cases p)
      case (Parsed c)
      have "\<forall>l \<in> refs c. l \<in> rule_names (pe_rules E) \<and> rank (pe_rules E) l < n"
      proof
        fix l assume l: "l \<in> refs c"
        have "(l, m) \<in> references (pe_rules E)" using l Inr Parsed 7(2) by (auto simp: references_def)
        then have "rank (pe_rules E) l < rank (pe_rules E) m" using rank_step 7(4) by blast
        then show "l \<in> rule_names (pe_rules E) \<and> rank (pe_rules E) l < n"
          using 7(2) l rules_item_refs [of "pe_rules E" m c] Inr Parsed by auto
      qed
      then have "eval E n c \<noteq> Inl RuntimeError" using 7(1) [OF Inr Parsed] 7(3,4) by blast
      then show ?thesis using Inr Parsed by (auto simp: catch_key_error_def)
    qed (simp add: Inr catch_key_error_def)
  qed
next
  case (9 E n m)
  then show ?case by (auto simp: shallow_def bind_eq_Inl)
next
  case (10 E n k m)
  then show ?case
    using find_in_dict_shallow by (auto simp: shallow_def generic_check_def catch_key_error_def split: sum.splits error.splits)
qed (auto simp: bind_eq_Inl role_check_shallow dest!: and_then_deep or_else_deep)

text \<open>C39: When no rule refers to itself, however indirectly, enforcing a rule ends, with an answer or an
  exception of its own, and never exhausts the stack as soon as it holds one call per name that
  occurs in the rules.\<close>

theorem acyclic_rules_terminate:
  assumes "shallow E" and "acyclic (references (pe_rules E))" and "card (rule_names (pe_rules E)) \<le> n"
  shows "enforce E n x do_raise \<noteq> Inl RuntimeError"
proof -
  have "eval E n c \<noteq> Inl RuntimeError" if "rules_item (pe_rules E) x = Inr (Parsed c)" for c
    using eval_shallow(1) [OF assms(1,2)] rank_bound [OF assms(2)] rules_item_refs [OF that] assms(3)
    by (metis order_less_le_trans subset_iff)
  moreover have "rules_item (pe_rules E) x \<noteq> Inl RuntimeError"
    by (auto simp: rules_item_def dict_index_def split: option.splits default_rule.splits)
  ultimately show ?thesis
    by (auto simp: enforce_def catch_key_error_def bind_eq_Inl split: sum.splits parsed.splits if_splits)
qed

section \<open>Witnesses\<close>

abbreviation sample_store :: rules where
  "sample_store \<equiv> \<lparr>rule_dict = [(''admin'', Parsed (RoleCheck ''admin'')), (''guest'', Parsed (NotCheck (RuleCheck ''admin''))),
     (''plain'', Parsed (NotCheck (RoleCheck ''admin'')))], default_rule = NoDefault\<rparr>"

abbreviation sample_env :: policy_env where
  "sample_env \<equiv> \<lparr>pe_rules = sample_store, pe_target = PyDict [], pe_creds = PyDict [(''user_id'', PyStr ''u'')],
     pe_format = (\<lambda>m t. Inr m), pe_literal = (\<lambda>k. Inl ValueError), pe_show = (\<lambda>v. []), pe_http = (\<lambda>u t c. Inr False)\<rparr>"

theorem rule_follows_precedence_witness:
  "\<exists>c. parse_text_rule ''role:a or role:b and not role:c'' = Parsed c \<and>
     (\<forall>E n. eval E n c = eval E n (OrCheck [AndCheck [RoleCheck ''a''], AndCheck [RoleCheck ''b'', NotCheck (RoleCheck ''c'')]]))"
proof -
  let ?e = "Leaf ''role:a''" and ?ops = "[(False, Leaf ''role:b''), (True, Neg (Leaf ''role:c''))]"
  have p: "plain_expr ?e" "\<forall>x \<in> set ?ops. plain_expr (snd x)"
    by (simp_all add: plain_word_def is_space_def lower_def)
  have "by_precedence (Group ?e ?ops) =
      OrCheck [AndCheck [RoleCheck ''a''], AndCheck [RoleCheck ''b'', NotCheck (RoleCheck ''c'')]]"
    by (simp add: conjunctions_def join_group_def parse_check_def split_once_def)
  then show ?thesis using rule_follows_precedence [OF p] by simp
qed

theorem check_round_trip_witness:
  "\<exists>d. parse_text_rule ''(role:a or (role:b and not rule:x))'' = Parsed d \<and>
     (\<forall>E n. eval E n d = eval E n (OrCheck [RoleCheck ''a'', AndCheck [RoleCheck ''b'', NotCheck (RuleCheck ''x'')]]))"
proof -
  let ?c = "OrCheck [RoleCheck ''a'', AndCheck [RoleCheck ''b'', NotCheck (RuleCheck ''x'')]]"
  have "printable ?c" by (simp add: plain_word_def is_space_def lower_def)
  from check_round_trip [OF this] show ?thesis by simp
qed

theorem reference_fails_open_witness:
  "enforce sample_env 1 ''guest'' True = Inr True \<and> enforce sample_env 1 ''plain'' True = Inl PolicyNotAuthorized"
  using reference_fails_open [of sample_env "''admin''" "''admin''" "''guest''" "''plain''" 0]
  by (simp add: dict_index_def)

theorem lone_operator_is_text_witness:
  "enforce (sample_env\<lparr>pe_rules := \<lparr>rule_dict = [(''x'', parse_text_rule ''and'')], default_rule = NoDefault\<rparr>\<rparr>) 0 ''x'' False = Inl TypeError"
  by (rule lone_operator_is_text [of "''and''"]) simp_all

theorem acyclic_rules_terminate_witness:
  "enforce sample_env 1 ''guest'' False \<noteq> Inl RuntimeError"
proof -
  have n: "rule_names sample_store = {''admin''}" by (auto simp: rule_names_def)
  have "references sample_store = {}" by (auto simp: references_def n rules_item_def)
  then have a: "acyclic (references (pe_rules sample_env))" by (simp add: acyclic_def)
  have s: "shallow sample_env" by (simp add: shallow_def)
  show ?thesis by (rule acyclic_rules_terminate [OF s a]) (simp add: n)
qed

end
