(* ===== verification/QuotaLimits.thy ===== *)
theory QuotaLimits
  imports Prelude "HOL-Library.List_Lexorder" "HOL-Library.Char_ord"
begin

text \<open>
  The limits of Nova's quotas: the tables of limits per project, per user and per class of
  \<open>nova/db/sqlalchemy/api.py\<close>, the resources and the limits that apply to a request of
  \<open>nova/quota.py\<close>, and the update of limits by \<open>nova/api/openstack/compute/quota_sets.py\<close>.
  A limit \<open>None\<close> is NULL in the database; a negative one means unlimited. Comparisons with
  \<open>None\<close> are those of Python 2, where \<open>None\<close> is below every number.
\<close>

section \<open>The tables\<close>

text \<open>Identifiers may be \<open>None\<close>: an administrative context has neither project nor user.\<close>

type_synonym ident = "string option"
type_synonym limit_dict = "(string, int option) dict"

declare nonempty_iff [simp del]

lemma nonempty_simps [simp]: "\<not> nonempty None" "nonempty (Some xs) \<longleftrightarrow> xs \<noteq> []"
  by (simp_all add: nonempty_def)

record quota_row =
  qr_project :: ident
  qr_resource :: string
  qr_limit :: "int option"
  qr_deleted :: bool

record user_quota_row =
  uq_project :: ident
  uq_user :: ident
  uq_resource :: string
  uq_limit :: "int option"
  uq_deleted :: bool

record class_row =
  cl_name :: string
  cl_resource :: string
  cl_limit :: "int option"
  cl_deleted :: bool

record quota_tables =
  quota_rows :: "quota_row list"
  user_quota_rows :: "user_quota_row list"
  class_rows :: "class_row list"

definition DEFAULT_QUOTA_NAME :: string where
  "DEFAULT_QUOTA_NAME = ''default''"

definition PER_PROJECT_QUOTAS :: "string list" where
  "PER_PROJECT_QUOTAS = [''fixed_ips'', ''floating_ips'', ''networks'']"

text \<open>
  The dictionaries of limits the code builds also hold the identifiers they were asked for,
  under names that are not resources; the model leaves them out.
\<close>

definition quota_get_all_by_project :: "ident \<Rightarrow> ('a) quota_tables_scheme \<Rightarrow> limit_dict" where
  "quota_get_all_by_project p db =
     fold (\<lambda>row. AList.update (qr_resource row) (qr_limit row))
       (filter (\<lambda>row. \<not> qr_deleted row \<and> qr_project row = p) (quota_rows db)) []"

definition user_rows :: "ident \<Rightarrow> 'a quota_tables_scheme \<Rightarrow> user_quota_row list" where
  "user_rows p db = filter (\<lambda>row. \<not> uq_deleted row \<and> uq_project row = p) (user_quota_rows db)"

definition quota_get_all_by_project_and_user :: "ident \<Rightarrow> ident \<Rightarrow> 'a quota_tables_scheme \<Rightarrow> limit_dict" where
  "quota_get_all_by_project_and_user p u db =
     fold (\<lambda>row. AList.update (uq_resource row) (uq_limit row)) (filter (\<lambda>row. uq_user row = u) (user_rows p db)) []"

definition quota_class_get_all_by_name :: "string \<Rightarrow> 'a quota_tables_scheme \<Rightarrow> limit_dict" where
  "quota_class_get_all_by_name c db =
     fold (\<lambda>row. AList.update (cl_resource row) (cl_limit row))
       (filter (\<lambda>row. \<not> cl_deleted row \<and> cl_name row = c) (class_rows db)) []"

definition quota_class_get_default :: "'a quota_tables_scheme \<Rightarrow> limit_dict" where
  "quota_class_get_default db = quota_class_get_all_by_name DEFAULT_QUOTA_NAME db"

text \<open>
  A limit is unique per project and resource, or per project, user and resource, among the rows
  that are not deleted: the unique constraints of the tables. Which of the two tables is meant
  depends on the user and the resource.
\<close>

definition per_user :: "ident \<Rightarrow> string \<Rightarrow> bool" where
  "per_user u r \<longleftrightarrow> nonempty u \<and> r \<notin> set PER_PROJECT_QUOTAS"

definition is_quota :: "ident \<Rightarrow> string \<Rightarrow> quota_row \<Rightarrow> bool" where
  "is_quota p r row \<longleftrightarrow> \<not> qr_deleted row \<and> qr_project row = p \<and> qr_resource row = r"

definition is_user_quota :: "ident \<Rightarrow> ident \<Rightarrow> string \<Rightarrow> user_quota_row \<Rightarrow> bool" where
  "is_user_quota p u r row \<longleftrightarrow>
     \<not> uq_deleted row \<and> uq_project row = p \<and> uq_user row = u \<and> uq_resource row = r"

definition quota_create ::
    "ident \<Rightarrow> string \<Rightarrow> int option \<Rightarrow> ident \<Rightarrow> 'a quota_tables_scheme \<Rightarrow> 'a quota_tables_scheme result" where
  "quota_create p r hard_limit u db =
     (if per_user u r then
        if list_ex (is_user_quota p u r) (user_quota_rows db) then Inl QuotaExists
        else Inr (db\<lparr>user_quota_rows := user_quota_rows db @
          [\<lparr>uq_project = p, uq_user = u, uq_resource = r, uq_limit = hard_limit, uq_deleted = False\<rparr>]\<rparr>)
      else
        if p \<noteq> None \<and> list_ex (is_quota p r) (quota_rows db) then Inl QuotaExists
        else Inr (db\<lparr>quota_rows := quota_rows db @
          [\<lparr>qr_project = p, qr_resource = r, qr_limit = hard_limit, qr_deleted = False\<rparr>]\<rparr>))"

definition quota_update ::
    "ident \<Rightarrow> string \<Rightarrow> int option \<Rightarrow> ident \<Rightarrow> 'a quota_tables_scheme \<Rightarrow> 'a quota_tables_scheme result" where
  "quota_update p r hard_limit u db =
     (if per_user u r then
        if list_ex (is_user_quota p u r) (user_quota_rows db)
        then Inr (db\<lparr>user_quota_rows :=
          map (\<lambda>row. if is_user_quota p u r row then row\<lparr>uq_limit := hard_limit\<rparr> else row) (user_quota_rows db)\<rparr>)
        else Inl ProjectUserQuotaNotFound
      else
        if list_ex (is_quota p r) (quota_rows db)
        then Inr (db\<lparr>quota_rows :=
          map (\<lambda>row. if is_quota p r row then row\<lparr>qr_limit := hard_limit\<rparr> else row) (quota_rows db)\<rparr>)
        else Inl ProjectQuotaNotFound)"

definition is_class_row :: "string \<Rightarrow> string \<Rightarrow> class_row \<Rightarrow> bool" where
  "is_class_row c r row \<longleftrightarrow> \<not> cl_deleted row \<and> cl_name row = c \<and> cl_resource row = r"

definition quota_class_get :: "string \<Rightarrow> string \<Rightarrow> 'a quota_tables_scheme \<Rightarrow> class_row result" where
  "quota_class_get c r db =
     (case find (is_class_row c r) (class_rows db) of None \<Rightarrow> Inl QuotaClassNotFound | Some row \<Rightarrow> Inr row)"

definition quota_class_create :: "string \<Rightarrow> string \<Rightarrow> int option \<Rightarrow> 'a quota_tables_scheme \<Rightarrow> 'a quota_tables_scheme" where
  "quota_class_create c r hard_limit db =
     db\<lparr>class_rows := class_rows db @
       [\<lparr>cl_name = c, cl_resource = r, cl_limit = hard_limit, cl_deleted = False\<rparr>]\<rparr>"

definition quota_class_update ::
    "string \<Rightarrow> string \<Rightarrow> int option \<Rightarrow> 'a quota_tables_scheme \<Rightarrow> 'a quota_tables_scheme result" where
  "quota_class_update c r hard_limit db =
     (if list_ex (is_class_row c r) (class_rows db)
      then Inr (db\<lparr>class_rows :=
        map (\<lambda>row. if is_class_row c r row then row\<lparr>cl_limit := hard_limit\<rparr> else row) (class_rows db)\<rparr>)
      else Inl QuotaClassNotFound)"

section \<open>Resources\<close>

text \<open>
  A resource is reserved against recorded usage, or checked against a plain value; a countable
  one brings the function that counts it, from arguments of type \<open>'c\<close>. The class attribute
  \<open>valid_method\<close> tells which call is meant for it.
\<close>

datatype 'c resource =
    ReservableResource (resource_name: string) (resource_sync: string) (resource_flag: "string option")
  | AbsoluteResource (resource_name: string) (resource_flag: "string option")
  | CountableResource (resource_name: string) (resource_count: "'c \<Rightarrow> int") (resource_flag: "string option")

fun valid_method :: "'c resource \<Rightarrow> string" where
  "valid_method (ReservableResource _ _ _) = ''reserve''"
| "valid_method _ = ''check''"

definition has_sync :: "'c resource \<Rightarrow> bool" where
  "has_sync r \<longleftrightarrow> is_ReservableResource r"

text \<open>\<open>CONF\<close>: the value of an option; these are the defaults of the quota options.\<close>

definition quota_opts :: "(string, int) dict" where
  "quota_opts =
     [(''quota_instances'', 10), (''quota_cores'', 20), (''quota_ram'', 50 * 1024),
      (''quota_floating_ips'', 10), (''quota_fixed_ips'', -1), (''quota_metadata_items'', 128),
      (''quota_injected_files'', 5), (''quota_injected_file_content_bytes'', 10 * 1024),
      (''quota_injected_file_path_length'', 255), (''quota_security_groups'', 10),
      (''quota_security_group_rules'', 20), (''quota_key_pairs'', 100), (''quota_server_groups'', 10),
      (''quota_server_group_members'', 10), (''reservation_expire'', 86400), (''until_refresh'', 0),
      (''max_age'', 0)]"

definition default_quota :: "(string \<Rightarrow> int) \<Rightarrow> 'c resource \<Rightarrow> int" where
  "default_quota CONF r =
     (case resource_flag r of None \<Rightarrow> -1 | Some flag \<Rightarrow> if flag = [] then -1 else CONF flag)"

type_synonym 'c resources = "(string, 'c resource) dict"

definition register_resource :: "'c resource \<Rightarrow> 'c resources \<Rightarrow> 'c resources" where
  "register_resource r rs = AList.update (resource_name r) r rs"

definition register_resources :: "'c resource list \<Rightarrow> 'c resources \<Rightarrow> 'c resources" where
  "register_resources = fold register_resource"

definition nova_resources :: "('c \<Rightarrow> int) \<Rightarrow> ('c \<Rightarrow> int) \<Rightarrow> ('c \<Rightarrow> int) \<Rightarrow> 'c resource list" where
  "nova_resources security_group_rule_count keypair_count server_group_member_count =
     [ReservableResource ''instances'' ''_sync_instances'' (Some ''quota_instances''),
      ReservableResource ''cores'' ''_sync_instances'' (Some ''quota_cores''),
      ReservableResource ''ram'' ''_sync_instances'' (Some ''quota_ram''),
      ReservableResource ''security_groups'' ''_sync_security_groups'' (Some ''quota_security_groups''),
      ReservableResource ''floating_ips'' ''_sync_floating_ips'' (Some ''quota_floating_ips''),
      ReservableResource ''fixed_ips'' ''_sync_fixed_ips'' (Some ''quota_fixed_ips''),
      AbsoluteResource ''metadata_items'' (Some ''quota_metadata_items''),
      AbsoluteResource ''injected_files'' (Some ''quota_injected_files''),
      AbsoluteResource ''injected_file_content_bytes'' (Some ''quota_injected_file_content_bytes''),
      AbsoluteResource ''injected_file_path_bytes'' (Some ''quota_injected_file_path_length''),
      CountableResource ''security_group_rules'' security_group_rule_count (Some ''quota_security_group_rules''),
      CountableResource ''key_pairs'' keypair_count (Some ''quota_key_pairs''),
      ReservableResource ''server_groups'' ''_sync_server_groups'' (Some ''quota_server_groups''),
      CountableResource ''server_group_members'' server_group_member_count
        (Some ''quota_server_group_members'')]"

text \<open>\<open>QuotaEngine.count\<close>\<close>

definition engine_count :: "'c resources \<Rightarrow> string \<Rightarrow> 'c \<Rightarrow> int result" where
  "engine_count rs name args =
     (case map_of rs name of
        Some (CountableResource _ count _) \<Rightarrow> Inr (count args)
      | _ \<Rightarrow> Inl QuotaResourceUnknown)"

definition engine_resources :: "'c resources \<Rightarrow> string list" where
  "engine_resources rs = sort (keys rs)"

definition valid_method_call_check_resource :: "'c resources \<Rightarrow> string \<Rightarrow> string \<Rightarrow> unit result" where
  "valid_method_call_check_resource rs name method =
     (case map_of rs name of
        None \<Rightarrow> Inl InvalidQuotaMethodUsage
      | Some r \<Rightarrow> if valid_method r \<noteq> method then Inl InvalidQuotaMethodUsage else Inr ())"

definition valid_method_call_check_resources :: "'c resources \<Rightarrow> string list \<Rightarrow> string \<Rightarrow> unit result" where
  "valid_method_call_check_resources rs names method =
     loop (\<lambda>name _. valid_method_call_check_resource rs name method) names ()"

section \<open>The limits that apply\<close>

record quota_context =
  ctx_project :: ident
  ctx_user :: ident
  ctx_quota_class :: ident

definition get_defaults :: "(string \<Rightarrow> int) \<Rightarrow> 'c resources \<Rightarrow> 'a quota_tables_scheme \<Rightarrow> limit_dict" where
  "get_defaults CONF rs db =
     fold (\<lambda>r. AList.update (resource_name r)
         (dict_get (quota_class_get_default db) (resource_name r) (Some (default_quota CONF r))))
       (map snd rs) []"

definition get_class_quotas ::
    "(string \<Rightarrow> int) \<Rightarrow> 'c resources \<Rightarrow> string \<Rightarrow> bool \<Rightarrow> 'a quota_tables_scheme \<Rightarrow> limit_dict" where
  "get_class_quotas CONF rs quota_class defaults db =
     (let class_quotas = quota_class_get_all_by_name quota_class db
      in fold (\<lambda>r quotas. if defaults \<or> resource_name r \<in> set (keys class_quotas)
           then AList.update (resource_name r)
             (dict_get class_quotas (resource_name r) (Some (default_quota CONF r))) quotas
           else quotas) (map snd rs) [])"

text \<open>What is reported of a resource; the usage and what remains only where asked for.\<close>

record quota_view =
  v_limit :: "int option"
  v_usage :: "(int \<times> int) option"
  v_remains :: "int option"

text \<open>The usage per resource, as \<open>_quota_usage_get_all\<close> sums it: in use and reserved.\<close>

type_synonym usage_dict = "(string, int \<times> int) dict"

definition subtract_limit :: "user_quota_row \<Rightarrow> (string, quota_view) dict \<Rightarrow> (string, quota_view) dict result" where
  "subtract_limit row mq =
     (case map_of mq (uq_resource row) of
        None \<Rightarrow> Inr mq
      | Some v \<Rightarrow>
          (case (v_remains v, uq_limit row) of
             (Some a, Some b) \<Rightarrow> Inr (AList.update (uq_resource row) (v\<lparr>v_remains := Some (a - b)\<rparr>) mq)
           | _ \<Rightarrow> Inl TypeError))"

definition limit_of ::
    "limit_dict \<Rightarrow> limit_dict \<Rightarrow> limit_dict \<Rightarrow> string \<Rightarrow> int option result" where
  "limit_of quotas class_quotas default_quotas name =
     bind (dict_index default_quotas name)
       (\<lambda>d. Inr (dict_get quotas name (dict_get class_quotas name d)))"

definition process_quotas ::
    "(string \<Rightarrow> int) \<Rightarrow> quota_context \<Rightarrow> 'c resources \<Rightarrow> ident \<Rightarrow> limit_dict \<Rightarrow> ident \<Rightarrow> bool \<Rightarrow>
     usage_dict option \<Rightarrow> bool \<Rightarrow> 'a quota_tables_scheme \<Rightarrow> (string, quota_view) dict result" where
  "process_quotas CONF ctx rs p quotas quota_class defaults usages remains db =
     (let quota_class = (if p = ctx_project ctx then ctx_quota_class ctx else quota_class);
          class_quotas =
            (case quota_class of
               None \<Rightarrow> []
             | Some c \<Rightarrow> if c = [] then [] else quota_class_get_all_by_name c db);
          default_quotas = get_defaults CONF rs db;
          step = (\<lambda>r mq.
            if \<not> defaults \<and> resource_name r \<notin> set (keys quotas) then Inr mq
            else bind (limit_of quotas class_quotas default_quotas (resource_name r)) (\<lambda>hard_limit.
              Inr (AList.update (resource_name r)
                \<lparr>v_limit = hard_limit,
                 v_usage = map_option (\<lambda>us. dict_get us (resource_name r) (0, 0)) usages,
                 v_remains = (if remains then hard_limit else None)\<rparr> mq)))
      in bind (loop step (map snd rs) []) (\<lambda>mq.
           if remains then loop subtract_limit (user_rows p db) mq else Inr mq))"

definition get_user_quotas ::
    "(string \<Rightarrow> int) \<Rightarrow> quota_context \<Rightarrow> 'c resources \<Rightarrow> ident \<Rightarrow> ident \<Rightarrow> ident \<Rightarrow> bool \<Rightarrow> usage_dict option \<Rightarrow>
     limit_dict option \<Rightarrow> limit_dict option \<Rightarrow> 'a quota_tables_scheme \<Rightarrow> (string, quota_view) dict result" where
  "get_user_quotas CONF ctx rs p u quota_class defaults usages project_quotas user_quotas db =
     (let user_quotas =
            (case user_quotas of Some d \<Rightarrow> d | None \<Rightarrow> quota_get_all_by_project_and_user p u db);
          proj_quotas =
            (case project_quotas of Some d \<Rightarrow> d | None \<Rightarrow> quota_get_all_by_project p db);
          user_quotas =
            fold (\<lambda>(k, v) d. if map_of d k = None then AList.update k v d else d) proj_quotas user_quotas
      in process_quotas CONF ctx rs p user_quotas quota_class defaults usages False db)"

definition get_project_quotas ::
    "(string \<Rightarrow> int) \<Rightarrow> quota_context \<Rightarrow> 'c resources \<Rightarrow> ident \<Rightarrow> ident \<Rightarrow> bool \<Rightarrow> usage_dict option \<Rightarrow>
     bool \<Rightarrow> limit_dict option \<Rightarrow> 'a quota_tables_scheme \<Rightarrow> (string, quota_view) dict result" where
  "get_project_quotas CONF ctx rs p quota_class defaults usages remains project_quotas db =
     (let project_quotas =
            (case project_quotas of Some d \<Rightarrow> d | None \<Rightarrow> quota_get_all_by_project p db)
      in process_quotas CONF ctx rs p project_quotas quota_class defaults usages remains db)"

text \<open>\<open>_get_quotas\<close>: the limits alone, of resources that all are, or all are not, reserved.\<close>

definition get_quotas ::
    "(string \<Rightarrow> int) \<Rightarrow> quota_context \<Rightarrow> 'c resources \<Rightarrow> string list \<Rightarrow> bool \<Rightarrow> ident \<Rightarrow> ident \<Rightarrow>
     limit_dict option \<Rightarrow> 'a quota_tables_scheme \<Rightarrow> limit_dict result" where
  "get_quotas CONF ctx rs names wants_sync p u project_quotas db =
     (let sub_resources = filter (\<lambda>(k, v). k \<in> set names \<and> has_sync v = wants_sync) rs
      in if length names \<noteq> length sub_resources then Inl QuotaResourceUnknown
         else bind
           (if nonempty u
            then get_user_quotas CONF ctx sub_resources p u (ctx_quota_class ctx) True None project_quotas None db
            else get_project_quotas CONF ctx sub_resources p (ctx_quota_class ctx) True None False project_quotas db)
           (\<lambda>quotas. Inr (map (\<lambda>(k, v). (k, v_limit v)) quotas)))"

section \<open>Checking a plain limit\<close>

text \<open>\<open>0 <= limit < value\<close>, false for \<open>None\<close> and for a negative limit.\<close>

definition exceeds :: "int option \<Rightarrow> int \<Rightarrow> bool" where
  "exceeds hard_limit value = (case hard_limit of None \<Rightarrow> False | Some l \<Rightarrow> 0 \<le> l \<and> l < value)"

definition headroom_of :: "limit_dict \<Rightarrow> limit_dict \<Rightarrow> string \<Rightarrow> int result" where
  "headroom_of quotas project_quotas key =
     (case List.map_filter id [dict_get quotas key None, dict_get project_quotas key None] of
        [] \<Rightarrow> Inl ValueError
      | x # xs \<Rightarrow> Inr (fold min xs x))"

definition limit_check ::
    "(string \<Rightarrow> int) \<Rightarrow> quota_context \<Rightarrow> 'c resources \<Rightarrow> (string, int) dict \<Rightarrow> ident \<Rightarrow> ident \<Rightarrow>
     'a quota_tables_scheme \<Rightarrow> unit result" where
  "limit_check CONF ctx rs values p u db =
     bind (valid_method_call_check_resources rs (keys values) ''check'') (\<lambda>_.
     if list_ex (\<lambda>(k, v). v < 0) values then Inl InvalidQuotaValue
     else
       let p = (if p = None then ctx_project ctx else p);
           u = (if u = None then ctx_user ctx else u);
           project_quotas = quota_get_all_by_project p db
       in bind (get_quotas CONF ctx rs (keys values) False p None (Some project_quotas) db) (\<lambda>quotas.
          bind (get_quotas CONF ctx rs (keys values) False p u (Some project_quotas) db) (\<lambda>user_quotas.
          bind (traverse (\<lambda>(k, v). bind (dict_index quotas k) (\<lambda>a. bind (dict_index user_quotas k) (\<lambda>b.
                  Inr (k, exceeds a v \<or> exceeds b v)))) values) (\<lambda>marks.
          let overs = map fst (filter snd marks)
          in if overs = [] then Inr ()
             else bind (traverse (headroom_of quotas project_quotas) overs) (\<lambda>_. Inl OverQuota)))))"

section \<open>Settable limits\<close>

text \<open>\<open>_is_unlimited_value\<close>, \<open>_sum_quota_values\<close>, \<open>_sub_quota_values\<close>\<close>

definition UNLIMITED_VALUE :: int where
  "UNLIMITED_VALUE = -1"

definition is_unlimited_value :: "int option \<Rightarrow> bool" where
  "is_unlimited_value v = (case v of None \<Rightarrow> True | Some n \<Rightarrow> n \<le> UNLIMITED_VALUE)"

definition sum_quota_values :: "int option \<Rightarrow> int option \<Rightarrow> int" where
  "sum_quota_values v w =
     (if is_unlimited_value v \<or> is_unlimited_value w then UNLIMITED_VALUE else the v + the w)"

definition sub_quota_values :: "int option \<Rightarrow> int option \<Rightarrow> int" where
  "sub_quota_values v w =
     (if is_unlimited_value v \<or> is_unlimited_value w then UNLIMITED_VALUE else the v - the w)"

record settable =
  st_minimum :: int
  st_maximum :: int

definition view_usage :: "quota_view \<Rightarrow> (int \<times> int) result" where
  "view_usage v = (case v_usage v of None \<Rightarrow> Inl KeyError | Some x \<Rightarrow> Inr x)"

text \<open>The usages of the project and of the user are read from the usage table by the caller.\<close>

definition get_settable_quotas ::
    "(string \<Rightarrow> int) \<Rightarrow> quota_context \<Rightarrow> 'c resources \<Rightarrow> ident \<Rightarrow> ident \<Rightarrow> usage_dict \<Rightarrow> usage_dict \<Rightarrow>
     'a quota_tables_scheme \<Rightarrow> (string, settable) dict result" where
  "get_settable_quotas CONF ctx rs p u project_usages user_usages db =
     (let db_proj_quotas = quota_get_all_by_project p db
      in bind (get_project_quotas CONF ctx rs p None True (Some project_usages) True (Some db_proj_quotas) db)
         (\<lambda>project_quotas.
         if nonempty u then
           let setted_quotas = quota_get_all_by_project_and_user p u db
           in bind (get_user_quotas CONF ctx rs p u None True (Some user_usages) (Some db_proj_quotas)
                (Some setted_quotas) db) (\<lambda>user_quotas.
              traverse (\<lambda>(key, value).
                bind (dict_index project_quotas key) (\<lambda>pq.
                bind (view_usage value) (\<lambda>(in_use, reserved).
                Inr (key, \<lparr>st_minimum = in_use + reserved,
                   st_maximum = sum_quota_values (v_remains pq) (dict_get setted_quotas key (Some 0))\<rparr>))))
                user_quotas)
         else
           traverse (\<lambda>(key, value).
             bind (view_usage value) (\<lambda>(in_use, reserved).
             Inr (key, \<lparr>st_minimum = max (sub_quota_values (v_limit value) (v_remains value)) (in_use + reserved),
                st_maximum = -1\<rparr>))) project_quotas))"

section \<open>Updating limits through the API\<close>

text \<open>\<open>conv_inf\<close>: -1 is infinity (\<open>None\<close> here) on both sides of the comparisons.\<close>

definition conv_inf :: "int \<Rightarrow> int option" where
  "conv_inf v = (if v = -1 then None else Some v)"

fun inf_less :: "int option \<Rightarrow> int option \<Rightarrow> bool" where
  "inf_less None _ = False"
| "inf_less (Some a) None = True"
| "inf_less (Some a) (Some b) = (a < b)"

definition validate_quota_limit :: "int \<Rightarrow> int \<Rightarrow> int \<Rightarrow> unit result" where
  "validate_quota_limit limit minimum maximum =
     (if limit < -1 then Inl HTTPBadRequest
      else if inf_less (conv_inf limit) (conv_inf minimum) then Inl HTTPBadRequest
      else if inf_less (conv_inf maximum) (conv_inf limit) then Inl HTTPBadRequest
      else Inr ())"

text \<open>
  The body of a request: the new value per resource, \<open>None\<close> for an empty one, which is skipped.
  All values are checked before the first one is stored.
\<close>

definition check_quota_set ::
    "bool \<Rightarrow> (string, settable) dict \<Rightarrow> (string, int option) dict \<Rightarrow> (string, int) dict result" where
  "check_quota_set force settable_quotas body =
     loop (\<lambda>(key, value) valid. case value of None \<Rightarrow> Inr valid | Some v \<Rightarrow>
       bind (if force then Inr ()
             else bind (dict_index settable_quotas key) (\<lambda>s.
               validate_quota_limit v (st_minimum s) (st_maximum s)))
         (\<lambda>_. Inr (AList.update key v valid))) body []"

definition store_limit ::
    "ident \<Rightarrow> ident \<Rightarrow> string \<times> int \<Rightarrow> 'a quota_tables_scheme \<Rightarrow> 'a quota_tables_scheme result" where
  "store_limit p u kv db =
     (case quota_create p (fst kv) (Some (snd kv)) u db of
        Inl e \<Rightarrow> if e = QuotaExists then quota_update p (fst kv) (Some (snd kv)) u db else Inl e
      | Inr db' \<Rightarrow> Inr db')"

definition update_quota_set ::
    "(string \<Rightarrow> int) \<Rightarrow> quota_context \<Rightarrow> 'c resources \<Rightarrow> ident \<Rightarrow> ident \<Rightarrow> bool \<Rightarrow> (string, int option) dict \<Rightarrow>
     usage_dict \<Rightarrow> usage_dict \<Rightarrow> 'a quota_tables_scheme \<Rightarrow> 'a quota_tables_scheme result" where
  "update_quota_set CONF ctx rs p u force body project_usages user_usages db =
     bind (get_settable_quotas CONF ctx rs p u project_usages user_usages db) (\<lambda>settable_quotas.
     bind (check_quota_set force settable_quotas body) (\<lambda>valid_quotas.
     loop (store_limit p u) valid_quotas db))"

section \<open>Deleting limits\<close>

definition delete_user_quotas :: "ident \<Rightarrow> ident \<Rightarrow> 'a quota_tables_scheme \<Rightarrow> 'a quota_tables_scheme" where
  "delete_user_quotas p u db =
     db\<lparr>user_quota_rows :=
       map (\<lambda>row. if uq_project row = p \<and> uq_user row = u then row\<lparr>uq_deleted := True\<rparr> else row)
         (user_quota_rows db)\<rparr>"

definition delete_project_quotas :: "ident \<Rightarrow> 'a quota_tables_scheme \<Rightarrow> 'a quota_tables_scheme" where
  "delete_project_quotas p db =
     db\<lparr>quota_rows :=
          map (\<lambda>row. if qr_project row = p then row\<lparr>qr_deleted := True\<rparr> else row) (quota_rows db),
        user_quota_rows :=
          map (\<lambda>row. if uq_project row = p then row\<lparr>uq_deleted := True\<rparr> else row) (user_quota_rows db)\<rparr>"


section \<open>Which limit applies\<close>

text \<open>\<open>register_resources\<close> files every resource under its own name.\<close>

definition wf_resources :: "'c resources \<Rightarrow> bool" where
  "wf_resources rs \<longleftrightarrow> wf_dict rs \<and> (\<forall>(k, r) \<in> set rs. resource_name r = k)"

lemma register_resources_wf: "wf_resources rs \<Longrightarrow> wf_resources (register_resources new rs)"
proof (induction new arbitrary: rs)
  case (Cons r new)
  have "wf_resources (register_resource r rs)"
    using Cons.prems by (auto simp: wf_resources_def register_resource_def dest!: subsetD [OF set_update_subset])
  then show ?case using Cons.IH by (simp add: register_resources_def)
qed (simp add: register_resources_def)

text \<open>
  The intended precedence: the limit of the user in the project, that of the project, that of the
  quota class of the request, that of the default class, the configured default.
\<close>

fun first_defined :: "'b option list \<Rightarrow> 'b option" where
  "first_defined [] = None"
| "first_defined (Some x # xs) = Some x"
| "first_defined (None # xs) = first_defined xs"

definition applicable_limit ::
    "(string \<Rightarrow> int) \<Rightarrow> quota_context \<Rightarrow> ident \<Rightarrow> ident \<Rightarrow> 'a quota_tables_scheme \<Rightarrow> 'c resource \<Rightarrow> int option option" where
  "applicable_limit CONF ctx p u db r =
     first_defined
       [if nonempty u then map_of (quota_get_all_by_project_and_user p u db) (resource_name r) else None,
        map_of (quota_get_all_by_project p db) (resource_name r),
        if nonempty (ctx_quota_class ctx)
        then map_of (quota_class_get_all_by_name (the (ctx_quota_class ctx)) db) (resource_name r) else None,
        map_of (quota_class_get_default db) (resource_name r),
        Some (Some (default_quota CONF r))]"

lemma map_of_merge_missing:
  "map_of (fold (\<lambda>(k, v) d. if map_of d k = None then AList.update k v d else d) pq uq) k =
     (case map_of uq k of None \<Rightarrow> map_of pq k | Some l \<Rightarrow> Some l)"
proof (induction pq arbitrary: uq)
  case (Cons kv pq)
  obtain j v where "kv = (j, v)" by (cases kv)
  then show ?case
    using Cons [of uq] Cons [of "AList.update j v uq"] by (cases "map_of uq j") (auto split: option.splits)
qed (simp split: option.split)

lemma in_keysD: "k \<in> set (keys d) \<Longrightarrow> \<exists>v. (k, v) \<in> set d"
  by (induction d) auto

lemma wf_resources_inj: "wf_resources rs \<Longrightarrow> inj_on resource_name (set (map snd rs))"
proof (rule inj_onI)
  fix x y
  assume wf: "wf_resources rs" and "x \<in> set (map snd rs)" "y \<in> set (map snd rs)" "resource_name x = resource_name y"
  then obtain j k where "(j, x) \<in> set rs" "(k, y) \<in> set rs" by auto
  moreover from this have "j = resource_name x" "k = resource_name y" using wf by (auto simp: wf_resources_def)
  ultimately have "(resource_name x, x) \<in> set rs" "(resource_name x, y) \<in> set rs"
    using \<open>resource_name x = resource_name y\<close> by simp_all
  then show "x = y" using wf eq_key_imp_eq_value unfolding wf_resources_def by metis
qed

lemma wf_resources_filter: "wf_resources rs \<Longrightarrow> wf_resources (filter P rs)"
  by (auto simp: wf_resources_def distinct_map_filter)

lemma get_defaults_of:
  assumes "wf_resources rs" and "r \<in> set (map snd rs)"
  shows "map_of (get_defaults CONF rs db) (resource_name r) =
    Some (dict_get (quota_class_get_default db) (resource_name r) (Some (default_quota CONF r)))"
  unfolding get_defaults_def by (rule map_of_fold_update_in [OF assms(2) wf_resources_inj [OF assms(1)]])

text \<open>The view of a resource that is always included.\<close>

definition class_limits :: "quota_context \<Rightarrow> ident \<Rightarrow> ident \<Rightarrow> 'a quota_tables_scheme \<Rightarrow> limit_dict" where
  "class_limits ctx p quota_class db =
     (case if p = ctx_project ctx then ctx_quota_class ctx else quota_class of
        None \<Rightarrow> []
      | Some c \<Rightarrow> if c = [] then [] else quota_class_get_all_by_name c db)"

definition limit_among :: "(string \<Rightarrow> int) \<Rightarrow> limit_dict \<Rightarrow> limit_dict \<Rightarrow> 'a quota_tables_scheme \<Rightarrow> 'c resource \<Rightarrow> int option" where
  "limit_among CONF quotas class_quotas db r =
     dict_get quotas (resource_name r) (dict_get class_quotas (resource_name r)
       (dict_get (quota_class_get_default db) (resource_name r) (Some (default_quota CONF r))))"

definition full_view ::
    "(string \<Rightarrow> int) \<Rightarrow> limit_dict \<Rightarrow> limit_dict \<Rightarrow> usage_dict option \<Rightarrow> bool \<Rightarrow> 'a quota_tables_scheme \<Rightarrow>
     'c resource \<Rightarrow> quota_view" where
  "full_view CONF quotas cq usages remains db r =
     (let l = limit_among CONF quotas cq db r
      in \<lparr>v_limit = l, v_usage = map_option (\<lambda>us. dict_get us (resource_name r) (0, 0)) usages,
          v_remains = (if remains then l else None)\<rparr>)"

lemma process_all:
  assumes wf: "wf_resources rs"
  shows "process_quotas CONF ctx rs p quotas qc True usages remains db =
    (let mq = fold (\<lambda>r. AList.update (resource_name r) (full_view CONF quotas (class_limits ctx p qc db) usages remains db r)) (map snd rs) []
     in if remains then loop subtract_limit (user_rows p db) mq else Inr mq)"
proof -
  let ?F = "\<lambda>r. bind (limit_of quotas (class_limits ctx p qc db) (get_defaults CONF rs db) (resource_name r))
      (\<lambda>l. Inr \<lparr>v_limit = l, v_usage = map_option (\<lambda>us. dict_get us (resource_name r) (0, 0)) usages,
                v_remains = (if remains then l else None)\<rparr>)"
  have F: "?F r = Inr (full_view CONF quotas (class_limits ctx p qc db) usages remains db r)" if "r \<in> set (map snd rs)" for r
    using get_defaults_of [OF wf that, of CONF db] by (simp add: limit_of_def dict_index_def full_view_def limit_among_def Let_def)
  have assoc: "bind (bind x f) g = bind x (\<lambda>y. bind (f y) g)" for x :: "'x result" and f :: "'x \<Rightarrow> 'y result" and g :: "'y \<Rightarrow> 'z result"
    by (cases x) auto
  show ?thesis
    using loop_update [of "map snd rs" ?F "full_view CONF quotas (class_limits ctx p qc db) usages remains db" resource_name "[]"] F
    by (simp add: process_quotas_def assoc class_limits_def [symmetric])
qed

lemma process_all_keys:
  assumes "wf_resources rs" and "process_quotas CONF ctx rs p quotas qc True usages False db = Inr mq"
  shows "wf_dict mq \<and> set (keys mq) = set (keys rs) \<and>
    (\<forall>(n, r) \<in> set rs. \<exists>v. map_of mq n = Some v \<and>
       v_limit v = limit_among CONF quotas (class_limits ctx p qc db) db r \<and>
       v_usage v = map_option (\<lambda>us. dict_get us n (0, 0)) usages)"
proof -
  let ?view = "full_view CONF quotas (class_limits ctx p qc db) usages False db"
  have mq: "mq = fold (\<lambda>r. AList.update (resource_name r) (?view r)) (map snd rs) []"
    using assms(2) by (simp add: process_all [OF assms(1)])
  have names: "resource_name ` set (map snd rs) = set (keys rs)"
    using assms(1) by (force simp: wf_resources_def image_iff)
  have "map_of mq n = Some (?view r)" if "(n, r) \<in> set rs" for n r
  proof -
    have "resource_name r = n" "r \<in> set (map snd rs)" using that assms(1) by (force simp: wf_resources_def)+
    then show ?thesis
      using map_of_fold_update_in [OF _ wf_resources_inj [OF assms(1)], of r ?view "[]"] by (simp add: mq)
  qed
  moreover have "resource_name r = n" if "(n, r) \<in> set rs" for n r
    using that assms(1) by (auto simp: wf_resources_def)
  moreover have "wf_dict mq" unfolding mq by (rule wf_fold_update) simp
  moreover have "set (keys mq) = set (keys rs)" unfolding mq keys_fold_update names by simp
  moreover have "v_limit (?view r) = limit_among CONF quotas (class_limits ctx p qc db) db r"
      "v_usage (?view r) = map_option (\<lambda>us. dict_get us (resource_name r) (0, 0)) usages" for r
    by (simp_all add: full_view_def Let_def)
  ultimately show ?thesis by (intro conjI) (simp, simp, fastforce)
qed

text \<open>The resources a call names, all of the kind it asks for, or an exception.\<close>

lemma get_quotas_names:
  assumes wf: "wf_resources rs" and "distinct names"
    and ok: "get_quotas CONF ctx rs names sync p u pq db = Inr d"
  shows "wf_resources (filter (\<lambda>(k, v). k \<in> set names \<and> has_sync v = sync) rs)" (is "wf_resources ?sub")
    and "set (keys (filter (\<lambda>(k, v). k \<in> set names \<and> has_sync v = sync) rs)) = set names"
proof -
  show sub: "wf_resources ?sub" by (rule wf_resources_filter [OF wf])
  then have "distinct (keys ?sub)" by (simp add: wf_resources_def)
  moreover have "set (keys ?sub) \<subseteq> set names" by auto
  moreover have "length names = length ?sub" using ok by (auto simp: get_quotas_def Let_def split: if_splits)
  ultimately show "set (keys ?sub) = set names"
    by (intro card_subset_eq) (simp_all only: distinct_card [OF assms(2)] distinct_card length_map List.finite_set)
qed

lemma user_limit_first:
  "dict_get (fold (\<lambda>(k, v) d. if map_of d k = None then AList.update k v d else d) pq uq) k l =
     (case map_of uq k of Some x \<Rightarrow> x | None \<Rightarrow> dict_get pq k l)"
  by (simp add: dict_get_def map_of_merge_missing split: option.split)

lemma applicable_limit_eq:
  "applicable_limit CONF ctx p u db r =
     Some (case if nonempty u then map_of (quota_get_all_by_project_and_user p u db) (resource_name r) else None of
        Some x \<Rightarrow> x
      | None \<Rightarrow> limit_among CONF (quota_get_all_by_project p db) (class_limits ctx p (ctx_quota_class ctx) db) db r)"
  by (auto simp: applicable_limit_def limit_among_def class_limits_def dict_get_def split: option.splits)

lemma get_quotas_limits:
  assumes wf: "wf_resources rs" and names: "distinct names"
    and ok: "get_quotas CONF ctx rs names sync p u (Some (quota_get_all_by_project p db)) db = Inr d"
  shows "wf_dict d \<and> set (keys d) = set names \<and>
    (\<forall>n \<in> set names. \<exists>r. map_of rs n = Some r \<and> has_sync r = sync \<and> map_of d n = applicable_limit CONF ctx p u db r)"
proof -
  let ?sub = "filter (\<lambda>(k, v). k \<in> set names \<and> has_sync v = sync) rs"
  let ?pq = "quota_get_all_by_project p db"
  let ?uq = "fold (\<lambda>(k, v) d. if map_of d k = None then AList.update k v d else d) ?pq
      (quota_get_all_by_project_and_user p u db)"
  define quotas where "quotas = (if nonempty u then ?uq else ?pq)"
  note sub = get_quotas_names [OF assms]
  obtain mq where d: "d = map (\<lambda>(k, v). (k, v_limit v)) mq"
    and mq: "process_quotas CONF ctx ?sub p quotas (ctx_quota_class ctx) True None False db = Inr mq"
    using ok unfolding get_quotas_def get_user_quotas_def get_project_quotas_def quotas_def Let_def
    by (cases "nonempty u") (simp_all only: if_True if_False option.case bind_eq_Inr sum.inject split: if_splits, blast+)
  note views = process_all_keys [OF sub(1) mq]
  have keys: "keys d = keys mq" unfolding d by (simp add: case_prod_beta)
  have "\<exists>r. map_of rs n = Some r \<and> has_sync r = sync \<and> map_of d n = applicable_limit CONF ctx p u db r"
    if n: "n \<in> set names" for n
  proof -
    obtain r where r: "(n, r) \<in> set ?sub" using in_keysD [of n ?sub] n sub(2) by blast
    obtain v where v: "map_of mq n = Some v"
        "v_limit v = limit_among CONF quotas (class_limits ctx p (ctx_quota_class ctx) db) db r"
      using views r by fastforce
    have name: "resource_name r = n" "map_of rs n = Some r" "has_sync r = sync"
      using r wf by (auto simp: wf_resources_def)
    have "map_of d n = Some (v_limit v)" using v(1) by (simp add: d map_of_map)
    also have "\<dots> = applicable_limit CONF ctx p u db r"
      by (simp add: v(2) applicable_limit_eq quotas_def limit_among_def user_limit_first name(1) split: option.split)
    finally show ?thesis using name by blast
  qed
  moreover have "wf_dict d" "set (keys d) = set names" using views sub(2) unfolding keys by simp_all
  ultimately show ?thesis by blast
qed


section \<open>What a plain limit admits\<close>

lemma valid_method_check_iff: "valid_method r = ''check'' \<longleftrightarrow> \<not> has_sync r"
  by (cases r) (simp_all add: has_sync_def)

lemma valid_method_reserve_iff: "valid_method r = ''reserve'' \<longleftrightarrow> has_sync r"
  by (cases r) (simp_all add: has_sync_def)

lemma loop_unit: "loop (\<lambda>x (_::unit). f x) xs () = Inr () \<longleftrightarrow> (\<forall>x \<in> set xs. f x = Inr ())"
  by (induction xs) auto

lemma valid_method_calls_iff:
  "valid_method_call_check_resources rs names method = Inr () \<longleftrightarrow>
     (\<forall>n \<in> set names. \<exists>r. map_of rs n = Some r \<and> valid_method r = method)"
  by (auto simp: valid_method_call_check_resources_def loop_unit valid_method_call_check_resource_def
      split: option.splits)

lemma get_quotas_total:
  assumes wf: "wf_resources rs" and "distinct names"
    and all: "\<forall>n \<in> set names. \<exists>r. map_of rs n = Some r \<and> has_sync r = sync"
  shows "\<exists>d. get_quotas CONF ctx rs names sync p u pq db = Inr d"
proof -
  let ?sub = "filter (\<lambda>(k, v). k \<in> set names \<and> has_sync v = sync) rs"
  have sub: "wf_resources ?sub" by (rule wf_resources_filter [OF wf])
  have "set (keys ?sub) = set names"
  proof (intro equalityI subsetI)
    fix n assume "n \<in> set names"
    moreover from this obtain r where "map_of rs n = Some r" "has_sync r = sync" using all by blast
    ultimately have "(n, r) \<in> set ?sub" by (auto dest: map_of_SomeD)
    then show "n \<in> set (keys ?sub)" by force
  qed auto
  then have "length (keys ?sub) = length names"
    using sub distinct_card [OF assms(2)] distinct_card [of "keys ?sub"] by (simp add: wf_resources_def)
  then have len: "length names = length ?sub" by simp
  have proc: "\<exists>mq. process_quotas CONF ctx ?sub p quotas qc True None False db = Inr mq" for quotas qc
    by (simp add: process_all [OF sub] Let_def)
  have post: "\<exists>mq. x = Inr mq \<Longrightarrow> \<exists>d. bind x (\<lambda>q. Inr (g q)) = Inr d" for x :: "'x result" and g :: "'x \<Rightarrow> 'y"
    by auto
  show ?thesis
    unfolding get_quotas_def get_user_quotas_def get_project_quotas_def Let_def len [symmetric]
    by (simp only: simp_thms if_False if_True) (rule post, cases "nonempty u", simp_all only: if_True if_False, (rule proc)+)
qed

lemma traverse_Inr_total: "(\<And>x. x \<in> set xs \<Longrightarrow> f x = Inr (g x)) \<Longrightarrow> traverse f xs = Inr (map g xs)"
  by (induction xs) auto

lemma traverse_not_OK: "bind (traverse f xs) (\<lambda>_. Inl e) \<noteq> Inr y"
  by (cases "traverse f xs") auto

text \<open>The check of plain limits accepts a request exactly if every value is for a resource that is
  checked and not reserved, is not negative, and is within both the limit of the project and the
  limit of the user, where a missing or negative limit admits everything.\<close>

theorem limit_check_exact:
  assumes wf: "wf_resources rs" and wfv: "wf_dict values" and "p \<noteq> None" and "u \<noteq> None"
  shows "limit_check CONF ctx rs values p u db = Inr () \<longleftrightarrow>
    (\<forall>(k, v) \<in> set values. \<exists>r. map_of rs k = Some r \<and> \<not> has_sync r \<and> 0 \<le> v \<and>
       \<not> exceeds (the (applicable_limit CONF ctx p None db r)) v \<and>
       \<not> exceeds (the (applicable_limit CONF ctx p u db r)) v)" (is "?l = ?r")
proof (cases "(\<forall>k \<in> set (keys values). \<exists>r. map_of rs k = Some r \<and> \<not> has_sync r) \<and> (\<forall>(k, v) \<in> set values. 0 \<le> v)")
  case False
  then have "\<not> ?r" by fastforce
  moreover have "\<not> ?l"
    using False by (auto simp: limit_check_def Let_def valid_method_calls_iff valid_method_check_iff list_ex_iff)
  ultimately show ?thesis by simp
next
  case True
  then have valid: "valid_method_call_check_resources rs (keys values) ''check'' = Inr ()"
    by (auto simp: valid_method_calls_iff valid_method_check_iff)
  have all: "\<forall>k \<in> set (keys values). \<exists>r. map_of rs k = Some r \<and> has_sync r = False" using True by simp
  let ?pq = "quota_get_all_by_project p db"
  obtain d e where d: "get_quotas CONF ctx rs (keys values) False p None (Some ?pq) db = Inr d"
    and e: "get_quotas CONF ctx rs (keys values) False p u (Some ?pq) db = Inr e"
    using get_quotas_total [OF wf wfv all] by meson
  note D = get_quotas_limits [OF wf wfv d] and E = get_quotas_limits [OF wf wfv e]
  have lim: "\<exists>r. map_of rs k = Some r \<and> \<not> has_sync r \<and> map_of d k = applicable_limit CONF ctx p None db r \<and>
      map_of e k = applicable_limit CONF ctx p u db r" if "(k, v) \<in> set values" for k v
  proof -
    have "k \<in> set (keys values)" using that by force
    then show ?thesis using D E by fastforce
  qed
  let ?over = "\<lambda>(k, v). exceeds (the (map_of d k)) v \<or> exceeds (the (map_of e k)) v"
  have marks: "traverse (\<lambda>(k, v). bind (dict_index d k) (\<lambda>a. bind (dict_index e k) (\<lambda>b.
      Inr (k, exceeds a v \<or> exceeds b v)))) values = Inr (map (\<lambda>kv. (fst kv, ?over kv)) values)"
  proof (rule traverse_Inr_total)
    fix kv assume kv: "kv \<in> set values"
    obtain r where "map_of rs (fst kv) = Some r" "map_of d (fst kv) = applicable_limit CONF ctx p None db r"
        "map_of e (fst kv) = applicable_limit CONF ctx p u db r"
      using lim [of "fst kv" "snd kv", unfolded prod.collapse, OF kv] by blast
    then show "(case kv of (k, v) \<Rightarrow> bind (dict_index d k) (\<lambda>a. bind (dict_index e k) (\<lambda>b.
        Inr (k, exceeds a v \<or> exceeds b v)))) = Inr (fst kv, ?over kv)"
      by (cases kv) (simp add: dict_index_def applicable_limit_eq)
  qed
  have nonneg: "\<not> list_ex (\<lambda>(k, v). v < 0) values" using True by (auto simp: list_ex_iff)
  have "?l \<longleftrightarrow> filter snd (map (\<lambda>kv. (fst kv, ?over kv)) values) = []"
    using valid nonneg d e marks
    by (simp add: limit_check_def if_not_P [OF assms(3)] if_not_P [OF assms(4)] Let_def traverse_not_OK del: bind_eq_Inr)
  also have "\<dots> \<longleftrightarrow> (\<forall>kv \<in> set values. \<not> ?over kv)" by (auto simp: filter_empty_conv)
  also have "\<dots> \<longleftrightarrow> ?r" using lim True by fastforce
  finally show ?thesis .
qed

definition small_conf :: "string \<Rightarrow> int" where
  "small_conf flag = dict_get quota_opts flag (-1)"

definition example_resources :: "unit resources" where
  "example_resources = register_resources (nova_resources (\<lambda>_. 0) (\<lambda>_. 0) (\<lambda>_. 0)) []"

definition example_limits :: quota_tables where
  "example_limits =
     \<lparr>quota_rows = [\<lparr>qr_project = Some ''p'', qr_resource = ''metadata_items'', qr_limit = Some 64, qr_deleted = False\<rparr>,
        \<lparr>qr_project = Some ''p'', qr_resource = ''injected_files'', qr_limit = None, qr_deleted = False\<rparr>,
        \<lparr>qr_project = Some ''p'', qr_resource = ''cores'', qr_limit = Some 12, qr_deleted = False\<rparr>],
      user_quota_rows =
        [\<lparr>uq_project = Some ''p'', uq_user = Some ''u'', uq_resource = ''injected_files'', uq_limit = Some 3, uq_deleted = False\<rparr>,
         \<lparr>uq_project = Some ''p'', uq_user = Some ''u'', uq_resource = ''cores'', uq_limit = Some 4, uq_deleted = False\<rparr>,
         \<lparr>uq_project = Some ''p'', uq_user = Some ''w'', uq_resource = ''cores'', uq_limit = Some 5, uq_deleted = False\<rparr>],
      class_rows = [\<lparr>cl_name = ''default'', cl_resource = ''key_pairs'', cl_limit = Some 7, cl_deleted = False\<rparr>]\<rparr>"

definition example_context :: quota_context where
  "example_context = \<lparr>ctx_project = Some ''p'', ctx_user = Some ''u'', ctx_quota_class = None\<rparr>"

lemma example_resources_wf: "wf_resources example_resources"
  unfolding example_resources_def by (rule register_resources_wf) (simp add: wf_resources_def)

theorem limit_check_exact_witness:
  "limit_check small_conf example_context example_resources
     [(''metadata_items'', 64), (''key_pairs'', 7)] (Some ''p'') (Some ''u'') example_limits = Inr ()"
proof -
  have "map_of example_resources ''metadata_items'' = Some (AbsoluteResource ''metadata_items'' (Some ''quota_metadata_items''))"
      "map_of example_resources ''key_pairs'' = Some (CountableResource ''key_pairs'' (\<lambda>_. 0) (Some ''quota_key_pairs''))"
    by (simp_all add: example_resources_def nova_resources_def register_resources_def register_resource_def)
  then show ?thesis
    by (subst limit_check_exact [OF example_resources_wf])
      (simp_all add: has_sync_def applicable_limit_def exceeds_def quota_get_all_by_project_def
        quota_get_all_by_project_and_user_def user_rows_def quota_class_get_all_by_name_def
        quota_class_get_default_def example_limits_def example_context_def DEFAULT_QUOTA_NAME_def)
qed

text \<open>
  A project limit of NULL is unlimited, but a user of that project who exceeds a limit of his own
  gets a \<open>ValueError\<close>: there is no headroom to report.
\<close>

lemma null_limit_breaks_headroom:
  "limit_check small_conf example_context example_resources [(''injected_files'', 4)] (Some ''p'') (Some ''u'')
     example_limits = Inl ValueError"
  by code_simp


section \<open>What the limits of users add up to\<close>

definition unique_limits :: "'a quota_tables_scheme \<Rightarrow> bool" where
  "unique_limits db \<longleftrightarrow> (\<forall>p u r. length (filter (is_user_quota p u r) (user_quota_rows db)) \<le> 1)"

definition limit_value :: "user_quota_row \<Rightarrow> int" where
  "limit_value row = (case uq_limit row of None \<Rightarrow> 0 | Some n \<Rightarrow> n)"

definition limits_of :: "(ident \<Rightarrow> bool) \<Rightarrow> ident \<Rightarrow> string \<Rightarrow> 'a quota_tables_scheme \<Rightarrow> int" where
  "limits_of U p r db =
     sum_list (map limit_value (filter (\<lambda>row. U (uq_user row) \<and> uq_resource row = r) (user_rows p db)))"

abbreviation committed :: "ident \<Rightarrow> string \<Rightarrow> 'a quota_tables_scheme \<Rightarrow> int" where
  "committed \<equiv> limits_of (\<lambda>_. True)"

lemma limits_split: "committed p r db = limits_of (\<lambda>x. x = u) p r db + limits_of (\<lambda>x. x \<noteq> u) p r db"
proof -
  have "sum_list (map limit_value (filter (\<lambda>row. uq_resource row = r) rows)) =
      sum_list (map limit_value (filter (\<lambda>row. uq_user row = u \<and> uq_resource row = r) rows)) +
      sum_list (map limit_value (filter (\<lambda>row. uq_user row \<noteq> u \<and> uq_resource row = r) rows))" for rows
    by (induction rows) auto
  then show ?thesis by (simp add: limits_of_def)
qed

lemma own_rows: "filter (\<lambda>row. uq_user row = u \<and> uq_resource row = r) (user_rows p db) =
    filter (is_user_quota p u r) (user_quota_rows db)"
  by (auto simp: user_rows_def is_user_quota_def intro!: filter_cong)

lemma find_rev_unique:
  "length (filter P xs) \<le> 1 \<Longrightarrow> find P (rev xs) = (case filter P xs of [] \<Rightarrow> None | x # _ \<Rightarrow> Some x)"
proof (induction xs)
  case (Cons x xs)
  show ?case
  proof (cases "P x")
    case True
    then have "filter P xs = []" using Cons.prems by (cases "filter P xs") auto
    then show ?thesis using True Cons by (simp add: find_snoc)
  next
    case False
    then show ?thesis using Cons by (auto simp: find_snoc split: option.splits)
  qed
qed simp

lemma filter_eq_head: "filter P xs = y # ys \<Longrightarrow> P y \<and> y \<in> set xs"
  by (metis filter_set list.set_intros(1) mem_Collect_eq set_filter)

lemma own_limit:
  assumes "unique_limits db"
  shows "dict_get (quota_get_all_by_project_and_user p u db) r (Some 0) =
    (case filter (is_user_quota p u r) (user_quota_rows db) of [] \<Rightarrow> Some 0 | row # _ \<Rightarrow> uq_limit row)"
proof -
  let ?rows = "filter (\<lambda>row. uq_user row = u) (user_rows p db)"
  have "filter (\<lambda>row. uq_resource row = r) ?rows = filter (is_user_quota p u r) (user_quota_rows db)"
    by (simp add: own_rows [symmetric] conj_commute)
  moreover from this have "length (filter (\<lambda>row. uq_resource row = r) ?rows) \<le> 1"
    using assms by (simp add: unique_limits_def)
  ultimately show ?thesis
    by (auto simp: quota_get_all_by_project_and_user_def dict_get_def map_of_fold_update find_rev_unique split: list.split)
qed

lemma own_total:
  assumes "unique_limits db"
  shows "limits_of (\<lambda>x. x = u) p r db =
    (case filter (is_user_quota p u r) (user_quota_rows db) of [] \<Rightarrow> 0 | row # _ \<Rightarrow> limit_value row)"
proof -
  have "length (filter (is_user_quota p u r) (user_quota_rows db)) \<le> 1" using assms by (simp add: unique_limits_def)
  then show ?thesis by (auto simp: limits_of_def own_rows split: list.split)
qed

text \<open>Storing a limit of a user leaves the other users alone and replaces his own.\<close>

lemma store_user_limit:
  assumes ok: "store_limit p u (k, v) db = Inr db'" and user: "per_user u k" and un: "unique_limits db"
  shows "unique_limits db'" and "limits_of (\<lambda>x. x \<noteq> u) q r db' = limits_of (\<lambda>x. x \<noteq> u) q r db"
    and "limits_of (\<lambda>x. x = u) p r db' = (if r = k then v else limits_of (\<lambda>x. x = u) p r db)"
proof -
  let ?own = "is_user_quota p u k"
  let ?new = "\<lparr>uq_project = p, uq_user = u, uq_resource = k, uq_limit = Some v, uq_deleted = False\<rparr>"
  have cases: "filter ?own (user_quota_rows db) = [] \<and> user_quota_rows db' = user_quota_rows db @ [?new] \<or>
      (\<exists>row. filter ?own (user_quota_rows db) = [row]) \<and> user_quota_rows db' =
        map (\<lambda>row. if ?own row then row\<lparr>uq_limit := Some v\<rparr> else row) (user_quota_rows db)"
  proof (cases "filter ?own (user_quota_rows db)")
    case Nil
    then have "\<not> list_ex ?own (user_quota_rows db)" by (auto simp: filter_empty_conv list_ex_iff)
    then show ?thesis using ok user Nil by (auto simp: store_limit_def quota_create_def)
  next
    case (Cons row rows)
    then have "list_ex ?own (user_quota_rows db)" using filter_eq_head by (fastforce simp: list_ex_iff)
    moreover have "rows = []"
      using un [unfolded unique_limits_def, rule_format, of p u k] Cons by simp
    ultimately show ?thesis using ok user Cons by (auto simp: store_limit_def quota_create_def quota_update_def)
  qed
  have kept: "filter (is_user_quota q w j) (map (\<lambda>row. if ?own row then row\<lparr>uq_limit := Some v\<rparr> else row) rows) =
      map (\<lambda>row. if ?own row then row\<lparr>uq_limit := Some v\<rparr> else row) (filter (is_user_quota q w j) rows)" for q w j rows
    by (induction rows) (auto simp: is_user_quota_def)
  show un': "unique_limits db'"
    unfolding unique_limits_def
  proof (intro allI)
    fix q w j
    have old: "length (filter (is_user_quota q w j) (user_quota_rows db)) \<le> 1" using un by (simp add: unique_limits_def)
    have new: "is_user_quota q w j ?new \<longleftrightarrow> q = p \<and> w = u \<and> j = k" by (auto simp: is_user_quota_def)
    from cases show "length (filter (is_user_quota q w j) (user_quota_rows db')) \<le> 1"
    proof
      assume c: "filter ?own (user_quota_rows db) = [] \<and> user_quota_rows db' = user_quota_rows db @ [?new]"
      show ?thesis
      proof (cases "is_user_quota q w j ?new")
        case True
        then have "q = p" "w = u" "j = k" using new by simp_all
        then show ?thesis using c by (simp only: filter_append length_append) simp
      qed (use c old in simp)
    next
      assume "(\<exists>row. filter ?own (user_quota_rows db) = [row]) \<and> user_quota_rows db' =
        map (\<lambda>row. if ?own row then row\<lparr>uq_limit := Some v\<rparr> else row) (user_quota_rows db)"
      then show ?thesis using old by (simp only: kept length_map)
    qed
  qed
  have "map limit_value (filter (\<lambda>row. uq_user row \<noteq> u \<and> uq_resource row = r) (filter (\<lambda>row. \<not> uq_deleted row \<and> uq_project row = q)
      (map (\<lambda>row. if ?own row then row\<lparr>uq_limit := Some v\<rparr> else row) rows))) =
    map limit_value (filter (\<lambda>row. uq_user row \<noteq> u \<and> uq_resource row = r) (filter (\<lambda>row. \<not> uq_deleted row \<and> uq_project row = q) rows))" for rows
    by (induction rows) (auto simp: is_user_quota_def)
  then show "limits_of (\<lambda>x. x \<noteq> u) q r db' = limits_of (\<lambda>x. x \<noteq> u) q r db"
    using cases by (auto simp: limits_of_def user_rows_def)
  show "limits_of (\<lambda>x. x = u) p r db' = (if r = k then v else limits_of (\<lambda>x. x = u) p r db)"
  proof (cases "r = k")
    case True
    have "\<exists>row. filter ?own (user_quota_rows db') = [row] \<and> uq_limit row = Some v"
      using cases
    proof
      assume "filter ?own (user_quota_rows db) = [] \<and> user_quota_rows db' = user_quota_rows db @ [?new]"
      then show ?thesis by (simp add: is_user_quota_def)
    next
      assume "(\<exists>row. filter ?own (user_quota_rows db) = [row]) \<and> user_quota_rows db' =
        map (\<lambda>row. if ?own row then row\<lparr>uq_limit := Some v\<rparr> else row) (user_quota_rows db)"
      then obtain row where row: "filter ?own (user_quota_rows db) = [row]"
        and db': "user_quota_rows db' = map (\<lambda>row. if ?own row then row\<lparr>uq_limit := Some v\<rparr> else row) (user_quota_rows db)"
        by blast
      have "?own row" using filter_eq_head [OF row] by (rule conjunct1)
      moreover have "filter ?own (user_quota_rows db') = [if ?own row then row\<lparr>uq_limit := Some v\<rparr> else row]"
        unfolding db' kept row by simp
      ultimately show ?thesis by simp
    qed
    then show ?thesis using True by (auto simp: own_total [OF un'] limit_value_def)
  next
    case False
    have "filter (is_user_quota p u r) (map (\<lambda>row. if ?own row then row\<lparr>uq_limit := Some v\<rparr> else row) rows) =
        filter (is_user_quota p u r) rows" for rows
      using False by (induction rows) (auto simp: is_user_quota_def)
    then have "filter (is_user_quota p u r) (user_quota_rows db') = filter (is_user_quota p u r) (user_quota_rows db)"
      using cases False by (auto simp: is_user_quota_def)
    then show ?thesis using False by (simp add: own_total [OF un'] own_total [OF un])
  qed
qed

lemma store_limits:
  assumes "loop (store_limit p u) kvs db = Inr db'" and "wf_dict kvs" and "unique_limits db"
    and "\<forall>k \<in> set (keys kvs). per_user u k"
  shows "unique_limits db' \<and> committed p r db' = limits_of (\<lambda>x. x \<noteq> u) p r db +
    (case map_of kvs r of Some v \<Rightarrow> v | None \<Rightarrow> limits_of (\<lambda>x. x = u) p r db)"
  using assms
proof (induction kvs arbitrary: db)
  case Nil
  then show ?case using limits_split [of p r db u] by simp
next
  case (Cons kv kvs)
  obtain k v where kv: "kv = (k, v)" by (cases kv)
  obtain db1 where db1: "store_limit p u (k, v) db = Inr db1" "loop (store_limit p u) kvs db1 = Inr db'"
    using Cons.prems(1) kv by auto
  have "per_user u k" using Cons.prems(4) kv by simp
  note first = store_user_limit [OF db1(1) this Cons.prems(3)]
  have "unique_limits db' \<and> committed p r db' = limits_of (\<lambda>x. x \<noteq> u) p r db1 +
      (case map_of kvs r of Some v \<Rightarrow> v | None \<Rightarrow> limits_of (\<lambda>x. x = u) p r db1)"
    by (rule Cons.IH [OF db1(2) _ first(1)]) (use Cons.prems(2,4) in auto)
  moreover have "map_of kvs k = None" using Cons.prems(2) kv by (simp add: map_of_eq_None_iff)
  ultimately show ?case by (cases "r = k"; cases "map_of kvs r") (simp_all add: kv first(2,3))
qed

text \<open>Limits of the project as a whole do not touch those of the users.\<close>

lemma store_project_limit:
  "store_limit p u kv db = Inr db' \<Longrightarrow> \<not> per_user u (fst kv) \<Longrightarrow> user_quota_rows db' = user_quota_rows db"
  by (auto simp: store_limit_def quota_create_def quota_update_def split: if_splits sum.splits)

section \<open>The settable maximum\<close>

lemma subtract_limits:
  assumes "loop subtract_limit rows mq = Inr mq'" and "map_of mq r = Some v" and "v_remains v = Some a"
  shows "\<exists>v'. map_of mq' r = Some v' \<and>
    v_remains v' = Some (a - sum_list (map limit_value (filter (\<lambda>row. uq_resource row = r) rows))) \<and>
    (\<forall>row \<in> set rows. uq_resource row = r \<longrightarrow> uq_limit row \<noteq> None)"
  using assms
proof (induction rows arbitrary: mq v a)
  case (Cons row rows)
  obtain mq1 where mq1: "subtract_limit row mq = Inr mq1" "loop subtract_limit rows mq1 = Inr mq'"
    using Cons.prems(1) by auto
  show ?case
  proof (cases "uq_resource row = r")
    case True
    obtain b where b: "uq_limit row = Some b" "mq1 = AList.update r (v\<lparr>v_remains := Some (a - b)\<rparr>) mq"
      using mq1(1) Cons.prems(2,3) True by (auto simp: subtract_limit_def split: option.splits)
    show ?thesis
      using Cons.IH [OF mq1(2), of "v\<lparr>v_remains := Some (a - b)\<rparr>" "a - b"] b True
      by (simp add: limit_value_def algebra_simps)
  next
    case False
    then have "map_of mq1 r = Some v"
      using mq1(1) Cons.prems(2) by (auto simp: subtract_limit_def split: option.splits)
    then show ?thesis using Cons.IH [OF mq1(2) _ Cons.prems(3)] False by simp
  qed
qed simp

lemma traverse_items:
  assumes "traverse f d = Inr e" and "\<And>kv kw. f kv = Inr kw \<Longrightarrow> fst kw = fst kv" and "map_of e k = Some w"
  shows "\<exists>v. map_of d k = Some v \<and> f (k, v) = Inr (k, w)"
  using assms(1,3)
proof (induction d arbitrary: e)
  case (Cons kv d)
  obtain kw e' where e: "f kv = Inr kw" "traverse f d = Inr e'" "e = kw # e'" using Cons.prems(1) by auto
  then have "fst kw = fst kv" using assms(2) by blast
  then show ?case using Cons.IH [OF e(2)] Cons.prems(2) e by (cases kv; cases kw) (auto split: if_splits)
qed simp

definition project_limit :: "(string \<Rightarrow> int) \<Rightarrow> quota_context \<Rightarrow> ident \<Rightarrow> 'a quota_tables_scheme \<Rightarrow> 'c resource \<Rightarrow> int option" where
  "project_limit CONF ctx p db r =
     limit_among CONF (quota_get_all_by_project p db) (class_limits ctx p None db) db r"

text \<open>What may be set for a user: what the limits of all users leave of the project, and his own.\<close>

lemma settable_maximum:
  assumes wf: "wf_resources rs" and r: "map_of rs k = Some r" and lim: "project_limit CONF ctx p db r = Some L"
    and u: "nonempty u" and st: "get_settable_quotas CONF ctx rs p u pu uu db = Inr st" and s: "map_of st k = Some s"
  shows "st_maximum s = sum_quota_values (Some (L - committed p k db))
      (dict_get (quota_get_all_by_project_and_user p u db) k (Some 0))"
    and "\<forall>row \<in> set (user_rows p db). uq_resource row = k \<longrightarrow> uq_limit row \<noteq> None"
proof -
  let ?pq = "quota_get_all_by_project p db"
  let ?setted = "quota_get_all_by_project_and_user p u db"
  let ?body = "\<lambda>pq (key, value). bind (dict_index pq key) (\<lambda>q. bind (view_usage value) (\<lambda>(in_use, reserved).
      Inr (key, \<lparr>st_minimum = in_use + reserved, st_maximum = sum_quota_values (v_remains q) (dict_get ?setted key (Some 0))\<rparr>)))"
  obtain pq uq where pq: "get_project_quotas CONF ctx rs p None True (Some pu) True (Some ?pq) db = Inr pq"
    and tr: "traverse (?body pq) uq = Inr st"
    using st u by (auto simp: get_settable_quotas_def Let_def)
  obtain q where q: "map_of pq k = Some q" "st_maximum s = sum_quota_values (v_remains q) (dict_get ?setted k (Some 0))"
  proof -
    have "\<exists>v. map_of uq k = Some v \<and> ?body pq (k, v) = Inr (k, s)"
      by (rule traverse_items [OF tr _ s]) (auto split: prod.splits)
    then show ?thesis using that by auto
  qed
  let ?view = "full_view CONF ?pq (class_limits ctx p None db) (Some pu) True db"
  have "loop subtract_limit (user_rows p db) (fold (\<lambda>r. AList.update (resource_name r) (?view r)) (map snd rs) []) = Inr pq"
    using pq by (simp add: get_project_quotas_def process_all [OF wf] Let_def)
  moreover have "map_of (fold (\<lambda>r. AList.update (resource_name r) (?view r)) (map snd rs) []) k = Some (?view r)"
  proof -
    have "resource_name r = k" "r \<in> set (map snd rs)"
      using map_of_SomeD [OF r] wf by (force simp: wf_resources_def)+
    then show ?thesis using map_of_fold_update_in [OF _ wf_resources_inj [OF wf], of r ?view "[]"] by simp
  qed
  moreover have "v_remains (?view r) = Some L"
    using lim by (simp add: full_view_def Let_def project_limit_def)
  ultimately have "\<exists>v. map_of pq k = Some v \<and> v_remains v =
      Some (L - sum_list (map limit_value (filter (\<lambda>row. uq_resource row = k) (user_rows p db)))) \<and>
      (\<forall>row \<in> set (user_rows p db). uq_resource row = k \<longrightarrow> uq_limit row \<noteq> None)"
    by (rule subtract_limits)
  then show "st_maximum s = sum_quota_values (Some (L - committed p k db)) (dict_get ?setted k (Some 0))"
    and "\<forall>row \<in> set (user_rows p db). uq_resource row = k \<longrightarrow> uq_limit row \<noteq> None"
    using q by (simp_all add: limits_of_def)
qed

text \<open>
  When the users of a project have more than the project, what remains is negative, and a negative
  number means unlimited: any limit may then be set for a user, above all -1.
\<close>

lemma overcommitted_is_unlimited:
  assumes "wf_resources rs" and "map_of rs k = Some r" and "project_limit CONF ctx p db r = Some L"
    and "nonempty u" and "get_settable_quotas CONF ctx rs p u pu uu db = Inr st" and "map_of st k = Some s"
    and "L < committed p k db"
  shows "st_maximum s = -1" and "validate_quota_limit (-1) (st_minimum s) (st_maximum s) = Inr ()"
proof -
  show "st_maximum s = -1"
    using assms(7) by (simp add: settable_maximum [OF assms(1-6)] sum_quota_values_def is_unlimited_value_def UNLIMITED_VALUE_def)
  then show "validate_quota_limit (-1) (st_minimum s) (st_maximum s) = Inr ()"
    by (cases "conv_inf (st_minimum s)") (simp_all add: validate_quota_limit_def conv_inf_def)
qed

section \<open>An update that is not forced\<close>

lemma checked_values:
  assumes "check_quota_set False st body = Inr valid" and "wf_dict body"
  shows "wf_dict valid \<and> set (keys valid) \<subseteq> set (keys body) \<and>
    (\<forall>k v. map_of valid k = Some v \<longleftrightarrow> map_of body k = Some (Some v)) \<and>
    (\<forall>k v. map_of body k = Some (Some v) \<longrightarrow>
       (\<exists>s. map_of st k = Some s \<and> validate_quota_limit v (st_minimum s) (st_maximum s) = Inr ()))"
proof -
  let ?f = "\<lambda>(key, value) valid. case value of None \<Rightarrow> Inr valid | Some v \<Rightarrow>
       bind (if False then Inr () else bind (dict_index st key) (\<lambda>s.
          validate_quota_limit v (st_minimum s) (st_maximum s))) (\<lambda>_. Inr (AList.update key v valid))"
  have *: "wf_dict valid \<and>
      (\<forall>k v. map_of valid k = Some v \<longleftrightarrow> map_of d k = Some v \<or> map_of body k = Some (Some v)) \<and>
      (\<forall>k v. map_of body k = Some (Some v) \<longrightarrow>
         (\<exists>s. map_of st k = Some s \<and> validate_quota_limit v (st_minimum s) (st_maximum s) = Inr ()))"
    if "loop ?f body d = Inr valid" "wf_dict body" "wf_dict d" "set (keys d) \<inter> set (keys body) = {}" for d
    using that
  proof (induction body arbitrary: d)
    case (Cons kv body)
    obtain k w where kv: "kv = (k, w)" by (cases kv)
    have k: "map_of d k = None" "map_of body k = None"
      using Cons.prems(2,4) kv by (auto simp: map_of_eq_None_iff)
    show ?case
    proof (cases w)
      case None
      have "loop ?f body d = Inr valid" using Cons.prems(1) None kv by simp
      from Cons.IH [OF this] show ?thesis using Cons.prems k None kv by auto
    next
      case (Some v)
      obtain s where s: "map_of st k = Some s" "validate_quota_limit v (st_minimum s) (st_maximum s) = Inr ()"
        and rest: "loop ?f body (AList.update k v d) = Inr valid"
        using Cons.prems(1) Some kv by auto
      have d: "wf_dict (AList.update k v d)" "set (keys (AList.update k v d)) \<inter> set (keys body) = {}"
        using Cons.prems kv by (auto simp: dom_update)
      note IH = Cons.IH [OF rest _ d]
      show ?thesis
      proof (intro conjI allI)
        show "wf_dict valid" using IH Cons.prems(2) by simp
      next
        fix j x
        show "map_of valid j = Some x \<longleftrightarrow> map_of d j = Some x \<or> map_of (kv # body) j = Some (Some x)"
          using IH Cons.prems(2) k Some kv by (cases "j = k") auto
        show "map_of (kv # body) j = Some (Some x) \<longrightarrow>
            (\<exists>s. map_of st j = Some s \<and> validate_quota_limit x (st_minimum s) (st_maximum s) = Inr ())"
          using IH Cons.prems(2) s Some kv by (cases "j = k") auto
      qed
    qed
  qed simp
  have main: "wf_dict valid" "\<And>k v. map_of valid k = Some v \<longleftrightarrow> map_of body k = Some (Some v)"
      "\<And>k v. map_of body k = Some (Some v) \<Longrightarrow>
         \<exists>s. map_of st k = Some s \<and> validate_quota_limit v (st_minimum s) (st_maximum s) = Inr ()"
    using * [of "[]"] assms by (simp_all add: check_quota_set_def)
  moreover have "set (keys valid) \<subseteq> set (keys body)"
  proof
    fix k assume "k \<in> set (keys valid)"
    then have "map_of valid k \<noteq> None" by (simp add: map_of_eq_None_iff)
    then have "map_of body k \<noteq> None" using main(2) [of k] by auto
    then show "k \<in> set (keys body)" by (simp add: map_of_eq_None_iff)
  qed
  ultimately show ?thesis by blast
qed


definition example_usage :: usage_dict where
  "example_usage = [(''cores'', (2, 0))]"

text \<open>
  A project limit of NULL next to a limit of one of its users ends the computation of what remains
  with a \<open>TypeError\<close>; so no limit of that project can be updated, forced or not.
\<close>

lemma null_limit_breaks_update:
  "update_quota_set small_conf example_context example_resources (Some ''p'') (Some ''u'') True
     [(''cores'', Some 7)] example_usage example_usage example_limits = Inl TypeError"
  by code_simp

definition plain_limits :: quota_tables where
  "plain_limits = example_limits\<lparr>quota_rows :=
     [\<lparr>qr_project = Some ''p'', qr_resource = ''cores'', qr_limit = Some 12, qr_deleted = False\<rparr>]\<rparr>"


end
