(* ===== verification/QuotaUsage.thy ===== *)
theory QuotaUsage
  imports QuotaLimits
begin

text \<open>
  The usage of Nova's quotas and the reservations against it: the transactions of
  \<open>nova/db/sqlalchemy/api.py\<close>, the driver \<open>DbQuotaDriver\<close> and the engine of \<open>nova/quota.py\<close>,
  and the object \<open>Quotas\<close> of \<open>nova/objects/quotas.py\<close> that carries reservations through a request.
  Each transaction locks the rows it reads, so it is one step from database to database; an
  exception inside it leaves the database as it was. Times are microseconds.
\<close>

section \<open>Rows\<close>

record quota_usage =
  qu_id :: nat
  qu_project :: ident
  qu_user :: ident
  qu_resource :: string
  qu_in_use :: int
  qu_reserved :: int
  qu_until_refresh :: "int option"
  qu_updated_at :: int
  qu_deleted :: bool

definition usage_total :: "quota_usage \<Rightarrow> int" where
  "usage_total row = qu_in_use row + qu_reserved row"

record reservation =
  rv_uuid :: string
  rv_usage_id :: nat
  rv_project :: ident
  rv_user :: ident
  rv_resource :: string
  rv_delta :: int
  rv_expire :: int
  rv_deleted :: bool

record quota_db = quota_tables +
  usages :: "quota_usage list"
  reservations :: "reservation list"

section \<open>Reading the usage\<close>

text \<open>The rows of a project in the order of their ids.\<close>

definition usage_rows :: "ident \<Rightarrow> 'a quota_db_scheme \<Rightarrow> quota_usage list" where
  "usage_rows p db = sort_key qu_id (filter (\<lambda>row. \<not> qu_deleted row \<and> qu_project row = p) (usages db))"

record usage_count =
  n_in_use :: int
  n_reserved :: int
  n_total :: int

definition count_usage :: "quota_usage \<Rightarrow> (string, usage_count) dict \<Rightarrow> (string, usage_count) dict" where
  "count_usage row d =
     (let n = dict_get d (qu_resource row) \<lparr>n_in_use = 0, n_reserved = 0, n_total = 0\<rparr>
      in AList.update (qu_resource row)
           \<lparr>n_in_use = n_in_use n + qu_in_use row, n_reserved = n_reserved n + qu_reserved row,
            n_total = n_total n + usage_total row\<rparr> d)"

type_synonym user_usages = "(string, quota_usage) dict"

definition pick_usage :: "ident \<Rightarrow> quota_usage \<Rightarrow> user_usages \<Rightarrow> user_usages" where
  "pick_usage u row d =
     (if qu_user row = None \<or> qu_user row = u then AList.update (qu_resource row) row d else d)"

definition get_project_user_quota_usages ::
    "ident \<Rightarrow> ident \<Rightarrow> 'a quota_db_scheme \<Rightarrow> (string, usage_count) dict \<times> user_usages" where
  "get_project_user_quota_usages p u db =
     (fold count_usage (usage_rows p db) [], fold (pick_usage u) (usage_rows p db) [])"

text \<open>\<open>_quota_usage_get_all\<close>: what is shown and what the settable limits are computed from.\<close>

definition sum_usage :: "quota_usage \<Rightarrow> usage_dict \<Rightarrow> usage_dict" where
  "sum_usage row d =
     (let (a, b) = dict_get d (qu_resource row) (0, 0)
      in AList.update (qu_resource row) (a + qu_in_use row, b + qu_reserved row) d)"

definition quota_usage_get_all :: "ident \<Rightarrow> ident \<Rightarrow> 'a quota_db_scheme \<Rightarrow> usage_dict" where
  "quota_usage_get_all p u db =
     fold sum_usage
       (filter (\<lambda>row. \<not> qu_deleted row \<and> qu_project row = p \<and>
          (nonempty u \<longrightarrow> qu_user row = u \<or> qu_user row = None)) (usages db)) []"

text \<open>\<open>quota_usage_get\<close>\<close>

definition quota_usage_get :: "ident \<Rightarrow> string \<Rightarrow> ident \<Rightarrow> 'a quota_db_scheme \<Rightarrow> quota_usage result" where
  "quota_usage_get p r u db =
     (case find (\<lambda>row. \<not> qu_deleted row \<and> qu_project row = p \<and> qu_resource row = r \<and>
          (nonempty u \<longrightarrow> qu_user row = (if r \<notin> set PER_PROJECT_QUOTAS then u else None))) (usages db) of
        None \<Rightarrow> Inl QuotaUsageNotFound
      | Some row \<Rightarrow> Inr row)"

section \<open>What is really in use\<close>

text \<open>The rows the synchronisation functions count, those that are not deleted.\<close>

record instance_row =
  in_uuid :: string
  in_project :: ident
  in_user :: ident
  in_vcpus :: "int option"
  in_memory_mb :: "int option"

record inventory =
  iv_instances :: "instance_row list"
  iv_floating_ips :: "(ident \<times> bool) list" \<comment> \<open>project, auto-assigned\<close>
  iv_fixed_ips :: "string option list" \<comment> \<open>the instance\<close>
  iv_security_groups :: "(ident \<times> ident) list" \<comment> \<open>project, user\<close>
  iv_server_groups :: "(ident \<times> ident) list"

definition instance_data_get_for_user :: "ident \<Rightarrow> ident \<Rightarrow> inventory \<Rightarrow> int \<times> int \<times> int" where
  "instance_data_get_for_user p u iv =
     (let rows = filter (\<lambda>i. in_project i = p \<and> (nonempty u \<longrightarrow> in_user i = u)) (iv_instances iv)
      in (int (length rows), sum_list (List.map_filter in_vcpus rows), sum_list (List.map_filter in_memory_mb rows)))"

definition floating_ip_count_by_project :: "ident \<Rightarrow> inventory \<Rightarrow> int" where
  "floating_ip_count_by_project p iv = int (length (filter (\<lambda>(q, auto_assigned). q = p \<and> \<not> auto_assigned) (iv_floating_ips iv)))"

definition fixed_ip_count_by_project :: "ident \<Rightarrow> inventory \<Rightarrow> int" where
  "fixed_ip_count_by_project p iv =
     int (length (filter (\<lambda>(ip, i). ip = Some (in_uuid i) \<and> in_project i = p)
       (List.product (iv_fixed_ips iv) (iv_instances iv))))"

definition security_group_count_by_project_and_user :: "ident \<Rightarrow> ident \<Rightarrow> inventory \<Rightarrow> int" where
  "security_group_count_by_project_and_user p u iv = int (length (filter (\<lambda>g. g = (p, u)) (iv_security_groups iv)))"

definition instance_group_count_by_project_and_user :: "ident \<Rightarrow> ident \<Rightarrow> inventory \<Rightarrow> int" where
  "instance_group_count_by_project_and_user p u iv = int (length (filter (\<lambda>g. g = (p, u)) (iv_server_groups iv)))"

type_synonym sync = "ident \<Rightarrow> ident \<Rightarrow> (string, int) dict"

definition sync_instances :: "inventory \<Rightarrow> sync" where
  "sync_instances iv p u =
     (case instance_data_get_for_user p u iv of
        (n, cores, ram) \<Rightarrow> [(''instances'', n), (''cores'', cores), (''ram'', ram)])"

definition sync_floating_ips :: "inventory \<Rightarrow> sync" where
  "sync_floating_ips iv p u = [(''floating_ips'', floating_ip_count_by_project p iv)]"

definition sync_fixed_ips :: "inventory \<Rightarrow> sync" where
  "sync_fixed_ips iv p u = [(''fixed_ips'', fixed_ip_count_by_project p iv)]"

definition sync_security_groups :: "inventory \<Rightarrow> sync" where
  "sync_security_groups iv p u = [(''security_groups'', security_group_count_by_project_and_user p u iv)]"

definition sync_server_groups :: "inventory \<Rightarrow> sync" where
  "sync_server_groups iv p u = [(''server_groups'', instance_group_count_by_project_and_user p u iv)]"

definition QUOTA_SYNC_FUNCTIONS :: "inventory \<Rightarrow> (string, sync) dict" where
  "QUOTA_SYNC_FUNCTIONS iv =
     [(''_sync_instances'', sync_instances iv), (''_sync_floating_ips'', sync_floating_ips iv),
      (''_sync_fixed_ips'', sync_fixed_ips iv), (''_sync_security_groups'', sync_security_groups iv),
      (''_sync_server_groups'', sync_server_groups iv)]"

section \<open>Refreshing the usage\<close>

text \<open>\<open>x or None\<close> of a number\<close>

definition or_None :: "int \<Rightarrow> int option" where
  "or_None n = (if n = 0 then None else Some n)"

definition next_usage_id :: "'a quota_db_scheme \<Rightarrow> nat" where
  "next_usage_id db = Suc (fold max (map qu_id (usages db)) 0)"

definition quota_usage_create ::
    "ident \<Rightarrow> ident \<Rightarrow> string \<Rightarrow> int option \<Rightarrow> int \<Rightarrow> 'a quota_db_scheme \<Rightarrow> quota_usage \<times> 'a quota_db_scheme" where
  "quota_usage_create p u r until now db =
     (let row = \<lparr>qu_id = next_usage_id db, qu_project = p, qu_user = u, qu_resource = r, qu_in_use = 0,
                 qu_reserved = 0, qu_until_refresh = until, qu_updated_at = now, qu_deleted = False\<rparr>
      in (row, db\<lparr>usages := usages db @ [row]\<rparr>))"

text \<open>
  The rows of the user are held in a dictionary while the transaction runs; what is assigned to
  them reaches the table at its end.
\<close>

definition create_quota_usage_if_missing ::
    "string \<Rightarrow> int \<Rightarrow> ident \<Rightarrow> ident \<Rightarrow> int \<Rightarrow> user_usages \<times> 'a quota_db_scheme \<Rightarrow>
     bool \<times> user_usages \<times> 'a quota_db_scheme" where
  "create_quota_usage_if_missing r until p u now s =
     (case s of (us, db) \<Rightarrow>
        if map_of us r \<noteq> None then (False, us, db)
        else
          let u' = (if r \<in> set PER_PROJECT_QUOTAS then None else u);
              (row, db') = quota_usage_create p u' r (or_None until) now db
          in (True, AList.update r row us, db'))"

text \<open>\<open>timedelta.seconds\<close>: the seconds within the day, not the whole difference.\<close>

definition timedelta_seconds :: "int \<Rightarrow> int" where
  "timedelta_seconds d = (d div 1000000) mod 86400"

definition is_quota_refresh_needed :: "int \<Rightarrow> int \<Rightarrow> quota_usage \<Rightarrow> bool \<times> quota_usage" where
  "is_quota_refresh_needed max_age now row =
     (if qu_in_use row < 0 then (True, row)
      else case qu_until_refresh row of
        Some n \<Rightarrow> (n - 1 \<le> 0, row\<lparr>qu_until_refresh := Some (n - 1)\<rparr>)
      | None \<Rightarrow> (max_age \<noteq> 0 \<and> max_age \<le> timedelta_seconds (now - qu_updated_at row), row))"

definition refresh_quota_usages :: "int \<Rightarrow> int \<Rightarrow> quota_usage \<Rightarrow> quota_usage" where
  "refresh_quota_usages until in_use row = row\<lparr>qu_in_use := in_use, qu_until_refresh := or_None until\<rparr>"

definition sync_usage ::
    "int \<Rightarrow> ident \<Rightarrow> ident \<Rightarrow> int \<Rightarrow> string \<times> int \<Rightarrow> user_usages \<times> 'a quota_db_scheme \<Rightarrow>
     user_usages \<times> 'a quota_db_scheme" where
  "sync_usage until p u now item s =
     (case create_quota_usage_if_missing (fst item) until p u now s of
        (_, us, db) \<Rightarrow>
          (case map_of us (fst item) of
             None \<Rightarrow> (us, db)
           | Some row \<Rightarrow> (AList.update (fst item) (refresh_quota_usages until (snd item) row) us, db)))"

text \<open>\<open>QUOTA_SYNC_FUNCTIONS[resources[resource].sync]\<close>\<close>

definition sync_of :: "'c resources \<Rightarrow> (string, sync) dict \<Rightarrow> string \<Rightarrow> sync result" where
  "sync_of rs syncs r =
     bind (dict_index rs r) (\<lambda>res.
       case res of
         ReservableResource _ name _ \<Rightarrow> dict_index syncs name
       | _ \<Rightarrow> Inl AttributeError)"

text \<open>\<open>while work: resource = work.pop() ...\<close>, the set given in the order it is popped.\<close>

function refresh_work ::
    "'c resources \<Rightarrow> (string, sync) dict \<Rightarrow> int \<Rightarrow> int \<Rightarrow> ident \<Rightarrow> ident \<Rightarrow> int \<Rightarrow> string list \<Rightarrow>
     user_usages \<times> 'a quota_db_scheme \<Rightarrow> (user_usages \<times> 'a quota_db_scheme) result" where
  "refresh_work rs syncs until max_age p u now [] s = Inr s"
| "refresh_work rs syncs until max_age p u now (r # work) s =
     (case create_quota_usage_if_missing r until p u now s of
        (created, us, db) \<Rightarrow>
          (let (refresh, us) =
             (if created then (True, us)
              else case map_of us r of
                None \<Rightarrow> (False, us)
              | Some row \<Rightarrow>
                  (let (needed, row') = is_quota_refresh_needed max_age now row
                   in (needed, AList.update r row' us)))
           in if \<not> refresh then refresh_work rs syncs until max_age p u now work (us, db)
              else bind (sync_of rs syncs r) (\<lambda>sync.
                refresh_work rs syncs until max_age p u now
                  (filter (\<lambda>x. x \<notin> set (keys (sync p u))) work)
                  (fold (sync_usage until p u now) (sync p u) (us, db)))))"
  by pat_completeness auto

termination
  by (relation "measure (\<lambda>(_, _, _, _, _, _, _, work, _). length work)") (auto simp: le_imp_less_Suc)


section \<open>Reserving\<close>

text \<open>\<open>0 <= limit < delta + usages[res]['total']\<close>; the total is read only for a limit that counts.\<close>

definition beyond :: "int option \<Rightarrow> int result \<Rightarrow> int \<Rightarrow> bool result" where
  "beyond l read delta =
     (case l of None \<Rightarrow> Inr False
      | Some l \<Rightarrow> if l < 0 then Inr False else bind read (\<lambda>t. Inr (l < delta + t)))"

definition goes_over ::
    "limit_dict \<Rightarrow> limit_dict \<Rightarrow> (string, usage_count) dict \<Rightarrow> user_usages \<Rightarrow> string \<times> int \<Rightarrow> bool result" where
  "goes_over project_quotas user_quotas project_usages us item =
     (case item of (res, delta) \<Rightarrow>
        if delta < 0 then Inr False
        else bind (dict_index project_quotas res) (\<lambda>l.
          bind (beyond l (bind (dict_index project_usages res) (\<lambda>n. Inr (n_total n))) delta) (\<lambda>over.
          if over then Inr True
          else bind (dict_index user_quotas res) (\<lambda>m.
            beyond m (bind (dict_index us res) (\<lambda>row. Inr (usage_total row))) delta))))"

definition calculate_overquota ::
    "limit_dict \<Rightarrow> limit_dict \<Rightarrow> (string, int) dict \<Rightarrow> (string, usage_count) dict \<Rightarrow> user_usages \<Rightarrow> string list result" where
  "calculate_overquota project_quotas user_quotas deltas project_usages us =
     bind (traverse (\<lambda>item. bind (goes_over project_quotas user_quotas project_usages us item)
         (\<lambda>over. Inr (fst item, over))) deltas)
       (\<lambda>marks. Inr (map fst (filter snd marks)))"

definition copy_usage :: "string \<times> quota_usage \<Rightarrow> (string, usage_count) dict \<Rightarrow> (string, usage_count) dict" where
  "copy_usage item d =
     (case item of (key, row) \<Rightarrow>
        if map_of d key \<noteq> None then d
        else AList.update key
          \<lparr>n_in_use = qu_in_use row, n_reserved = qu_reserved row, n_total = usage_total row\<rparr> d)"

definition reservation_create ::
    "string \<Rightarrow> quota_usage \<Rightarrow> ident \<Rightarrow> ident \<Rightarrow> string \<Rightarrow> int \<Rightarrow> int \<Rightarrow> reservation" where
  "reservation_create uuid row p u r delta expire =
     \<lparr>rv_uuid = uuid, rv_usage_id = qu_id row, rv_project = p, rv_user = u, rv_resource = r,
      rv_delta = delta, rv_expire = expire, rv_deleted = False\<rparr>"

definition reserve_one ::
    "ident \<Rightarrow> ident \<Rightarrow> int \<Rightarrow> (string \<times> int) \<times> string \<Rightarrow> user_usages \<times> 'a quota_db_scheme \<Rightarrow>
     (user_usages \<times> 'a quota_db_scheme) result" where
  "reserve_one p u expire item s =
     (case (item, s) of (((res, delta), uuid), us, db) \<Rightarrow>
        bind (dict_index us res) (\<lambda>row.
          Inr (if delta > 0 then AList.update res (row\<lparr>qu_reserved := qu_reserved row + delta\<rparr>) us else us,
               db\<lparr>reservations := reservations db @ [reservation_create uuid row p u res delta expire]\<rparr>)))"

text \<open>The end of a transaction: the rows that have changed are written, with the time of the change.\<close>

definition write_row :: "int \<Rightarrow> quota_usage list \<Rightarrow> quota_usage \<Rightarrow> quota_usage" where
  "write_row now changed row =
     (case find (\<lambda>x. qu_id x = qu_id row) changed of
        None \<Rightarrow> row
      | Some x \<Rightarrow> if x = row then row else x\<lparr>qu_updated_at := now\<rparr>)"

definition flush :: "int \<Rightarrow> user_usages \<Rightarrow> 'a quota_db_scheme \<Rightarrow> 'a quota_db_scheme" where
  "flush now us db = db\<lparr>usages := map (write_row now (map snd us)) (usages db)\<rparr>"

text \<open>
  \<open>quota_reserve\<close>: the outcome and the database after it. Being over quota is not an error of the
  transaction: the refreshed usage is kept. \<open>uuid4\<close> gives the identifiers of the reservations,
  \<open>work\<close> the order in which the set of resources is popped.
\<close>

definition quota_reserve ::
    "'c resources \<Rightarrow> inventory \<Rightarrow> (nat \<Rightarrow> string) \<Rightarrow> string list \<Rightarrow> limit_dict \<Rightarrow> limit_dict \<Rightarrow>
     (string, int) dict \<Rightarrow> int \<Rightarrow> int \<Rightarrow> int \<Rightarrow> ident \<Rightarrow> ident \<Rightarrow> int \<Rightarrow> 'a quota_db_scheme \<Rightarrow>
     string list result \<times> 'a quota_db_scheme" where
  "quota_reserve rs iv uuid4 work project_quotas user_quotas deltas expire until max_age p u now db =
     (let (project_usages, us) = get_project_user_quota_usages p u db
      in case
           bind (refresh_work rs (QUOTA_SYNC_FUNCTIONS iv) until max_age p u now work (us, db)) (\<lambda>(us, db).
           bind (calculate_overquota project_quotas user_quotas deltas (fold copy_usage us project_usages) us) (\<lambda>overs.
           if overs = [] then
             bind (loop (reserve_one p u expire) (zip deltas (map uuid4 [0..<length deltas])) (us, db)) (\<lambda>(us, db).
             Inr (overs, flush now us db))
           else Inr (overs, flush now us db)))
         of Inl e \<Rightarrow> (Inl e, db)
          | Inr (overs, db') \<Rightarrow>
              (if overs = [] then Inr (map uuid4 [0..<length deltas]) else Inl OverQuota, db'))"

section \<open>Committing, rolling back, expiring\<close>

definition selected :: "string list \<Rightarrow> reservation \<Rightarrow> bool" where
  "selected uuids rv \<longleftrightarrow> \<not> rv_deleted rv \<and> rv_uuid rv \<in> set uuids"

definition soft_delete :: "(reservation \<Rightarrow> bool) \<Rightarrow> 'a quota_db_scheme \<Rightarrow> 'a quota_db_scheme" where
  "soft_delete P db =
     db\<lparr>reservations := map (\<lambda>rv. if P rv then rv\<lparr>rv_deleted := True\<rparr> else rv) (reservations db)\<rparr>"

definition settle :: "bool \<Rightarrow> reservation \<Rightarrow> user_usages \<Rightarrow> user_usages result" where
  "settle commit rv us =
     bind (dict_index us (rv_resource rv)) (\<lambda>row.
       let row = (if rv_delta rv \<ge> 0 then row\<lparr>qu_reserved := qu_reserved row - rv_delta rv\<rparr> else row);
           row = (if commit then row\<lparr>qu_in_use := qu_in_use row + rv_delta rv\<rparr> else row)
       in Inr (AList.update (rv_resource rv) row us))"

definition settle_all ::
    "bool \<Rightarrow> string list \<Rightarrow> ident \<Rightarrow> ident \<Rightarrow> int \<Rightarrow> 'a quota_db_scheme \<Rightarrow> 'a quota_db_scheme result" where
  "settle_all commit uuids p u now db =
     bind (loop (settle commit) (filter (selected uuids) (reservations db)) (snd (get_project_user_quota_usages p u db)))
       (\<lambda>us. Inr (soft_delete (selected uuids) (flush now us db)))"

definition reservation_commit ::
    "string list \<Rightarrow> ident \<Rightarrow> ident \<Rightarrow> int \<Rightarrow> 'a quota_db_scheme \<Rightarrow> 'a quota_db_scheme result" where
  "reservation_commit = settle_all True"

definition reservation_rollback ::
    "string list \<Rightarrow> ident \<Rightarrow> ident \<Rightarrow> int \<Rightarrow> 'a quota_db_scheme \<Rightarrow> 'a quota_db_scheme result" where
  "reservation_rollback = settle_all False"

text \<open>
  Expiry goes through the usage row a reservation refers to. The query joins the table of rows,
  deleted ones included; the attribute \<open>usage\<close> leaves deleted rows out and is then \<open>None\<close>.
\<close>

definition expired :: "int \<Rightarrow> reservation \<Rightarrow> bool" where
  "expired now rv \<longleftrightarrow> \<not> rv_deleted rv \<and> rv_expire rv < now"

definition release :: "reservation \<Rightarrow> quota_usage list \<Rightarrow> quota_usage list result" where
  "release rv rows =
     (if rv_delta rv < 0 then Inr rows
      else if list_ex (\<lambda>row. qu_id row = rv_usage_id rv \<and> \<not> qu_deleted row) rows
      then Inr (map (\<lambda>row. if qu_id row = rv_usage_id rv \<and> \<not> qu_deleted row
             then row\<lparr>qu_reserved := qu_reserved row - rv_delta rv\<rparr> else row) rows)
      else Inl AttributeError)"

definition reservation_expire :: "int \<Rightarrow> 'a quota_db_scheme \<Rightarrow> 'a quota_db_scheme result" where
  "reservation_expire now db =
     (let joined = filter (\<lambda>rv. expired now rv \<and> list_ex (\<lambda>row. qu_id row = rv_usage_id rv) (usages db)) (reservations db)
      in bind (loop release joined (usages db)) (\<lambda>rows.
           Inr (soft_delete (expired now) (db\<lparr>usages := map (write_row now rows) (usages db)\<rparr>))))"

section \<open>Resetting and destroying\<close>

definition quota_usage_update ::
    "ident \<Rightarrow> ident \<Rightarrow> string \<Rightarrow> int option \<Rightarrow> int option \<Rightarrow> int option option \<Rightarrow> int \<Rightarrow> 'a quota_db_scheme \<Rightarrow>
     'a quota_db_scheme result" where
  "quota_usage_update p u r in_use reserved until now db =
     (let P = (\<lambda>row. \<not> qu_deleted row \<and> qu_project row = p \<and> qu_resource row = r \<and>
                 (qu_user row = u \<or> qu_user row = None));
          upd = (\<lambda>row. row\<lparr>qu_in_use := (case in_use of None \<Rightarrow> qu_in_use row | Some n \<Rightarrow> n),
                   qu_reserved := (case reserved of None \<Rightarrow> qu_reserved row | Some n \<Rightarrow> n),
                   qu_until_refresh := (case until of None \<Rightarrow> qu_until_refresh row | Some n \<Rightarrow> n),
                   qu_updated_at := now\<rparr>)
      in if list_ex P (usages db)
         then Inr (db\<lparr>usages := map (\<lambda>row. if P row then upd row else row) (usages db)\<rparr>)
         else Inl QuotaUsageNotFound)"

definition quota_destroy_all_by_project_and_user :: "ident \<Rightarrow> ident \<Rightarrow> 'a quota_db_scheme \<Rightarrow> 'a quota_db_scheme" where
  "quota_destroy_all_by_project_and_user p u db =
     (let db = delete_user_quotas p u db
      in soft_delete (\<lambda>rv. rv_project rv = p \<and> rv_user rv = u)
           (db\<lparr>usages := map (\<lambda>row. if qu_project row = p \<and> qu_user row = u then row\<lparr>qu_deleted := True\<rparr> else row)
              (usages db)\<rparr>))"

definition quota_destroy_all_by_project :: "ident \<Rightarrow> 'a quota_db_scheme \<Rightarrow> 'a quota_db_scheme" where
  "quota_destroy_all_by_project p db =
     (let db = delete_project_quotas p db
      in soft_delete (\<lambda>rv. rv_project rv = p)
           (db\<lparr>usages := map (\<lambda>row. if qu_project row = p then row\<lparr>qu_deleted := True\<rparr> else row) (usages db)\<rparr>))"

section \<open>The driver\<close>

text \<open>The forms an expiration may take, in microseconds.\<close>

datatype expiration = NoExpiration | Seconds int | Timedelta int | Datetime int | OtherValue

definition expiration_time :: "(string \<Rightarrow> int) \<Rightarrow> int \<Rightarrow> expiration \<Rightarrow> int result" where
  "expiration_time CONF now expire =
     (let expire = (if expire = NoExpiration then Seconds (CONF ''reservation_expire'') else expire);
          expire = (case expire of Seconds n \<Rightarrow> Timedelta (n * 1000000) | x \<Rightarrow> x);
          expire = (case expire of Timedelta d \<Rightarrow> Datetime (now + d) | x \<Rightarrow> x)
      in case expire of Datetime t \<Rightarrow> Inr t | _ \<Rightarrow> Inl InvalidReservationExpiration)"

definition or_context :: "ident \<Rightarrow> ident \<Rightarrow> ident" where
  "or_context x y = (if x = None then y else x)"

definition driver_reserve ::
    "(string \<Rightarrow> int) \<Rightarrow> inventory \<Rightarrow> (nat \<Rightarrow> string) \<Rightarrow> string list \<Rightarrow> quota_context \<Rightarrow> 'c resources \<Rightarrow> (string, int) dict \<Rightarrow>
     expiration \<Rightarrow> ident \<Rightarrow> ident \<Rightarrow> int \<Rightarrow> 'a quota_db_scheme \<Rightarrow> string list result \<times> 'a quota_db_scheme" where
  "driver_reserve CONF iv uuid4 work ctx rs deltas expire p u now db =
     (case
        bind (valid_method_call_check_resources rs (keys deltas) ''reserve'') (\<lambda>_.
        bind (expiration_time CONF now expire) (\<lambda>t.
        let p = or_context p (ctx_project ctx);
            u = or_context u (ctx_user ctx);
            project_quotas = quota_get_all_by_project p db
        in bind (get_quotas CONF ctx rs (keys deltas) True p None (Some project_quotas) db) (\<lambda>quotas.
           bind (get_quotas CONF ctx rs (keys deltas) True p u (Some project_quotas) db) (\<lambda>user_quotas.
           Inr (t, quotas, user_quotas)))))
      of Inl e \<Rightarrow> (Inl e, db)
       | Inr (t, quotas, user_quotas) \<Rightarrow>
           quota_reserve rs iv uuid4 work quotas user_quotas deltas t (CONF ''until_refresh'') (CONF ''max_age'')
             (or_context p (ctx_project ctx)) (or_context u (ctx_user ctx)) now db)"

definition driver_commit ::
    "quota_context \<Rightarrow> string list \<Rightarrow> ident \<Rightarrow> ident \<Rightarrow> int \<Rightarrow> 'a quota_db_scheme \<Rightarrow> 'a quota_db_scheme result" where
  "driver_commit ctx uuids p u now db =
     reservation_commit uuids (or_context p (ctx_project ctx)) (or_context u (ctx_user ctx)) now db"

definition driver_rollback ::
    "quota_context \<Rightarrow> string list \<Rightarrow> ident \<Rightarrow> ident \<Rightarrow> int \<Rightarrow> 'a quota_db_scheme \<Rightarrow> 'a quota_db_scheme result" where
  "driver_rollback ctx uuids p u now db =
     reservation_rollback uuids (or_context p (ctx_project ctx)) (or_context u (ctx_user ctx)) now db"

definition driver_usage_reset ::
    "quota_context \<Rightarrow> string list \<Rightarrow> int \<Rightarrow> 'a quota_db_scheme \<Rightarrow> 'a quota_db_scheme result" where
  "driver_usage_reset ctx names now db =
     loop (\<lambda>r db. case quota_usage_update (ctx_project ctx) (ctx_user ctx) r (Some (-1)) None None now db of
         Inl e \<Rightarrow> if e = QuotaUsageNotFound then Inr db else Inl e
       | Inr db' \<Rightarrow> Inr db') names db"

section \<open>The engine and the object of a request\<close>

text \<open>\<open>QuotaEngine.commit\<close> and \<open>rollback\<close> log any exception and go on.\<close>

definition engine_commit ::
    "quota_context \<Rightarrow> string list \<Rightarrow> ident \<Rightarrow> ident \<Rightarrow> int \<Rightarrow> 'a quota_db_scheme \<Rightarrow> 'a quota_db_scheme" where
  "engine_commit ctx uuids p u now db =
     (case driver_commit ctx uuids p u now db of Inl _ \<Rightarrow> db | Inr db' \<Rightarrow> db')"

definition engine_rollback ::
    "quota_context \<Rightarrow> string list \<Rightarrow> ident \<Rightarrow> ident \<Rightarrow> int \<Rightarrow> 'a quota_db_scheme \<Rightarrow> 'a quota_db_scheme" where
  "engine_rollback ctx uuids p u now db =
     (case driver_rollback ctx uuids p u now db of Inl _ \<Rightarrow> db | Inr db' \<Rightarrow> db')"

record quotas =
  q_reservations :: "string list option"
  q_project :: ident
  q_user :: ident

definition new_quotas :: quotas where
  "new_quotas = \<lparr>q_reservations = Some [], q_project = None, q_user = None\<rparr>"

definition ids_from_instance :: "bool \<Rightarrow> quota_context \<Rightarrow> instance_row \<Rightarrow> ident \<times> ident" where
  "ids_from_instance is_admin ctx inst =
     (if is_admin \<and> ctx_project ctx \<noteq> in_project inst then in_project inst else ctx_project ctx,
      if ctx_user ctx \<noteq> in_user inst then in_user inst else ctx_user ctx)"

definition from_reservations :: "bool \<Rightarrow> quota_context \<Rightarrow> string list option \<Rightarrow> instance_row option \<Rightarrow> quotas" where
  "from_reservations is_admin ctx uuids inst =
     (case inst of
        None \<Rightarrow> \<lparr>q_reservations = uuids, q_project = None, q_user = None\<rparr>
      | Some i \<Rightarrow> (case ids_from_instance is_admin ctx i of
          (p, u) \<Rightarrow> \<lparr>q_reservations = uuids, q_project = p, q_user = u\<rparr>))"

definition quotas_reserve ::
    "(string \<Rightarrow> int) \<Rightarrow> inventory \<Rightarrow> (nat \<Rightarrow> string) \<Rightarrow> string list \<Rightarrow> quota_context \<Rightarrow> 'c resources \<Rightarrow> (string, int) dict \<Rightarrow>
     expiration \<Rightarrow> ident \<Rightarrow> ident \<Rightarrow> int \<Rightarrow> quotas \<times> 'a quota_db_scheme \<Rightarrow> error option \<times> quotas \<times> 'a quota_db_scheme" where
  "quotas_reserve CONF iv uuid4 work ctx rs deltas expire p u now s =
     (case driver_reserve CONF iv uuid4 work ctx rs deltas expire p u now (snd s) of
        (Inl e, db) \<Rightarrow> (Some e, fst s, db)
      | (Inr uuids, db) \<Rightarrow> (None, \<lparr>q_reservations = Some uuids, q_project = p, q_user = u\<rparr>, db))"

definition quotas_commit :: "quota_context \<Rightarrow> int \<Rightarrow> quotas \<times> 'a quota_db_scheme \<Rightarrow> quotas \<times> 'a quota_db_scheme" where
  "quotas_commit ctx now s =
     (case s of (q, db) \<Rightarrow>
        if \<not> nonempty (q_reservations q) then (q, db)
        else (q\<lparr>q_reservations := None\<rparr>,
              engine_commit ctx (the (q_reservations q)) (q_project q) (q_user q) now db))"

definition quotas_rollback :: "quota_context \<Rightarrow> int \<Rightarrow> quotas \<times> 'a quota_db_scheme \<Rightarrow> quotas \<times> 'a quota_db_scheme" where
  "quotas_rollback ctx now s =
     (case s of (q, db) \<Rightarrow>
        if \<not> nonempty (q_reservations q) then (q, db)
        else (q\<lparr>q_reservations := None\<rparr>,
              engine_rollback ctx (the (q_reservations q)) (q_project q) (q_user q) now db))"

end
