(* ===== verification/QuotaBooks.thy ===== *)
theory QuotaBooks
  imports QuotaUsage
begin

text \<open>
  That the books of the quotas balance: what a row of the usage table has reserved is what the live
  reservations against it hold, through every history of reservations, commits, roll backs, expiry,
  resets and deletions of projects. A transaction is followed through the dictionary of rows it
  works on; the pending table is what would be written if it ended at once.
\<close>

section \<open>The usage table\<close>

text \<open>
  What holds of the rows, for a function \<open>H\<close> that tells how much is held against each of them: ids
  are unique, a project and user have one live row per resource, the rows of per-project resources
  and only those have no user, and a live row has reserved exactly what is held.
\<close>

definition same_key :: "quota_usage \<Rightarrow> quota_usage \<Rightarrow> bool" where
  "same_key x y \<longleftrightarrow> qu_id x = qu_id y \<and> qu_project x = qu_project y \<and> qu_user x = qu_user y \<and>
     qu_resource x = qu_resource y \<and> qu_deleted x = qu_deleted y"

definition usage_inv :: "quota_usage list \<Rightarrow> (nat \<Rightarrow> int) \<Rightarrow> bool" where
  "usage_inv rows H \<longleftrightarrow> distinct (map qu_id rows) \<and>
     (\<forall>x \<in> set rows. \<forall>y \<in> set rows. \<not> qu_deleted x \<longrightarrow> \<not> qu_deleted y \<longrightarrow> qu_project x = qu_project y \<longrightarrow>
        qu_user x = qu_user y \<longrightarrow> qu_resource x = qu_resource y \<longrightarrow> qu_id x = qu_id y) \<and>
     (\<forall>x \<in> set rows. \<not> qu_deleted x \<longrightarrow>
        (qu_user x = None \<longleftrightarrow> qu_resource x \<in> set PER_PROJECT_QUOTAS) \<and> qu_reserved x = H (qu_id x))"

definition visible :: "ident \<Rightarrow> ident \<Rightarrow> quota_usage \<Rightarrow> bool" where
  "visible p u row \<longleftrightarrow> \<not> qu_deleted row \<and> qu_project row = p \<and> (qu_user row = None \<or> qu_user row = u)"

lemma usage_inv_distinct: "usage_inv rows H \<Longrightarrow> distinct (map qu_id rows)"
  unfolding usage_inv_def by (rule conjunct1)

lemma usage_inv_unique:
  assumes "usage_inv rows H" "x \<in> set rows" "y \<in> set rows" "\<not> qu_deleted x" "\<not> qu_deleted y"
    "qu_project x = qu_project y" "qu_user x = qu_user y" "qu_resource x = qu_resource y"
  shows "qu_id x = qu_id y"
  by (rule assms(1) [unfolded usage_inv_def, THEN conjunct2, THEN conjunct1, rule_format, OF assms(2-8)])

lemma usage_inv_row:
  assumes "usage_inv rows H" "x \<in> set rows" "\<not> qu_deleted x"
  shows "qu_user x = None \<longleftrightarrow> qu_resource x \<in> set PER_PROJECT_QUOTAS" and "qu_reserved x = H (qu_id x)"
  using assms(1) [unfolded usage_inv_def, THEN conjunct2, THEN conjunct2, rule_format, OF assms(2,3)] by blast+

lemma usage_invI:
  assumes "distinct (map qu_id rows)"
    and "\<And>x y. x \<in> set rows \<Longrightarrow> y \<in> set rows \<Longrightarrow> \<not> qu_deleted x \<Longrightarrow> \<not> qu_deleted y \<Longrightarrow>
      qu_project x = qu_project y \<Longrightarrow> qu_user x = qu_user y \<Longrightarrow> qu_resource x = qu_resource y \<Longrightarrow> qu_id x = qu_id y"
    and "\<And>x. x \<in> set rows \<Longrightarrow> \<not> qu_deleted x \<Longrightarrow> qu_user x = None \<longleftrightarrow> qu_resource x \<in> set PER_PROJECT_QUOTAS"
    and "\<And>x. x \<in> set rows \<Longrightarrow> \<not> qu_deleted x \<Longrightarrow> qu_reserved x = H (qu_id x)"
  shows "usage_inv rows H"
  unfolding usage_inv_def
proof (intro conjI ballI impI)
  show "distinct (map qu_id rows)" by (rule assms(1))
qed (rule assms; assumption)+

lemma same_key_refl [simp]: "same_key x x"
  by (simp add: same_key_def)

lemma same_key_fields [simp]:
  "same_key (x\<lparr>qu_in_use := a\<rparr>) y = same_key x y" "same_key (x\<lparr>qu_reserved := a\<rparr>) y = same_key x y"
  "same_key (x\<lparr>qu_until_refresh := b\<rparr>) y = same_key x y" "same_key (x\<lparr>qu_updated_at := a\<rparr>) y = same_key x y"
  by (simp_all add: same_key_def)

lemma same_key_trans: "same_key x y \<Longrightarrow> same_key y z \<Longrightarrow> same_key x z"
  by (simp add: same_key_def)

lemma same_key_visible: "same_key x y \<Longrightarrow> visible p u x \<longleftrightarrow> visible p u y"
  by (simp add: same_key_def visible_def)

text \<open>Changes of rows that keep their keys, and change what is reserved as much as what is held.\<close>

lemma usage_inv_maps:
  assumes keys: "\<And>x. x \<in> set xs \<Longrightarrow> same_key (f x) (g x)" and inv: "usage_inv (map g xs) H"
    and diff: "\<And>x. x \<in> set xs \<Longrightarrow> \<not> qu_deleted (g x) \<Longrightarrow>
      qu_reserved (f x) - qu_reserved (g x) = H' (qu_id (g x)) - H (qu_id (g x))"
  shows "usage_inv (map f xs) H'"
proof -
  have k: "qu_id (f x) = qu_id (g x)" "qu_project (f x) = qu_project (g x)" "qu_user (f x) = qu_user (g x)"
      "qu_resource (f x) = qu_resource (g x)" "qu_deleted (f x) = qu_deleted (g x)" if "x \<in> set xs" for x
    using keys [OF that] by (simp_all add: same_key_def)
  have "map qu_id (map f xs) = map qu_id (map g xs)" using k by simp
  then have d: "distinct (map qu_id (map f xs))" using usage_inv_distinct [OF inv] by (simp only:)
  show ?thesis
  proof (rule usage_invI [OF d])
    fix x y
    assume "x \<in> set (map f xs)" "y \<in> set (map f xs)" and rest: "\<not> qu_deleted x" "\<not> qu_deleted y"
      "qu_project x = qu_project y" "qu_user x = qu_user y" "qu_resource x = qu_resource y"
    then obtain a b where ab: "a \<in> set xs" "x = f a" "b \<in> set xs" "y = f b" by auto
    have "qu_id (g a) = qu_id (g b)"
      by (rule usage_inv_unique [OF inv]) (use ab(1,3) rest [unfolded ab k [OF ab(1)] k [OF ab(3)]] in simp_all)
    then show "qu_id x = qu_id y" by (simp add: ab k)
  next
    fix x
    assume "x \<in> set (map f xs)" and live: "\<not> qu_deleted x"
    then obtain a where a: "a \<in> set xs" "x = f a" by auto
    have "g a \<in> set (map g xs)" "\<not> qu_deleted (g a)" using a live k [OF a(1)] by simp_all
    note row = usage_inv_row [OF inv this] and diff = diff [OF a(1) this(2)]
    show "qu_user x = None \<longleftrightarrow> qu_resource x \<in> set PER_PROJECT_QUOTAS"
      using row(1) k [OF a(1)] unfolding a(2) by simp
    show "qu_reserved x = H' (qu_id x)"
      using row(2) diff k [OF a(1)] unfolding a(2) by simp
  qed
qed

lemma visible_unique:
  assumes "usage_inv rows H" and "x \<in> set rows" "y \<in> set rows" and "visible p u x" "visible p u y"
    and "qu_resource x = qu_resource y"
  shows "x = y"
proof -
  have live: "\<not> qu_deleted x" "\<not> qu_deleted y" using assms(4,5) by (simp_all add: visible_def)
  have "qu_user x = None \<longleftrightarrow> qu_user y = None"
    using usage_inv_row(1) [OF assms(1,2) live(1)] usage_inv_row(1) [OF assms(1,3) live(2)] assms(6) by simp
  then have "qu_user x = qu_user y" using assms(4,5) by (auto simp: visible_def)
  moreover have "qu_project x = qu_project y" using assms(4,5) by (simp add: visible_def)
  ultimately have "qu_id x = qu_id y" using usage_inv_unique [OF assms(1-3) live] assms(6) by simp
  then show ?thesis using assms(1-3) by (auto simp: usage_inv_def distinct_map dest: inj_onD)
qed

section \<open>A transaction\<close>

text \<open>The dictionary of a transaction holds, for each resource, the row the user sees.\<close>

definition session :: "ident \<Rightarrow> ident \<Rightarrow> user_usages \<Rightarrow> quota_usage list \<Rightarrow> bool" where
  "session p u us rows \<longleftrightarrow> wf_dict us \<and>
     (\<forall>r x. map_of us r = Some x \<longrightarrow> qu_resource x = r \<and> (\<exists>row \<in> set rows. same_key x row \<and> visible p u row)) \<and>
     (\<forall>row \<in> set rows. visible p u row \<longrightarrow> map_of us (qu_resource row) \<noteq> None)"

text \<open>The table as it would be if the transaction ended here.\<close>

definition pending :: "user_usages \<Rightarrow> quota_usage \<Rightarrow> quota_usage" where
  "pending us row = (case find (\<lambda>x. qu_id x = qu_id row) (map snd us) of None \<Rightarrow> row | Some x \<Rightarrow> x)"

lemma session_id_unique:
  assumes "session p u us rows" and "distinct (map qu_id rows)"
    and "map_of us r = Some x" "map_of us s = Some y" and "qu_id x = qu_id y"
  shows "r = s"
proof -
  obtain a where a: "a \<in> set rows" "same_key x a" "qu_resource x = r" using assms(1,3) unfolding session_def by blast
  obtain b where b: "b \<in> set rows" "same_key y b" "qu_resource y = s" using assms(1,4) unfolding session_def by blast
  have "qu_id a = qu_id b" using a(2) b(2) assms(5) by (simp add: same_key_def)
  then have "a = b" using a(1) b(1) assms(2) by (auto simp: distinct_map dest: inj_onD)
  then show ?thesis using a b by (simp add: same_key_def)
qed

lemma pending_entry:
  assumes "session p u us rows" and "distinct (map qu_id rows)"
  shows "pending us row = x \<longleftrightarrow>
    (if \<exists>r y. map_of us r = Some y \<and> qu_id y = qu_id row
     then \<exists>r. map_of us r = Some x \<and> qu_id x = qu_id row else x = row)"
proof (cases "find (\<lambda>x. qu_id x = qu_id row) (map snd us)")
  case None
  have "\<not> (\<exists>r y. map_of us r = Some y \<and> qu_id y = qu_id row)"
    using None by (force simp: find_None_iff dest: map_of_SomeD)
  then show ?thesis using None by (auto simp: pending_def)
next
  case (Some y)
  have "wf_dict us" using assms(1) by (simp add: session_def)
  then obtain r where r: "map_of us r = Some y" "qu_id y = qu_id row"
    using find_SomeD [OF Some] by (auto simp: map_of_eq_Some_iff)
  have "x = y" if "map_of us s = Some x" "qu_id x = qu_id row" for s
    using session_id_unique [OF assms that(1) r(1)] that r by simp
  then show ?thesis using Some r by (auto simp: pending_def)
qed

lemma pending_same_key:
  assumes "session p u us rows" and "distinct (map qu_id rows)" and "row \<in> set rows"
  shows "same_key (pending us row) row"
proof (cases "\<exists>r y. map_of us r = Some y \<and> qu_id y = qu_id row")
  case True
  then obtain r where r: "map_of us r = Some (pending us row)" "qu_id (pending us row) = qu_id row"
    using pending_entry [OF assms(1,2), of row "pending us row"] by auto
  then obtain a where a: "a \<in> set rows" "same_key (pending us row) a" using assms(1) unfolding session_def by blast
  then have "qu_id a = qu_id row" using r(2) by (simp add: same_key_def)
  then have "a = row" using a(1) assms(2,3) by (auto simp: distinct_map dest: inj_onD)
  then show ?thesis using a by simp
next
  case False
  then show ?thesis using pending_entry [OF assms(1,2), of row "pending us row"] by (simp only: if_False) simp
qed

text \<open>An assignment to a row of the dictionary is an assignment to its row of the pending table.\<close>

lemma session_update:
  assumes s: "session p u us rows" and d: "distinct (map qu_id rows)" and x: "map_of us r = Some x" and k: "same_key x' x"
  shows "session p u (AList.update r x' us) rows"
    and "map (pending (AList.update r x' us)) rows =
      map (\<lambda>y. if qu_id y = qu_id x then x' else y) (map (pending us) rows)"
proof -
  have res: "qu_resource x' = r" "qu_id x' = qu_id x" using s x k by (auto simp: session_def same_key_def)
  show s': "session p u (AList.update r x' us) rows"
    unfolding session_def
  proof (intro conjI allI impI ballI)
    show "wf_dict (AList.update r x' us)" using s by (simp add: session_def)
  next
    fix q y
    assume "map_of (AList.update r x' us) q = Some y"
    then have q: "(q = r \<and> y = x') \<or> map_of us q = Some y" by (auto split: if_splits)
    show "qu_resource y = q"
      using q res s by (auto simp: session_def)
    show "\<exists>row \<in> set rows. same_key y row \<and> visible p u row"
      using q s x k unfolding session_def by (metis same_key_trans)
  next
    fix row
    assume "row \<in> set rows" "visible p u row"
    then have "map_of us (qu_resource row) \<noteq> None" using s unfolding session_def by blast
    then show "map_of (AList.update r x' us) (qu_resource row) \<noteq> None" by (cases "qu_resource row = r") simp_all
  qed
  have "pending (AList.update r x' us) row = (if qu_id (pending us row) = qu_id x then x' else pending us row)"
    if row: "row \<in> set rows" for row
  proof (cases "qu_id row = qu_id x")
    case True
    have "map_of (AList.update r x' us) r = Some x'" by simp
    then have "pending (AList.update r x' us) row = x'"
      using pending_entry [OF s' d, of row x'] True res(2) by metis
    then show ?thesis using True pending_same_key [OF s d row] by (simp add: same_key_def)
  next
    case False
    have "pending (AList.update r x' us) row = pending us row"
    proof (cases "\<exists>q y. map_of us q = Some y \<and> qu_id y = qu_id row")
      case True
      then obtain q where q: "map_of us q = Some (pending us row)" "qu_id (pending us row) = qu_id row"
        using pending_entry [OF s d, of row "pending us row"] by auto
      then have "q \<noteq> r" using x False by auto
      then have "map_of (AList.update r x' us) q = Some (pending us row)" using q by simp
      then show ?thesis using pending_entry [OF s' d, of row "pending us row"] q(2) by metis
    next
      case no: False
      then have p: "pending us row = row" using pending_entry [OF s d, of row row] by (simp only: if_False)
      have "\<not> (\<exists>q y. map_of (AList.update r x' us) q = Some y \<and> qu_id y = qu_id row)"
        using no False res(2) by (auto split: if_splits)
      then have "pending (AList.update r x' us) row = row" using pending_entry [OF s' d, of row row] by (simp only: if_False)
      then show ?thesis using p by simp
    qed
    then show ?thesis using False pending_same_key [OF s d row] by (simp add: same_key_def)
  qed
  then show "map (pending (AList.update r x' us)) rows =
      map (\<lambda>y. if qu_id y = qu_id x then x' else y) (map (pending us) rows)" by simp
qed

section \<open>The reservations\<close>

definition hold :: "reservation \<Rightarrow> int" where
  "hold rv = (if rv_deleted rv then 0 else max 0 (rv_delta rv))"

definition held :: "reservation list \<Rightarrow> nat \<Rightarrow> int" where
  "held rvs i = sum_list (map (\<lambda>rv. if rv_usage_id rv = i then hold rv else 0) rvs)"

text \<open>A live reservation refers to the live row its user sees for the resource.\<close>

definition refers_to :: "reservation \<Rightarrow> quota_usage \<Rightarrow> bool" where
  "refers_to rv row \<longleftrightarrow> rv_user rv \<noteq> None \<and> visible (rv_project rv) (rv_user rv) row \<and>
     qu_resource row = rv_resource rv \<and> qu_id row = rv_usage_id rv"

definition refs_ok :: "quota_usage list \<Rightarrow> reservation list \<Rightarrow> bool" where
  "refs_ok rows rvs \<longleftrightarrow> (\<forall>rv \<in> set rvs. \<not> rv_deleted rv \<longrightarrow> (\<exists>row \<in> set rows. refers_to rv row))"

definition quota_inv :: "'a quota_db_scheme \<Rightarrow> bool" where
  "quota_inv db \<longleftrightarrow> usage_inv (usages db) (held (reservations db)) \<and> refs_ok (usages db) (reservations db)"

definition txn_ok :: "ident \<Rightarrow> ident \<Rightarrow> user_usages \<times> 'a quota_db_scheme \<Rightarrow> bool" where
  "txn_ok p u s \<longleftrightarrow> (case s of (us, db) \<Rightarrow>
     session p u us (usages db) \<and> usage_inv (map (pending us) (usages db)) (held (reservations db)) \<and>
     refs_ok (usages db) (reservations db))"

lemma refers_to_key: "same_key x y \<Longrightarrow> refers_to rv x \<longleftrightarrow> refers_to rv y"
  by (simp add: refers_to_def same_key_visible) (simp add: same_key_def)

lemma refs_ok_maps:
  assumes "\<And>x. x \<in> set xs \<Longrightarrow> same_key (f x) (g x)"
  shows "refs_ok (map f xs) rvs \<longleftrightarrow> refs_ok (map g xs) rvs"
  using refers_to_key [OF assms] unfolding refs_ok_def by simp

lemma refs_ok_mono: "refs_ok rows rvs \<Longrightarrow> set rows \<subseteq> set rows' \<Longrightarrow> refs_ok rows' rvs"
  unfolding refs_ok_def by blast

lemma held_nothing:
  assumes "refs_ok rows rvs" and "i \<notin> qu_id ` set rows"
  shows "held rvs i = 0"
proof -
  have "(if rv_usage_id rv = i then hold rv else 0) = 0" if "rv \<in> set rvs" for rv
  proof (cases "rv_usage_id rv = i \<and> \<not> rv_deleted rv")
    case True
    then obtain row where "row \<in> set rows" "qu_id row = i" using assms(1) \<open>rv \<in> set rvs\<close> by (auto simp: refs_ok_def refers_to_def)
    then show ?thesis using assms(2) by blast
  qed (auto simp: hold_def)
  then show ?thesis unfolding held_def by (simp cong: map_cong)
qed

lemma held_append [simp]: "held (rvs @ rvs') i = held rvs i + held rvs' i"
  by (simp add: held_def)

section \<open>The start of a transaction\<close>

lemma set_usage_rows [simp]: "set (usage_rows p db) = {row \<in> set (usages db). \<not> qu_deleted row \<and> qu_project row = p}"
  by (auto simp: usage_rows_def)

lemma fold_pick_usage:
  "fold (pick_usage u) rows d =
     fold (\<lambda>row. AList.update (qu_resource row) row) (filter (\<lambda>row. qu_user row = None \<or> qu_user row = u) rows) d"
  by (induction rows arbitrary: d) (simp_all add: pick_usage_def)

lemma session_start:
  assumes "quota_inv db"
  shows "txn_ok p u (snd (get_project_user_quota_usages p u db), db)"
    and "map (pending (snd (get_project_user_quota_usages p u db))) (usages db) = usages db"
proof -
  let ?vis = "filter (\<lambda>row. qu_user row = None \<or> qu_user row = u) (usage_rows p db)"
  define us where "us = snd (get_project_user_quota_usages p u db)"
  have us: "us = fold (\<lambda>row. AList.update (qu_resource row) row) ?vis []"
    by (simp add: us_def get_project_user_quota_usages_def fold_pick_usage)
  have inv: "usage_inv (usages db) (held (reservations db))" "refs_ok (usages db) (reservations db)"
    using assms by (simp_all add: quota_inv_def)
  have vis: "set ?vis = {row \<in> set (usages db). visible p u row}" by (auto simp: visible_def)
  have "inj_on qu_resource (set ?vis)"
    unfolding vis by (rule inj_onI) (use visible_unique [OF inv(1)] in blast)
  then have there: "map_of us (qu_resource row) = Some row" if "row \<in> set ?vis" for row
    using map_of_fold_update_in [OF that, of qu_resource "\<lambda>row. row" "[]"] unfolding us by simp
  have conv: "x \<in> set ?vis \<and> qu_resource x = r" if "map_of us r = Some x" for r x
  proof -
    have "find (\<lambda>x. qu_resource x = r) (rev ?vis) = Some x"
      using that unfolding us map_of_fold_update by (simp split: option.splits)
    from find_SomeD [OF this] show ?thesis by simp
  qed
  have s: "session p u us (usages db)"
    unfolding session_def
  proof (intro conjI allI impI ballI)
    show "wf_dict us" unfolding us by (rule wf_fold_update) simp
    show "qu_resource x = r" if "map_of us r = Some x" for r x using conv [OF that] by blast
    show "\<exists>row \<in> set (usages db). same_key x row \<and> visible p u row" if "map_of us r = Some x" for r x
      using conv [OF that, unfolded vis] same_key_refl by blast
    show "map_of us (qu_resource row) \<noteq> None" if "row \<in> set (usages db)" "visible p u row" for row
      using there [of row] that vis by auto
  qed
  have "pending us row = row" if row: "row \<in> set (usages db)" for row
  proof -
    have "y = row" if "map_of us r = Some y" "qu_id y = qu_id row" for r y
    proof -
      have "y \<in> set (usages db)" using conv [OF that(1)] by simp
      then show ?thesis using usage_inv_distinct [OF inv(1)] row that(2) by (auto simp: distinct_map dest: inj_onD)
    qed
    then show ?thesis using pending_entry [OF s usage_inv_distinct [OF inv(1)], of row row] by metis
  qed
  then show same: "map (pending (snd (get_project_user_quota_usages p u db))) (usages db) = usages db"
    unfolding us_def by (simp add: map_idI)
  show "txn_ok p u (snd (get_project_user_quota_usages p u db), db)"
    using s inv unfolding txn_ok_def us_def by (simp add: same)
qed

text \<open>The end of a transaction writes the pending rows.\<close>

lemma write_row_pending:
  "write_row now (map snd us) row = (if pending us row = row then row else (pending us row)\<lparr>qu_updated_at := now\<rparr>)"
  by (simp add: write_row_def pending_def split: option.split)

lemma pending_id [simp]: "qu_id (pending us row) = qu_id row"
  by (auto simp: pending_def split: option.split dest: find_SomeD)

lemma pending_distinct: "usage_inv (map (pending us) rows) H \<Longrightarrow> distinct (map qu_id rows)"
  using usage_inv_distinct [of "map (pending us) rows" H] by (simp add: comp_def)

lemma flush_inv:
  assumes s: "session p u us (usages db)" and inv: "usage_inv (map (pending us) (usages db)) H"
    and refs: "refs_ok (usages db) rvs"
  shows "usage_inv (usages (flush now us db)) H \<and> refs_ok (usages (flush now us db)) rvs"
proof -
  have key: "same_key (write_row now (map snd us) row) (pending us row)" for row
    by (simp add: write_row_pending)
  have "usage_inv (map (write_row now (map snd us)) (usages db)) H"
    by (rule usage_inv_maps [OF key inv]) (simp add: write_row_pending)
  moreover have "refs_ok (map (write_row now (map snd us)) (usages db)) rvs"
  proof -
    have "refs_ok (map (pending us) (usages db)) rvs"
      using refs refs_ok_maps [of "usages db" "pending us" "\<lambda>x. x"] pending_same_key [OF s pending_distinct [OF inv]] by simp
    then show ?thesis using refs_ok_maps [of "usages db" "write_row now (map snd us)" "pending us"] key by blast
  qed
  ultimately show ?thesis by (simp add: flush_def)
qed

lemma session_end:
  assumes "txn_ok p u (us, db)"
  shows "quota_inv (flush now us db)"
  using assms flush_inv [of p u us db "held (reservations db)" "reservations db" now]
  by (simp add: txn_ok_def quota_inv_def flush_def)

section \<open>The steps of a transaction\<close>

lemma txn_okD:
  assumes "txn_ok p u (us, db)"
  shows "session p u us (usages db)" "usage_inv (map (pending us) (usages db)) (held (reservations db))"
    "refs_ok (usages db) (reservations db)" "distinct (map qu_id (usages db))"
  using assms pending_distinct by (auto simp: txn_ok_def)

text \<open>An assignment, together with what is reserved at the same time.\<close>

lemma session_assign:
  assumes s: "session p u us rows" and inv: "usage_inv (map (pending us) rows) H"
    and x: "map_of us r = Some x" and k: "same_key x' x"
    and diff: "\<And>i. H' i - H i = (if i = qu_id x then qu_reserved x' - qu_reserved x else 0)"
  shows "session p u (AList.update r x' us) rows \<and> usage_inv (map (pending (AList.update r x' us)) rows) H'"
proof -
  note d = pending_distinct [OF inv]
  have "usage_inv (map (\<lambda>row. if qu_id (pending us row) = qu_id x then x' else pending us row) rows) H'"
  proof (rule usage_inv_maps [where g = "pending us", OF _ inv])
    fix row
    assume row: "row \<in> set rows"
    have "pending us row = x" if "qu_id (pending us row) = qu_id x"
      using pending_entry [OF s d, of row x] x that by (metis pending_id)
    then show "same_key (if qu_id (pending us row) = qu_id x then x' else pending us row) (pending us row)"
      and "qu_reserved (if qu_id (pending us row) = qu_id x then x' else pending us row) - qu_reserved (pending us row) =
        H' (qu_id (pending us row)) - H (qu_id (pending us row))"
      using k diff [of "qu_id (pending us row)"] by auto
  qed
  moreover have "map (pending (AList.update r x' us)) rows =
      map (\<lambda>row. if qu_id (pending us row) = qu_id x then x' else pending us row) rows"
    using session_update(2) [OF s d x k] by simp
  ultimately have "usage_inv (map (pending (AList.update r x' us)) rows) H'" by (simp only:)
  then show ?thesis using session_update(1) [OF s d x k] by simp
qed

lemma txn_update:
  assumes ok: "txn_ok p u (us, db)" and x: "map_of us r = Some x" and k: "same_key x' x"
    and refs: "refs_ok (usages db) rvs"
    and diff: "\<And>i. held rvs i - held (reservations db) i = (if i = qu_id x then qu_reserved x' - qu_reserved x else 0)"
  shows "txn_ok p u (AList.update r x' us, db\<lparr>reservations := rvs\<rparr>)"
  using session_assign [OF txn_okD(1,2) [OF ok] x k diff] refs by (simp add: txn_ok_def)

lemma txn_update_same:
  assumes "txn_ok p u (us, db)" and "map_of us r = Some x" and "same_key x' x" and "qu_reserved x' = qu_reserved x"
  shows "txn_ok p u (AList.update r x' us, db)"
  using txn_update [OF assms(1-3) txn_okD(3) [OF assms(1)]] assms(4) by simp

lemma fold_max_ge: "x \<le> a \<or> x \<in> set xs \<Longrightarrow> x \<le> fold max xs a" for x :: nat
proof (induction xs arbitrary: a)
  case (Cons y xs)
  then have "x \<le> max y a \<or> x \<in> set xs" by (metis max.cobounded1 max.coboundedI2 set_ConsD)
  then show ?case using Cons.IH by simp
qed simp

lemma next_usage_id_fresh: "next_usage_id db \<notin> qu_id ` set (usages db)"
proof
  assume "next_usage_id db \<in> qu_id ` set (usages db)"
  then have "next_usage_id db \<le> fold max (map qu_id (usages db)) 0" by (intro fold_max_ge) simp
  then show False by (simp add: next_usage_id_def)
qed

lemma txn_create:
  assumes ok: "txn_ok p u (us, db)" and u: "u \<noteq> None"
    and c: "create_quota_usage_if_missing r until p u now (us, db) = (created, us', db')"
  shows "txn_ok p u (us', db') \<and> map_of us' r \<noteq> None \<and> reservations db' = reservations db"
proof (cases "map_of us r = None")
  case False
  then show ?thesis using ok c by (auto simp: create_quota_usage_if_missing_def)
next
  case True
  note D = txn_okD [OF ok]
  define row where "row = \<lparr>qu_id = next_usage_id db, qu_project = p, qu_user = (if r \<in> set PER_PROJECT_QUOTAS then None else u),
    qu_resource = r, qu_in_use = 0, qu_reserved = 0, qu_until_refresh = or_None until, qu_updated_at = now, qu_deleted = False\<rparr>"
  have new: "us' = AList.update r row us" "db' = db\<lparr>usages := usages db @ [row]\<rparr>"
    using c True by (auto simp: create_quota_usage_if_missing_def quota_usage_create_def row_def Let_def)
  have fresh: "qu_id row \<notin> qu_id ` set (usages db)" using next_usage_id_fresh [of db] by (simp add: row_def)
  have vis: "visible p u row" by (simp add: visible_def row_def)
  have s: "session p u us' (usages db @ [row])"
    unfolding session_def new
  proof (intro conjI allI impI ballI)
    show "wf_dict (AList.update r row us)" using D(1) by (simp add: session_def)
    fix q x
    assume "map_of (AList.update r row us) q = Some x"
    then have q: "q = r \<and> x = row \<or> map_of us q = Some x" by (auto split: if_splits)
    show "qu_resource x = q" using q D(1) unfolding session_def by (auto simp: row_def)
    show "\<exists>y \<in> set (usages db @ [row]). same_key x y \<and> visible p u y"
      using q
    proof
      assume "map_of us q = Some x"
      then obtain y where "y \<in> set (usages db)" "same_key x y \<and> visible p u y" using D(1) unfolding session_def by blast
      then show ?thesis by (intro bexI [of _ y]) simp_all
    qed (use vis in simp)
  next
    fix y
    assume "y \<in> set (usages db @ [row])" "visible p u y"
    then have "y = row \<or> map_of us (qu_resource y) \<noteq> None" using D(1) unfolding session_def by auto
    then show "map_of (AList.update r row us) (qu_resource y) \<noteq> None" by (auto simp: row_def)
  qed
  have d: "distinct (map qu_id (usages db @ [row]))" using D(4) fresh by simp
  have "pending us' y = pending us y" if "y \<in> set (usages db)" for y
  proof -
    have "qu_id y \<noteq> qu_id row" using fresh that by (metis imageI)
    then have "map_of us' q = Some x \<and> qu_id x = qu_id y \<longleftrightarrow> map_of us q = Some x \<and> qu_id x = qu_id y" for q x
      using True by (auto simp: new)
    then show ?thesis
      using pending_entry [OF s d, of y "pending us y"] pending_entry [OF D(1,4), of y "pending us y"] by (simp only: simp_thms)
  qed
  moreover have "pending us' row = row"
    using pending_entry [OF s d, of row row] by (auto simp: new)
  ultimately have pend: "map (pending us') (usages db @ [row]) = map (pending us) (usages db) @ [row]" by simp
  have zero: "held (reservations db) (qu_id row) = 0" by (rule held_nothing [OF D(3) fresh])
  have unseen: "\<not> (\<not> qu_deleted y \<and> qu_project y = p \<and> qu_user y = qu_user row \<and> qu_resource y = r)"
    if "y \<in> set (map (pending us) (usages db))" for y
  proof
    assume y: "\<not> qu_deleted y \<and> qu_project y = p \<and> qu_user y = qu_user row \<and> qu_resource y = r"
    obtain z where z: "z \<in> set (usages db)" "y = pending us z" using \<open>y \<in> _\<close> by auto
    have "visible p u y" using y by (auto simp: visible_def row_def split: if_splits)
    then have "visible p u z" "qu_resource z = r"
      using pending_same_key [OF D(1,4) z(1)] y z(2) by (auto simp: same_key_visible) (simp add: same_key_def)
    then show False using D(1) z(1) True by (auto simp: session_def)
  qed
  have "usage_inv (map (pending us) (usages db) @ [row]) (held (reservations db))"
  proof (rule usage_invI)
    show "distinct (map qu_id (map (pending us) (usages db) @ [row]))" using d by (simp add: comp_def)
  next
    fix x y
    assume xy: "x \<in> set (map (pending us) (usages db) @ [row])" "y \<in> set (map (pending us) (usages db) @ [row])"
      and rest: "\<not> qu_deleted x" "\<not> qu_deleted y" "qu_project x = qu_project y" "qu_user x = qu_user y"
      "qu_resource x = qu_resource y"
    have r: "qu_project row = p" "qu_resource row = r" by (simp_all add: row_def)
    show "qu_id x = qu_id y"
    proof (cases "x = row \<or> y = row")
      case True
      then show ?thesis using xy unseen [of x] unseen [of y] rest r by (auto simp del: set_map)
    next
      case False
      show ?thesis by (rule usage_inv_unique [OF D(2) _ _ rest]) (use xy False in auto)
    qed
  next
    fix x
    assume "x \<in> set (map (pending us) (usages db) @ [row])" "\<not> qu_deleted x"
    then have "x = row \<or> x \<in> set (map (pending us) (usages db)) \<and> \<not> qu_deleted x" by auto
    then show "qu_user x = None \<longleftrightarrow> qu_resource x \<in> set PER_PROJECT_QUOTAS" "qu_reserved x = held (reservations db) (qu_id x)"
      using usage_inv_row [OF D(2)] u zero by (auto simp: row_def simp del: set_map split: if_splits)
  qed
  moreover have "refs_ok (usages db @ [row]) (reservations db)" by (rule refs_ok_mono [OF D(3)]) auto
  moreover have ndb: "usages db' = usages db @ [row]" "reservations db' = reservations db" by (simp_all add: new)
  ultimately have "usage_inv (map (pending us') (usages db')) (held (reservations db'))"
    "session p u us' (usages db')" "refs_ok (usages db') (reservations db')"
    using s by (simp_all only: pend)
  moreover have "map_of us' r \<noteq> None" by (simp add: new)
  ultimately show ?thesis using ndb(2) by (simp add: txn_ok_def)
qed


lemma txn_refresh_row:
  assumes ok: "txn_ok p u (us, db)" and x: "map_of us r = Some x"
  shows "txn_ok p u (AList.update r (refresh_quota_usages until n x) us, db)"
    and "txn_ok p u (AList.update r (snd (is_quota_refresh_needed max_age now x)) us, db)"
  by (rule txn_update_same [OF ok x];
      simp add: refresh_quota_usages_def is_quota_refresh_needed_def split: option.split)+

lemma txn_sync:
  assumes "txn_ok p u s" and "u \<noteq> None"
  shows "txn_ok p u (sync_usage until p u now item s) \<and>
    reservations (snd (sync_usage until p u now item s)) = reservations (snd s)"
proof -
  obtain us db where s: "s = (us, db)" by (cases s)
  obtain created us' db' where c: "create_quota_usage_if_missing (fst item) until p u now (us, db) = (created, us', db')"
    by (metis prod_cases3)
  note C = txn_create [OF assms(1) [unfolded s] assms(2) c]
  then obtain row where "map_of us' (fst item) = Some row" by auto
  then show ?thesis using C txn_refresh_row(1) [of p u us' db'] by (simp add: sync_usage_def s c)
qed

lemma txn_sync_all:
  assumes "txn_ok p u s" and "u \<noteq> None"
  shows "txn_ok p u (fold (sync_usage until p u now) items s) \<and>
    reservations (snd (fold (sync_usage until p u now) items s)) = reservations (snd s)"
  using assms
proof (induction items arbitrary: s)
  case (Cons item items)
  then show ?case using txn_sync [of p u s] Cons.IH [of "sync_usage until p u now item s"] by simp
qed simp

text \<open>The refresh: reserved amounts and reservations are untouched, rows are added where missing.\<close>

lemma create_dom:
  "create_quota_usage_if_missing r until p u now (us, db) = (created, us', db') \<Longrightarrow>
   dom (map_of us') = insert r (dom (map_of us))"
  by (auto simp: create_quota_usage_if_missing_def Let_def split_beta simp del: dom_map_of_conv_image_fst split: if_splits)

lemma sync_dom: "dom (map_of (fst s)) \<subseteq> dom (map_of (fst (fold (sync_usage until p u now) items s)))"
proof (induction items arbitrary: s)
  case (Cons item items)
  obtain us db where s: "s = (us, db)" by (cases s)
  obtain created us' db' where c: "create_quota_usage_if_missing (fst item) until p u now (us, db) = (created, us', db')"
    by (metis prod_cases3)
  have "dom (map_of us) \<subseteq> dom (map_of (fst (sync_usage until p u now item s)))"
    using create_dom [OF c] by (auto simp: sync_usage_def s c simp del: dom_map_of_conv_image_fst split: option.split)
  then show ?case using Cons [of "sync_usage until p u now item s"] s by auto
qed simp

lemma txn_refresh:
  assumes "refresh_work rs syncs until max_age p u now work s = Inr t" and "txn_ok p u s" and "u \<noteq> None"
  shows "txn_ok p u t \<and> reservations (snd t) = reservations (snd s)"
  using assms
proof (induction rs syncs until max_age p u now work s arbitrary: t rule: refresh_work.induct)
  case (1 rs syncs until max_age p u now s)
  then show ?case by simp
next
  case (2 rs syncs until max_age p u now r work s)
  obtain us db where s: "s = (us, db)" by (cases s)
  obtain created us1 db1 where c: "create_quota_usage_if_missing r until p u now s = (created, us1, db1)"
    by (metis prod_cases3)
  note C = txn_create [OF 2(4) [unfolded s] 2(5) c [unfolded s]]
  then obtain row where row: "map_of us1 r = Some row" by auto
  define refresh us2 where "refresh = (if created then True else fst (is_quota_refresh_needed max_age now row))"
    and "us2 = (if created then us1 else AList.update r (snd (is_quota_refresh_needed max_age now row)) us1)"
  have pair: "(if created then (True, us1) else case map_of us1 r of None \<Rightarrow> (False, us1)
      | Some row \<Rightarrow> (let (needed, row') = is_quota_refresh_needed max_age now row in (needed, AList.update r row' us1)))
    = (refresh, us2)"
    using row by (simp add: refresh_def us2_def Let_def split_beta)
  have ok2: "txn_ok p u (us2, db1)" using C txn_refresh_row(2) [of p u us1 db1, OF _ row] by (simp add: us2_def)
  have res: "reservations db1 = reservations (snd s)" using C s by simp
  show ?case
  proof (cases refresh)
    case False
    then have "refresh_work rs syncs until max_age p u now work (us2, db1) = Inr t"
      using 2(3) by (simp add: c pair)
    from 2(1) [OF c [symmetric] refl pair [symmetric] refl False this ok2 2(5)] show ?thesis using res by simp
  next
    case True
    then obtain sync where sync: "sync_of rs syncs r = Inr sync"
      and t: "refresh_work rs syncs until max_age p u now (filter (\<lambda>x. x \<notin> set (keys (sync p u))) work)
        (fold (sync_usage until p u now) (sync p u) (us2, db1)) = Inr t"
      using 2(3) by (auto simp: c pair)
    note S = txn_sync_all [OF ok2 2(5), of until now "sync p u"]
    have "\<not> \<not> refresh" using True by simp
    from 2(2) [OF c [symmetric] refl pair [symmetric] refl this sync t _ 2(5)] S res show ?thesis by simp
  qed
qed


section \<open>Reserving keeps the books\<close>

lemma held_one: "held [reservation_create uuid row p u r delta expire] i = (if i = qu_id row then max 0 delta else 0)"
  by (simp add: held_def hold_def reservation_create_def)

lemma session_refers:
  assumes "session p u us rows" and "map_of us r = Some x" and "u \<noteq> None"
  shows "\<exists>row \<in> set rows. refers_to (reservation_create uuid x p u r delta expire) row"
proof -
  obtain row where "row \<in> set rows" "same_key x row" "visible p u row" "qu_resource x = r"
    using assms(1,2) unfolding session_def by blast
  then show ?thesis using assms(3)
    by (intro bexI [of _ row]) (simp_all add: refers_to_def reservation_create_def same_key_def)
qed

lemma txn_reserve_one:
  assumes ok: "txn_ok p u (us, db)" and u: "u \<noteq> None" and r: "reserve_one p u expire item (us, db) = Inr (us', db')"
  shows "txn_ok p u (us', db') \<and> dom (map_of us') = dom (map_of us)"
proof -
  obtain r delta uuid where item: "item = ((r, delta), uuid)" by (metis surj_pair)
  obtain row where row: "map_of us r = Some row"
    and us': "us' = (if delta > 0 then AList.update r (row\<lparr>qu_reserved := qu_reserved row + delta\<rparr>) us else us)"
    and db': "db' = db\<lparr>reservations := reservations db @ [reservation_create uuid row p u r delta expire]\<rparr>"
    using r by (auto simp: reserve_one_def item)
  note D = txn_okD [OF ok]
  let ?rvs = "reservations db @ [reservation_create uuid row p u r delta expire]"
  have refs: "refs_ok (usages db) ?rvs"
    using D(3) session_refers [OF D(1) row u] by (simp add: refs_ok_def)
  have dom: "dom (map_of us') = dom (map_of us)" using row by (auto simp: us' simp del: dom_map_of_conv_image_fst)
  show ?thesis
  proof (cases "delta > 0")
    case True
    have "txn_ok p u (AList.update r (row\<lparr>qu_reserved := qu_reserved row + delta\<rparr>) us, db\<lparr>reservations := ?rvs\<rparr>)"
      by (rule txn_update [OF ok row _ refs]) (use True in \<open>simp_all add: held_one\<close>)
    then show ?thesis using True dom by (simp add: us' db')
  next
    case False
    then have "held ?rvs = held (reservations db)" by (simp add: fun_eq_iff held_one)
    then show ?thesis using False refs D(1,2) dom by (simp add: txn_ok_def us' db')
  qed
qed

lemma txn_reserve_all:
  assumes "loop (reserve_one p u expire) items s = Inr t" and "txn_ok p u s" and "u \<noteq> None"
  shows "txn_ok p u t"
proof (rule loop_inv [where P = "txn_ok p u", OF assms(1,2)])
  fix item s s'
  assume "txn_ok p u s" "reserve_one p u expire item s = Inr s'"
  then show "txn_ok p u s'" using txn_reserve_one [of p u "fst s" "snd s" expire item "fst s'" "snd s'"] assms(3) by simp
qed

lemma quota_reserve_inv:
  assumes inv: "quota_inv db" and u: "u \<noteq> None"
    and r: "quota_reserve rs iv uuid4 work pq uq deltas expire until max_age p u now db = (out, db')"
  shows "quota_inv db'"
proof -
  obtain counts us where start: "get_project_user_quota_usages p u db = (counts, us)" by (metis surj_pair)
  have ok: "txn_ok p u (us, db)" using session_start(1) [OF inv, of p u] by (simp add: start)
  let ?inner = "bind (refresh_work rs (QUOTA_SYNC_FUNCTIONS iv) until max_age p u now work (us, db)) (\<lambda>(us, db).
           bind (calculate_overquota pq uq deltas (fold copy_usage us counts) us) (\<lambda>overs.
           if overs = [] then
             bind (loop (reserve_one p u expire) (zip deltas (map uuid4 [0..<length deltas])) (us, db)) (\<lambda>(us, db).
             Inr (overs, flush now us db))
           else Inr (overs, flush now us db)))"
  show ?thesis
  proof (cases ?inner)
    case (Inl e)
    then show ?thesis using r inv by (simp add: quota_reserve_def start)
  next
    case (Inr res)
    obtain us1 db1 overs where one: "refresh_work rs (QUOTA_SYNC_FUNCTIONS iv) until max_age p u now work (us, db) = Inr (us1, db1)"
      and two: "(if overs = [] then
             bind (loop (reserve_one p u expire) (zip deltas (map uuid4 [0..<length deltas])) (us1, db1)) (\<lambda>(us, db).
             Inr (overs, flush now us db)) else Inr (overs, flush now us1 db1)) = Inr res"
      using Inr by (auto split: prod.splits)
    have ok1: "txn_ok p u (us1, db1)" using txn_refresh [OF one ok u] by simp
    have db': "db' = snd res" using r Inr by (auto simp: quota_reserve_def start split: prod.splits)
    show ?thesis
    proof (cases "overs = []")
      case True
      then obtain us2 db2 where "loop (reserve_one p u expire) (zip deltas (map uuid4 [0..<length deltas])) (us1, db1) = Inr (us2, db2)"
          "res = (overs, flush now us2 db2)"
        using two by (auto split: prod.splits)
      then show ?thesis using txn_reserve_all [OF _ ok1 u] session_end db' by fastforce
    next
      case False
      then show ?thesis using two session_end [OF ok1] db' by auto
    qed
  qed
qed

section \<open>Settling keeps the books\<close>

lemma settle_row:
  assumes s: "session p u us rows" and inv: "usage_inv (map (pending us) rows) H"
    and rv: "rv_project rv = p" "rv_user rv = u" and row: "row \<in> set rows" "refers_to rv row"
  shows "\<exists>x. map_of us (rv_resource rv) = Some x \<and> qu_id x = rv_usage_id rv"
proof -
  have vis: "visible p u row" "qu_resource row = rv_resource rv" "qu_id row = rv_usage_id rv"
    using row(2) rv by (simp_all add: refers_to_def)
  then obtain x where x: "map_of us (rv_resource rv) = Some x" using s row(1) by (auto simp: session_def)
  then obtain y where y: "y \<in> set rows" "same_key x y" "visible p u y" "qu_resource x = rv_resource rv"
    using s unfolding session_def by blast
  have "pending us row = pending us y"
  proof (rule visible_unique [OF inv])
    show "pending us row \<in> set (map (pending us) rows)" "pending us y \<in> set (map (pending us) rows)" using row y by simp_all
    note key = pending_same_key [OF s pending_distinct [OF inv]]
    show "visible p u (pending us row)" "visible p u (pending us y)"
      using same_key_visible key [OF row(1)] key [OF y(1)] vis(1) y(3) by blast+
    show "qu_resource (pending us row) = qu_resource (pending us y)"
      using key [OF row(1)] key [OF y(1)] vis y by (simp add: same_key_def)
  qed
  then have "qu_id row = qu_id y" by (metis pending_id)
  then show ?thesis using x vis y by (simp add: same_key_def)
qed

lemma pending_update:
  assumes "session p u us rows" and "distinct (map qu_id rows)" and "map_of us r = Some x" and "same_key x' x"
    and "row \<in> set rows"
  shows "pending (AList.update r x' us) row = (if qu_id row = qu_id x then x' else pending us row)"
  using session_update(2) [OF assms(1-4)] assms(5) by simp

lemma pending_of_id:
  assumes "session p u us rows" and "distinct (map qu_id rows)" and "map_of us r = Some x" and "qu_id row = qu_id x"
  shows "pending us row = x"
  using pending_entry [OF assms(1,2), of row x] assms(3,4) by metis

lemma settle_session:
  assumes s: "session p u us rows" and inv: "usage_inv (map (pending us) rows) H"
    and rv: "rv_project rv = p" "rv_user rv = u" and row: "row \<in> set rows" "refers_to rv row"
  shows "\<exists>us'. settle commit rv us = Inr us' \<and> session p u us' rows \<and>
    usage_inv (map (pending us') rows) (\<lambda>i. H i - (if rv_usage_id rv = i then max 0 (rv_delta rv) else 0)) \<and>
    (\<forall>row \<in> set rows. qu_in_use (pending us' row) =
       qu_in_use (pending us row) + (if commit \<and> rv_usage_id rv = qu_id row then rv_delta rv else 0))"
proof -
  obtain x where x: "map_of us (rv_resource rv) = Some x" and id: "qu_id x = rv_usage_id rv"
    using settle_row [OF assms] by blast
  define x' where "x' = (let row = (if rv_delta rv \<ge> 0 then x\<lparr>qu_reserved := qu_reserved x - rv_delta rv\<rparr> else x)
      in if commit then row\<lparr>qu_in_use := qu_in_use row + rv_delta rv\<rparr> else row)"
  have x': "same_key x' x" "qu_reserved x' = qu_reserved x - max 0 (rv_delta rv)"
      "qu_in_use x' = qu_in_use x + (if commit then rv_delta rv else 0)" by (auto simp: x'_def Let_def)
  note d = pending_distinct [OF inv]
  have "qu_in_use (pending (AList.update (rv_resource rv) x' us) row) =
      qu_in_use (pending us row) + (if commit \<and> rv_usage_id rv = qu_id row then rv_delta rv else 0)"
    if "row \<in> set rows" for row
    using pending_update [OF s d x x'(1) that] pending_of_id [OF s d x, of row] id x'(3) by auto
  moreover have "settle commit rv us = Inr (AList.update (rv_resource rv) x' us)"
    using x by (simp add: settle_def x'_def Let_def)
  ultimately show ?thesis
    using session_assign [OF s inv x x'(1), of "\<lambda>i. H i - (if rv_usage_id rv = i then max 0 (rv_delta rv) else 0)"] id x'(2)
    by auto
qed

text \<open>What a list of reservations adds to the usage of a row when they are committed.\<close>

definition moved :: "reservation list \<Rightarrow> nat \<Rightarrow> int" where
  "moved rvs i = sum_list (map (\<lambda>rv. if rv_usage_id rv = i then rv_delta rv else 0) rvs)"

lemma settle_loop:
  assumes "session p u us rows" and "usage_inv (map (pending us) rows) H"
    and "\<And>rv. rv \<in> set rvs \<Longrightarrow> \<not> rv_deleted rv \<and> rv_project rv = p \<and> rv_user rv = u \<and> (\<exists>row \<in> set rows. refers_to rv row)"
  shows "\<exists>us'. loop (settle commit) rvs us = Inr us' \<and> session p u us' rows \<and>
    usage_inv (map (pending us') rows) (\<lambda>i. H i - held rvs i) \<and>
    (\<forall>row \<in> set rows. qu_in_use (pending us' row) = qu_in_use (pending us row) + (if commit then moved rvs (qu_id row) else 0))"
  using assms
proof (induction rvs arbitrary: us H)
  case Nil
  then show ?case by (simp add: held_def moved_def)
next
  case (Cons rv rvs)
  obtain row where row: "row \<in> set rows" "refers_to rv row" and rv: "\<not> rv_deleted rv" "rv_project rv = p" "rv_user rv = u"
    using Cons.prems(3) [of rv] by auto
  let ?H = "\<lambda>i. H i - (if rv_usage_id rv = i then max 0 (rv_delta rv) else 0)"
  obtain us1 where us1: "settle commit rv us = Inr us1" "session p u us1 rows" "usage_inv (map (pending us1) rows) ?H"
      "\<forall>row \<in> set rows. qu_in_use (pending us1 row) =
        qu_in_use (pending us row) + (if commit \<and> rv_usage_id rv = qu_id row then rv_delta rv else 0)"
    using settle_session [OF Cons.prems(1,2) rv(2,3) row] by blast
  have "\<exists>us'. loop (settle commit) rvs us1 = Inr us' \<and> session p u us' rows \<and>
      usage_inv (map (pending us') rows) (\<lambda>i. ?H i - held rvs i) \<and>
      (\<forall>row \<in> set rows. qu_in_use (pending us' row) = qu_in_use (pending us1 row) + (if commit then moved rvs (qu_id row) else 0))"
    by (rule Cons.IH [OF us1(2,3)]) (use Cons.prems(3) in simp)
  then obtain us' where us': "loop (settle commit) rvs us1 = Inr us'" "session p u us' rows"
      "usage_inv (map (pending us') rows) (\<lambda>i. ?H i - held rvs i)"
      "\<forall>row \<in> set rows. qu_in_use (pending us' row) = qu_in_use (pending us1 row) + (if commit then moved rvs (qu_id row) else 0)"
    by blast
  have "held (rv # rvs) = (\<lambda>i. (if rv_usage_id rv = i then max 0 (rv_delta rv) else 0) + held rvs i)"
    using rv(1) by (simp add: held_def hold_def fun_eq_iff)
  then have "usage_inv (map (pending us') rows) (\<lambda>i. H i - held (rv # rvs) i)"
    using us'(3) by (simp add: algebra_simps)
  moreover have "qu_in_use (pending us' row) = qu_in_use (pending us row) + (if commit then moved (rv # rvs) (qu_id row) else 0)"
    if "row \<in> set rows" for row
    using us'(4) us1(4) that by (simp add: moved_def)
  ultimately show ?case using us1(1) us'(1,2) by (intro exI [of _ us']) simp
qed

lemma held_soft_delete: "held (reservations (soft_delete P db)) i = held (reservations db) i - held (filter P (reservations db)) i"
proof -
  have "held (map (\<lambda>rv. if P rv then rv\<lparr>rv_deleted := True\<rparr> else rv) rvs) i = held rvs i - held (filter P rvs) i" for rvs
    by (induction rvs) (auto simp: held_def hold_def)
  then show ?thesis by (simp add: soft_delete_def)
qed

lemma refs_soft_delete: "refs_ok rows (reservations db) \<Longrightarrow> refs_ok rows (reservations (soft_delete P db))"
  by (auto simp: refs_ok_def soft_delete_def refers_to_def)

lemma soft_delete_usages [simp]: "usages (soft_delete P db) = usages db"
  by (simp add: soft_delete_def)

text \<open>
  A user settles his own reservations: then none of the lookups fails, and each reservation gives
  back what it held.
\<close>

definition own_reservations :: "ident \<Rightarrow> ident \<Rightarrow> string list \<Rightarrow> 'a quota_db_scheme \<Rightarrow> bool" where
  "own_reservations p u uuids db \<longleftrightarrow>
     (\<forall>rv \<in> set (reservations db). selected uuids rv \<longrightarrow> rv_project rv = p \<and> rv_user rv = u)"

lemma map_fixed: "map f xs = xs \<Longrightarrow> x \<in> set xs \<Longrightarrow> f x = x"
  by (induction xs) auto

lemma settle_all_effect:
  assumes inv: "quota_inv db" and own: "own_reservations p u uuids db"
  shows "\<exists>db'. settle_all commit uuids p u now db = Inr db' \<and> quota_inv db' \<and>
    reservations db' = reservations (soft_delete (selected uuids) db) \<and>
    (\<exists>f. usages db' = map f (usages db) \<and> (\<forall>row \<in> set (usages db). same_key (f row) row \<and>
       qu_in_use (f row) = qu_in_use row +
         (if commit then moved (filter (selected uuids) (reservations db)) (qu_id row) else 0)))"
proof -
  let ?us = "snd (get_project_user_quota_usages p u db)"
  let ?rvs = "filter (selected uuids) (reservations db)"
  have D: "session p u ?us (usages db)" "usage_inv (map (pending ?us) (usages db)) (held (reservations db))"
      "refs_ok (usages db) (reservations db)"
    using txn_okD [OF session_start(1) [OF inv]] by blast+
  have all: "\<not> rv_deleted rv \<and> rv_project rv = p \<and> rv_user rv = u \<and> (\<exists>row \<in> set (usages db). refers_to rv row)"
    if "rv \<in> set ?rvs" for rv
    using that own D(3) unfolding own_reservations_def refs_ok_def selected_def by auto
  from settle_loop [where commit = commit, OF D(1,2) all]
  obtain us' where us': "loop (settle commit) ?rvs ?us = Inr us'" "session p u us' (usages db)"
      "usage_inv (map (pending us') (usages db)) (\<lambda>i. held (reservations db) i - held ?rvs i)"
      "\<forall>row \<in> set (usages db). qu_in_use (pending us' row) =
        qu_in_use (pending ?us row) + (if commit then moved ?rvs (qu_id row) else 0)" by blast
  let ?db = "soft_delete (selected uuids) (flush now us' db)"
  have same: "reservations (flush now us' db) = reservations db" by (simp add: flush_def)
  then have "held (reservations ?db) = (\<lambda>i. held (reservations db) i - held ?rvs i)"
    by (simp add: fun_eq_iff held_soft_delete)
  moreover note flush_inv [OF us'(2,3) D(3), of now]
  ultimately have "quota_inv ?db"
    using refs_soft_delete [of "usages (flush now us' db)" "flush now us' db"] by (simp add: quota_inv_def same)
  moreover have "reservations ?db = reservations (soft_delete (selected uuids) db)"
    using same by (simp add: soft_delete_def)
  moreover have "usages ?db = map (write_row now (map snd us')) (usages db)" by (simp add: flush_def)
  moreover have "same_key (write_row now (map snd us') row) row \<and> qu_in_use (write_row now (map snd us') row) =
      qu_in_use row + (if commit then moved ?rvs (qu_id row) else 0)" if row: "row \<in> set (usages db)" for row
  proof -
    have "pending ?us row = row" by (rule map_fixed [OF session_start(2) [OF inv, of p u] row])
    moreover have "qu_in_use (pending us' row) = qu_in_use (pending ?us row) + (if commit then moved ?rvs (qu_id row) else 0)"
      using us'(4) row by blast
    ultimately show ?thesis
      using pending_same_key [OF us'(2) pending_distinct [OF us'(3)] row]
      by (cases "pending us' row = row") (simp_all add: write_row_pending)
  qed
  ultimately show ?thesis using us'(1) unfolding settle_all_def by auto
qed


section \<open>Expiry keeps the books\<close>

lemma find_map_id:
  assumes "distinct (map qu_id xs)" and "\<And>x. x \<in> set xs \<Longrightarrow> qu_id (h x) = qu_id x" and "row \<in> set xs"
  shows "find (\<lambda>x. qu_id x = qu_id row) (map h xs) = Some (h row)"
  using assms
proof (induction xs)
  case (Cons y xs)
  show ?case
  proof (cases "y = row")
    case False
    then have "qu_id y \<noteq> qu_id row" using Cons.prems(1,3) by (auto simp: image_iff)
    then show ?thesis using Cons False by simp
  qed (use Cons.prems(2) in simp)
qed simp

lemma release_loop:
  assumes "\<And>x. x \<in> set rows \<Longrightarrow> same_key (h x) x" and "usage_inv (map h rows) H"
    and "\<And>rv. rv \<in> set rvs \<Longrightarrow> \<not> rv_deleted rv \<and> (\<exists>row \<in> set rows. refers_to rv row)"
  shows "\<exists>h'. loop release rvs (map h rows) = Inr (map h' rows) \<and> (\<forall>x \<in> set rows. same_key (h' x) x) \<and>
    usage_inv (map h' rows) (\<lambda>i. H i - held rvs i)"
  using assms
proof (induction rvs arbitrary: h H)
  case Nil
  then show ?case by (intro exI [of _ h]) (simp add: held_def)
next
  case (Cons rv rvs)
  obtain row where row: "row \<in> set rows" "refers_to rv row" and rv: "\<not> rv_deleted rv" using Cons.prems(3) [of rv] by auto
  define hit where "hit x \<longleftrightarrow> qu_id x = rv_usage_id rv \<and> \<not> qu_deleted x" for x :: quota_usage
  define h1 where "h1 x = (if 0 \<le> rv_delta rv \<and> hit (h x) then h x\<lparr>qu_reserved := qu_reserved (h x) - rv_delta rv\<rparr> else h x)" for x
  have "hit (h row)" using row(2) Cons.prems(1) [OF row(1)] by (auto simp: hit_def refers_to_def visible_def same_key_def)
  then have "list_ex hit (map h rows)" using row(1) by (auto simp: list_ex_iff)
  then have step: "release rv (map h rows) = Inr (map h1 rows)"
    by (auto simp: release_def h1_def hit_def [abs_def])
  have keys: "same_key (h1 x) x" if "x \<in> set rows" for x
    using Cons.prems(1) [OF that] by (simp add: h1_def)
  have inv: "usage_inv (map h1 rows) (\<lambda>i. H i - (if rv_usage_id rv = i then max 0 (rv_delta rv) else 0))"
    by (rule usage_inv_maps [OF _ Cons.prems(2)]) (auto simp: h1_def hit_def)
  have "\<exists>h'. loop release rvs (map h1 rows) = Inr (map h' rows) \<and> (\<forall>x \<in> set rows. same_key (h' x) x) \<and>
    usage_inv (map h' rows) (\<lambda>i. H i - (if rv_usage_id rv = i then max 0 (rv_delta rv) else 0) - held rvs i)"
    by (rule Cons.IH [OF keys inv]) (use Cons.prems(3) in auto)
  moreover have "held (rv # rvs) = (\<lambda>i. (if rv_usage_id rv = i then max 0 (rv_delta rv) else 0) + held rvs i)"
    using rv by (simp add: held_def hold_def fun_eq_iff)
  ultimately show ?case using step by (simp add: algebra_simps)
qed

lemma reservation_expire_inv:
  assumes inv: "quota_inv db"
  shows "\<exists>db'. reservation_expire now db = Inr db' \<and> quota_inv db'"
proof -
  have I: "usage_inv (usages db) (held (reservations db))" and R: "refs_ok (usages db) (reservations db)"
    using inv by (simp_all add: quota_inv_def)
  let ?rvs = "filter (expired now) (reservations db)"
  have joined: "filter (\<lambda>rv. expired now rv \<and> list_ex (\<lambda>row. qu_id row = rv_usage_id rv) (usages db)) (reservations db) = ?rvs"
    using R by (intro filter_cong) (auto simp: refs_ok_def refers_to_def expired_def list_ex_iff)
  have live: "\<not> rv_deleted rv \<and> (\<exists>row \<in> set (usages db). refers_to rv row)" if "rv \<in> set ?rvs" for rv
    using that R by (auto simp: refs_ok_def expired_def)
  obtain h where h: "loop release ?rvs (map id (usages db)) = Inr (map h (usages db))"
      "\<forall>x \<in> set (usages db). same_key (h x) x"
      "usage_inv (map h (usages db)) (\<lambda>i. held (reservations db) i - held ?rvs i)"
    using release_loop [of "usages db" id "held (reservations db)" ?rvs] I live by auto
  have d: "distinct (map qu_id (usages db))" by (rule usage_inv_distinct [OF I])
  have w: "write_row now (map h (usages db)) row = (if h row = row then row else h row\<lparr>qu_updated_at := now\<rparr>)"
    if "row \<in> set (usages db)" for row
    using find_map_id [OF d, of h row] h(2) that by (simp add: write_row_def same_key_def)
  let ?rows = "map (write_row now (map h (usages db))) (usages db)"
  have key: "same_key (write_row now (map h (usages db)) x) (h x)" "same_key (write_row now (map h (usages db)) x) x"
    if "x \<in> set (usages db)" for x
    using h(2) that by (simp_all add: w)
  have "usage_inv ?rows (\<lambda>i. held (reservations db) i - held ?rvs i)"
    by (rule usage_inv_maps [OF key(1) h(3)]) (auto simp: w)
  moreover have "refs_ok ?rows (reservations db)"
    using R refs_ok_maps [of "usages db" "write_row now (map h (usages db))" "\<lambda>x. x"] key(2) by simp
  ultimately have "quota_inv (soft_delete (expired now) (db\<lparr>usages := ?rows\<rparr>))"
    using refs_soft_delete [of ?rows "db\<lparr>usages := ?rows\<rparr>" "expired now"]
    by (simp add: quota_inv_def held_soft_delete [of "expired now" "db\<lparr>usages := ?rows\<rparr>", simplified, THEN ext])
  then show ?thesis using h(1) by (simp add: reservation_expire_def joined)
qed

lemma reservations_soft_delete:
  "reservations (soft_delete P db) = map (\<lambda>rv. if P rv then rv\<lparr>rv_deleted := True\<rparr> else rv) (reservations db)"
  by (simp add: soft_delete_def)

section \<open>Resets and deletions keep the books\<close>

lemma usage_update_inv:
  assumes inv: "quota_inv db" and ok: "quota_usage_update p u r n None until now db = Inr db'"
  shows "quota_inv db'"
proof -
  define f where "f row = (if \<not> qu_deleted row \<and> qu_project row = p \<and> qu_resource row = r \<and> (qu_user row = u \<or> qu_user row = None)
    then row\<lparr>qu_in_use := (case n of None \<Rightarrow> qu_in_use row | Some n \<Rightarrow> n),
      qu_until_refresh := (case until of None \<Rightarrow> qu_until_refresh row | Some n \<Rightarrow> n), qu_updated_at := now\<rparr> else row)" for row :: quota_usage
  have db': "db' = db\<lparr>usages := map f (usages db)\<rparr>"
    using ok by (simp add: quota_usage_update_def Let_def f_def [abs_def] split: if_splits)
  have key: "same_key (f x) x" for x by (simp add: f_def)
  have "usage_inv (map f (usages db)) (held (reservations db))"
    using usage_inv_maps [of "usages db" f "\<lambda>x. x" "held (reservations db)" "held (reservations db)"] inv key
    by (simp add: quota_inv_def f_def)
  moreover have "refs_ok (map f (usages db)) (reservations db)"
    using inv refs_ok_maps [of "usages db" f "\<lambda>x. x"] key by (simp add: quota_inv_def)
  ultimately show ?thesis by (simp add: quota_inv_def db')
qed

lemma usage_reset_inv:
  assumes "driver_usage_reset ctx names now db = Inr db'" and "quota_inv db"
  shows "quota_inv db'"
proof (rule loop_inv [where P = quota_inv, OF assms(1) [unfolded driver_usage_reset_def] assms(2)])
  fix r s s'
  assume "quota_inv s" and "(case quota_usage_update (ctx_project ctx) (ctx_user ctx) r (Some (-1)) None None now s of
         Inl e \<Rightarrow> if e = QuotaUsageNotFound then Inr s else Inl e | Inr db' \<Rightarrow> Inr db') = Inr s'"
  then show "quota_inv s'" using usage_update_inv by (fastforce split: sum.splits if_splits)
qed

lemma destroy_project_inv:
  assumes "quota_inv db"
  shows "quota_inv (quota_destroy_all_by_project p db)"
proof -
  have I: "usage_inv (usages db) (held (reservations db))" and R: "refs_ok (usages db) (reservations db)"
    using assms by (simp_all add: quota_inv_def)
  define f where "f row = (if qu_project row = p then row\<lparr>qu_deleted := True\<rparr> else row)" for row :: quota_usage
  let ?P = "\<lambda>rv. rv_project rv = p"
  define db' where "db' = quota_destroy_all_by_project p db"
  have db': "usages db' = map f (usages db)" "reservations db' = reservations (soft_delete ?P db)"
    by (simp_all add: db'_def quota_destroy_all_by_project_def delete_project_quotas_def soft_delete_def Let_def f_def)
  have f: "qu_id (f x) = qu_id x" "qu_project (f x) = qu_project x" "qu_user (f x) = qu_user x" "qu_resource (f x) = qu_resource x"
      "qu_reserved (f x) = qu_reserved x" "qu_deleted (f x) \<longleftrightarrow> qu_deleted x \<or> qu_project x = p" for x
    by (auto simp: f_def)
  have none: "held (filter ?P (reservations db)) (qu_id row) = 0" if row: "row \<in> set (usages db)" "qu_project row \<noteq> p" for row
  proof -
    have "refs_ok (filter (\<lambda>x. qu_project x = p) (usages db)) (filter ?P (reservations db))"
      using R by (auto simp: refs_ok_def refers_to_def visible_def)
    moreover have "qu_id row \<notin> qu_id ` set (filter (\<lambda>x. qu_project x = p) (usages db))"
      using row usage_inv_distinct [OF I] by (auto simp: distinct_map dest: inj_onD)
    ultimately show ?thesis by (rule held_nothing)
  qed
  have "usage_inv (map f (usages db)) (held (reservations (soft_delete ?P db)))"
  proof (rule usage_invI)
    show "distinct (map qu_id (map f (usages db)))" using usage_inv_distinct [OF I] by (simp add: f comp_def)
  next
    fix x y
    assume xy: "x \<in> set (map f (usages db))" "y \<in> set (map f (usages db))" "\<not> qu_deleted x" "\<not> qu_deleted y"
      "qu_project x = qu_project y" "qu_user x = qu_user y" "qu_resource x = qu_resource y"
    then obtain a b where ab: "a \<in> set (usages db)" "x = f a" "b \<in> set (usages db)" "y = f b" by auto
    have "qu_id a = qu_id b"
      by (rule usage_inv_unique [OF I ab(1,3)]) (use xy(3-7) [unfolded ab f] in simp_all)
    then show "qu_id x = qu_id y" by (simp add: ab f)
  next
    fix x
    assume "x \<in> set (map f (usages db))" "\<not> qu_deleted x"
    then obtain a where a: "a \<in> set (usages db)" "x = f a" "\<not> qu_deleted a" "qu_project a \<noteq> p" by (auto simp: f)
    then show "qu_user x = None \<longleftrightarrow> qu_resource x \<in> set PER_PROJECT_QUOTAS"
        "qu_reserved x = held (reservations (soft_delete ?P db)) (qu_id x)"
      using usage_inv_row [OF I a(1,3)] none [OF a(1,4)] by (simp_all add: f held_soft_delete)
  qed
  moreover have "refs_ok (map f (usages db)) (reservations (soft_delete ?P db))"
    unfolding refs_ok_def
  proof (intro ballI impI)
    fix rv
    assume "rv \<in> set (reservations (soft_delete ?P db))" and live: "\<not> rv_deleted rv"
    then obtain r where r: "r \<in> set (reservations db)" "rv = (if rv_project r = p then r\<lparr>rv_deleted := True\<rparr> else r)"
      unfolding reservations_soft_delete set_map by (elim imageE)
    then have "rv_project r \<noteq> p" "rv = r" using live by (cases "rv_project r = p"; simp)+
    then have rv: "rv \<in> set (reservations db)" "rv_project rv \<noteq> p" "\<not> rv_deleted rv" using r(1) live by simp_all
    then obtain row where row: "row \<in> set (usages db)" "refers_to rv row" using R unfolding refs_ok_def by blast
    then have "f row = row" using rv(2) by (simp add: refers_to_def visible_def f_def)
    then show "\<exists>row \<in> set (map f (usages db)). refers_to rv row" using row by (metis imageI set_map)
  qed
  ultimately show ?thesis using db' by (simp add: quota_inv_def db'_def [symmetric])
qed


section \<open>What a transaction to reserve does\<close>

lemma reserve_loop_effect:
  assumes "loop (reserve_one p u expire) (zip deltas uuids) (us, db) = Inr (us', db')"
    and "wf_dict deltas" and "length uuids = length deltas"
  shows "(\<forall>r. map_of us' r = (case map_of deltas r of
        Some delta \<Rightarrow> map_option (\<lambda>row. if delta > 0 then row\<lparr>qu_reserved := qu_reserved row + delta\<rparr> else row) (map_of us r)
      | None \<Rightarrow> map_of us r)) \<and>
    (\<forall>r \<in> set (keys deltas). map_of us r \<noteq> None) \<and> usages db' = usages db \<and>
    (\<exists>new. reservations db' = reservations db @ new \<and> map rv_uuid new = uuids \<and>
       map (\<lambda>rv. (rv_resource rv, rv_delta rv)) new = deltas \<and>
       (\<forall>rv \<in> set new. \<not> rv_deleted rv \<and> rv_project rv = p \<and> rv_user rv = u \<and> rv_expire rv = expire))"
  using assms
proof (induction deltas arbitrary: uuids us db)
  case (Cons item deltas)
  obtain r delta where item: "item = (r, delta)" by (cases item)
  obtain uuid uuids' where uuids: "uuids = uuid # uuids'" using Cons.prems(3) by (cases uuids) auto
  obtain us1 db1 where one: "reserve_one p u expire ((r, delta), uuid) (us, db) = Inr (us1, db1)"
    and rest: "loop (reserve_one p u expire) (zip deltas uuids') (us1, db1) = Inr (us', db')"
    using Cons.prems(1) by (auto simp: item uuids)
  obtain row where row: "map_of us r = Some row"
    and us1: "us1 = (if delta > 0 then AList.update r (row\<lparr>qu_reserved := qu_reserved row + delta\<rparr>) us else us)"
    and db1: "db1 = db\<lparr>reservations := reservations db @ [reservation_create uuid row p u r delta expire]\<rparr>"
    using one by (auto simp: reserve_one_def)
  have r: "r \<notin> set (keys deltas)" "map_of deltas r = None"
    using Cons.prems(2) by (simp_all add: item map_of_eq_None_iff)
  have "wf_dict deltas" "length uuids' = length deltas" using Cons.prems(2,3) by (simp_all add: uuids)
  note IH = Cons.IH [OF rest this]
  have "map_of us' q = (case map_of (item # deltas) q of
        Some delta \<Rightarrow> map_option (\<lambda>row. if delta > 0 then row\<lparr>qu_reserved := qu_reserved row + delta\<rparr> else row) (map_of us q)
      | None \<Rightarrow> map_of us q)" for q
    using IH r row by (cases "q = r") (auto simp: us1 item split: option.split)
  moreover have "map_of us q \<noteq> None" if "q \<in> set (keys (item # deltas))" for q
  proof (cases "q = r")
    case False
    then have "map_of us1 q \<noteq> None" using IH that item by auto
    then show ?thesis using False by (simp add: us1 split: if_splits)
  qed (simp add: row)
  moreover have "usages db' = usages db" using IH by (simp add: db1)
  moreover obtain new where "reservations db' = reservations db1 @ new" "map rv_uuid new = uuids'"
      "map (\<lambda>rv. (rv_resource rv, rv_delta rv)) new = deltas"
      "\<forall>rv \<in> set new. \<not> rv_deleted rv \<and> rv_project rv = p \<and> rv_user rv = u \<and> rv_expire rv = expire"
    using IH by blast
  ultimately show ?case
    by (intro conjI exI [of _ "reservation_create uuid row p u r delta expire # new"])
      (simp_all add: db1 uuids item reservation_create_def)
qed simp

lemma flushed_row:
  assumes s: "session p u us (usages db)" and d: "distinct (map qu_id (usages db))" and x: "map_of us r = Some x"
  shows "\<exists>row \<in> set (usages (flush now us db)). same_key row x \<and> visible p u row \<and> qu_resource row = r \<and>
    qu_in_use row = qu_in_use x \<and> qu_reserved row = qu_reserved x"
proof -
  obtain y where y: "y \<in> set (usages db)" "same_key x y" "visible p u y" "qu_resource x = r"
    using s x unfolding session_def by blast
  then have "pending us y = x" using pending_of_id [OF s d x, of y] by (simp add: same_key_def)
  then have w: "write_row now (map snd us) y = (if x = y then y else x\<lparr>qu_updated_at := now\<rparr>)" by (auto simp: write_row_pending)
  have "same_key (write_row now (map snd us) y) x" by (simp add: w)
  moreover have "visible p u (write_row now (map snd us) y)"
    using y(3) same_key_visible [OF y(2)] same_key_visible [of "x\<lparr>qu_updated_at := now\<rparr>" x] by (simp add: w)
  moreover have "qu_resource (write_row now (map snd us) y) = r" using y(4) by (auto simp: w)
  moreover have "qu_in_use (write_row now (map snd us) y) = qu_in_use x" "qu_reserved (write_row now (map snd us) y) = qu_reserved x"
    by (simp_all add: w)
  ultimately show ?thesis using y(1) by (auto simp: flush_def)
qed

lemma quota_reserve_granted:
  assumes inv: "quota_inv db" and u: "u \<noteq> None" and wf: "wf_dict deltas"
    and r: "quota_reserve rs iv uuid4 work pq uq deltas expire until max_age p u now db = (Inr uuids, db')"
  obtains us1 db1 us2 db2 counts where "txn_ok p u (us1, db1)" and "txn_ok p u (us2, db2)"
    and "reservations db1 = reservations db" and "calculate_overquota pq uq deltas counts us1 = Inr []"
    and "loop (reserve_one p u expire) (zip deltas uuids) (us1, db1) = Inr (us2, db2)"
    and "uuids = map uuid4 [0..<length deltas]" and "db' = flush now us2 db2"
proof -
  obtain counts us where start: "get_project_user_quota_usages p u db = (counts, us)" by (metis surj_pair)
  have ok: "txn_ok p u (us, db)" using session_start(1) [OF inv, of p u] by (simp add: start)
  obtain us1 db1 where one: "refresh_work rs (QUOTA_SYNC_FUNCTIONS iv) until max_age p u now work (us, db) = Inr (us1, db1)"
    and two: "calculate_overquota pq uq deltas (fold copy_usage us1 counts) us1 = Inr []"
    and three: "\<exists>us2 db2. loop (reserve_one p u expire) (zip deltas (map uuid4 [0..<length deltas])) (us1, db1) = Inr (us2, db2) \<and>
      db' = flush now us2 db2"
    and ids: "uuids = map uuid4 [0..<length deltas]"
    using r unfolding quota_reserve_def start Let_def
    by (auto split: sum.splits prod.splits if_splits simp: bind_split)
  note R = txn_refresh [OF one ok u, unfolded snd_conv]
  from three obtain us2 db2 where "loop (reserve_one p u expire) (zip deltas uuids) (us1, db1) = Inr (us2, db2)" "db' = flush now us2 db2"
    using ids by blast
  then show thesis
    using that [OF _ _ _ two _ ids] R txn_reserve_all [OF _ _ u, of p expire "zip deltas uuids" "(us1, db1)" "(us2, db2)"] by blast
qed

lemma not_over:
  assumes "calculate_overquota pq uq deltas counts us = Inr []" and "(r, delta) \<in> set deltas" and "0 \<le> delta"
    and "map_of uq r = Some (Some l)" and "0 \<le> l" and "map_of us r = Some row"
  shows "delta + usage_total row \<le> l"
proof -
  obtain marks where marks: "traverse (\<lambda>item. bind (goes_over pq uq counts us item) (\<lambda>over. Inr (fst item, over))) deltas = Inr marks"
      "filter snd marks = []"
    using assms(1) by (auto simp: calculate_overquota_def)
  obtain i where i: "i < length deltas" "deltas ! i = (r, delta)" using assms(2) by (auto simp: in_set_conv_nth)
  then have "marks ! i \<in> set marks" "bind (goes_over pq uq counts us (r, delta)) (\<lambda>over. Inr (r, over)) = Inr (marks ! i)"
    using marks(1) unfolding traverse_eq_Inr by (auto simp: list_all2_conv_all_nth)
  moreover from this(1) have "\<not> snd (marks ! i)" using marks(2) by (simp add: filter_empty_conv)
  ultimately have "goes_over pq uq counts us (r, delta) = Inr False" by auto (metis snd_conv)
  then show ?thesis
    using assms(3-6) by (auto simp: goes_over_def beyond_def dict_index_def split: if_splits option.splits)
qed


section \<open>Histories\<close>

lemma store_limit_frame:
  "store_limit p u kv db = Inr db' \<Longrightarrow> usages db' = usages db \<and> reservations db' = reservations db"
  by (auto simp: store_limit_def quota_create_def quota_update_def split: if_splits sum.splits)

lemma update_quota_set_frame:
  assumes "update_quota_set CONF ctx rs p u force body pu uu db = Inr db'"
  shows "usages db' = usages db \<and> reservations db' = reservations db"
proof -
  obtain kvs where "loop (store_limit p u) kvs db = Inr db'" using assms by (auto simp: update_quota_set_def)
  then show ?thesis
  proof (rule loop_inv [where P = "\<lambda>s. usages s = usages db \<and> reservations s = reservations db"])
    fix kv s s'
    assume "usages s = usages db \<and> reservations s = reservations db" "store_limit p u kv s = Inr s'"
    then show "usages s' = usages db \<and> reservations s' = reservations db" using store_limit_frame [of p u kv s s'] by simp
  qed simp
qed

lemma quota_inv_frame:
  "usages db' = usages db \<and> reservations db' = reservations db \<Longrightarrow> quota_inv db' = quota_inv db"
  by (simp add: quota_inv_def)

text \<open>
  The transactions of the workers, one after the other. Reservations are made for some user, and
  settled on behalf of the user they were made for.
\<close>

inductive quota_step :: "(string \<Rightarrow> int) \<Rightarrow> 'c resources \<Rightarrow> quota_db \<Rightarrow> quota_db \<Rightarrow> bool" for CONF rs where
  reserves: "or_context u (ctx_user ctx) \<noteq> None \<Longrightarrow>
    driver_reserve CONF iv uuid4 work ctx rs deltas expire p u now db = (out, db') \<Longrightarrow> quota_step CONF rs db db'"
| commits: "own_reservations (or_context p (ctx_project ctx)) (or_context u (ctx_user ctx)) uuids db \<Longrightarrow>
    quota_step CONF rs db (engine_commit ctx uuids p u now db)"
| rolls_back: "own_reservations (or_context p (ctx_project ctx)) (or_context u (ctx_user ctx)) uuids db \<Longrightarrow>
    quota_step CONF rs db (engine_rollback ctx uuids p u now db)"
| expires: "reservation_expire now db = Inr db' \<Longrightarrow> quota_step CONF rs db db'"
| resets: "driver_usage_reset ctx names now db = Inr db' \<Longrightarrow> quota_step CONF rs db db'"
| destroys: "quota_step CONF rs db (quota_destroy_all_by_project p db)"
| sets_limits: "update_quota_set CONF ctx rs p u force body (quota_usage_get_all p None db) (quota_usage_get_all p u db) db
    = Inr db' \<Longrightarrow> quota_step CONF rs db db'"
| sets_class: "quota_class_update c r l db = Inr db' \<Longrightarrow> quota_step CONF rs db db'"
| adds_class: "quota_step CONF rs db (quota_class_create c r l db)"

inductive_cases quota_stepE: "quota_step CONF rs db db'"

lemma driver_reserve_inv:
  assumes "or_context u (ctx_user ctx) \<noteq> None" and "quota_inv db"
    and "driver_reserve CONF iv uuid4 work ctx rs deltas expire p u now db = (out, db')"
  shows "quota_inv db'"
  using assms quota_reserve_inv [OF assms(2,1)] by (auto simp: driver_reserve_def split: sum.splits prod.splits)

lemma engine_settles:
  assumes "quota_inv db" and "own_reservations (or_context p (ctx_project ctx)) (or_context u (ctx_user ctx)) uuids db"
  shows "quota_inv (engine_commit ctx uuids p u now db)" and "quota_inv (engine_rollback ctx uuids p u now db)"
  using settle_all_effect [OF assms, of True now] settle_all_effect [OF assms, of False now]
  by (auto simp: engine_commit_def engine_rollback_def driver_commit_def driver_rollback_def
      reservation_commit_def reservation_rollback_def)

lemma quota_step_inv:
  assumes "quota_inv db" and "quota_step CONF rs db db'"
  shows "quota_inv db'"
  using assms(2)
proof cases
  case (reserves u ctx iv uuid4 work deltas expire p now out)
  then show ?thesis using driver_reserve_inv assms(1) by blast
next
  case (commits p ctx u uuids now)
  then show ?thesis using engine_settles(1) [OF assms(1)] by simp
next
  case (rolls_back p ctx u uuids now)
  then show ?thesis using engine_settles(2) [OF assms(1)] by simp
next
  case (expires now)
  then show ?thesis using reservation_expire_inv [OF assms(1), of now] by auto
next
  case (resets ctx names now)
  then show ?thesis using usage_reset_inv assms(1) by blast
next
  case (destroys p)
  then show ?thesis using destroy_project_inv [OF assms(1)] by simp
next
  case (sets_limits ctx p u force body)
  then show ?thesis using quota_inv_frame [OF update_quota_set_frame] assms(1) by blast
next
  case (sets_class c r l)
  then show ?thesis using assms(1) by (auto simp: quota_class_update_def quota_inv_def split: if_splits)
next
  case (adds_class c r l)
  then show ?thesis using assms(1) by (simp add: quota_class_create_def quota_inv_def)
qed

interpretation books: guarded_system "quota_step CONF rs" quota_inv for CONF rs
  by unfold_locales (rule quota_step_inv)

lemma empty_books: "usages db = [] \<Longrightarrow> reservations db = [] \<Longrightarrow> quota_inv db"
  by (simp add: quota_inv_def usage_inv_def refs_ok_def)

lemma held_live: "held rvs i =
    sum_list (map (\<lambda>rv. max 0 (rv_delta rv)) (filter (\<lambda>rv. \<not> rv_deleted rv \<and> rv_usage_id rv = i) rvs))"
  unfolding held_def by (induction rvs) (auto simp: hold_def)

definition example_db :: quota_db where
  "example_db = quota_tables.extend plain_limits \<lparr>usages = [], reservations = []\<rparr>"

definition no_inventory :: inventory where
  "no_inventory = \<lparr>iv_instances = [], iv_floating_ips = [], iv_fixed_ips = [], iv_security_groups = [], iv_server_groups = []\<rparr>"

definition example_uuid :: "nat \<Rightarrow> string" where
  "example_uuid n = (if n = 0 then ''a'' else ''b'')"

definition example_reserve :: "string list result \<times> quota_db" where
  "example_reserve =
     driver_reserve small_conf no_inventory example_uuid [''cores'', ''instances''] example_context example_resources
       [(''cores'', 2), (''instances'', 1)] NoExpiration None None 0 example_db"

lemma example_reserve_out: "fst example_reserve = Inr [''a'', ''b'']"
  by code_simp

lemma example_empty: "usages example_db = []" "reservations example_db = []" "quota_inv example_db"
proof -
  show "usages example_db = []" "reservations example_db = []" by (simp_all add: example_db_def quota_tables.defs)
  then show "quota_inv example_db" by (rule empty_books)
qed

lemma example_step: "quota_step small_conf example_resources example_db (snd example_reserve)"
proof (rule quota_step.reserves)
  show "or_context None (ctx_user example_context) \<noteq> None" by (simp add: or_context_def example_context_def)
  show "driver_reserve small_conf no_inventory example_uuid [''cores'', ''instances''] example_context example_resources
       [(''cores'', 2), (''instances'', 1)] NoExpiration None None 0 example_db = (fst example_reserve, snd example_reserve)"
    by (simp add: example_reserve_def)
qed



text \<open>C28: In every such history the tables are well formed: ids are unique, no project and user have two live
  rows for a resource, the rows without a user are exactly those of the resources counted per project,
  and every open reservation refers to a live row of its project and resource that is its user's or the
  project's.\<close>

theorem quota_tables_well_formed:
  assumes "(quota_step CONF rs)\<^sup>*\<^sup>* db0 db" and "usages db0 = []" and "reservations db0 = []"
  shows "distinct (map qu_id (usages db)) \<and>
    (\<forall>x \<in> set (usages db). \<forall>y \<in> set (usages db). \<not> qu_deleted x \<and> \<not> qu_deleted y \<and> qu_project x = qu_project y \<and>
       qu_user x = qu_user y \<and> qu_resource x = qu_resource y \<longrightarrow> x = y) \<and>
    (\<forall>x \<in> set (usages db). \<not> qu_deleted x \<longrightarrow> (qu_user x = None \<longleftrightarrow> qu_resource x \<in> set PER_PROJECT_QUOTAS)) \<and>
    (\<forall>rv \<in> set (reservations db). \<not> rv_deleted rv \<longrightarrow> (\<exists>x \<in> set (usages db). qu_id x = rv_usage_id rv \<and> \<not> qu_deleted x \<and>
       qu_project x = rv_project rv \<and> qu_resource x = rv_resource rv \<and> (qu_user x = None \<or> qu_user x = rv_user rv)))"
proof -
  have "quota_inv db" by (rule books.run_inv [OF assms(1) empty_books [OF assms(2,3)]])
  then have inv: "usage_inv (usages db) (held (reservations db))" and refs: "refs_ok (usages db) (reservations db)"
    by (simp_all add: quota_inv_def)
  note d = usage_inv_distinct [OF inv]
  have "x = y" if "x \<in> set (usages db)" "y \<in> set (usages db)" "\<not> qu_deleted x \<and> \<not> qu_deleted y \<and> qu_project x = qu_project y \<and>
       qu_user x = qu_user y \<and> qu_resource x = qu_resource y" for x y
  proof -
    have "qu_id x = qu_id y" by (rule usage_inv_unique [OF inv that(1,2)]) (use that(3) in simp_all)
    then show ?thesis using d that(1,2) by (auto simp: distinct_map dest: inj_onD)
  qed
  moreover have "\<exists>x \<in> set (usages db). qu_id x = rv_usage_id rv \<and> \<not> qu_deleted x \<and>
       qu_project x = rv_project rv \<and> qu_resource x = rv_resource rv \<and> (qu_user x = None \<or> qu_user x = rv_user rv)"
    if "rv \<in> set (reservations db)" "\<not> rv_deleted rv" for rv
    using refs that unfolding refs_ok_def refers_to_def visible_def by blast
  ultimately show ?thesis using d usage_inv_row(1) [OF inv] by blast
qed

theorem quota_tables_well_formed_witness:
  "distinct (map qu_id (usages (snd example_reserve))) \<and> length (reservations (snd example_reserve)) = 2"
proof
  show "distinct (map qu_id (usages (snd example_reserve)))"
    using quota_tables_well_formed [OF r_into_rtranclp [where r = "quota_step small_conf example_resources", OF example_step] example_empty(1,2)]
    by blast
  show "length (reservations (snd example_reserve)) = 2" by code_simp
qed

section \<open>Granted and refused requests\<close>

lemma driver_reserve_granted:
  assumes r: "driver_reserve CONF iv uuid4 work ctx rs deltas expire p u now db = (Inr uuids, db')"
  obtains t quotas user_quotas where
    "get_quotas CONF ctx rs (keys deltas) True (or_context p (ctx_project ctx)) (or_context u (ctx_user ctx))
       (Some (quota_get_all_by_project (or_context p (ctx_project ctx)) db)) db = Inr user_quotas"
    and "quota_reserve rs iv uuid4 work quotas user_quotas deltas t (CONF ''until_refresh'') (CONF ''max_age'')
       (or_context p (ctx_project ctx)) (or_context u (ctx_user ctx)) now db = (Inr uuids, db')"
    and "expiration_time CONF now expire = Inr t"
  using assms by (auto simp: driver_reserve_def Let_def split: sum.splits prod.splits)

text \<open>C8: A request that is granted leaves what the user has in use and reserved within the limit that applies to
  the user, for every resource the request asks more of, unless that limit is negative or NULL; and it is
  recorded as one reservation per resource, of the amount asked for, under the identifiers returned.\<close>

theorem granted_within_user_limit:
  assumes inv: "quota_inv db" and rs: "wf_resources rs" and deltas: "wf_dict deltas"
    and U: "U = or_context u (ctx_user ctx)" "U \<noteq> None" and P: "P = or_context p (ctx_project ctx)"
    and r: "driver_reserve CONF iv uuid4 work ctx rs deltas expire p u now db = (Inr uuids, db')"
  shows "(\<forall>(res, delta) \<in> set deltas. 0 \<le> delta \<longrightarrow>
      (\<exists>row \<in> set (usages db'). visible P U row \<and> qu_resource row = res \<and>
        (\<forall>kind l. map_of rs res = Some kind \<and> applicable_limit CONF ctx P U db kind = Some (Some l) \<and> 0 \<le> l \<longrightarrow>
           usage_total row \<le> l))) \<and>
    (\<exists>new. reservations db' = reservations db @ new \<and> map rv_uuid new = uuids \<and>
       map (\<lambda>rv. (rv_resource rv, rv_delta rv)) new = deltas \<and>
       (\<forall>rv \<in> set new. \<not> rv_deleted rv \<and> rv_project rv = P \<and> rv_user rv = U))"
proof -
  obtain t quotas user_quotas where uq: "get_quotas CONF ctx rs (keys deltas) True P U (Some (quota_get_all_by_project P db)) db = Inr user_quotas"
    and qr: "quota_reserve rs iv uuid4 work quotas user_quotas deltas t (CONF ''until_refresh'') (CONF ''max_age'') P U now db = (Inr uuids, db')"
    using driver_reserve_granted [OF r] unfolding U(1) P by metis
  obtain us1 db1 us2 db2 counts where ok1: "txn_ok P U (us1, db1)" and ok2: "txn_ok P U (us2, db2)"
    and res1: "reservations db1 = reservations db" and over: "calculate_overquota quotas user_quotas deltas counts us1 = Inr []"
    and loop: "loop (reserve_one P U t) (zip deltas uuids) (us1, db1) = Inr (us2, db2)"
    and ids: "uuids = map uuid4 [0..<length deltas]" and db': "db' = flush now us2 db2"
    by (rule quota_reserve_granted [OF inv U(2) deltas qr])
  have "length uuids = length deltas" by (simp add: ids)
  note E = reserve_loop_effect [OF loop deltas this]
  note S = txn_okD [OF ok2]
  have "\<exists>row \<in> set (usages db'). visible P U row \<and> qu_resource row = res \<and>
        (\<forall>kind l. map_of rs res = Some kind \<and> applicable_limit CONF ctx P U db kind = Some (Some l) \<and> 0 \<le> l \<longrightarrow>
           usage_total row \<le> l)" if item: "(res, delta) \<in> set deltas" and pos: "0 \<le> delta" for res delta
  proof -
    have d: "map_of deltas res = Some delta" using item deltas by simp
    have "res \<in> set (keys deltas)" using item by force
    then obtain x where x: "map_of us1 res = Some x" using E by blast
    define y where "y = (if delta > 0 then x\<lparr>qu_reserved := qu_reserved x + delta\<rparr> else x)"
    have y: "map_of us2 res = Some y" "usage_total y = delta + usage_total x"
      using E d x pos by (simp_all add: y_def usage_total_def)
    obtain row where row: "row \<in> set (usages db')" "visible P U row" "qu_resource row = res"
        "qu_in_use row = qu_in_use y" "qu_reserved row = qu_reserved y"
      using flushed_row [OF S(1,4) y(1), of now] db' by blast
    have "usage_total row \<le> l" if "map_of rs res = Some kind" "applicable_limit CONF ctx P U db kind = Some (Some l)" "0 \<le> l" for kind l
    proof -
      have "map_of user_quotas res = Some (Some l)"
        using get_quotas_limits [OF rs deltas uq] \<open>res \<in> set (keys deltas)\<close> that(1,2) by fastforce
      from not_over [OF over item pos this that(3) x] show ?thesis using row y by (simp add: usage_total_def)
    qed
    then show ?thesis using row by blast
  qed
  moreover have "reservations db' = reservations db2" by (simp add: db' flush_def)
  ultimately show ?thesis using E unfolding res1 by fastforce
qed

theorem granted_within_user_limit_witness:
  "\<exists>row \<in> set (usages (snd example_reserve)). qu_resource row = ''cores'' \<and> usage_total row \<le> 4"
proof -
  have r: "driver_reserve small_conf no_inventory example_uuid [''cores'', ''instances''] example_context example_resources
       [(''cores'', 2), (''instances'', 1)] NoExpiration None None 0 example_db = (Inr [''a'', ''b''], snd example_reserve)"
    using example_reserve_out by (simp add: example_reserve_def prod_eq_iff)
  have kind: "map_of example_resources ''cores'' = Some (ReservableResource ''cores'' ''_sync_instances'' (Some ''quota_cores''))"
    by (simp add: example_resources_def nova_resources_def register_resources_def register_resource_def)
  have limit: "applicable_limit small_conf example_context (Some ''p'') (Some ''u'') example_db
      (ReservableResource ''cores'' ''_sync_instances'' (Some ''quota_cores'')) = Some (Some 4)"
    by (simp add: applicable_limit_def quota_get_all_by_project_and_user_def user_rows_def example_db_def plain_limits_def
        example_limits_def quota_tables.defs)
  from granted_within_user_limit [OF example_empty(3) example_resources_wf _ refl _ refl r] kind limit
  show ?thesis by (fastforce simp: or_context_def example_context_def)
qed


text \<open>A refresh only adds rows.\<close>

lemma create_rows:
  "create_quota_usage_if_missing r until p u now (us, db) = (created, us', db') \<Longrightarrow>
   set (usages db) \<subseteq> set (usages db')"
  by (auto simp: create_quota_usage_if_missing_def quota_usage_create_def Let_def split: if_splits)

lemma sync_rows: "set (usages (snd s)) \<subseteq> set (usages (snd (fold (sync_usage until p u now) items s)))"
proof (induction items arbitrary: s)
  case (Cons item items)
  obtain us db where s: "s = (us, db)" by (cases s)
  obtain created us' db' where c: "create_quota_usage_if_missing (fst item) until p u now (us, db) = (created, us', db')"
    by (metis prod_cases3)
  have "usages (snd (sync_usage until p u now item s)) = usages db'" by (simp add: sync_usage_def s c split: option.split)
  then show ?case using create_rows [OF c] Cons [of "sync_usage until p u now item s"] s by simp
qed simp

lemma refresh_rows:
  "refresh_work rs syncs until max_age p u now work s = Inr t \<Longrightarrow> set (usages (snd s)) \<subseteq> set (usages (snd t))"
proof (induction rs syncs until max_age p u now work s arbitrary: t rule: refresh_work.induct)
  case (2 rs syncs until max_age p u now r work s)
  obtain us db where s: "s = (us, db)" by (cases s)
  obtain created us1 db1 where c: "create_quota_usage_if_missing r until p u now s = (created, us1, db1)"
    by (metis prod_cases3)
  define pair where "pair = (if created then (True, us1) else case map_of us1 r of None \<Rightarrow> (False, us1)
      | Some row \<Rightarrow> (let (needed, row') = is_quota_refresh_needed max_age now row in (needed, AList.update r row' us1)))"
  obtain refresh us2 where pair': "pair = (refresh, us2)" by (cases pair)
  note rec = 2(1) [OF c [symmetric] refl pair' [symmetric, unfolded pair_def] refl]
    and rec' = 2(2) [OF c [symmetric] refl pair' [symmetric, unfolded pair_def] refl]
  have more: "set (usages (snd s)) \<subseteq> set (usages db1)" using create_rows [OF c [unfolded s]] s by simp
  show ?case
  proof (cases refresh)
    case False
    then have "refresh_work rs syncs until max_age p u now work (us2, db1) = Inr t"
      using 2(3) by (simp add: c pair_def [symmetric] pair')
    from rec [OF False this] more show ?thesis by simp
  next
    case True
    then obtain sync where sync: "sync_of rs syncs r = Inr sync"
      and t: "refresh_work rs syncs until max_age p u now (filter (\<lambda>x. x \<notin> set (keys (sync p u))) work)
        (fold (sync_usage until p u now) (sync p u) (us2, db1)) = Inr t"
      using 2(3) by (auto simp: c pair_def [symmetric] pair')
    have "\<not> \<not> refresh" using True by simp
    from rec' [OF this sync t] sync_rows [of "(us2, db1)" until p u now "sync p u"] more show ?thesis by simp
  qed
qed simp

lemma quota_reserve_rows:
  assumes inv: "quota_inv db" and u: "u \<noteq> None" and wf: "wf_dict deltas"
    and r: "quota_reserve rs iv uuid4 work pq uq deltas expire until max_age p u now db = (out, db')"
  shows "(\<forall>e. out = Inl e \<longrightarrow> reservations db' = reservations db) \<and> (\<forall>e. out = Inl e \<longrightarrow> e \<noteq> OverQuota \<longrightarrow> db' = db) \<and>
    (\<forall>row \<in> set (usages db). \<exists>row' \<in> set (usages db'). same_key row' row)"
proof -
  obtain counts us where start: "get_project_user_quota_usages p u db = (counts, us)" by (metis surj_pair)
  have ok: "txn_ok p u (us, db)" using session_start(1) [OF inv, of p u] by (simp add: start)
  have written: "\<forall>row \<in> set (usages db). \<exists>row' \<in> set (usages (flush now us2 db2)). same_key row' row"
    if "txn_ok p u (us2, db2)" "set (usages db) \<subseteq> set (usages db2)" for us2 db2
  proof
    fix row assume "row \<in> set (usages db)"
    then have row: "row \<in> set (usages db2)" using that(2) by blast
    note D = txn_okD [OF that(1)]
    have "same_key (write_row now (map snd us2) row) row"
      using pending_same_key [OF D(1,4) row] by (simp add: write_row_pending)
    then show "\<exists>row' \<in> set (usages (flush now us2 db2)). same_key row' row" using row by (auto simp: flush_def)
  qed
  let ?inner = "bind (refresh_work rs (QUOTA_SYNC_FUNCTIONS iv) until max_age p u now work (us, db)) (\<lambda>(us, db).
           bind (calculate_overquota pq uq deltas (fold copy_usage us counts) us) (\<lambda>overs.
           if overs = [] then
             bind (loop (reserve_one p u expire) (zip deltas (map uuid4 [0..<length deltas])) (us, db)) (\<lambda>(us, db).
             Inr (overs, flush now us db))
           else Inr (overs, flush now us db)))"
  show ?thesis
  proof (cases ?inner)
    case (Inl e)
    then have "db' = db" using r by (simp add: quota_reserve_def start)
    then show ?thesis using same_key_refl by blast
  next
    case (Inr res)
    obtain us1 db1 overs where one: "refresh_work rs (QUOTA_SYNC_FUNCTIONS iv) until max_age p u now work (us, db) = Inr (us1, db1)"
      and two: "(if overs = [] then
             bind (loop (reserve_one p u expire) (zip deltas (map uuid4 [0..<length deltas])) (us1, db1)) (\<lambda>(us, db).
             Inr (overs, flush now us db)) else Inr (overs, flush now us1 db1)) = Inr res"
      using Inr by (auto split: prod.splits)
    have ok1: "txn_ok p u (us1, db1)" and res1: "reservations db1 = reservations db" using txn_refresh [OF one ok u] by simp_all
    have rows: "set (usages db) \<subseteq> set (usages db1)" using refresh_rows [OF one] by simp
    have out: "db' = snd res" "out = (if fst res = [] then Inr (map uuid4 [0..<length deltas]) else Inl OverQuota)"
      using r Inr by (auto simp: quota_reserve_def start split: prod.splits)
    show ?thesis
    proof (cases "overs = []")
      case True
      then obtain us2 db2 where loop: "loop (reserve_one p u expire) (zip deltas (map uuid4 [0..<length deltas])) (us1, db1) = Inr (us2, db2)"
        and res: "res = (overs, flush now us2 db2)"
        using two by (auto split: prod.splits)
      have "usages db2 = usages db1" using reserve_loop_effect [OF loop wf] by simp
      then show ?thesis using written [OF txn_reserve_all [OF loop ok1 u]] rows out res True by simp
    next
      case False
      then have "res = (overs, flush now us1 db1)" using two by simp
      then show ?thesis using written [OF ok1 rows] out False res1 by (simp add: flush_def)
    qed
  qed
qed

lemma driver_reserve_rows:
  assumes "quota_inv db" and "or_context u (ctx_user ctx) \<noteq> None" and "wf_dict deltas"
    and "driver_reserve CONF iv uuid4 work ctx rs deltas expire p u now db = (out, db')"
  shows "(\<forall>e. out = Inl e \<longrightarrow> reservations db' = reservations db) \<and> (\<forall>e. out = Inl e \<longrightarrow> e \<noteq> OverQuota \<longrightarrow> db' = db) \<and>
    (\<forall>row \<in> set (usages db). \<exists>row' \<in> set (usages db'). same_key row' row)"
proof -
  consider "db' = db" | t quotas user_quotas where "quota_reserve rs iv uuid4 work quotas user_quotas deltas t
      (CONF ''until_refresh'') (CONF ''max_age'') (or_context p (ctx_project ctx)) (or_context u (ctx_user ctx)) now db = (out, db')"
    using assms(4) by (auto simp: driver_reserve_def split: sum.splits prod.splits)
  then show ?thesis
  proof cases
    case 1
    then show ?thesis using same_key_refl by blast
  next
    case 2
    from quota_reserve_rows [OF assms(1-3) 2] show ?thesis .
  qed
qed

text \<open>What is reserved depends on the open reservations alone.\<close>

lemma held_open: "held rvs i = held (filter (\<lambda>rv. \<not> rv_deleted rv) rvs) i"
  unfolding held_def by (induction rvs) (auto simp: hold_def)

lemma same_reserved:
  assumes "quota_inv db" and "quota_inv db'" and "row \<in> set (usages db)" and "row' \<in> set (usages db')" and "same_key row' row"
    and "\<not> qu_deleted row"
    and "filter (\<lambda>rv. \<not> rv_deleted rv) (reservations db') = filter (\<lambda>rv. \<not> rv_deleted rv) (reservations db)"
  shows "qu_reserved row' = qu_reserved row"
proof -
  have inv: "usage_inv (usages db) (held (reservations db))" "usage_inv (usages db') (held (reservations db'))"
    using assms(1,2) by (simp_all add: quota_inv_def)
  have "\<not> qu_deleted row'" "qu_id row' = qu_id row" using assms(5,6) by (simp_all add: same_key_def)
  then have "qu_reserved row' = held (reservations db') (qu_id row)" using usage_inv_row(2) [OF inv(2) assms(4)] by simp
  also have "\<dots> = held (reservations db) (qu_id row)" using assms(7) held_open by metis
  finally show ?thesis using usage_inv_row(2) [OF inv(1) assms(3,6)] by simp
qed

text \<open>C29: A request that is refused, for whatever reason, leaves no reservation and keeps what every row has
  reserved; unless it is refused for being over quota, when the refreshed usage is kept, it
  changes nothing at all.\<close>

theorem refused_reserves_nothing:
  assumes inv: "quota_inv db" and u: "or_context u (ctx_user ctx) \<noteq> None" and deltas: "wf_dict deltas"
    and r: "driver_reserve CONF iv uuid4 work ctx rs deltas expire p u now db = (Inl e, db')"
  shows "reservations db' = reservations db \<and> (e \<noteq> OverQuota \<longrightarrow> db' = db) \<and>
    (\<forall>row \<in> set (usages db). \<not> qu_deleted row \<longrightarrow>
       (\<exists>row' \<in> set (usages db'). same_key row' row \<and> qu_reserved row' = qu_reserved row))"
proof -
  note rows = driver_reserve_rows [OF inv u deltas r]
  have inv': "quota_inv db'" by (rule driver_reserve_inv [OF u inv r])
  have same: "reservations db' = reservations db" using rows by blast
  have "\<exists>row' \<in> set (usages db'). same_key row' row \<and> qu_reserved row' = qu_reserved row"
    if row: "row \<in> set (usages db)" "\<not> qu_deleted row" for row
  proof -
    obtain row' where "row' \<in> set (usages db')" "same_key row' row" using rows row(1) by blast
    then show ?thesis using same_reserved [OF inv inv' row(1) _ _ row(2)] same by auto
  qed
  then show ?thesis using rows by blast
qed

definition example_refusal :: "string list result \<times> quota_db" where
  "example_refusal =
     driver_reserve small_conf no_inventory example_uuid [''cores''] example_context example_resources
       [(''cores'', 3)] NoExpiration None None 1 (snd example_reserve)"

theorem refused_reserves_nothing_witness:
  "fst example_refusal = Inl OverQuota \<and> reservations (snd example_refusal) = reservations (snd example_reserve)"
proof -
  have out: "fst example_refusal = Inl OverQuota" by code_simp
  then have r: "driver_reserve small_conf no_inventory example_uuid [''cores''] example_context example_resources
       [(''cores'', 3)] NoExpiration None None 1 (snd example_reserve) = (Inl OverQuota, snd example_refusal)"
    by (simp add: example_refusal_def prod_eq_iff)
  have "quota_inv (snd example_reserve)" by (rule quota_step_inv [OF example_empty(3) example_step])
  from refused_reserves_nothing [OF this _ _ r] out show ?thesis by (simp add: or_context_def example_context_def)
qed

section \<open>Settling\<close>

text \<open>C27: A reservation that is rolled back leaves no trace: with identifiers not used before, the open
  reservations after the roll back are those before the request, and every row of that time has
  reserved what it had.\<close>

theorem rolled_back_leaves_no_trace:
  assumes inv: "quota_inv db" and u: "or_context u (ctx_user ctx) \<noteq> None" and deltas: "wf_dict deltas" and rs: "wf_resources rs"
    and r: "driver_reserve CONF iv uuid4 work ctx rs deltas expire p u now db = (Inr uuids, db1)"
    and fresh: "\<forall>rv \<in> set (reservations db). rv_uuid rv \<notin> set uuids"
  shows "\<exists>db2. driver_rollback ctx uuids p u now' db1 = Inr db2 \<and>
    filter (\<lambda>rv. \<not> rv_deleted rv) (reservations db2) = filter (\<lambda>rv. \<not> rv_deleted rv) (reservations db) \<and>
    (\<forall>row \<in> set (usages db). \<not> qu_deleted row \<longrightarrow>
       (\<exists>row2 \<in> set (usages db2). same_key row2 row \<and> qu_reserved row2 = qu_reserved row))"
proof -
  have inv1: "quota_inv db1" by (rule driver_reserve_inv [OF u inv r])
  obtain t quotas user_quotas where qr: "quota_reserve rs iv uuid4 work quotas user_quotas deltas t (CONF ''until_refresh'')
       (CONF ''max_age'') (or_context p (ctx_project ctx)) (or_context u (ctx_user ctx)) now db = (Inr uuids, db1)"
    using driver_reserve_granted [OF r] by metis
  let ?P = "or_context p (ctx_project ctx)" and ?U = "or_context u (ctx_user ctx)"
  obtain us1 db' us2 db'' where loop: "loop (reserve_one ?P ?U t) (zip deltas uuids) (us1, db') = Inr (us2, db'')"
    and same: "reservations db' = reservations db" and db1: "db1 = flush now us2 db''" and ids: "uuids = map uuid4 [0..<length deltas]"
    by (rule quota_reserve_granted [OF inv u deltas qr]) blast
  have "length uuids = length deltas" by (simp add: ids)
  from reserve_loop_effect [OF loop deltas this] obtain new where new: "reservations db'' = reservations db @ new"
      "map rv_uuid new = uuids" "\<forall>rv \<in> set new. \<not> rv_deleted rv \<and> rv_project rv = ?P \<and> rv_user rv = ?U"
    unfolding same by blast
  have rv1: "reservations db1 = reservations db @ new" using new(1) by (simp add: db1 flush_def)
  have sel: "\<not> selected uuids rv" if "rv \<in> set (reservations db)" for rv using fresh that by (simp add: selected_def)
  have sel_new: "selected uuids rv" if "rv \<in> set new" for rv using new(2,3) that by (auto simp: selected_def)
  have "own_reservations ?P ?U uuids db1" using new(3) sel unfolding own_reservations_def rv1 by auto
  from settle_all_effect [OF inv1 this, of False now'] obtain db2 f where
      db2: "settle_all False uuids ?P ?U now' db1 = Inr db2" "quota_inv db2"
        "reservations db2 = reservations (soft_delete (selected uuids) db1)"
        "usages db2 = map f (usages db1)" "\<forall>row \<in> set (usages db1). same_key (f row) row" by auto
  have live: "filter (\<lambda>rv. \<not> rv_deleted rv) (reservations db2) = filter (\<lambda>rv. \<not> rv_deleted rv) (reservations db)"
  proof -
    have "map (\<lambda>rv. if selected uuids rv then rv\<lparr>rv_deleted := True\<rparr> else rv) (reservations db) = reservations db"
      using sel by (simp add: map_idI)
    moreover have "filter (\<lambda>rv. \<not> rv_deleted rv) (map (\<lambda>rv. if selected uuids rv then rv\<lparr>rv_deleted := True\<rparr> else rv) new) = []"
      using sel_new by (auto simp: filter_empty_conv)
    ultimately show ?thesis by (simp add: db2(3) reservations_soft_delete rv1)
  qed
  have "\<exists>row2 \<in> set (usages db2). same_key row2 row \<and> qu_reserved row2 = qu_reserved row"
    if row: "row \<in> set (usages db)" "\<not> qu_deleted row" for row
  proof -
    obtain row1 where row1: "row1 \<in> set (usages db1)" "same_key row1 row" using driver_reserve_rows [OF inv u deltas r] row(1) by blast
    then have "f row1 \<in> set (usages db2)" "same_key (f row1) row" using db2(4,5) same_key_trans [of "f row1" row1 row] by auto
    then show ?thesis using same_reserved [OF inv db2(2) row(1) _ _ row(2) live] by blast
  qed
  then show ?thesis using db2(1) live by (auto simp: driver_rollback_def reservation_rollback_def)
qed

theorem rolled_back_leaves_no_trace_witness:
  "\<exists>db2. driver_rollback example_context [''a'', ''b''] None None 5 (snd example_reserve) = Inr db2 \<and>
     filter (\<lambda>rv. \<not> rv_deleted rv) (reservations db2) = []"
proof -
  have r: "driver_reserve small_conf no_inventory example_uuid [''cores'', ''instances''] example_context example_resources
       [(''cores'', 2), (''instances'', 1)] NoExpiration None None 0 example_db = (Inr [''a'', ''b''], snd example_reserve)"
    using example_reserve_out by (simp add: example_reserve_def prod_eq_iff)
  from rolled_back_leaves_no_trace [OF example_empty(3) _ _ example_resources_wf r, of 5]
  show ?thesis by (auto simp: or_context_def example_context_def example_empty)
qed


lemma nothing_selected:
  assumes "quota_inv db" and "\<forall>rv \<in> set (reservations db). \<not> selected uuids rv"
  shows "settle_all commit uuids p u now db = Inr db"
proof -
  let ?us = "snd (get_project_user_quota_usages p u db)"
  have "filter (selected uuids) (reservations db) = []" using assms(2) by (simp add: filter_empty_conv)
  moreover have "map (write_row now (map snd ?us)) (usages db) = usages db"
  proof (rule map_idI)
    fix row assume "row \<in> set (usages db)"
    then have "pending ?us row = row" by (rule map_fixed [OF session_start(2) [OF assms(1)]])
    then show "write_row now (map snd ?us) row = row" by (simp add: write_row_pending)
  qed
  moreover have "map (\<lambda>rv. if selected uuids rv then rv\<lparr>rv_deleted := True\<rparr> else rv) (reservations db) = reservations db"
    using assms(2) by (simp add: map_idI)
  ultimately show ?thesis by (simp add: settle_all_def flush_def soft_delete_def)
qed

lemma settled_not_selected:
  "rv \<in> set (reservations (soft_delete (selected uuids) db)) \<Longrightarrow> \<not> selected uuids rv"
  by (auto simp: reservations_soft_delete selected_def split: if_splits)

text \<open>C26: A commit on behalf of the user the reservations were made for succeeds and adds to what each row has in
  use exactly the amounts, positive or negative, of the reservations against it, a roll back adds
  nothing, and either closes the reservations for good: settling them again, either way and at any time,
  changes nothing.\<close>

theorem settled_exactly_once:
  assumes inv: "quota_inv db" and P: "P = or_context p (ctx_project ctx)" and U: "U = or_context u (ctx_user ctx)"
    and own: "own_reservations P U uuids db" and commit: "settled = (if commit then driver_commit else driver_rollback)"
  shows "\<exists>db' f. settled ctx uuids p u now db = Inr db' \<and> usages db' = map f (usages db) \<and>
    (\<forall>row \<in> set (usages db). same_key (f row) row \<and> qu_in_use (f row) = qu_in_use row + (if commit then
       sum_list (map rv_delta (filter (\<lambda>rv. selected uuids rv \<and> rv_usage_id rv = qu_id row) (reservations db))) else 0)) \<and>
    (\<forall>now'. driver_commit ctx uuids p u now' db' = Inr db' \<and> driver_rollback ctx uuids p u now' db' = Inr db')"
proof -
  have settled: "settled ctx uuids p u now db = settle_all commit uuids P U now db"
    by (simp add: commit P U driver_commit_def driver_rollback_def reservation_commit_def reservation_rollback_def)
  from settle_all_effect [OF inv own, of commit now] obtain db' f where
      db': "settle_all commit uuids P U now db = Inr db'" "quota_inv db'" "usages db' = map f (usages db)"
        "reservations db' = reservations (soft_delete (selected uuids) db)"
      and f: "\<forall>row \<in> set (usages db). same_key (f row) row \<and>
        qu_in_use (f row) = qu_in_use row + (if commit then moved (filter (selected uuids) (reservations db)) (qu_id row) else 0)"
    by blast
  have "moved (filter (selected uuids) rvs) i =
      sum_list (map rv_delta (filter (\<lambda>rv. selected uuids rv \<and> rv_usage_id rv = i) rvs))" for rvs i
    unfolding moved_def by (induction rvs) auto
  moreover have "settle_all c uuids P U now' db' = Inr db'" for c now'
    by (rule nothing_selected [OF db'(2)]) (use settled_not_selected db'(4) in metis)
  ultimately show ?thesis
    using db'(1,3) f settled
    by (intro exI [of _ db'] exI [of _ f])
      (simp add: P [symmetric] U [symmetric] driver_commit_def driver_rollback_def reservation_commit_def reservation_rollback_def)
qed

theorem settled_exactly_once_witness:
  "\<exists>db'. driver_commit example_context [''a'', ''b''] None None 5 (snd example_reserve) = Inr db' \<and>
     driver_rollback example_context [''a'', ''b''] None None 6 db' = Inr db'"
proof -
  have inv: "quota_inv (snd example_reserve)" by (rule quota_step_inv [OF example_empty(3) example_step])
  have "list_all (\<lambda>rv. rv_project rv = Some ''p'' \<and> rv_user rv = Some ''u'') (reservations (snd example_reserve))" by code_simp
  then have own: "own_reservations (Some ''p'') (Some ''u'') [''a'', ''b''] (snd example_reserve)"
    by (auto simp: own_reservations_def list_all_iff)
  have ids: "Some ''p'' = or_context None (ctx_project example_context)" "Some ''u'' = or_context None (ctx_user example_context)"
    by (simp_all add: or_context_def example_context_def)
  have "driver_commit = (if True then driver_commit else driver_rollback)" by simp
  from settled_exactly_once [OF inv ids own this, of 5] show ?thesis by blast
qed

section \<open>Where the books go wrong\<close>

text \<open>
  The age of a row is read from \<open>timedelta.seconds\<close>, which is less than a day: a \<open>max_age\<close> of a
  day or more never leads to a refresh.
\<close>

lemma old_usage_never_refreshed:
  "86400 \<le> max_age \<Longrightarrow> 0 \<le> qu_in_use row \<Longrightarrow> qu_until_refresh row = None \<Longrightarrow>
   \<not> fst (is_quota_refresh_needed max_age now row)"
  using pos_mod_bound [of 86400 "(now - qu_updated_at row) div 1000000"]
  by (auto simp: is_quota_refresh_needed_def timedelta_seconds_def)

definition usage_row :: "nat \<Rightarrow> string option \<Rightarrow> string \<Rightarrow> int \<Rightarrow> int \<Rightarrow> quota_usage" where
  "usage_row i u r in_use reserved =
     \<lparr>qu_id = i, qu_project = Some ''p'', qu_user = u, qu_resource = r, qu_in_use = in_use, qu_reserved = reserved,
      qu_until_refresh = None, qu_updated_at = 0, qu_deleted = False\<rparr>"

definition quota_db_of :: "quota_row list \<Rightarrow> quota_usage list \<Rightarrow> reservation list \<Rightarrow> quota_db" where
  "quota_db_of limits rows rvs =
     \<lparr>quota_rows = limits, user_quota_rows = [], class_rows = [], usages = rows, reservations = rvs\<rparr>"

text \<open>
  The usage of the project is summed before the rows are refreshed. Here another user of the
  project has had his usage reset, which stores -1 for the 8 cores he uses: the project seems to use
  none, and a request for 5 of its 10 cores is granted to the second user.
\<close>

definition ten_cores :: "quota_row list" where
  "ten_cores = [\<lparr>qr_project = Some ''p'', qr_resource = ''cores'', qr_limit = Some 10, qr_deleted = False\<rparr>]"

definition eight_in_use :: inventory where
  "eight_in_use = no_inventory\<lparr>iv_instances :=
     [\<lparr>in_uuid = ''i'', in_project = Some ''p'', in_user = Some ''w'', in_vcpus = Some 8, in_memory_mb = Some 1\<rparr>]\<rparr>"

lemma reset_hides_project_usage:
  "bind (driver_usage_reset (example_context\<lparr>ctx_user := Some ''w''\<rparr>) [''cores''] 1
       (quota_db_of ten_cores [usage_row 1 (Some ''w'') ''cores'' 8 0] []))
     (\<lambda>db. fst (driver_reserve small_conf eight_in_use example_uuid [''cores''] example_context example_resources
        [(''cores'', 5)] NoExpiration None None 2 db)) = Inr [''a'']"
  by code_simp

lemma project_usage_counted:
  "fst (driver_reserve small_conf eight_in_use example_uuid [''cores''] example_context example_resources
      [(''cores'', 5)] NoExpiration None None 2 (quota_db_of ten_cores [usage_row 1 (Some ''w'') ''cores'' 8 0] [])) = Inl OverQuota"
  by code_simp

text \<open>
  Deleting the quotas of a user deletes his reservations, also those for resources the project
  counts as a whole; their row belongs to no user, stays, and keeps the amount reserved for ever.
\<close>

definition floating_reservation :: reservation where
  "floating_reservation =
     \<lparr>rv_uuid = ''a'', rv_usage_id = 1, rv_project = Some ''p'', rv_user = Some ''u'', rv_resource = ''floating_ips'',
      rv_delta = 3, rv_expire = 100, rv_deleted = False\<rparr>"

lemma destroyed_user_leaks_reserved:
  "let db = quota_db_of [] [usage_row 1 None ''floating_ips'' 0 3] [floating_reservation];
       db' = quota_destroy_all_by_project_and_user (Some ''p'') (Some ''u'') db
   in quota_inv db \<and> \<not> quota_inv db' \<and>
      bind (reservation_expire 200 db') (\<lambda>db. Inr (map qu_reserved (usages db))) = Inr [3]"
proof -
  let ?db = "quota_db_of [] [usage_row 1 None ''floating_ips'' 0 3] [floating_reservation]"
  let ?db' = "quota_destroy_all_by_project_and_user (Some ''p'') (Some ''u'') ?db"
  have "quota_inv ?db"
    by (simp add: quota_inv_def quota_db_of_def usage_row_def floating_reservation_def usage_inv_def refs_ok_def refers_to_def
        visible_def held_def hold_def PER_PROJECT_QUOTAS_def)
  moreover have "\<not> quota_inv ?db'"
    by (simp add: quota_inv_def quota_db_of_def usage_row_def floating_reservation_def usage_inv_def held_def hold_def
        quota_destroy_all_by_project_and_user_def delete_user_quotas_def soft_delete_def PER_PROJECT_QUOTAS_def)
  moreover have "bind (reservation_expire 200 ?db') (\<lambda>db. Inr (map qu_reserved (usages db))) = Inr [3]" by code_simp
  ultimately show ?thesis by (simp add: Let_def)
qed

text \<open>
  A commit looks for the rows of the user it is called for. For another user it takes the amount from
  a row that never had it reserved; if there is no such row, the \<open>KeyError\<close> is logged and forgotten.
\<close>

lemma foreign_commit_unbalances:
  "bind (driver_commit (example_context\<lparr>ctx_user := Some ''w''\<rparr>) [''a''] None None 1
       (quota_db_of [] [usage_row 1 (Some ''u'') ''cores'' 0 2, usage_row 2 (Some ''w'') ''cores'' 0 0]
          [floating_reservation\<lparr>rv_resource := ''cores'', rv_delta := 2\<rparr>]))
     (\<lambda>db. Inr (map (\<lambda>row. (qu_in_use row, qu_reserved row)) (usages db))) = Inr [(0, 2), (2, -2)]"
  by code_simp

end
