(* ===== verification/ScalingBatches.thy ===== *)
theory ScalingBatches
  imports Prelude PyString
begin

text \<open>
  The arithmetic of scaling groups (heat/scaling/scalingutil.py, rolling_update.py, template.py): the new
  capacity after an adjustment, the batches of a rolling update for both kinds of groups, and the
  definitions of the members after a batch. The lists of batches are computed by loops that may
  not end; \<open>None\<close> is a loop that runs forever.
\<close>

section \<open>The new capacity\<close>

text \<open>A number of a template: an integer, or a float, taken as an exact rational.\<close>

datatype tmpl_number = IntNum int | FloatNum rat

fun number_val :: "tmpl_number \<Rightarrow> rat" where
  "number_val (IntNum i) = of_int i"
| "number_val (FloatNum r) = r"

fun number_add :: "int \<Rightarrow> tmpl_number \<Rightarrow> tmpl_number" where
  "number_add c (IntNum i) = IntNum (c + i)"
| "number_add c (FloatNum r) = FloatNum (of_int c + r)"

definition EXACT_TYPES :: "string list" where
  "EXACT_TYPES = [''exact_capacity'', ''ExactCapacity'']"

definition CHANGE_TYPES :: "string list" where
  "CHANGE_TYPES = [''change_in_capacity'', ''ChangeInCapacity'']"

definition get_minimum_adjustment :: "int \<Rightarrow> int option \<Rightarrow> int" where
  "get_minimum_adjustment adjustment min_adjustment_step =
     (case min_adjustment_step of
        None \<Rightarrow> adjustment
      | Some step \<Rightarrow>
          if step \<noteq> 0 \<and> step > \<bar>adjustment\<bar> then (if adjustment > 0 then step else - step) else adjustment)"

definition round_adjustment :: "rat \<Rightarrow> int" where
  "round_adjustment delta =
     (if \<bar>delta\<bar> < 1 then (if delta > 0 then \<lceil>delta\<rceil> else \<lfloor>delta\<rfloor>)
      else (if delta > 0 then \<lfloor>delta\<rfloor> else \<lceil>delta\<rceil>))"

definition calculate_new_capacity :: "int \<Rightarrow> tmpl_number \<Rightarrow> string \<Rightarrow> int option \<Rightarrow> int \<Rightarrow> int \<Rightarrow> tmpl_number" where
  "calculate_new_capacity current adjustment adjustment_type min_adjustment_step minimum maximum =
     (let new_capacity =
        (if adjustment_type \<in> set CHANGE_TYPES then number_add current adjustment
         else if adjustment_type \<in> set EXACT_TYPES then adjustment
         else IntNum (current + get_minimum_adjustment
           (round_adjustment (of_int current * number_val adjustment / 100)) min_adjustment_step))
      in if number_val new_capacity > of_int maximum then IntNum maximum
         else if number_val new_capacity < of_int minimum then IntNum minimum
         else new_capacity)"

lemma capacity_in_bounds:
  assumes "minimum \<le> maximum"
  shows "of_int minimum \<le> number_val (calculate_new_capacity c adj ty step minimum maximum) \<and>
    number_val (calculate_new_capacity c adj ty step minimum maximum) \<le> of_int maximum"
  using assms by (simp add: calculate_new_capacity_def Let_def)

lemma round_adjustment_sign:
  "0 < delta \<Longrightarrow> 1 \<le> round_adjustment delta" "delta < 0 \<Longrightarrow> round_adjustment delta \<le> -1"
  "round_adjustment 0 = 0"
  by (auto simp: round_adjustment_def) linarith+

lemma round_adjustment_near: "\<bar>of_int (round_adjustment delta) - delta\<bar> < 1"
proof -
  have "\<bar>of_int (round_adjustment delta) - delta\<bar> < 1" if "\<not> \<bar>delta\<bar> < 1"
    using that by (auto simp: round_adjustment_def) linarith+
  moreover have "\<bar>of_int (round_adjustment delta) - delta\<bar> < 1" if "\<bar>delta\<bar> < 1"
    using that by (auto simp: round_adjustment_def) linarith+
  ultimately show ?thesis by blast
qed

text \<open>
  A positive percentage of a group that is not empty grows it by at least one member and by at least the
  smallest step, up to the maximum.
\<close>

lemma percent_increase:
  assumes "0 < current" and "0 < number_val adj" and "ty \<notin> set CHANGE_TYPES" "ty \<notin> set EXACT_TYPES"
    and "current < maximum" "minimum \<le> current"
  shows "\<exists>n. calculate_new_capacity current adj ty step minimum maximum = IntNum n \<and> current < n \<and> n \<le> maximum \<and>
    (\<forall>s. step = Some s \<longrightarrow> min maximum (current + s) \<le> n)"
proof -
  have "0 < of_int current * number_val adj / 100" using assms(1,2) by simp
  note pos = round_adjustment_sign(1) [OF this]
  let ?r = "round_adjustment (of_int current * number_val adj / 100)"
  let ?a = "get_minimum_adjustment ?r step"
  have a: "1 \<le> ?a" "\<forall>s. step = Some s \<longrightarrow> s \<le> ?a"
    using pos by (auto simp: get_minimum_adjustment_def split: option.splits)
  show ?thesis
  proof (cases "current + ?a > maximum")
    case True
    then show ?thesis using assms(3-6) by (simp add: calculate_new_capacity_def Let_def flip: of_int_add)
  next
    case False
    then have "calculate_new_capacity current adj ty step minimum maximum = IntNum (current + ?a)"
      using assms(3-6) a(1) by (simp add: calculate_new_capacity_def Let_def flip: of_int_add)
    then show ?thesis using False a by auto
  qed
qed

text \<open>
  The smallest step takes an adjustment that rounds to zero for a decrease: a percentage of zero, or any
  percentage of an empty group, shrinks the group.
\<close>

lemma zero_percent_shrinks:
  "calculate_new_capacity 5 (IntNum 0) ''percent_change_in_capacity'' (Some 2) 1 10 = IntNum 3"
  by code_simp

section \<open>Batches\<close>

definition needs_update :: "int \<Rightarrow> int \<Rightarrow> int \<Rightarrow> bool" where
  "needs_update targ_capacity curr_capacity num_up_to_date \<longleftrightarrow>
     \<not> (num_up_to_date \<ge> curr_capacity \<and> curr_capacity = targ_capacity)"

definition next_batch :: "int \<Rightarrow> int \<Rightarrow> int \<Rightarrow> int \<Rightarrow> int \<Rightarrow> (int \<times> int) result" where
  "next_batch targ_capacity curr_capacity num_up_to_date batch_size min_in_service =
     (if num_up_to_date \<le> curr_capacity then
        let efft_min_sz = min min_in_service (min targ_capacity curr_capacity);
            efft_bat_sz = min batch_size (max (targ_capacity - num_up_to_date) 0);
            new_capacity = efft_bat_sz + max (min curr_capacity (targ_capacity - efft_bat_sz)) efft_min_sz
        in Inr (new_capacity, efft_bat_sz)
      else Inl AssertionError)"

text \<open>\<open>InstanceGroup._get_batches\<close>, and \<open>ResourceGroup._get_batches\<close>, which does not count surplus members.\<close>

partial_function (option) instance_batches :: "int \<Rightarrow> int \<Rightarrow> int \<Rightarrow> int \<Rightarrow> int \<Rightarrow> (int \<times> int) list result option" where
  "instance_batches capacity batch_size min_in_service efft_capacity updated =
     (if needs_update capacity efft_capacity updated then
        (case next_batch capacity efft_capacity updated batch_size min_in_service of
           Inl e \<Rightarrow> Some (Inl e)
         | Inr batch \<Rightarrow>
             Option.bind (instance_batches capacity batch_size min_in_service (fst batch) (updated + snd batch))
               (\<lambda>r. Some (bind r (\<lambda>batches. Inr (batch # batches)))))
      else Some (Inr []))"

partial_function (option) resource_batches :: "int \<Rightarrow> int \<Rightarrow> int \<Rightarrow> int \<Rightarrow> int \<Rightarrow> (int \<times> int) list result option" where
  "resource_batches targ_cap batch_size min_in_service curr_cap updated =
     (if needs_update targ_cap curr_cap updated then
        (case next_batch targ_cap curr_cap updated batch_size min_in_service of
           Inl e \<Rightarrow> Some (Inl e)
         | Inr batch \<Rightarrow>
             Option.bind (resource_batches targ_cap batch_size min_in_service (fst batch)
                 (updated + (snd batch - max (fst batch - max curr_cap targ_cap) 0)))
               (\<lambda>r. Some (bind r (\<lambda>batches. Inr (batch # batches)))))
      else Some (Inr []))"

declare instance_batches.simps [code] resource_batches.simps [code]

definition get_instance_batches :: "int \<Rightarrow> int \<Rightarrow> int \<Rightarrow> (int \<times> int) list result option" where
  "get_instance_batches capacity batch_size min_in_service =
     instance_batches capacity batch_size min_in_service capacity 0"

definition get_resource_batches :: "int \<Rightarrow> int \<Rightarrow> int \<Rightarrow> int \<Rightarrow> (int \<times> int) list result option" where
  "get_resource_batches targ_cap curr_cap batch_size min_in_service =
     resource_batches targ_cap batch_size min_in_service curr_cap 0"

lemma example_batches:
  "get_instance_batches 3 1 3 = Some (Inr [(4, 1), (4, 1), (4, 1), (3, 0)])"
  "get_resource_batches 3 3 1 3 = Some (Inr [(4, 1), (4, 1), (4, 1), (4, 1), (3, 0)])"
  "get_resource_batches 4 0 2 0 = Some (Inr [(2, 2), (4, 2)])"
  by code_simp+

section \<open>The loops end\<close>

text \<open>What the batches of a terminating run look like, from the capacity and the number of updated members on.\<close>

fun instance_plan :: "int \<Rightarrow> int \<Rightarrow> int \<Rightarrow> int \<Rightarrow> int \<Rightarrow> (int \<times> int) list \<Rightarrow> bool" where
  "instance_plan cap bs m efft upd [] \<longleftrightarrow> efft = cap \<and> upd = cap"
| "instance_plan cap bs m efft upd ((c, n) # batches) \<longleftrightarrow>
     (upd < cap \<or> efft \<noteq> cap) \<and> n = min bs (cap - upd) \<and> c = max cap (n + min m cap) \<and> instance_plan cap bs m c (upd + n) batches"

lemma instance_batches_plan:
  assumes "1 \<le> bs" "0 \<le> upd" "upd \<le> cap" "cap \<le> efft"
  shows "\<exists>batches. instance_batches cap bs m efft upd = Some (Inr batches) \<and> instance_plan cap bs m efft upd batches"
  using assms(2-4)
proof (induction "2 * nat (cap - upd) + (if efft = cap then 0 else 1)" arbitrary: efft upd rule: less_induct)
  case less
  show ?case
  proof (cases "needs_update cap efft upd")
    case False
    then show ?thesis using less.prems by (intro exI [of _ "[]"]) (auto simp: instance_batches.simps needs_update_def)
  next
    case True
    let ?n = "min bs (cap - upd)" and ?c = "max cap (min bs (cap - upd) + min m cap)"
    have "min m (min cap efft) = min m cap" "min efft (cap - ?n) = cap - ?n" "max (cap - upd) 0 = cap - upd" "upd \<le> efft"
      using less.prems assms(1) by auto
    then have nb: "next_batch cap efft upd bs m = Inr (?c, ?n)"
      by (simp add: next_batch_def Let_def max_add_distrib_right)
    have "2 * nat (cap - (upd + ?n)) + (if ?c = cap then 0 else 1) < 2 * nat (cap - upd) + (if efft = cap then 0 else 1)"
      using True less.prems assms(1) by (cases "upd = cap") (auto simp: needs_update_def)
    moreover have "0 \<le> upd + ?n" "upd + ?n \<le> cap" "cap \<le> ?c" using less.prems assms(1) by auto
    ultimately obtain batches where
      "instance_batches cap bs m ?c (upd + ?n) = Some (Inr batches)" "instance_plan cap bs m ?c (upd + ?n) batches"
      using less.hyps by blast
    moreover have "upd < cap \<or> efft \<noteq> cap" using True less.prems by (auto simp: needs_update_def)
    ultimately show ?thesis using True nb
      by (intro exI [of _ "(?c, ?n) # batches"]) (subst instance_batches.simps, simp)
  qed
qed

lemma instance_plan_length:
  "instance_plan cap bs m efft upd batches \<Longrightarrow> 1 \<le> bs \<Longrightarrow> upd \<le> cap \<Longrightarrow>
    int (length batches) \<le> cap - upd + (if upd = cap \<and> efft = cap then 0 else 1)"
proof (induction cap bs m efft upd batches rule: instance_plan.induct)
  case (2 cap bs m efft upd c n batches)
  have n: "n = min bs (cap - upd)" and c: "c = max cap (n + min m cap)" and more: "upd < cap \<or> efft \<noteq> cap"
    and rest: "instance_plan cap bs m c (upd + n) batches" using 2(2) unfolding instance_plan.simps by blast+
  have IH: "int (length batches) \<le> cap - (upd + n) + (if upd + n = cap \<and> c = cap then 0 else 1)"
    by (rule 2(1)) (use rest 2(3,4) n in auto)
  show ?case
  proof (cases "upd = cap")
    case True
    then have "n = 0" "c = cap" "efft \<noteq> cap" using n c more 2(3) by simp_all
    then show ?thesis using IH True by simp
  next
    case False
    then have "1 \<le> n" using n 2(3,4) by simp
    then show ?thesis using IH False by (simp split: if_splits)
  qed
qed simp

fun resource_plan :: "int \<Rightarrow> int \<Rightarrow> int \<Rightarrow> int \<Rightarrow> int \<Rightarrow> (int \<times> int) list \<Rightarrow> bool" where
  "resource_plan targ bs m cur upd [] \<longleftrightarrow> cur = targ \<and> upd = targ"
| "resource_plan targ bs m cur upd ((c, n) # batches) \<longleftrightarrow>
     upd \<le> cur \<and> n = min bs (targ - upd) \<and> c = n + max (min cur (targ - n)) (min m (min targ cur)) \<and>
     resource_plan targ bs m c (upd + (n - max (c - max cur targ) 0)) batches"

lemma resource_batches_plan:
  assumes "1 \<le> bs" "0 \<le> upd" "upd \<le> targ" "upd \<le> cur"
  shows "\<exists>batches. resource_batches targ bs m cur upd = Some (Inr batches) \<and> resource_plan targ bs m cur upd batches"
  using assms(2-4)
proof (induction "4 * nat (targ - upd) + (if targ + min bs (targ - upd) \<le> cur then 0 else 1) +
    (if upd = targ \<and> cur \<noteq> targ then 1 else 0)" arbitrary: cur upd rule: less_induct)
  case less
  show ?case
  proof (cases "needs_update targ cur upd")
    case False
    then show ?thesis using less.prems by (intro exI [of _ "[]"]) (auto simp: resource_batches.simps needs_update_def)
  next
    case True
    define n where "n = min bs (targ - upd)"
    define c where "c = n + max (min cur (targ - n)) (min m (min targ cur))"
    define s where "s = max (c - max cur targ) 0"
    have n: "0 \<le> n" "n \<le> bs" "n \<le> targ - upd" using assms(1) less.prems by (auto simp: n_def)
    have nb: "next_batch targ cur upd bs m = Inr (c, n)"
      using less.prems by (simp add: next_batch_def Let_def c_def n_def)
    have "max (min cur (targ - n)) (min m (min targ cur)) \<le> cur" by auto
    moreover have "upd \<le> max (min cur (targ - n)) (min m (min targ cur))" using n(3) less.prems by auto
    ultimately have c: "c \<le> n + cur" "n + upd \<le> c" by (simp_all add: c_def)
    moreover have "c - max cur targ = s" if "0 < s" using that by (auto simp: s_def)
    ultimately have s: "0 \<le> s" "s \<le> n" "s = n \<Longrightarrow> n = 0 \<or> c = n + cur \<and> targ \<le> cur"
      using n(1) by (simp add: s_def, fastforce simp: s_def, linarith)
    have keep: "0 \<le> upd + (n - s)" "upd + (n - s) \<le> targ" "upd + (n - s) \<le> c" using n c s less.prems by simp_all
    have "4 * nat (targ - (upd + (n - s))) + (if targ + min bs (targ - (upd + (n - s))) \<le> c then 0 else 1) +
        (if upd + (n - s) = targ \<and> c \<noteq> targ then 1 else 0)
      < 4 * nat (targ - upd) + (if targ + min bs (targ - upd) \<le> cur then 0 else 1) + (if upd = targ \<and> cur \<noteq> targ then 1 else (0::nat))"
    proof (cases "upd = targ")
      case True
      then have "targ < cur" using \<open>needs_update targ cur upd\<close> less.prems by (auto simp: needs_update_def)
      moreover have "n = 0" "s = 0" using n s True by simp_all
      moreover from this have "c = targ" using \<open>targ < cur\<close> by (simp add: c_def)
      ultimately show ?thesis using True assms(1) by simp
    next
      case False
      then have pos: "1 \<le> n" using assms(1) less.prems by (simp add: n_def)
      show ?thesis
      proof (cases "s = n")
        case True
        then have "c = n + cur" "targ \<le> cur" using s pos by auto
        moreover have "\<not> targ + n \<le> cur"
        proof
          assume "targ + n \<le> cur"
          then have "max (min cur (targ - n)) (min m (min targ cur)) \<le> targ" using n by auto
          then show False using \<open>c = n + cur\<close> \<open>targ + n \<le> cur\<close> pos by (simp add: c_def)
        qed
        ultimately show ?thesis using True False by (simp flip: n_def)
      next
        case False
        then have less: "nat (targ - (upd + (n - s))) < nat (targ - upd)" using s n pos by linarith
        have weigh: "4 * a + p + q < 4 * b + p' + q'" if "a < b" "p \<le> 1" "q \<le> 1" for a b p q p' q' :: nat
          using that by linarith
        show ?thesis by (rule weigh) (use less in simp_all)
      qed
    qed
    from less.hyps [OF this keep] obtain batches where
      "resource_batches targ bs m c (upd + (n - s)) = Some (Inr batches)" "resource_plan targ bs m c (upd + (n - s)) batches" by blast
    then show ?thesis using True nb less.prems
      by (intro exI [of _ "(c, n) # batches"]) (subst resource_batches.simps, simp add: s_def n_def c_def)
  qed
qed

text \<open>
  Without a positive batch size the loop of an instance group runs forever: no batch ever takes a
  member to the new definition. The schema of the group does not rule such a size out.
\<close>

lemma instance_batches_stuck:
  assumes "instance_batches cap bs m efft upd = Some r" and "bs \<le> 0"
  shows "\<not> (upd < cap \<and> upd \<le> efft)"
proof -
  have "bs \<le> 0 \<longrightarrow> \<not> (upd < cap \<and> upd \<le> efft)"
  proof (rule instance_batches.raw_induct [OF _ assms(1)], intro impI notI)
    fix f and cap bs m efft upd :: int and r :: "(int \<times> int) list result"
    assume IH: "\<And>cap bs m efft upd r. f cap bs m efft upd = Some r \<Longrightarrow> bs \<le> 0 \<longrightarrow> \<not> (upd < cap \<and> upd \<le> efft)"
      and body: "(if needs_update cap efft upd then
          (case next_batch cap efft upd bs m of
             Inl e \<Rightarrow> Some (Inl e)
           | Inr batch \<Rightarrow> Option.bind (f cap bs m (fst batch) (upd + snd batch))
               (\<lambda>r. Some (bind r (\<lambda>batches. Inr (batch # batches)))))
        else Some (Inr [])) = Some r" and bs: "bs \<le> 0" and h: "upd < cap \<and> upd \<le> efft"
    let ?c = "bs + max (min efft (cap - bs)) (min m (min cap efft))"
    have "needs_update cap efft upd" using h by (auto simp: needs_update_def)
    moreover have "next_batch cap efft upd bs m = Inr (?c, bs)" using h bs by (simp add: next_batch_def Let_def)
    ultimately obtain r' where "f cap bs m ?c (upd + bs) = Some r'" using body by (auto split: Option.bind_splits)
    then have "\<not> (upd + bs < cap \<and> upd + bs \<le> ?c)" using IH bs by blast
    moreover have "upd \<le> max (min efft (cap - bs)) (min m (min cap efft))" using h bs by auto
    ultimately show False using h bs by simp
  qed
  then show ?thesis using assms(2) by blast
qed

lemma empty_batches_never_end: "0 < capacity \<Longrightarrow> bs \<le> 0 \<Longrightarrow> get_instance_batches capacity bs m = None"
  using instance_batches_stuck [of capacity bs m capacity 0] by (cases "get_instance_batches capacity bs m") (auto simp: get_instance_batches_def)

section \<open>The definitions of the members after a batch\<close>

text \<open>
  \<open>xs[-n:]\<close>: the last \<open>n\<close> elements, or all of them; for \<open>n = 0\<close> the whole list, for a negative
  \<open>n\<close> all but the first elements.
\<close>

definition slice_last :: "int \<Rightarrow> 'a list \<Rightarrow> 'a list" where
  "slice_last n xs = (if n > 0 then drop (length xs - nat n) xs else drop (nat (- n)) xs)"

text \<open>
  \<open>member_definitions\<close>: the existing members are kept, the first ones that differ from the new
  definition take it as long as \<open>num_replace\<close> lasts, and new members fill up. The generator of
  new names is the list of the names it yields, \<open>StopIteration\<close> when they run out.
\<close>

fun old_members :: "(string \<Rightarrow> 'n \<Rightarrow> 'd) \<Rightarrow> 'n \<Rightarrow> int \<Rightarrow> (string \<times> 'd) list \<Rightarrow> (string \<times> 'd) list" where
  "old_members customise new_definition num_replace [] = []"
| "old_members customise new_definition num_replace ((old_name, old_definition) # rest) =
     (let custom_definition = customise old_name new_definition
      in if old_definition \<noteq> custom_definition \<and> num_replace > 0
         then (old_name, custom_definition) # old_members customise new_definition (num_replace - 1) rest
         else (old_name, old_definition) # old_members customise new_definition num_replace rest)"

definition member_definitions ::
    "(string \<times> 'd) list \<Rightarrow> 'n \<Rightarrow> int \<Rightarrow> int \<Rightarrow> string list \<Rightarrow> (string \<Rightarrow> 'n \<Rightarrow> 'd) \<Rightarrow> (string \<times> 'd) list result" where
  "member_definitions old_resources new_definition num_resources num_new new_ids customise =
     (let old_resources = slice_last num_resources old_resources;
          num_create = num_resources - int (length old_resources);
          num_replace = num_new - num_create
      in if nat num_create \<le> length new_ids
         then Inr (take (nat num_resources) (old_members customise new_definition num_replace old_resources) @
                   map (\<lambda>new_name. (new_name, customise new_name new_definition)) (take (nat num_create) new_ids))
         else Inl StopIteration)"

text \<open>A template is a dictionary of definitions; a later definition for a name replaces an earlier one.\<close>

definition make_template :: "(string \<times> 'd) list \<Rightarrow> (string, 'd) dict" where
  "make_template resource_definitions = fold (\<lambda>(name, defn). AList.update name defn) resource_definitions []"

lemma length_old_members [simp]: "length (old_members cu new k old) = length old"
  by (induction cu new k old rule: old_members.induct) (auto simp: Let_def)

lemma keys_old_members [simp]: "keys (old_members cu new k old) = keys old"
  by (induction cu new k old rule: old_members.induct) (auto simp: Let_def)

lemma old_members_none [simp]: "k \<le> 0 \<Longrightarrow> old_members cu new k old = old"
  by (induction cu new k old rule: old_members.induct) (auto simp: Let_def)

text \<open>Which members are up to date, and how many a batch leaves as they are.\<close>

abbreviation up_to_date :: "(string \<Rightarrow> 'n \<Rightarrow> 'd) \<Rightarrow> 'n \<Rightarrow> string \<times> 'd \<Rightarrow> bool" where
  "up_to_date customise new_definition item \<equiv> snd item = customise (fst item) new_definition"

lemma map_of_make_template: "map_of (make_template ds) k = map_of (rev ds) k"
  unfolding make_template_def
proof -
  have "map_of (fold (\<lambda>(name, defn). AList.update name defn) ds acc) k = map_of (rev ds @ acc) k" for acc
    by (induction ds arbitrary: acc) (auto simp: map_of_append map_add_def split: option.splits)
  then show "map_of (fold (\<lambda>(name, defn). AList.update name defn) ds []) k = map_of (rev ds) k" by simp
qed

lemma update_new: "k \<notin> fst ` set d \<Longrightarrow> AList.update k v d = d @ [(k, v)]"
  by (induction d) auto

lemma make_template_distinct: "wf_dict ds \<Longrightarrow> make_template ds = ds"
proof -
  have "fold (\<lambda>(name, defn). AList.update name defn) ds acc = acc @ ds" if "wf_dict (acc @ ds)" for acc
    using that
  proof (induction ds arbitrary: acc)
    case (Cons x ds)
    then have "AList.update (fst x) (snd x) acc = acc @ [x]" by (subst update_new) auto
    then show ?case using Cons by (simp add: case_prod_beta)
  qed simp
  from this [of "[]"] show "wf_dict ds \<Longrightarrow> make_template ds = ds" by (simp add: make_template_def)
qed


text \<open>
  What a batch does to the definitions, in the order in which members are replaced: the first ones are
  dropped when the group shrinks, of the others up to \<open>num_new\<close> minus the number of new
  members take the new definition, and those that have it already are untouched.
\<close>

lemma slice_last_drop: "0 \<le> n \<Longrightarrow> \<exists>p. xs = p @ slice_last n xs \<and> (0 < n \<longrightarrow> length (slice_last n xs) = min (nat n) (length xs))"
  by (intro exI [of _ "take (length xs - (if n > 0 then nat n else length xs)) xs"]) (auto simp: slice_last_def)

lemma old_members_zip:
  "list_all2 (\<lambda>x y. fst y = fst x \<and> (y = x \<or> \<not> up_to_date cu new x \<and> up_to_date cu new y)) old (old_members cu new k old)"
  by (induction cu new k old rule: old_members.induct) (auto simp: Let_def)

lemma old_members_changed:
  assumes "0 \<le> k"
  shows "int (length (filter (\<lambda>(x, y). y \<noteq> x) (zip old (old_members cu new k old)))) =
    min k (int (length (filter (\<lambda>x. \<not> up_to_date cu new x) old)))"
  using assms by (induction cu new k old rule: old_members.induct) (auto simp: Let_def)

end
