(* ===== verification/ScalingGroup.thy ===== *)
theory ScalingGroup
  imports ScalingBatches "HOL-Library.List_Lexorder" "HOL-Library.Char_ord"
begin

text \<open>
  Groups of instances (heat/engine/resources/openstack/heat/instance_group.py, heat/common/grouputils.py,
  heat/scaling/lbutils.py): the members of the nested stack, the templates the group builds from them,
  resizing, and the rolling update with its load balancers. An update of the nested stack
  (heat/engine/update.py) is taken as one that completes; what the resource plug-ins and the
  database decide in it is the record \<open>engine\<close>.
\<close>

section \<open>The nested stack\<close>

record 'd member =
  m_name :: string
  m_created :: int
  m_failed :: bool
  m_defn :: 'd
  m_ref :: string

text \<open>\<open>nested()\<close> is false when there is no nested stack or it is empty.\<close>

definition get_size :: "'d member list \<Rightarrow> bool \<Rightarrow> int" where
  "get_size nested include_failed = int (length (filter (\<lambda>r. include_failed \<or> \<not> m_failed r) nested))"

abbreviation age_key :: "'d member \<Rightarrow> int \<times> string" where
  "age_key r \<equiv> (m_created r, m_name r)"

definition get_members :: "'d member list \<Rightarrow> 'd member list" where
  "get_members nested = sort_key age_key (filter (\<lambda>r. \<not> m_failed r) nested)"

definition get_member_refids :: "'d member list \<Rightarrow> string list \<Rightarrow> string list" where
  "get_member_refids nested exclude = filter (\<lambda>r. r \<notin> set exclude) (map m_ref (get_members nested))"

definition get_member_names :: "'d member list \<Rightarrow> string list" where
  "get_member_names nested = map m_name (get_members nested)"

definition get_member_definitions :: "'d member list \<Rightarrow> (string \<times> 'd) list" where
  "get_member_definitions nested = map (\<lambda>r. (m_name r, m_defn r)) (get_members nested)"

text \<open>\<open>get_resource\<close>: by position among the members, or by name; \<open>None\<close> without a nested stack.\<close>

definition get_resource_by_index :: "'d member list \<Rightarrow> string \<Rightarrow> 'd member option result" where
  "get_resource_by_index nested resource_name =
     (if nested = [] then Inr None
      else bind (py_int resource_name) (\<lambda>i.
        let ms = get_members nested; n = int (length ms) in
        if 0 \<le> i \<and> i < n then Inr (Some (ms ! nat i))
        else if - n \<le> i \<and> i < 0 then Inr (Some (ms ! nat (n + i)))
        else Inl InvalidTemplateAttribute))"

definition get_resource_by_name :: "'d member list \<Rightarrow> string \<Rightarrow> 'd member option result" where
  "get_resource_by_name nested resource_name =
     (if nested = [] then Inr None
      else case find (\<lambda>r. m_name r = resource_name) nested of
             None \<Rightarrow> Inl InvalidTemplateAttribute | Some r \<Rightarrow> Inr (Some r))"

text \<open>
  What is decided outside the group, per update of the nested stack: whether the change of a
  definition replaces the resource, when a new resource is created and its reference, and the
  random names for new members.
\<close>

record 'd engine =
  replaces :: "nat \<Rightarrow> string \<Rightarrow> 'd \<Rightarrow> 'd \<Rightarrow> bool"
  created_at :: "nat \<Rightarrow> string \<Rightarrow> int"
  new_ref :: "nat \<Rightarrow> string \<Rightarrow> string"
  new_ids :: "nat \<Rightarrow> string list"

definition create_resource :: "'d engine \<Rightarrow> nat \<Rightarrow> string \<Rightarrow> 'd \<Rightarrow> 'd member" where
  "create_resource eng k name defn =
     \<lparr>m_name = name, m_created = created_at eng k name, m_failed = False, m_defn = defn, m_ref = new_ref eng k name\<rparr>"

definition update_resource :: "'d engine \<Rightarrow> nat \<Rightarrow> 'd member \<Rightarrow> 'd \<Rightarrow> 'd member" where
  "update_resource eng k r after =
     (if m_failed r then create_resource eng k (m_name r) after
      else if m_defn r = after then r
      else if replaces eng k (m_name r) (m_defn r) after then create_resource eng k (m_name r) after
      else r\<lparr>m_defn := after\<rparr>)"

definition update_nested :: "'d engine \<Rightarrow> nat \<Rightarrow> (string, 'd) dict \<Rightarrow> 'd member list \<Rightarrow> 'd member list" where
  "update_nested eng k tmpl nested =
     List.map_filter (\<lambda>r. map_option (update_resource eng k r) (map_of tmpl (m_name r))) nested @
     map (\<lambda>(name, defn). create_resource eng k name defn)
       (filter (\<lambda>(name, defn). name \<notin> m_name ` set nested) tmpl)"

section \<open>Load balancers\<close>

record load_balancer =
  lb_schema :: "string list"
  lb_instances :: "string list"

definition reload_loadbalancers ::
    "'d member list \<Rightarrow> string list \<Rightarrow> (string, load_balancer) dict \<Rightarrow> (string, load_balancer) dict result" where
  "reload_loadbalancers nested exclude load_balancers =
     (let id_list = get_member_refids nested exclude in
      traverse (\<lambda>(name, lb).
        if ''Instances'' \<in> set (lb_schema lb) \<or> ''members'' \<in> set (lb_schema lb)
        then Inr (name, lb\<lparr>lb_instances := id_list\<rparr>) else Inl Error) load_balancers)"

section \<open>The group\<close>

text \<open>
  The number of updates of the nested stack so far, and a record of what each reload has told the load
  balancers, are part of the state; the code does not have the record.
\<close>

record 'd group =
  g_nested :: "'d member list"
  g_lbs :: "(string, load_balancer) dict"
  g_updates :: nat
  g_served :: "string list list"

definition lb_reload :: "string list \<Rightarrow> 'd group \<Rightarrow> 'd group result" where
  "lb_reload exclude g =
     (if g_lbs g = [] then Inr g
      else bind (reload_loadbalancers (g_nested g) exclude (g_lbs g)) (\<lambda>lbs.
        Inr (g\<lparr>g_lbs := lbs, g_served := g_served g @ [get_member_refids (g_nested g) exclude]\<rparr>)))"

definition create_template :: "'d engine \<Rightarrow> 'd \<Rightarrow> int \<Rightarrow> int \<Rightarrow> 'd group \<Rightarrow> (string, 'd) dict result" where
  "create_template eng defn num_instances num_replace g =
     bind (member_definitions (get_member_definitions (g_nested g)) defn num_instances num_replace
             (new_ids eng (g_updates g)) (\<lambda>name d. d))
       (\<lambda>definitions. Inr (make_template definitions))"

definition update_with_template :: "'d engine \<Rightarrow> (string, 'd) dict \<Rightarrow> 'd group \<Rightarrow> 'd group" where
  "update_with_template eng tmpl g =
     g\<lparr>g_nested := update_nested eng (g_updates g) tmpl (g_nested g), g_updates := Suc (g_updates g)\<rparr>"

text \<open>The references of the members whose entry in the template differs or is missing.\<close>

definition changing_instances :: "(string, 'd) dict \<Rightarrow> 'd member list \<Rightarrow> string list" where
  "changing_instances tmpl nested =
     (let instances = get_members nested;
          current = set (map (\<lambda>i. (m_name i, m_defn i)) instances);
          updated = set tmpl;
          affected = fst ` ((current - updated) \<union> (updated - current))
      in map m_ref (filter (\<lambda>i. m_name i \<in> affected) instances))"

definition handle_create :: "'d engine \<Rightarrow> 'd \<Rightarrow> int \<Rightarrow> 'd group \<Rightarrow> 'd group result" where
  "handle_create eng defn num_instances g =
     bind (create_template eng defn num_instances 0 g) (\<lambda>tmpl. lb_reload [] (update_with_template eng tmpl g))"

text \<open>
  A capacity that is a float ends in \<open>TypeError\<close>: it cannot be an index. When the load balancers cannot be
  told, the nested stack has been updated already.
\<close>

definition resize :: "'d engine \<Rightarrow> 'd \<Rightarrow> tmpl_number \<Rightarrow> 'd group \<Rightarrow> unit result \<times> 'd group" where
  "resize eng defn new_capacity g =
     (case new_capacity of
        FloatNum r \<Rightarrow> (Inl TypeError, g)
      | IntNum n \<Rightarrow>
          (case create_template eng defn n 0 g of
             Inl e \<Rightarrow> (Inl e, g)
           | Inr tmpl \<Rightarrow>
               let g = update_with_template eng tmpl g
               in (case lb_reload [] g of Inl e \<Rightarrow> (Inl e, g) | Inr g' \<Rightarrow> (Inr (), g'))))"

definition update_timeout :: "int \<Rightarrow> int \<Rightarrow> int \<Rightarrow> int result" where
  "update_timeout timeout_secs batch_cnt pause_sec =
     (let total_pause_time = pause_sec * max (batch_cnt - 1) 0
      in if total_pause_time \<ge> timeout_secs then Inl ValueError else Inr (timeout_secs - total_pause_time))"

definition run_batch :: "'d engine \<Rightarrow> 'd \<Rightarrow> (int \<times> int) \<times> bool \<Rightarrow> 'd group \<Rightarrow> 'd group result" where
  "run_batch eng defn batch g =
     (case batch of ((total_capacity, efft_bat_sz), pause) \<Rightarrow>
        bind (create_template eng defn total_capacity efft_bat_sz g) (\<lambda>tmpl.
          bind (lb_reload (changing_instances tmpl (g_nested g)) g) (\<lambda>g.
            let g = update_with_template eng tmpl g
            in if pause then lb_reload [] g else Inr g)))"

text \<open>\<open>None\<close>: the list of the batches is never complete.\<close>

definition replace_members :: "'d engine \<Rightarrow> 'd \<Rightarrow> int \<Rightarrow> int \<Rightarrow> int \<Rightarrow> int \<Rightarrow> 'd group \<Rightarrow> 'd group result option" where
  "replace_members eng defn min_in_service batch_size pause_sec timeout_secs g =
     Option.bind (get_instance_batches (int (length (g_nested g))) batch_size min_in_service) (\<lambda>r.
       Some (bind r (\<lambda>batches.
         bind (update_timeout timeout_secs (int (length batches)) pause_sec) (\<lambda>_.
           bind (loop (run_batch eng defn)
                   (map (\<lambda>i. (batches ! i, i < length batches - 1 \<and> pause_sec > 0)) [0..<length batches]) g)
             (lb_reload [])))))"

text \<open>
  \<open>handle_update\<close> of an instance group: a changed launch configuration is rolled out when there is a
  policy for it, then the group takes the size asked for, or keeps the one it has.
\<close>

record rolling_policy =
  min_in_service :: int
  max_batch_size :: int
  pause_time :: int

definition try_rolling_update ::
    "'d engine \<Rightarrow> 'd \<Rightarrow> rolling_policy option \<Rightarrow> bool \<Rightarrow> int \<Rightarrow> 'd group \<Rightarrow> 'd group result option" where
  "try_rolling_update eng defn policy changed timeout_secs g =
     (case policy of
        Some p \<Rightarrow> if changed
          then replace_members eng defn (min_in_service p) (max_batch_size p) (pause_time p) timeout_secs g
          else Some (Inr g)
      | None \<Rightarrow> Some (Inr g))"

definition handle_update ::
    "'d engine \<Rightarrow> 'd \<Rightarrow> rolling_policy option \<Rightarrow> bool \<Rightarrow> int \<Rightarrow> int option \<Rightarrow> 'd group \<Rightarrow> 'd group result option" where
  "handle_update eng defn policy changed timeout_secs group_size g =
     map_option (\<lambda>r. bind r (\<lambda>g.
         case resize eng defn (IntNum (case group_size of Some n \<Rightarrow> n | None \<Rightarrow> get_size (g_nested g) False)) g of
           (r, g') \<Rightarrow> bind r (\<lambda>_. Inr g')))
       (try_rolling_update eng defn policy changed timeout_secs g)"

section \<open>What an update does to the members\<close>

definition sound_engine :: "'d engine \<Rightarrow> (nat \<Rightarrow> int) \<Rightarrow> nat \<Rightarrow> bool" where
  "sound_engine eng clock room \<longleftrightarrow>
     (\<forall>k n. clock k < created_at eng k n \<and> created_at eng k n \<le> clock (Suc k)) \<and>
     (\<forall>k. distinct (new_ids eng k) \<and> room \<le> length (new_ids eng k)) \<and>
     (\<forall>j k. j < k \<longrightarrow> set (new_ids eng j) \<inter> set (new_ids eng k) = {}) \<and>
     (\<forall>j k m n. new_ref eng j m = new_ref eng k n \<longrightarrow> j = k \<and> m = n)"

definition fresh_member :: "'d engine \<Rightarrow> (nat \<Rightarrow> int) \<Rightarrow> nat \<Rightarrow> 'd member \<Rightarrow> bool" where
  "fresh_member eng clock k m \<longleftrightarrow> \<not> m_failed m \<and> m_created m \<le> clock k \<and>
     (\<forall>j \<ge> k. m_name m \<notin> set (new_ids eng j) \<and> (\<forall>n. m_ref m \<noteq> new_ref eng j n))"

definition fresh_group :: "'d engine \<Rightarrow> (nat \<Rightarrow> int) \<Rightarrow> nat \<Rightarrow> 'd member list \<Rightarrow> bool" where
  "fresh_group eng clock k ms \<longleftrightarrow>
     distinct (map m_name ms) \<and> distinct (map m_ref ms) \<and> (\<forall>m \<in> set ms. fresh_member eng clock k m)"

definition live_group :: "'d member list \<Rightarrow> bool" where
  "live_group ms \<longleftrightarrow> distinct (map m_name ms) \<and> (\<forall>m \<in> set ms. \<not> m_failed m)"

lemma fresh_live: "fresh_group eng clock k ms \<Longrightarrow> live_group ms"
  by (simp add: fresh_group_def fresh_member_def live_group_def)

lemma sound_engineD:
  assumes "sound_engine eng clock room"
  shows "clock k < created_at eng k n" "created_at eng k n \<le> clock (Suc k)" "distinct (new_ids eng k)"
    "room \<le> length (new_ids eng k)" "j < k \<Longrightarrow> set (new_ids eng j) \<inter> set (new_ids eng k) = {}"
    "new_ref eng j m = new_ref eng k n \<Longrightarrow> j = k \<and> m = n"
proof -
  note s = assms [unfolded sound_engine_def]
  show "clock k < created_at eng k n" "created_at eng k n \<le> clock (Suc k)" using s [THEN conjunct1] by blast+
  show "distinct (new_ids eng k)" "room \<le> length (new_ids eng k)" using s [THEN conjunct2, THEN conjunct1] by blast+
  show "j < k \<Longrightarrow> set (new_ids eng j) \<inter> set (new_ids eng k) = {}"
    using s [THEN conjunct2, THEN conjunct2, THEN conjunct1] by blast
  show "new_ref eng j m = new_ref eng k n \<Longrightarrow> j = k \<and> m = n"
    by (rule s [THEN conjunct2, THEN conjunct2, THEN conjunct2, rule_format])
qed

lemma sorted_split:
  assumes "sorted (map f xs)" and "\<forall>x \<in> set xs. \<forall>y \<in> set xs. P x \<longrightarrow> \<not> P y \<longrightarrow> f x < f y"
  shows "xs = filter P xs @ filter (\<lambda>x. \<not> P x) xs"
  using assms
proof (induction xs)
  case (Cons x xs)
  show ?case
  proof (cases "P x")
    case True
    then show ?thesis using Cons by auto
  next
    case False
    then have "\<forall>y \<in> set xs. \<not> P y" using Cons.prems by fastforce
    then have "filter P xs = []" "filter (\<lambda>x. \<not> P x) xs = xs" by (simp_all add: filter_empty_conv filter_id_conv)
    then show ?thesis using False by simp
  qed
qed simp

lemma length_filter_nth:
  assumes "length xs = length ys" and "\<And>i. i < length xs \<Longrightarrow> P (xs ! i) = Q (ys ! i)"
  shows "length (filter P xs) = length (filter Q ys)"
  using assms by (induction xs ys rule: list_induct2) (auto, force+)

lemma members_of_fresh:
  assumes "fresh_group eng clock k nested"
  shows "get_members nested = sort_key age_key nested" "set (get_members nested) = set nested"
    "length (get_members nested) = length nested" "distinct (map m_name (get_members nested))"
    "distinct (map m_ref (get_members nested))"
proof -
  have "filter (\<lambda>r. \<not> m_failed r) nested = nested"
    using assms by (simp add: fresh_group_def fresh_member_def filter_id_conv)
  then show m: "get_members nested = sort_key age_key nested" by (simp add: get_members_def)
  show "set (get_members nested) = set nested" "length (get_members nested) = length nested" by (simp_all add: m)
  have "distinct (map f (sort_key age_key nested)) = distinct (map f nested)" for f :: "'a member \<Rightarrow> string"
    by (simp add: distinct_map)
  then show "distinct (map m_name (get_members nested))" "distinct (map m_ref (get_members nested))"
    using assms by (simp_all add: m fresh_group_def)
qed

text \<open>The template of a batch, entry by entry.\<close>

definition unchanged :: "(string, 'd) dict \<Rightarrow> 'd member \<Rightarrow> bool" where
  "unchanged tmpl r \<longleftrightarrow> map_of tmpl (m_name r) = Some (m_defn r)"

lemma slice_last_map: "slice_last n (map f xs) = map f (slice_last n xs)"
  by (simp add: slice_last_def drop_map)

lemma batch_template:
  assumes fresh: "fresh_group eng clock (g_updates g) (g_nested g)" and sound: "sound_engine eng clock room"
    and num: "0 < num" "num \<le> int (length (g_nested g)) + n" "0 \<le> n" "n \<le> int room"
  obtains tmpl dropped kept om ids where
    "create_template eng defn num n g = Inr tmpl" "get_members (g_nested g) = dropped @ kept"
    "tmpl = om @ map (\<lambda>i. (i, defn)) ids" "wf_dict tmpl" "keys om = map m_name kept"
    "set ids \<subseteq> set (new_ids eng (g_updates g))" "length kept = min (nat num) (length (g_nested g))"
    "int (length kept) + int (length ids) = num" "int (length ids) \<le> n"
    "om = old_members (\<lambda>name d. d) defn (n - int (length ids)) (map (\<lambda>r. (m_name r, m_defn r)) kept)"
proof -
  let ?ms = "get_members (g_nested g)" and ?f = "\<lambda>r. (m_name r, m_defn r)" and ?k = "g_updates g"
  note ms = members_of_fresh [OF fresh]
  obtain dropped where split: "?ms = dropped @ slice_last num ?ms" and len: "length (slice_last num ?ms) = min (nat num) (length ?ms)"
    using slice_last_drop [of num ?ms] num(1) by auto
  let ?kept = "slice_last num ?ms"
  let ?create = "num - int (length ?kept)"
  have create: "0 \<le> ?create" "?create \<le> n" using len num ms(3) by auto
  define ids where "ids = take (nat ?create) (new_ids eng ?k)"
  define om where "om = old_members (\<lambda>name d. d) defn (n - ?create) (map ?f ?kept)"
  have room: "room \<le> length (new_ids eng ?k)" "distinct (new_ids eng ?k)" using sound by (simp_all add: sound_engine_def)
  have ids: "int (length ids) = ?create" "set ids \<subseteq> set (new_ids eng ?k)" "distinct ids"
    using create room num(4) set_take_subset [of "nat ?create" "new_ids eng ?k"] by (auto simp: ids_def)
  have om: "length om = length ?kept" "keys om = map m_name ?kept" by (simp_all add: om_def comp_def)
  have "set ?kept \<subseteq> set (g_nested g)" using split ms(2) by (metis Un_upper2 set_append)
  then have "m_name ` set ?kept \<inter> set (new_ids eng ?k) = {}" using fresh by (auto simp: fresh_group_def fresh_member_def)
  moreover have "distinct (map m_name ?kept)" using ms(4) split by (metis distinct_append map_append)
  moreover have "keys (om @ map (\<lambda>i. (i, defn)) ids) = map m_name ?kept @ ids" by (simp add: om comp_def)
  ultimately have wf: "wf_dict (om @ map (\<lambda>i. (i, defn)) ids)" using ids by (auto simp: om)
  have "take (nat num) om = om" using om(1) len by simp
  moreover have "nat ?create \<le> length (new_ids eng ?k)" using create num(4) room by linarith
  ultimately have "member_definitions (get_member_definitions (g_nested g)) defn num n (new_ids eng ?k) (\<lambda>name d. d) =
      Inr (om @ map (\<lambda>i. (i, defn)) ids)"
    by (simp add: member_definitions_def get_member_definitions_def slice_last_map Let_def om_def ids_def)
  then have "create_template eng defn num n g = Inr (om @ map (\<lambda>i. (i, defn)) ids)"
    using make_template_distinct [OF wf] by (simp add: create_template_def)
  from that [OF this split refl wf om(2) ids(2)] show ?thesis
    using len ms(3) ids(1) create(2) by (simp add: om_def)
qed

lemma unchanged_in_batch:
  assumes fresh: "fresh_group eng clock k nested" and sound: "sound_engine eng clock room"
    and ms: "get_members nested = dropped @ kept" and tmpl: "tmpl = om @ map (\<lambda>i. (i, defn)) ids" "wf_dict tmpl"
    and keys: "keys om = map m_name kept" and ids: "set ids \<subseteq> set (new_ids eng k)"
  shows "\<And>r. r \<in> set dropped \<Longrightarrow> map_of tmpl (m_name r) = None"
    and "\<And>i. i < length kept \<Longrightarrow> map_of tmpl (m_name (kept ! i)) = Some (snd (om ! i))"
    and "filter (unchanged tmpl) (get_members nested) = filter (unchanged tmpl) kept"
proof -
  note m = members_of_fresh [OF fresh]
  have new: "m_name r \<notin> set ids" if "r \<in> set nested" for r
    using fresh ids that by (auto simp: fresh_group_def fresh_member_def)
  have names: "set (keys tmpl) = m_name ` set kept \<union> set ids" using tmpl(1) keys by (simp add: comp_def)
  show none: "map_of tmpl (m_name r) = None" if "r \<in> set dropped" for r
  proof -
    have "m_name r \<notin> m_name ` set kept" using m(4) that by (auto simp: ms)
    moreover have "m_name r \<notin> set ids" using new m(2) that by (auto simp: ms)
    ultimately show ?thesis using names by (auto simp: map_of_eq_None_iff)
  qed
  show "map_of tmpl (m_name (kept ! i)) = Some (snd (om ! i))" if "i < length kept" for i
  proof -
    have len: "length om = length kept" using keys by (metis length_map)
    then have "om ! i \<in> set tmpl" using that by (simp add: tmpl(1))
    moreover have "fst (om ! i) = m_name (kept ! i)" using keys that len by (metis nth_map)
    ultimately show ?thesis using tmpl(2) by (metis map_of_eq_Some_iff prod.collapse)
  qed
  show "filter (unchanged tmpl) (get_members nested) = filter (unchanged tmpl) kept"
    using none by (simp add: ms unchanged_def filter_empty_conv)
qed

text \<open>How many members a batch leaves untouched, and which.\<close>

lemma untouched_by_batch:
  assumes fresh: "fresh_group eng clock k nested" and sound: "sound_engine eng clock room"
    and ms: "get_members nested = dropped @ kept" and tmpl: "tmpl = om @ map (\<lambda>i. (i, defn)) ids" "wf_dict tmpl"
    and keys: "keys om = map m_name kept" and ids: "set ids \<subseteq> set (new_ids eng k)"
    and om: "om = old_members (\<lambda>name d. d) defn (n - int (length ids)) (map (\<lambda>r. (m_name r, m_defn r)) kept)"
    and num: "int (length kept) + int (length ids) = num" "int (length ids) \<le> n"
  shows "num - n \<le> int (length (filter (unchanged tmpl) kept))"
    and "int (length (filter (unchanged tmpl) kept)) = num - n \<or> (\<forall>r \<in> set (filter (unchanged tmpl) kept). m_defn r = defn)"
    and "\<And>r. r \<in> set kept \<Longrightarrow> m_defn r = defn \<Longrightarrow> unchanged tmpl r"
    and "\<And>r d. r \<in> set kept \<Longrightarrow> map_of tmpl (m_name r) = Some d \<Longrightarrow> d = m_defn r \<or> d = defn"
proof -
  note U = unchanged_in_batch [OF fresh sound ms tmpl keys ids]
  let ?f = "\<lambda>r. (m_name r, m_defn r)"
  let ?j = "n - int (length ids)"
  have len: "length om = length kept" using keys by (metis length_map)
  have entry: "fst (om ! i) = m_name (kept ! i) \<and> (snd (om ! i) = m_defn (kept ! i) \<or>
      m_defn (kept ! i) \<noteq> defn \<and> snd (om ! i) = defn)" if "i < length kept" for i
    using old_members_zip [where cu = "\<lambda>name d. d" and new = defn and k = ?j and old = "map ?f kept"] that
    by (auto simp: om [symmetric] list_all2_conv_all_nth)
  have same: "unchanged tmpl (kept ! i) \<longleftrightarrow> om ! i = ?f (kept ! i)" if "i < length kept" for i
    using U(2) [OF that] entry [OF that] by (auto simp: unchanged_def prod_eq_iff)
  have "length (filter (\<lambda>r. \<not> unchanged tmpl r) kept) = length (filter (\<lambda>(x, y). y \<noteq> x) (zip (map ?f kept) om))"
    by (rule length_filter_nth) (use len same in auto)
  also have "int \<dots> = min ?j (int (length (filter (\<lambda>r. m_defn r \<noteq> defn) kept)))"
    unfolding om using old_members_changed [where cu = "\<lambda>name d. d" and new = defn and k = ?j and old = "map ?f kept"] num(2)
    by (simp add: filter_map comp_def)
  finally have changed: "int (length (filter (\<lambda>r. \<not> unchanged tmpl r) kept)) =
      min ?j (int (length (filter (\<lambda>r. m_defn r \<noteq> defn) kept)))" .
  have sum: "int (length (filter (unchanged tmpl) kept)) + int (length (filter (\<lambda>r. \<not> unchanged tmpl r) kept)) = int (length kept)"
    by (metis of_nat_add sum_length_filter_compl)
  show "num - n \<le> int (length (filter (unchanged tmpl) kept))" using changed sum num by linarith
  show keep: "unchanged tmpl r" if "r \<in> set kept" "m_defn r = defn" for r
    using that same entry by (metis in_set_conv_nth prod_eq_iff fst_conv snd_conv)
  show "d = m_defn r \<or> d = defn" if "r \<in> set kept" "map_of tmpl (m_name r) = Some d" for r d
    using that U(2) entry by (metis in_set_conv_nth option.inject)
  have "\<forall>r \<in> set (filter (unchanged tmpl) kept). m_defn r = defn"
    if "int (length (filter (unchanged tmpl) kept)) \<noteq> num - n"
  proof -
    have "length (filter (\<lambda>r. \<not> unchanged tmpl r) kept) = length (filter (\<lambda>r. m_defn r \<noteq> defn) kept)"
      using that changed sum num by linarith
    moreover have "filter (\<lambda>r. \<not> unchanged tmpl r) kept = filter (\<lambda>r. \<not> unchanged tmpl r) (filter (\<lambda>r. m_defn r \<noteq> defn) kept)"
      using keep by (auto simp: intro!: filter_cong)
    ultimately have "filter (\<lambda>r. \<not> unchanged tmpl r) (filter (\<lambda>r. m_defn r \<noteq> defn) kept) = filter (\<lambda>r. m_defn r \<noteq> defn) kept"
      by (metis length_filter_less linorder_not_less filter_True order_refl)
    then have "\<forall>r \<in> set (filter (\<lambda>r. m_defn r \<noteq> defn) kept). \<not> unchanged tmpl r" by (subst (asm) filter_id_conv)
    then show ?thesis by auto
  qed
  then show "int (length (filter (unchanged tmpl) kept)) = num - n \<or> (\<forall>r \<in> set (filter (unchanged tmpl) kept). m_defn r = defn)"
    by blast
qed

text \<open>The members after an update: every entry of the template once, the new ones younger than all others.\<close>

lemma updated_resource:
  assumes "\<not> m_failed r"
  shows "m_name (update_resource eng k r d) = m_name r" "m_defn (update_resource eng k r d) = d"
    "\<not> m_failed (update_resource eng k r d)"
    "update_resource eng k r d = create_resource eng k (m_name r) d \<or>
      m_created (update_resource eng k r d) = m_created r \<and> m_ref (update_resource eng k r d) = m_ref r"
  using assms by (auto simp: update_resource_def create_resource_def)

lemma created_resource [simp]:
  "m_name (create_resource eng k n d) = n" "m_defn (create_resource eng k n d) = d" "\<not> m_failed (create_resource eng k n d)"
  "m_created (create_resource eng k n d) = created_at eng k n" "m_ref (create_resource eng k n d) = new_ref eng k n"
  by (simp_all add: create_resource_def)

lemma members_after_update:
  assumes live: "live_group nested"
    and r: "r \<in> set (update_nested eng k tmpl nested)"
  shows "map_of tmpl (m_name r) = Some (m_defn r) \<or> (m_name r, m_defn r) \<in> set tmpl"
    and "(\<exists>m \<in> set nested. map_of tmpl (m_name m) \<noteq> None \<and> r = update_resource eng k m (the (map_of tmpl (m_name m)))) \<or>
      (\<exists>n d. (n, d) \<in> set tmpl \<and> n \<notin> m_name ` set nested \<and> r = create_resource eng k n d)"
proof -
  show c: "(\<exists>m \<in> set nested. map_of tmpl (m_name m) \<noteq> None \<and> r = update_resource eng k m (the (map_of tmpl (m_name m)))) \<or>
      (\<exists>n d. (n, d) \<in> set tmpl \<and> n \<notin> m_name ` set nested \<and> r = create_resource eng k n d)"
    using r by (auto simp: update_nested_def map_filter_def)
  have "\<not> m_failed m" if "m \<in> set nested" for m using live that by (simp add: live_group_def)
  then show "map_of tmpl (m_name r) = Some (m_defn r) \<or> (m_name r, m_defn r) \<in> set tmpl"
    using c by (elim disjE bexE exE conjE) (simp_all add: updated_resource)
qed

lemma names_after_update:
  assumes live: "live_group nested" and wf: "wf_dict tmpl"
  shows "distinct (map m_name (update_nested eng k tmpl nested))"
    and "set (map m_name (update_nested eng k tmpl nested)) = set (keys tmpl)"
proof -
  have alive: "\<not> m_failed m" if "m \<in> set nested" for m using live that by (simp add: live_group_def)
  have old: "map m_name (List.map_filter (\<lambda>r. map_option (update_resource eng k r) (map_of tmpl (m_name r))) ms) =
      filter (\<lambda>n. n \<in> set (keys tmpl)) (map m_name ms)" if "\<And>m. m \<in> set ms \<Longrightarrow> \<not> m_failed m" for ms
    using that
  proof (induction ms)
    case (Cons m ms)
    have live: "\<not> m_failed m" using Cons.prems by simp
    show ?case
    proof (cases "map_of tmpl (m_name m)")
      case None
      then have "m_name m \<notin> set (keys tmpl)" by (simp add: map_of_eq_None_iff)
      then show ?thesis using None Cons by (simp add: map_filter_simps)
    next
      case (Some d)
      then have "m_name m \<in> set (keys tmpl)" by (force dest: map_of_SomeD)
      then show ?thesis using Some Cons updated_resource(1) [OF live] by (simp add: map_filter_simps)
    qed
  qed (simp add: map_filter_simps)
  have new: "map m_name (map (\<lambda>(name, defn). create_resource eng k name defn) ds) = keys ds" for ds
    by (induction ds) auto
  have fil: "keys (filter (\<lambda>(name, defn). name \<notin> X) tmpl) = filter (\<lambda>n. n \<notin> X) (keys tmpl)" for X
    by (induction tmpl) auto
  have eq: "map m_name (update_nested eng k tmpl nested) = filter (\<lambda>n. n \<in> set (keys tmpl)) (map m_name nested) @
      filter (\<lambda>n. n \<notin> m_name ` set nested) (keys tmpl)"
    unfolding update_nested_def map_append new fil using old alive by simp
  show "distinct (map m_name (update_nested eng k tmpl nested))"
    unfolding eq using live wf by (auto simp: live_group_def)
  show "set (map m_name (update_nested eng k tmpl nested)) = set (keys tmpl)" unfolding eq by auto
qed

lemma fresh_after_update:
  assumes fresh: "fresh_group eng clock k nested" and sound: "sound_engine eng clock room" and wf: "wf_dict tmpl"
    and names: "set (keys tmpl) \<subseteq> m_name ` set nested \<union> set (new_ids eng k)"
  shows "fresh_group eng clock (Suc k) (update_nested eng k tmpl nested)"
proof -
  let ?R = "update_nested eng k tmpl nested"
  note dn = names_after_update [OF fresh_live [OF fresh] wf]
  have live: "fresh_member eng clock k m" if "m \<in> set nested" for m using fresh that by (simp add: fresh_group_def)
  have new: "fresh_member eng clock (Suc k) (create_resource eng k n d)" if "n \<in> m_name ` set nested \<union> set (new_ids eng k)" for n d
  proof -
    have "n \<notin> set (new_ids eng j)" if j: "Suc k \<le> j" for j
    proof (cases "n \<in> set (new_ids eng k)")
      case True
      moreover have "set (new_ids eng k) \<inter> set (new_ids eng j) = {}" using j by (intro sound_engineD(5) [OF sound]) simp
      ultimately show ?thesis by blast
    next
      case False
      then obtain m where "m \<in> set nested" "n = m_name m" using \<open>n \<in> _\<close> by blast
      then show ?thesis using live j by (auto simp: fresh_member_def)
    qed
    moreover note sound_engineD(2) [OF sound]
    moreover have "new_ref eng k n \<noteq> new_ref eng j i" if "Suc k \<le> j" for j i
      using that sound_engineD(6) [OF sound, of k n j i] by auto
    ultimately show ?thesis by (simp add: fresh_member_def)
  qed
  have clock: "clock k \<le> clock (Suc k)" using sound_engineD(1,2) [OF sound] by (meson less_imp_le order_trans)
  have kind: "fresh_member eng clock (Suc k) r \<and> (m_ref r = new_ref eng k (m_name r) \<or>
      (\<exists>m \<in> set nested. m_name r = m_name m \<and> m_ref r = m_ref m))" if "r \<in> set ?R" for r
    using members_after_update(2) [OF fresh_live [OF fresh] that]
  proof
    assume "\<exists>m \<in> set nested. map_of tmpl (m_name m) \<noteq> None \<and> r = update_resource eng k m (the (map_of tmpl (m_name m)))"
    then obtain m where m: "m \<in> set nested" "r = update_resource eng k m (the (map_of tmpl (m_name m)))" by blast
    have nf: "\<not> m_failed m" using live m(1) by (simp add: fresh_member_def)
    note u = updated_resource [OF nf, of eng k "the (map_of tmpl (m_name m))", folded m(2)]
    from u(4) show ?thesis
    proof
      assume "r = create_resource eng k (m_name m) (the (map_of tmpl (m_name m)))"
      then show ?thesis using new m(1) by auto
    next
      assume "m_created r = m_created m \<and> m_ref r = m_ref m"
      then show ?thesis using live [OF m(1)] u(1,3) clock m(1) by (auto simp: fresh_member_def)
    qed
  next
    assume "\<exists>n d. (n, d) \<in> set tmpl \<and> n \<notin> m_name ` set nested \<and> r = create_resource eng k n d"
    then obtain n d where nd: "(n, d) \<in> set tmpl" "r = create_resource eng k n d" by blast
    then have "n \<in> set (keys tmpl)" by (metis fst_conv image_eqI set_map)
    then have "n \<in> m_name ` set nested \<union> set (new_ids eng k)" using names by blast
    then show ?thesis using new nd(2) by simp
  qed
  have "r = s" if r: "r \<in> set ?R" and s: "s \<in> set ?R" and "m_ref r = m_ref s" for r s
  proof -
    have "m_name r = m_name s"
    proof -
      have old: "m_ref m \<noteq> new_ref eng k n" if "m \<in> set nested" for m n using live [OF that] by (auto simp: fresh_member_def)
      have inj: "new_ref eng k a = new_ref eng k b \<Longrightarrow> a = b" for a b using sound_engineD(6) [OF sound] by blast
      have dist: "a = b" if "a \<in> set nested" "b \<in> set nested" "m_ref a = m_ref b" for a b
        using fresh that by (auto simp: fresh_group_def distinct_map inj_on_def)
      have cases: "m_ref x = new_ref eng k (m_name x) \<or> (\<exists>m \<in> set nested. m_name x = m_name m \<and> m_ref x = m_ref m)"
        if "x \<in> set ?R" for x using kind [OF that] by blast
      from cases [OF r] cases [OF s] show ?thesis
      proof (elim disjE bexE conjE)
        assume "m_ref r = new_ref eng k (m_name r)" "m_ref s = new_ref eng k (m_name s)"
        then show ?thesis using inj \<open>m_ref r = m_ref s\<close> by simp
      next
        fix a b assume "a \<in> set nested" "b \<in> set nested" "m_ref r = m_ref a" "m_ref s = m_ref b" "m_name r = m_name a" "m_name s = m_name b"
        moreover have "a = b" by (rule dist) (use calculation \<open>m_ref r = m_ref s\<close> in simp_all)
        ultimately show ?thesis by simp
      qed (metis old \<open>m_ref r = m_ref s\<close>)+
    qed
    then show ?thesis using dn(1) r s by (auto simp: distinct_map inj_on_def)
  qed
  then have "distinct (map m_ref ?R)" using dn(1) by (auto simp: distinct_map inj_on_def)
  then show ?thesis using dn(1) kind by (simp add: fresh_group_def)
qed

lemma served_during_batch:
  assumes fresh: "fresh_group eng clock k nested" and wf: "wf_dict tmpl"
  shows "get_member_refids nested (changing_instances tmpl nested) = map m_ref (filter (unchanged tmpl) (get_members nested))"
proof -
  let ?ms = "get_members nested"
  let ?current = "set (map (\<lambda>i. (m_name i, m_defn i)) ?ms)"
  let ?affected = "fst ` ((?current - set tmpl) \<union> (set tmpl - ?current))"
  note ms = members_of_fresh [OF fresh]
  have iff: "m_name i \<in> ?affected \<longleftrightarrow> \<not> unchanged tmpl i" if i: "i \<in> set ?ms" for i
  proof
    assume "m_name i \<in> ?affected"
    then obtain p where "p \<in> (?current - set tmpl) \<union> (set tmpl - ?current)" "fst p = m_name i" by (elim imageE) simp
    then obtain d where "(m_name i, d) \<in> (?current - set tmpl) \<union> (set tmpl - ?current)" by (cases p) simp
    then have d: "((m_name i, d) \<in> ?current \<and> (m_name i, d) \<notin> set tmpl) \<or> ((m_name i, d) \<in> set tmpl \<and> (m_name i, d) \<notin> ?current)"
      by blast
    have own: "(m_name i, e) \<in> ?current \<longleftrightarrow> e = m_defn i" for e
      using ms(4) i by (auto simp: distinct_map inj_on_def)
    have "(m_name i, e) \<in> set tmpl \<longleftrightarrow> map_of tmpl (m_name i) = Some e" for e using wf by simp
    then show "\<not> unchanged tmpl i" using d own by (auto simp: unchanged_def)
  next
    assume "\<not> unchanged tmpl i"
    then have "(m_name i, m_defn i) \<notin> set tmpl" using wf by (simp add: unchanged_def)
    then show "m_name i \<in> ?affected" using i by force
  qed
  have "m_ref i \<in> set (map m_ref (filter (\<lambda>i. m_name i \<in> ?affected) ?ms)) \<longleftrightarrow> m_name i \<in> ?affected" if "i \<in> set ?ms" for i
    using ms(5) that by (auto simp: distinct_map inj_on_def)
  then have "filter (\<lambda>i. m_ref i \<notin> set (map m_ref (filter (\<lambda>i. m_name i \<in> ?affected) ?ms))) ?ms = filter (unchanged tmpl) ?ms"
    using iff by (intro filter_cong) auto
  then show ?thesis unfolding get_member_refids_def changing_instances_def Let_def by (simp add: filter_map comp_def)
qed

lemma batch_effect:
  assumes fresh: "fresh_group eng clock (g_updates g) (g_nested g)" and sound: "sound_engine eng clock room"
    and num: "0 < num" "num \<le> int (length (g_nested g)) + n" "0 \<le> n" "n \<le> int room"
  obtains tmpl dropped kept A R where
    "create_template eng defn num n g = Inr tmpl" "wf_dict tmpl" "R = update_nested eng (g_updates g) tmpl (g_nested g)"
    "fresh_group eng clock (Suc (g_updates g)) R" "int (length R) = num"
    "get_members (g_nested g) = dropped @ kept" "length kept = min (nat num) (length (g_nested g))"
    "A = filter (unchanged tmpl) kept" "A = filter (unchanged tmpl) (get_members (g_nested g))" "set A \<subseteq> set R"
    "num - n \<le> int (length A)" "int (length A) = num - n \<or> (\<forall>r \<in> set A. m_defn r = defn)"
    "\<forall>r \<in> set kept. m_defn r = defn \<longrightarrow> unchanged tmpl r" "\<forall>r \<in> set R - set A. m_defn r = defn"
    "get_member_refids (g_nested g) (changing_instances tmpl (g_nested g)) = map m_ref A"
proof -
  let ?k = "g_updates g" and ?L = "g_nested g"
  obtain tmpl dropped kept om ids where t: "create_template eng defn num n g = Inr tmpl" and ms: "get_members ?L = dropped @ kept"
    and tmpl: "tmpl = om @ map (\<lambda>i. (i, defn)) ids" "wf_dict tmpl" and keys: "keys om = map m_name kept"
    and ids: "set ids \<subseteq> set (new_ids eng ?k)" and len: "length kept = min (nat num) (length ?L)"
      "int (length kept) + int (length ids) = num" "int (length ids) \<le> n"
    and om: "om = old_members (\<lambda>name d. d) defn (n - int (length ids)) (map (\<lambda>r. (m_name r, m_defn r)) kept)"
    by (rule batch_template [OF fresh sound num])
  note M = members_of_fresh [OF fresh]
  note U = unchanged_in_batch [OF fresh sound ms tmpl keys ids]
  note V = untouched_by_batch [OF fresh sound ms tmpl keys ids om len(2,3)]
  let ?R = "update_nested eng ?k tmpl ?L" and ?A = "filter (unchanged tmpl) kept"
  have kept: "set kept \<subseteq> set ?L" using M(2) ms by (metis Un_upper2 set_append)
  have ktmpl: "keys tmpl = map m_name kept @ ids" using tmpl(1) keys by (simp add: comp_def)
  have names: "set (keys tmpl) \<subseteq> m_name ` set ?L \<union> set (new_ids eng ?k)" unfolding ktmpl using kept ids by auto
  note dn = names_after_update [OF fresh_live [OF fresh] tmpl(2)]
  have "length ?R = card (set (map m_name ?R))" using distinct_card [OF dn(1)] by simp
  also have "\<dots> = length tmpl" unfolding dn(2) using distinct_card [OF tmpl(2)] by simp
  finally have lenR: "int (length ?R) = num" using ktmpl len(2) by (metis length_append length_map of_nat_add)
  have live: "\<not> m_failed m" if "m \<in> set ?L" for m using fresh that by (simp add: fresh_group_def fresh_member_def)
  have sub: "set ?A \<subseteq> set ?R"
  proof
    fix a assume a: "a \<in> set ?A"
    then have "a \<in> set ?L" "map_of tmpl (m_name a) = Some (m_defn a)" using kept by (auto simp: unchanged_def)
    moreover from this have "update_resource eng ?k a (m_defn a) = a" using live by (simp add: update_resource_def)
    ultimately show "a \<in> set ?R" by (force simp: update_nested_def map_filter_def)
  qed
  have "m_defn r = defn" if r: "r \<in> set ?R" "r \<notin> set ?A" for r
    using members_after_update(2) [OF fresh_live [OF fresh] r(1)]
  proof
    assume "\<exists>m \<in> set ?L. map_of tmpl (m_name m) \<noteq> None \<and> r = update_resource eng ?k m (the (map_of tmpl (m_name m)))"
    then obtain m d where m: "m \<in> set ?L" "map_of tmpl (m_name m) = Some d" "r = update_resource eng ?k m d" by auto
    have "m \<in> set (get_members ?L)" "m \<notin> set dropped" using m U(1) M(2) by auto
    then have mk: "m \<in> set kept" by (simp add: ms)
    have "d \<noteq> m_defn m"
    proof
      assume "d = m_defn m"
      then have "r = m" using m(3) live [OF m(1)] by (simp add: update_resource_def)
      then show False using r(2) mk m(2) \<open>d = m_defn m\<close> by (simp add: unchanged_def)
    qed
    then show ?thesis using V(4) [OF mk m(2)] updated_resource(2) [OF live [OF m(1)]] m(3) by simp
  next
    assume "\<exists>n d. (n, d) \<in> set tmpl \<and> n \<notin> m_name ` set ?L \<and> r = create_resource eng ?k n d"
    then obtain i d where i: "(i, d) \<in> set tmpl" "i \<notin> m_name ` set ?L" "r = create_resource eng ?k i d" by blast
    have "i \<notin> set (keys om)" using i(2) kept by (auto simp: keys)
    then have "(i, d) \<notin> set om" by (metis fst_conv image_eqI set_map)
    then have "d = defn" using i(1) by (auto simp: tmpl(1))
    then show ?thesis using i(3) by simp
  qed
  then have new: "\<forall>r \<in> set ?R - set ?A. m_defn r = defn" by blast
  show ?thesis
    by (rule that [OF t tmpl(2) refl fresh_after_update [OF fresh sound tmpl(2) names] lenR ms len(1) refl U(3) [symmetric] sub V(1,2) _ new])
      (use V(3) served_during_batch [OF fresh tmpl(2)] U(3) in auto)
qed

section \<open>Rolling updates\<close>

text \<open>
  How far a rolling update has come. When every change replaces its resource, the members that were
  changed are the youngest ones; otherwise they are only counted.
\<close>

definition progress :: "bool \<Rightarrow> 'd \<Rightarrow> int \<Rightarrow> 'd member list \<Rightarrow> bool" where
  "progress ordered defn updated nested \<longleftrightarrow>
     (\<forall>r \<in> set nested. m_defn r = defn) \<or>
     (if ordered then (\<exists>old new. get_members nested = old @ new \<and> updated \<le> int (length new) \<and> (\<forall>r \<in> set new. m_defn r = defn))
      else updated \<le> int (length (filter (\<lambda>r. m_defn r = defn) nested)))"

definition always_replaces :: "'d engine \<Rightarrow> bool" where
  "always_replaces eng \<longleftrightarrow> (\<forall>k n d d'. d \<noteq> d' \<longrightarrow> replaces eng k n d d')"

text \<open>Replaced and new members are younger than the others, which keep their order.\<close>

lemma youngest_are_new:
  assumes fresh: "fresh_group eng clock k nested" and sound: "sound_engine eng clock room" and rep: "always_replaces eng"
    and R: "R = update_nested eng k tmpl nested" "fresh_group eng clock (Suc k) R"
  shows "\<exists>new. get_members R = filter (unchanged tmpl) (get_members nested) @ new"
proof -
  let ?P = "\<lambda>r. m_created r \<le> clock k"
  have live: "\<not> m_failed m \<and> m_created m \<le> clock k" if "m \<in> set nested" for m
    using fresh that by (simp add: fresh_group_def fresh_member_def)
  have made: "\<not> ?P (create_resource eng k n d)" for n d using sound_engineD(1) [OF sound, of k n] by simp
  have old: "filter ?P (List.map_filter (\<lambda>r. map_option (update_resource eng k r) (map_of tmpl (m_name r))) ms) =
      filter (unchanged tmpl) ms" if "\<And>m. m \<in> set ms \<Longrightarrow> \<not> m_failed m \<and> m_created m \<le> clock k" for ms
    using that
  proof (induction ms)
    case (Cons m ms)
    have m: "\<not> m_failed m" "m_created m \<le> clock k" using Cons.prems by simp_all
    have IH: "filter ?P (List.map_filter (\<lambda>r. map_option (update_resource eng k r) (map_of tmpl (m_name r))) ms) =
      filter (unchanged tmpl) ms" using Cons by simp
    show ?case
    proof (cases "map_of tmpl (m_name m)")
      case None
      moreover from this have "\<not> unchanged tmpl m" by (simp add: unchanged_def)
      ultimately show ?thesis using IH by (simp add: map_filter_simps)
    next
      case (Some d)
      have "update_resource eng k m d = (if m_defn m = d then m else create_resource eng k (m_name m) d)"
        using m rep by (simp add: update_resource_def always_replaces_def)
      moreover have "unchanged tmpl m \<longleftrightarrow> m_defn m = d" using Some by (auto simp: unchanged_def)
      ultimately show ?thesis using IH Some m made [of "m_name m" d] by (auto simp: map_filter_simps)
    qed
  qed (simp add: map_filter_simps)
  have "filter ?P (map (\<lambda>(name, defn). create_resource eng k name defn) ds) = []" for ds
    using made by (auto simp: filter_empty_conv)
  then have "filter ?P R = filter (unchanged tmpl) nested" using old [of nested] live by (simp add: R(1) update_nested_def)
  then have "filter ?P (sort_key age_key R) = filter (unchanged tmpl) (sort_key age_key nested)" by (simp add: filter_sort)
  moreover have "sort_key age_key R = filter ?P (sort_key age_key R) @ filter (\<lambda>r. \<not> ?P r) (sort_key age_key R)"
    by (rule sorted_split [where f = age_key]) auto
  ultimately show ?thesis using members_of_fresh(1) [OF fresh] members_of_fresh(1) [OF R(2)] by metis
qed

lemma progress_step:
  assumes fresh: "fresh_group eng clock k nested" and sound: "sound_engine eng clock room"
    and R: "R = update_nested eng k tmpl nested" "fresh_group eng clock (Suc k) R" "int (length R) = num"
    and ms: "get_members nested = dropped @ kept" "length kept = min (nat num) (length nested)"
    and A: "A = filter (unchanged tmpl) kept" "A = filter (unchanged tmpl) (get_members nested)" "set A \<subseteq> set R"
      "int (length A) = num - n \<or> (\<forall>r \<in> set A. m_defn r = defn)"
    and kept: "\<forall>r \<in> set kept. m_defn r = defn \<longrightarrow> unchanged tmpl r" and new: "\<forall>r \<in> set R - set A. m_defn r = defn"
    and mode: "ordered \<and> always_replaces eng \<or> \<not> ordered \<and> num = int (length nested)"
    and before: "progress ordered defn upd nested" "upd \<le> int (length nested)" "upd + n \<le> num" "0 \<le> n" "0 \<le> upd"
  shows "progress ordered defn (upd + n) R"
proof (cases "\<forall>r \<in> set A. m_defn r = defn")
  case True
  then have "\<forall>r \<in> set R. m_defn r = defn" using new by blast
  then show ?thesis by (simp add: progress_def)
next
  case False
  then have lenA: "int (length A) = num - n" using A(4) by blast
  note M = members_of_fresh [OF fresh]
  have notall: "\<not> (\<forall>r \<in> set nested. m_defn r = defn)" using False A(2) M(2) by auto
  show ?thesis
  proof (cases ordered)
    case True
    obtain B where B: "get_members R = A @ B" using youngest_are_new [OF fresh sound _ R(1,2)] mode True A(2) by metis
    have "int (length (get_members R)) = num" using members_of_fresh(3) [OF R(2)] R(3) by simp
    then have lenB: "int (length B) = n" using B lenA by simp
    have "distinct (get_members R)" using members_of_fresh(4) [OF R(2)] by (simp add: distinct_map)
    then have "set B \<subseteq> set R - set A" using B members_of_fresh(2) [OF R(2)] by auto
    then have Bnew: "\<forall>r \<in> set B. m_defn r = defn" using new by blast
    obtain P Q where PQ: "get_members nested = P @ Q" "upd \<le> int (length Q)" "\<forall>r \<in> set Q. m_defn r = defn"
      using before(1) True notall by (auto simp: progress_def)
    let ?Q = "drop (length kept - nat upd) kept"
    have len: "upd \<le> int (length kept)" using before(2-4) ms(2) by auto
    have suffix: "?Q = drop (length (get_members nested) - nat upd) (get_members nested)"
      using len by (simp add: ms(1))
    have "set (drop (length (get_members nested) - nat upd) (get_members nested)) \<subseteq> set Q"
      using PQ(2) set_drop_subset [of _ Q] by (simp add: PQ(1))
    then have Qnew: "\<forall>r \<in> set ?Q. m_defn r = defn" using PQ(3) suffix by auto
    moreover have "filter (unchanged tmpl) ?Q = ?Q"
      using Qnew kept set_drop_subset [of "length kept - nat upd" kept] by (auto simp: filter_id_conv)
    then have "A = filter (unchanged tmpl) (take (length kept - nat upd) kept) @ ?Q"
      unfolding A(1) by (metis append_take_drop_id filter_append)
    then have "get_members R = filter (unchanged tmpl) (take (length kept - nat upd) kept) @ (?Q @ B)" using B by simp
    moreover have "upd + n \<le> int (length (?Q @ B))" using len lenB before(5) by simp
    ultimately show ?thesis using True Bnew unfolding progress_def by (metis (no_types, lifting) Un_iff set_append)
  next
    case False
    then have num: "num = int (length nested)" using mode by blast
    then have "length kept = length nested" using ms(2) by simp
    then have "get_members nested = kept" using ms(1) M(3) by simp
    have dist: "distinct nested" "distinct R" using fresh R(2) by (auto simp: fresh_group_def distinct_map)
    have "distinct A" using M(4) A(2) by (simp add: distinct_map)
    let ?U = "\<lambda>r. m_defn r = defn"
    have "set (filter ?U nested) \<subseteq> set (filter ?U A)"
      using kept A(1) M(2) \<open>get_members nested = kept\<close> by auto
    then have "card (set (filter ?U nested)) \<le> card (set (filter ?U A))" by (intro card_mono) auto
    then have "upd \<le> int (card (set (filter ?U A)))"
      using before(1) False notall distinct_card [OF distinct_filter [OF dist(1)]] by (simp add: progress_def)
    moreover have "card (set R - set A) = length R - length A"
      using A(3) distinct_card [OF dist(2)] distinct_card [OF \<open>distinct A\<close>] by (simp add: card_Diff_subset)
    then have "n \<le> int (card (set R - set A))" using R(3) lenA by linarith
    moreover have "card (set (filter ?U A)) + card (set R - set A) = card (set (filter ?U A) \<union> (set R - set A))"
      by (subst card_Un_disjoint) auto
    moreover have "set (filter ?U A) \<union> (set R - set A) \<subseteq> set (filter ?U R)" using A(3) new by auto
    then have "card (set (filter ?U A) \<union> (set R - set A)) \<le> card (set (filter ?U R))" by (intro card_mono) auto
    ultimately have "upd + n \<le> int (length (filter ?U R))"
      using distinct_card [OF distinct_filter [OF dist(2)], of ?U] by linarith
    then show ?thesis using False by (simp add: progress_def)
  qed
qed

definition balancers_ok :: "(string, load_balancer) dict \<Rightarrow> bool" where
  "balancers_ok lbs \<longleftrightarrow> (\<forall>(name, lb) \<in> set lbs. ''Instances'' \<in> set (lb_schema lb) \<or> ''members'' \<in> set (lb_schema lb))"

lemma lb_reload_ok:
  assumes "balancers_ok (g_lbs g)"
  shows "\<exists>g'. lb_reload exclude g = Inr g' \<and> g_nested g' = g_nested g \<and> g_updates g' = g_updates g \<and> balancers_ok (g_lbs g') \<and>
    set (g_served g') \<subseteq> insert (get_member_refids (g_nested g) exclude) (set (g_served g))"
proof -
  have "\<exists>lbs'. traverse (\<lambda>(name, lb). if ''Instances'' \<in> set (lb_schema lb) \<or> ''members'' \<in> set (lb_schema lb)
        then Inr (name, lb\<lparr>lb_instances := ids\<rparr>) else Inl Error) lbs = Inr lbs' \<and> balancers_ok lbs'"
    if "balancers_ok lbs" for ids lbs
    using that by (induction lbs) (auto simp: balancers_ok_def)
  then obtain lbs' where "reload_loadbalancers (g_nested g) exclude (g_lbs g) = Inr lbs'" "balancers_ok lbs'"
    using assms unfolding reload_loadbalancers_def Let_def by blast
  then show ?thesis using assms by (auto simp: lb_reload_def)
qed

text \<open>What holds between two batches: \<open>least\<close> is the number of members that must stay in service.\<close>

definition rolling :: "'d engine \<Rightarrow> (nat \<Rightarrow> int) \<Rightarrow> 'd \<Rightarrow> bool \<Rightarrow> int \<Rightarrow> int \<Rightarrow> int \<Rightarrow> 'd group \<Rightarrow> bool" where
  "rolling eng clock defn ordered least efft upd g \<longleftrightarrow>
     fresh_group eng clock (g_updates g) (g_nested g) \<and> balancers_ok (g_lbs g) \<and>
     int (length (g_nested g)) = efft \<and> progress ordered defn upd (g_nested g) \<and>
     (\<forall>s \<in> set (g_served g). least \<le> int (length s) \<and> distinct s)"

lemma run_batch_effect:
  assumes sound: "sound_engine eng clock room" and g: "rolling eng clock defn ordered least efft upd g"
    and num: "0 < num" "num \<le> efft + n" "0 \<le> n" "n \<le> int room" "upd \<le> efft" "upd + n \<le> num" "0 \<le> upd" "least \<le> num - n"
    and mode: "ordered \<and> always_replaces eng \<or> \<not> ordered \<and> num = efft"
  shows "\<exists>g'. run_batch eng defn ((num, n), pause) g = Inr g' \<and> rolling eng clock defn ordered least num (upd + n) g'"
proof -
  have fresh: "fresh_group eng clock (g_updates g) (g_nested g)" and efft: "int (length (g_nested g)) = efft"
    and lbs: "balancers_ok (g_lbs g)" and prog: "progress ordered defn upd (g_nested g)"
    and served: "\<forall>s \<in> set (g_served g). least \<le> int (length s) \<and> distinct s"
    using g by (simp_all add: rolling_def)
  have room: "num \<le> int (length (g_nested g)) + n" using num(2) efft by simp
  obtain tmpl dropped kept A R where t: "create_template eng defn num n g = Inr tmpl"
    and R: "R = update_nested eng (g_updates g) tmpl (g_nested g)" "fresh_group eng clock (Suc (g_updates g)) R" "int (length R) = num"
    and ms: "get_members (g_nested g) = dropped @ kept" "length kept = min (nat num) (length (g_nested g))"
    and A: "A = filter (unchanged tmpl) kept" "A = filter (unchanged tmpl) (get_members (g_nested g))" "set A \<subseteq> set R"
      "int (length A) = num - n \<or> (\<forall>r \<in> set A. m_defn r = defn)" "num - n \<le> int (length A)"
    and kept: "\<forall>r \<in> set kept. m_defn r = defn \<longrightarrow> unchanged tmpl r" and new: "\<forall>r \<in> set R - set A. m_defn r = defn"
    and refs: "get_member_refids (g_nested g) (changing_instances tmpl (g_nested g)) = map m_ref A"
    by (rule batch_effect [OF fresh sound num(1) room num(3,4)]) (rule that, assumption+)
  have "progress ordered defn (upd + n) R"
    by (rule progress_step [OF fresh sound R ms A(1-4) kept new _ prog]) (use mode num efft in auto)
  obtain g1 where g1: "lb_reload (changing_instances tmpl (g_nested g)) g = Inr g1" "g_nested g1 = g_nested g" "g_updates g1 = g_updates g"
    "balancers_ok (g_lbs g1)" "set (g_served g1) \<subseteq> insert (map m_ref A) (set (g_served g))"
    using lb_reload_ok [OF lbs] refs by metis
  have "distinct (map m_ref A)"
    using members_of_fresh(5) [OF fresh] unfolding A(2) by (simp add: distinct_map_filter)
  then have served1: "\<forall>s \<in> set (g_served g1). least \<le> int (length s) \<and> distinct s"
    using g1(5) served A(5) num(8) by (auto simp: subset_iff)
  let ?g2 = "update_with_template eng tmpl g1"
  have g2: "rolling eng clock defn ordered least num (upd + n) ?g2"
    using \<open>progress ordered defn (upd + n) R\<close> R g1 served1 by (simp add: rolling_def update_with_template_def)
  show ?thesis
  proof (cases pause)
    case False
    then show ?thesis using t g1(1) g2 by (simp add: run_batch_def Let_def)
  next
    case True
    have nested2: "g_nested ?g2 = R" using R(1) g1 by (simp add: update_with_template_def)
    have all: "get_member_refids R [] = map m_ref (get_members R)" by (simp add: get_member_refids_def)
    obtain g3 where g3: "lb_reload [] ?g2 = Inr g3" "g_nested g3 = R" "g_updates g3 = g_updates ?g2" "balancers_ok (g_lbs g3)"
      "set (g_served g3) \<subseteq> insert (map m_ref (get_members R)) (set (g_served ?g2))"
      using lb_reload_ok [of ?g2 "[]"] g2 unfolding rolling_def nested2 all by blast
    have "distinct (map m_ref (get_members R))" "least \<le> int (length (get_members R))"
      using members_of_fresh(3,5) [OF R(2)] R(3) num by simp_all
    then have "\<forall>s \<in> set (g_served g3). least \<le> int (length s) \<and> distinct s"
      using g3(5) g2 by (auto simp: rolling_def subset_iff)
    then have "rolling eng clock defn ordered least num (upd + n) g3"
      using g2 g3 nested2 by (simp add: rolling_def)
    then show ?thesis using True t g1(1) g3(1) by (simp add: run_batch_def Let_def)
  qed
qed

lemma rolling_loop:
  assumes sound: "sound_engine eng clock room" and bs: "1 \<le> bs" "bs \<le> int room"
    and mode: "ordered \<and> always_replaces eng \<or> \<not> ordered \<and> bs + m \<le> cap"
    and plan: "instance_plan cap bs m efft upd (map fst batches)" and g: "rolling eng clock defn ordered (min m cap) efft upd g"
    and bounds: "0 \<le> upd" "upd \<le> cap" "cap \<le> efft" "0 < cap"
    and fixed: "\<not> ordered \<longrightarrow> efft = cap"
  shows "\<exists>g'. loop (run_batch eng defn) batches g = Inr g' \<and> rolling eng clock defn ordered (min m cap) cap cap g'"
  using plan g bounds fixed
proof (induction batches arbitrary: g efft upd)
  case (Cons b batches)
  obtain num n pause where b: "b = ((num, n), pause)" by (metis surj_pair)
  have n: "n = min bs (cap - upd)" and num: "num = max cap (n + min m cap)" and rest: "instance_plan cap bs m num (upd + n) (map fst batches)"
    using Cons.prems(1) unfolding b list.map fst_conv instance_plan.simps by blast+
  have fix1: "\<not> ordered \<longrightarrow> num = cap" using mode n num by auto
  have "\<exists>g1. run_batch eng defn ((num, n), pause) g = Inr g1 \<and> rolling eng clock defn ordered (min m cap) num (upd + n) g1"
    by (rule run_batch_effect [OF sound Cons.prems(2)]) (use n num bs mode fix1 Cons.prems(3-7) in auto)
  then obtain g1 where g1: "run_batch eng defn b g = Inr g1" "rolling eng clock defn ordered (min m cap) num (upd + n) g1"
    by (auto simp: b)
  have "\<exists>g'. loop (run_batch eng defn) batches g1 = Inr g' \<and> rolling eng clock defn ordered (min m cap) cap cap g'"
    by (rule Cons.IH [OF rest g1(2)]) (use n num bs fix1 Cons.prems(3-6) in auto)
  then show ?case using g1(1) by simp
qed simp

lemma progress_none: "progress ordered defn 0 nested"
proof -
  have "get_members nested = get_members nested @ []" "0 \<le> int (length [])" "\<forall>r \<in> set []. m_defn r = defn" by simp_all
  then show ?thesis unfolding progress_def by (metis of_nat_0_le_iff)
qed

lemma progress_all:
  assumes "fresh_group eng clock k nested" and "progress ordered defn (int (length nested)) nested"
  shows "\<forall>r \<in> set nested. m_defn r = defn"
proof (cases "\<forall>r \<in> set nested. m_defn r = defn")
  case False
  show ?thesis
  proof (cases ordered)
    case True
    then obtain P Q where "get_members nested = P @ Q" "length nested \<le> length Q" "\<forall>r \<in> set Q. m_defn r = defn"
      using assms(2) False by (auto simp: progress_def)
    moreover from this have "length P + length Q = length nested" using members_of_fresh(3) [OF assms(1)] by (metis length_append)
    then have "P = []" using \<open>length nested \<le> length Q\<close> by (metis add_le_same_cancel2 le_zero_eq length_0_conv)
    ultimately show ?thesis using members_of_fresh(2) [OF assms(1)] by auto
  next
    case False
    then have "length nested \<le> length (filter (\<lambda>r. m_defn r = defn) nested)"
      using assms(2) by (auto simp: progress_def)
    then show ?thesis using length_filter_less [of _ nested "\<lambda>r. m_defn r = defn"] by (meson linorder_not_less)
  qed
qed blast


definition example_engine :: "bool \<Rightarrow> string engine" where
  "example_engine replace =
     \<lparr>replaces = (\<lambda>k n d d'. replace), created_at = (\<lambda>k n. int k + 1),
      new_ref = (\<lambda>k n. replicate k (CHR ''r'') @ ''.'' @ n), new_ids = (\<lambda>k. [''n'' @ replicate k (CHR ''n'')])\<rparr>"

lemma replicate_sep_inject:
  "c \<noteq> d \<Longrightarrow> replicate j c @ d # xs = replicate k c @ d # ys \<longleftrightarrow> j = k \<and> xs = ys"
proof (induction j arbitrary: k)
  case 0
  then show ?case by (cases k) auto
next
  case (Suc j)
  then show ?case by (cases k) auto
qed

lemma example_engine_sound: "sound_engine (example_engine b) int 1"
proof -
  have "{CHR ''n'' # replicate j (CHR ''n'')} \<inter> {CHR ''n'' # replicate k (CHR ''n'')} = {}" if "j < k" for j k
    using that by (auto dest: arg_cong [where f = length])
  then show ?thesis by (simp add: sound_engine_def example_engine_def replicate_sep_inject)
qed

definition example_member :: "string \<Rightarrow> string member" where
  "example_member n = \<lparr>m_name = n, m_created = 0, m_failed = False, m_defn = ''old'', m_ref = n\<rparr>"

definition example_group :: "string group" where
  "example_group = \<lparr>g_nested = map example_member [''a'', ''b'', ''c''],
     g_lbs = [(''lb'', \<lparr>lb_schema = [''Instances''], lb_instances = []\<rparr>)], g_updates = 0, g_served = []\<rparr>"

lemma example_group_fresh: "fresh_group (example_engine b) int 0 (g_nested example_group)"
  by (auto simp: fresh_group_def fresh_member_def example_engine_def example_group_def example_member_def append_eq_Cons_conv Cons_eq_append_conv)


text \<open>
  When changes are made in place and no surplus member fits, the oldest member, which was changed first, is
  the one to go when the group shrinks back: the update ends with a member that has the old
  definition, and the resize after it does not change that.
\<close>

lemma in_place_update_forgets_member:
  "case handle_update (example_engine False) ''new'' (Some \<lparr>min_in_service = 3, max_batch_size = 1, pause_time = 0\<rparr>) True 60 None
       example_group of
     Some (Inr g') \<Rightarrow> get_member_definitions (g_nested g') = [(''b'', ''new''), (''c'', ''old''), (''n'', ''new'')]
   | _ \<Rightarrow> False"
  by code_simp

lemma empty_batches_hang:
  "g_nested g \<noteq> [] \<Longrightarrow> bs \<le> 0 \<Longrightarrow> replace_members eng defn m bs pause timeout g = None"
  using empty_batches_never_end [of "int (length (g_nested g))" bs m] by (simp add: replace_members_def)

section \<open>Resizing\<close>

lemma create_template_resize:
  assumes "fresh_group eng clock k (g_nested g)" and "0 < num"
  shows "create_template eng defn num 0 g = create_template eng defn num (max 0 (num - int (length (g_nested g)))) g"
proof -
  let ?S = "get_member_definitions (g_nested g)"
  have "length ?S = length (g_nested g)" using members_of_fresh(3) [OF assms(1)] by (simp add: get_member_definitions_def)
  then have "num - int (length (slice_last num ?S)) = max 0 (num - int (length (g_nested g)))"
    using assms(2) by (simp add: slice_last_def)
  moreover have "nat (max 0 c) = nat c" for c by simp
  ultimately show ?thesis by (auto simp: create_template_def member_definitions_def Let_def)
qed

text \<open>
  A resized group has the size asked for: shrinking keeps the youngest members, growing keeps all and adds
  members with the definition of the group.
\<close>

lemma resize_template:
  assumes fresh: "fresh_group eng clock (g_updates g) (g_nested g)" and sound: "sound_engine eng clock room"
    and num: "0 \<le> num" "num \<le> int room"
  shows "\<exists>tmpl. create_template eng defn num 0 g = Inr tmpl \<and>
    (let R = update_nested eng (g_updates g) tmpl (g_nested g); len = int (length (g_nested g)) in
       fresh_group eng clock (Suc (g_updates g)) R \<and> int (length R) = num \<and>
       (num \<le> len \<longrightarrow> set R = set (drop (nat (len - num)) (get_members (g_nested g)))) \<and>
       (len \<le> num \<longrightarrow> set (g_nested g) \<subseteq> set R) \<and> (\<forall>r \<in> set R - set (g_nested g). m_defn r = defn))"
proof (cases "num = 0")
  case True
  have "create_template eng defn num 0 g = Inr []"
    using True by (simp add: create_template_def member_definitions_def Let_def slice_last_def make_template_def)
  moreover have "update_nested eng (g_updates g) [] (g_nested g) = []" by (simp add: update_nested_def map_filter_def)
  moreover have "fresh_group eng clock (Suc (g_updates g)) []" by (simp add: fresh_group_def)
  ultimately show ?thesis using True members_of_fresh(3) [OF fresh] by simp
next
  case False
  let ?L = "g_nested g"
  define n where "n = max 0 (num - int (length ?L))"
  have pos: "0 < num" using False num by simp
  have n: "num \<le> int (length ?L) + n" "0 \<le> n" "n \<le> int room" using num by (auto simp: n_def)
  obtain tmpl dropped kept A R where t: "create_template eng defn num n g = Inr tmpl"
    and R: "R = update_nested eng (g_updates g) tmpl ?L" "fresh_group eng clock (Suc (g_updates g)) R" "int (length R) = num"
    and ms: "get_members ?L = dropped @ kept" "length kept = min (nat num) (length ?L)"
    and A: "A = filter (unchanged tmpl) kept" "set A \<subseteq> set R" "num - n \<le> int (length A)"
    and new: "\<forall>r \<in> set R - set A. m_defn r = defn"
    by (rule batch_effect [OF fresh sound pos n, of defn]) (rule that, assumption+)
  note M = members_of_fresh [OF fresh]
  have "length kept \<le> length A" using A(3) ms(2) by (auto simp: n_def)
  then have "filter (unchanged tmpl) kept = kept"
    using A(1) length_filter_less [of _ kept "unchanged tmpl"] by (metis filter_True linorder_not_less)
  then have A': "A = kept" using A(1) by simp
  have sub: "set kept \<subseteq> set ?L" using ms(1) M(2) by (metis Un_upper2 set_append)
  have small: "set R = set (drop (nat (int (length ?L) - num)) (get_members ?L))" if "num \<le> int (length ?L)"
  proof -
    have "length kept = nat num" using ms(2) that by simp
    then have drop: "drop (nat (int (length ?L) - num)) (get_members ?L) = kept"
      using ms(1) M(3) that pos by (simp add: nat_diff_distrib')
    have "distinct kept" "distinct R" using M(4) ms(1) R(2) by (auto simp: fresh_group_def distinct_map)
    then have "card (set kept) = card (set R)" using \<open>length kept = nat num\<close> R(3) by (simp add: distinct_card)
    then have "set kept = set R" using A(2) A' by (intro card_subset_eq) auto
    then show ?thesis using drop by simp
  qed
  have large: "set ?L \<subseteq> set R" if "int (length ?L) \<le> num"
  proof -
    have "dropped = []" using ms M(3) that by simp
    then show ?thesis using ms(1) M(2) A(2) A' by simp
  qed
  have added: "\<forall>r \<in> set R - set ?L. m_defn r = defn" using new A' sub by blast
  have "create_template eng defn num 0 g = Inr tmpl" using create_template_resize [OF fresh pos, of defn] t by (simp flip: n_def)
  then show ?thesis
    using R(2,3) small large added unfolding R(1) Let_def by (intro exI [of _ tmpl] conjI impI)
qed

lemma resize_outcome:
  assumes fresh: "fresh_group eng clock (g_updates g) (g_nested g)" and sound: "sound_engine eng clock room"
    and num: "0 \<le> num" "num \<le> int room" and r: "resize eng defn (IntNum num) g = (r, g')"
  shows "fresh_group eng clock (g_updates g') (g_nested g') \<and> int (length (g_nested g')) = num \<and>
    g_updates g' = Suc (g_updates g) \<and> (balancers_ok (g_lbs g) \<longrightarrow> r = Inr ())"
proof -
  obtain tmpl where t: "create_template eng defn num 0 g = Inr tmpl"
    and R: "fresh_group eng clock (Suc (g_updates g)) (update_nested eng (g_updates g) tmpl (g_nested g))"
      "int (length (update_nested eng (g_updates g) tmpl (g_nested g))) = num"
    using resize_template [OF fresh sound num, of defn] by (auto simp: Let_def)
  let ?g = "update_with_template eng tmpl g"
  have same: "g_nested g1 = g_nested ?g \<and> g_updates g1 = g_updates ?g" if "lb_reload [] ?g = Inr g1" for g1
    using that by (auto simp: lb_reload_def split: if_splits)
  have "\<exists>g1. lb_reload [] ?g = Inr g1" if "balancers_ok (g_lbs g)"
    using lb_reload_ok [of ?g "[]"] that by (auto simp: update_with_template_def)
  moreover have "resize eng defn (IntNum num) g = (case lb_reload [] ?g of Inl e \<Rightarrow> (Inl e, ?g) | Inr g1 \<Rightarrow> (Inr (), g1))"
    using t by (simp add: resize_def Let_def)
  moreover have "g_nested ?g = update_nested eng (g_updates g) tmpl (g_nested g)" "g_updates ?g = Suc (g_updates g)"
    by (simp_all add: update_with_template_def)
  ultimately have eq: "(r, g') = (case lb_reload [] ?g of Inl e \<Rightarrow> (Inl e, ?g) | Inr g1 \<Rightarrow> (Inr (), g1))"
    and ok: "balancers_ok (g_lbs g) \<Longrightarrow> \<exists>g1. lb_reload [] ?g = Inr g1"
    and g: "g_nested ?g = update_nested eng (g_updates g) tmpl (g_nested g)" "g_updates ?g = Suc (g_updates g)"
    using r by simp_all
  show ?thesis
  proof (cases "lb_reload [] ?g")
    case (Inl e)
    then show ?thesis using eq ok g R by auto
  next
    case (Inr g1)
    then have "g' = g1" "r = Inr ()" using eq by simp_all
    then show ?thesis using same [OF Inr] g R by simp
  qed
qed


end
