(* ===== verification/ScalingPolicy.thy ===== *)
theory ScalingPolicy
  imports ScalingGroup
begin

text \<open>
  Scaling policies and the cooldown (heat/scaling/cooldown.py, heat/engine/resources/openstack/heat/scaling_policy.py,
  heat/engine/resources/aws/autoscaling): the metadata that records the last action, the adjustment of a
  group, the signal of an alarm, and workers that run them at the same time. Times are
  microseconds; the two conversions of a time to text and back are the record \<open>time_format\<close>.
\<close>

section \<open>The cooldown\<close>

record time_format =
  parse_isotime :: "string \<Rightarrow> int result"
  isoformat :: "int \<Rightarrow> string"

datatype meta_value = Flag bool | Stamps "(string, string) dict" | Text string

type_synonym metadata = "(string, meta_value) dict"

fun meta_truth :: "meta_value \<Rightarrow> bool" where
  "meta_truth (Flag b) = b"
| "meta_truth (Stamps d) = (d \<noteq> [])"
| "meta_truth (Text s) = (s \<noteq> [])"

definition is_older_than :: "time_format \<Rightarrow> int \<Rightarrow> string \<Rightarrow> rat \<Rightarrow> bool result" where
  "is_older_than tf now before seconds =
     bind (parse_isotime tf before) (\<lambda>t. Inr (of_int (now - t) > seconds * 1000000))"

definition first_key :: "(string, 'v) dict \<Rightarrow> string result" where
  "first_key d = (case d of [] \<Rightarrow> Inl StopIteration | (k, v) # rest \<Rightarrow> Inr k)"

definition stamp_keys :: "meta_value \<Rightarrow> string result" where
  "stamp_keys m = (case m of Stamps d \<Rightarrow> first_key d | _ \<Rightarrow> Inl AttributeError)"

text \<open>The property may be missing, which counts as zero, and negative values are clamped to zero.\<close>

definition cooldown_of :: "tmpl_number option \<Rightarrow> rat" where
  "cooldown_of c = (case c of None \<Rightarrow> 0 | Some x \<Rightarrow> max 0 (number_val x))"

definition cooldown_inprogress :: "time_format \<Rightarrow> int \<Rightarrow> tmpl_number option \<Rightarrow> metadata \<Rightarrow> (bool \<times> metadata) result" where
  "cooldown_inprogress tf now cooldown metadata =
     (let cooldown = cooldown_of cooldown;
          still = (\<lambda>last_adjust. bind (is_older_than tf now last_adjust cooldown) (\<lambda>older. Inr (\<not> older)))
      in if (case map_of metadata ''scaling_in_progress'' of None \<Rightarrow> False | Some m \<Rightarrow> meta_truth m) then Inr (True, metadata)
         else bind
           (case map_of metadata ''cooldown'' of
              None \<Rightarrow> if metadata \<noteq> [] \<and> cooldown \<noteq> 0 then bind (first_key metadata) still else Inr False
            | Some m \<Rightarrow> if cooldown \<noteq> 0 then bind (stamp_keys m) still else Inr False)
           (\<lambda>inprogress.
              if inprogress then Inr (True, metadata)
              else Inr (False, AList.update ''scaling_in_progress'' (Flag True) metadata)))"

definition cooldown_timestamp :: "time_format \<Rightarrow> int \<Rightarrow> string \<Rightarrow> metadata \<Rightarrow> metadata" where
  "cooldown_timestamp tf now reason metadata =
     AList.update ''scaling_in_progress'' (Flag False)
       (AList.update ''cooldown'' (Stamps [(isoformat tf now, reason)]) metadata)"

section \<open>Adjusting a group\<close>

record scaling_props =
  p_min_size :: int
  p_max_size :: int
  p_desired_capacity :: "int option"
  p_cooldown :: "tmpl_number option"

text \<open>\<open>validate\<close> of a group, the part about its sizes.\<close>

definition validate_sizes :: "scaling_props \<Rightarrow> unit result" where
  "validate_sizes p =
     (if p_max_size p < p_min_size p then Inl StackValidationFailed
      else if p_min_size p < 0 then Inl StackValidationFailed
      else case p_desired_capacity p of
             None \<Rightarrow> Inr ()
           | Some n \<Rightarrow> if n < p_min_size p \<or> n > p_max_size p then Inl StackValidationFailed else Inr ())"

record 'd scaling_group =
  sg_group :: "'d group"
  sg_metadata :: metadata

text \<open>
  \<open>adjust\<close>: nothing but an exception for a signal during the cooldown; otherwise the group is resized
  and the time recorded, whether the resize succeeds or not. \<open>reason\<close> stands for the text
  that is recorded with the time.
\<close>

definition adjust ::
    "'d engine \<Rightarrow> 'd \<Rightarrow> scaling_props \<Rightarrow> time_format \<Rightarrow> int \<Rightarrow> string \<Rightarrow> tmpl_number \<Rightarrow> string \<Rightarrow> int option \<Rightarrow> bool \<Rightarrow>
     'd scaling_group \<Rightarrow> unit result \<times> 'd scaling_group" where
  "adjust eng defn props tf now reason adjustment adjustment_type min_adjustment_step signal sg =
     (case cooldown_inprogress tf now (p_cooldown props) (sg_metadata sg) of
        Inl e \<Rightarrow> (Inl e, sg)
      | Inr (True, metadata) \<Rightarrow> (if signal then Inl NoActionRequired else Inr (), sg)
      | Inr (False, metadata) \<Rightarrow>
          let capacity = get_size (g_nested (sg_group sg)) False;
              new_capacity = calculate_new_capacity capacity adjustment adjustment_type min_adjustment_step
                (p_min_size props) (p_max_size props)
          in (case resize eng defn new_capacity (sg_group sg) of
                (r, g) \<Rightarrow> (r, sg\<lparr>sg_group := g, sg_metadata := cooldown_timestamp tf now reason metadata\<rparr>)))"

text \<open>The update of an autoscaling group, once its rolling update is over, and the size it is created with.\<close>

definition adjust_after_update ::
    "'d engine \<Rightarrow> 'd \<Rightarrow> scaling_props \<Rightarrow> time_format \<Rightarrow> int \<Rightarrow> string \<Rightarrow> 'd scaling_group \<Rightarrow> unit result \<times> 'd scaling_group" where
  "adjust_after_update eng defn props tf now reason sg =
     adjust eng defn props tf now reason
       (IntNum (case p_desired_capacity props of Some n \<Rightarrow> n | None \<Rightarrow> get_size (g_nested (sg_group sg)) False))
       ''ExactCapacity'' None False sg"

definition child_template_size :: "scaling_props \<Rightarrow> int" where
  "child_template_size p =
     (case p_desired_capacity p of None \<Rightarrow> p_min_size p | Some n \<Rightarrow> if n \<noteq> 0 then n else p_min_size p)"

section \<open>Policies\<close>

record scaling_policy =
  pol_group :: string
  pol_adjustment :: tmpl_number
  pol_type :: string
  pol_cooldown :: "tmpl_number option"
  pol_min_step :: "int option"

definition validate_min_adjustment_step :: "string \<Rightarrow> scaling_policy \<Rightarrow> unit result" where
  "validate_min_adjustment_step percent_type pol =
     (if pol_type pol \<noteq> percent_type \<and> pol_min_step pol \<noteq> None then Inl ResourcePropertyValueDependency else Inr ())"

text \<open>The state of the alarm in the details of a signal.\<close>

definition alarm_state :: "(string, string) dict option \<Rightarrow> string" where
  "alarm_state details =
     (case details of None \<Rightarrow> ''alarm''
      | Some d \<Rightarrow> lower (dict_get d ''current'' (dict_get d ''state'' ''alarm'')))"

text \<open>The groups of the stack by reference, each with its definition and properties, and the metadata of the policy.\<close>

record 'd scaling_stack =
  st_groups :: "(string, 'd \<times> scaling_props \<times> 'd scaling_group) dict"
  st_policy :: metadata

definition handle_signal ::
    "'d engine \<Rightarrow> time_format \<Rightarrow> int \<Rightarrow> string \<Rightarrow> scaling_policy \<Rightarrow> (string, string) dict option \<Rightarrow>
     'd scaling_stack \<Rightarrow> unit result \<times> 'd scaling_stack" where
  "handle_signal eng tf now reason pol details st =
     (if alarm_state details \<noteq> ''alarm'' then (Inl NoActionRequired, st)
      else case cooldown_inprogress tf now (pol_cooldown pol) (st_policy st) of
        Inl e \<Rightarrow> (Inl e, st)
      | Inr (True, metadata) \<Rightarrow> (Inl NoActionRequired, st)
      | Inr (False, metadata) \<Rightarrow>
          (case (case map_of (st_groups st) (pol_group pol) of
                   None \<Rightarrow> (Inl NotFound, st_groups st)
                 | Some (defn, props, sg) \<Rightarrow>
                     (case adjust eng defn props tf now reason (pol_adjustment pol) (pol_type pol) (pol_min_step pol) True sg of
                        (r, sg') \<Rightarrow> (r, AList.update (pol_group pol) (defn, props, sg') (st_groups st)))) of
             (r, groups) \<Rightarrow>
               (r, st\<lparr>st_groups := groups, st_policy := cooldown_timestamp tf now reason metadata\<rparr>)))"

section \<open>The size of a group\<close>

text \<open>
  One adjustment, by whatever signal or update at whatever time, as a step; and what all of them keep:
  the size stays between the two bounds of the group.
\<close>

inductive scaling_step ::
    "'d engine \<Rightarrow> 'd \<Rightarrow> scaling_props \<Rightarrow> time_format \<Rightarrow> 'd scaling_group \<Rightarrow> 'd scaling_group \<Rightarrow> bool" for eng defn props tf where
  "adjust eng defn props tf now reason adjustment ty step signal sg = (r, sg') \<Longrightarrow> scaling_step eng defn props tf sg sg'"

definition sized :: "'d engine \<Rightarrow> (nat \<Rightarrow> int) \<Rightarrow> nat \<Rightarrow> scaling_props \<Rightarrow> 'd scaling_group \<Rightarrow> bool" where
  "sized eng clock room props sg \<longleftrightarrow>
     sound_engine eng clock room \<and> p_max_size props \<le> int room \<and> 0 \<le> p_min_size props \<and> p_min_size props \<le> p_max_size props \<and>
     fresh_group eng clock (g_updates (sg_group sg)) (g_nested (sg_group sg)) \<and>
     p_min_size props \<le> int (length (g_nested (sg_group sg))) \<and> int (length (g_nested (sg_group sg))) \<le> p_max_size props"

lemma adjust_keeps_size:
  assumes sg: "sized eng clock room props sg" and adj: "adjust eng defn props tf now reason adjustment ty step signal sg = (r, sg')"
  shows "sized eng clock room props sg'"
proof (cases "\<exists>md. cooldown_inprogress tf now (p_cooldown props) (sg_metadata sg) = Inr (False, md)")
  case False
  then have "sg' = sg" using adj by (auto simp: adjust_def split: sum.splits bool.splits)
  then show ?thesis using sg by simp
next
  case True
  then obtain md where md: "cooldown_inprogress tf now (p_cooldown props) (sg_metadata sg) = Inr (False, md)" by blast
  let ?g = "sg_group sg"
  let ?n = "calculate_new_capacity (get_size (g_nested ?g) False) adjustment ty step (p_min_size props) (p_max_size props)"
  obtain g' where g': "resize eng defn ?n ?g = (r, g')" "sg_group sg' = g'"
    using adj md by (auto simp: adjust_def Let_def split: prod.splits)
  have bounds: "p_min_size props \<le> p_max_size props" "0 \<le> p_min_size props" "p_max_size props \<le> int room" "sound_engine eng clock room"
    "fresh_group eng clock (g_updates ?g) (g_nested ?g)" using sg by (simp_all add: sized_def)
  show ?thesis
  proof (cases ?n)
    case (FloatNum q)
    then have "g' = ?g" using g'(1) by (simp add: resize_def)
    then show ?thesis using sg g'(2) by (simp add: sized_def)
  next
    case (IntNum n)
    have n: "p_min_size props \<le> n" "n \<le> p_max_size props"
      using capacity_in_bounds [OF bounds(1), of "get_size (g_nested ?g) False" adjustment ty step] IntNum by simp_all
    have "0 \<le> n" "n \<le> int room" using n bounds by simp_all
    from resize_outcome [OF bounds(5,4) this g'(1) [unfolded IntNum]]
    have "fresh_group eng clock (g_updates g') (g_nested g')" "int (length (g_nested g')) = n" by blast+
    then show ?thesis using n bounds(1-4) g'(2) by (simp add: sized_def)
  qed
qed

interpretation scaling: guarded_system "scaling_step eng defn props tf" "sized eng clock room props"
  for eng defn props tf clock room
  by unfold_locales (auto elim!: scaling_step.cases intro: adjust_keeps_size)

text \<open>C20: A group whose sizes are validated, created with the number of members its properties ask for, stays
  between its smallest and its largest size through every history of adjustments, whatever their kind,
  amount, time and outcome.\<close>

theorem group_size_bounded:
  assumes "validate_sizes props = Inr ()" and "sound_engine eng clock room" and "p_max_size props \<le> int room"
    and "fresh_group eng clock (g_updates (sg_group sg)) (g_nested (sg_group sg))"
    and "int (length (g_nested (sg_group sg))) = child_template_size props"
    and "(scaling_step eng defn props tf)\<^sup>*\<^sup>* sg sg'"
  shows "p_min_size props \<le> get_size (g_nested (sg_group sg')) False \<and> get_size (g_nested (sg_group sg')) False \<le> p_max_size props"
proof -
  have "sized eng clock room props sg"
    using assms(1-5) by (auto simp: sized_def validate_sizes_def child_template_size_def split: if_splits option.splits)
  from scaling.run_inv [OF assms(6) this] have "sized eng clock room props sg'" .
  moreover from this have "get_size (g_nested (sg_group sg')) False = int (length (g_nested (sg_group sg')))"
    by (simp add: sized_def fresh_group_def fresh_member_def get_size_def filter_id_conv [THEN iffD2])
  ultimately show ?thesis by (simp add: sized_def)
qed

definition example_format :: time_format where
  "example_format = \<lparr>parse_isotime = py_int, isoformat = show_int\<rparr>"

definition example_props :: scaling_props where
  "example_props = \<lparr>p_min_size = 0, p_max_size = 1, p_desired_capacity = Some 1, p_cooldown = Some (IntNum 60)\<rparr>"

definition example_asg :: "string scaling_group" where
  "example_asg = \<lparr>sg_group = \<lparr>g_nested = [example_member ''a''], g_lbs = [], g_updates = 0, g_served = []\<rparr>, sg_metadata = []\<rparr>"

theorem group_size_bounded_witness:
  "let sg' = snd (adjust (example_engine True) ''d'' example_props example_format 5 ''r'' (IntNum 7) ''ChangeInCapacity'' None True example_asg)
   in 0 \<le> get_size (g_nested (sg_group sg')) False \<and> get_size (g_nested (sg_group sg')) False \<le> 1"
proof -
  let ?sg' = "snd (adjust (example_engine True) ''d'' example_props example_format 5 ''r'' (IntNum 7) ''ChangeInCapacity'' None True example_asg)"
  have "scaling_step (example_engine True) ''d'' example_props example_format example_asg ?sg'"
    by (rule scaling_step.intros) (rule prod.collapse [symmetric])
  then have run: "(scaling_step (example_engine True) ''d'' example_props example_format)\<^sup>*\<^sup>* example_asg ?sg'" by (rule r_into_rtranclp)
  have fresh: "fresh_group (example_engine True) int (g_updates (sg_group example_asg)) (g_nested (sg_group example_asg))"
    by (simp add: example_asg_def fresh_group_def fresh_member_def example_engine_def example_member_def Cons_eq_append_conv append_eq_Cons_conv)
  show ?thesis unfolding Let_def
    using group_size_bounded [OF _ example_engine_sound [of True] _ fresh _ run]
    by (simp add: example_props_def validate_sizes_def example_asg_def child_template_size_def)
qed

section \<open>One action at a time\<close>

text \<open>
  Workers that act on one group or policy at the same time: each asks whether the cooldown is over, acts,
  and records the time. The log has the actions, the latest first.
\<close>

datatype scaling_action = Started int | Finished int

record cooldown_world =
  cw_metadata :: metadata
  cw_time :: int
  cw_active :: "nat set"
  cw_log :: "scaling_action list"

inductive cooldown_step :: "time_format \<Rightarrow> tmpl_number option \<Rightarrow> cooldown_world \<Rightarrow> cooldown_world \<Rightarrow> bool" for tf c where
  begins: "cw_time w \<le> now \<Longrightarrow> cooldown_inprogress tf now c (cw_metadata w) = Inr (False, md) \<Longrightarrow> i \<notin> cw_active w \<Longrightarrow>
    cooldown_step tf c w (w\<lparr>cw_metadata := md, cw_time := now, cw_active := insert i (cw_active w), cw_log := Started now # cw_log w\<rparr>)"
| refused: "cw_time w \<le> now \<Longrightarrow> cooldown_inprogress tf now c (cw_metadata w) = Inr (True, md) \<Longrightarrow>
    cooldown_step tf c w (w\<lparr>cw_time := now\<rparr>)"
| finishes: "cw_time w \<le> now \<Longrightarrow> i \<in> cw_active w \<Longrightarrow>
    cooldown_step tf c w (w\<lparr>cw_metadata := cooldown_timestamp tf now reason (cw_metadata w), cw_time := now,
      cw_active := cw_active w - {i}, cw_log := Finished now # cw_log w\<rparr>)"

fun spaced :: "rat \<Rightarrow> scaling_action list \<Rightarrow> bool" where
  "spaced seconds [] \<longleftrightarrow> True"
| "spaced seconds [a] \<longleftrightarrow> (\<exists>t. a = Started t)"
| "spaced seconds (Started t # Finished t' # rest) \<longleftrightarrow> seconds * 1000000 \<le> of_int (t - t') \<and> spaced seconds (Finished t' # rest)"
| "spaced seconds (Finished t # Started t' # rest) \<longleftrightarrow> t' \<le> t \<and> spaced seconds (Started t' # rest)"
| "spaced seconds (Started t # Started t' # rest) \<longleftrightarrow> False"
| "spaced seconds (Finished t # Finished t' # rest) \<longleftrightarrow> False"

definition format_ok :: "time_format \<Rightarrow> bool" where
  "format_ok tf \<longleftrightarrow> (\<forall>t. parse_isotime tf (isoformat tf t) = Inr t)"

definition cooldown_inv :: "time_format \<Rightarrow> tmpl_number option \<Rightarrow> cooldown_world \<Rightarrow> bool" where
  "cooldown_inv tf c w \<longleftrightarrow> format_ok tf \<and> spaced (cooldown_of c) (cw_log w) \<and>
     (case cw_log w of
        [] \<Rightarrow> cw_active w = {} \<and> cw_metadata w = []
      | Started t # _ \<Rightarrow> t \<le> cw_time w \<and> (\<exists>i. cw_active w = {i}) \<and>
          map_of (cw_metadata w) ''scaling_in_progress'' = Some (Flag True)
      | Finished t # _ \<Rightarrow> t \<le> cw_time w \<and> cw_active w = {} \<and>
          map_of (cw_metadata w) ''scaling_in_progress'' = Some (Flag False) \<and>
          (\<exists>reason. map_of (cw_metadata w) ''cooldown'' = Some (Stamps [(isoformat tf t, reason)])))"

lemma flag_refuses:
  "map_of md ''scaling_in_progress'' = Some (Flag True) \<Longrightarrow> cooldown_inprogress tf now c md = Inr (True, md)"
  by (simp add: cooldown_inprogress_def Let_def)

lemma stamp_allows:
  assumes "format_ok tf" and "map_of md ''scaling_in_progress'' = Some (Flag False)"
    and "map_of md ''cooldown'' = Some (Stamps [(isoformat tf t, reason)])"
    and "cooldown_inprogress tf now c md = Inr (False, md')" and "t \<le> now"
  shows "cooldown_of c * 1000000 \<le> of_int (now - t)"
  using assms
  by (auto simp: cooldown_inprogress_def Let_def is_older_than_def stamp_keys_def first_key_def format_ok_def split: if_splits)

lemma allowed_sets_flag:
  "cooldown_inprogress tf now c md = Inr (False, md') \<Longrightarrow> map_of md' ''scaling_in_progress'' = Some (Flag True)"
  by (auto simp: cooldown_inprogress_def Let_def split: if_splits)

lemma cooldown_step_inv:
  assumes inv: "cooldown_inv tf c w" and step: "cooldown_step tf c w w'"
  shows "cooldown_inv tf c w'"
  using step
proof cases
  case (begins now md i)
  note flag = allowed_sets_flag [OF begins(3)]
  show ?thesis
  proof (cases "cw_log w")
    case Nil
    then show ?thesis using inv flag begins by (simp add: cooldown_inv_def)
  next
    case (Cons a rest)
    then obtain t where a: "a = Finished t" using inv begins(3) flag_refuses [of "cw_metadata w" tf now c]
      by (cases a) (auto simp: cooldown_inv_def)
    then obtain reason where "map_of (cw_metadata w) ''scaling_in_progress'' = Some (Flag False)" "format_ok tf" "t \<le> cw_time w"
      "map_of (cw_metadata w) ''cooldown'' = Some (Stamps [(isoformat tf t, reason)])" "cw_active w = {}"
      "spaced (cooldown_of c) (Finished t # rest)"
      using inv Cons by (auto simp: cooldown_inv_def)
    moreover from this have "cooldown_of c * 1000000 \<le> of_int (now - t)"
      using stamp_allows [of tf "cw_metadata w" t reason now c md] begins(2,3) by simp
    ultimately show ?thesis using flag Cons a by (simp add: cooldown_inv_def begins(1))
  qed
next
  case (refused now md)
  then show ?thesis using inv by (auto simp: cooldown_inv_def split: list.splits scaling_action.splits)
next
  case (finishes now i reason)
  then obtain t rest where "cw_log w = Started t # rest" using inv
    by (auto simp: cooldown_inv_def split: list.splits scaling_action.splits)
  then show ?thesis using inv finishes
    by (auto simp: cooldown_inv_def cooldown_timestamp_def)
qed

interpretation cooldowns: guarded_system "cooldown_step tf c" "cooldown_inv tf c" for tf c
  by unfold_locales (rule cooldown_step_inv)

text \<open>C21: As long as the question and the mark are one step, at most one worker acts at a time, and an action
  starts no earlier than the cooldown after the end of the one before, for every interleaving.\<close>

theorem scaling_actions_spaced:
  assumes "(cooldown_step tf c)\<^sup>*\<^sup>* w w'" and "format_ok tf" and "cw_metadata w = []" and "cw_active w = {}" and "cw_log w = []"
  shows "card (cw_active w') \<le> 1 \<and> spaced (cooldown_of c) (cw_log w')"
proof -
  have "cooldown_inv tf c w" using assms(2-5) by (simp add: cooldown_inv_def)
  from cooldowns.run_inv [OF assms(1) this] show ?thesis
    by (auto simp: cooldown_inv_def split: list.splits scaling_action.splits)
qed

lemma example_format_ok: "format_ok example_format"
  by (simp add: format_ok_def example_format_def py_int_show_int)

definition idle_world :: cooldown_world where
  "idle_world = \<lparr>cw_metadata = [], cw_time = 0, cw_active = {}, cw_log = []\<rparr>"

definition acted_world :: cooldown_world where
  "acted_world = \<lparr>cw_metadata = [(''scaling_in_progress'', Flag True), (''cooldown'', Stamps [(''7'', ''r'')])],
     cw_time = 60000008, cw_active = {2}, cw_log = [Started 60000008, Finished 7, Started 5]\<rparr>"

lemma two_actions: "(cooldown_step example_format (Some (IntNum 60)))\<^sup>*\<^sup>* idle_world acted_world"
proof -
  let ?step = "cooldown_step example_format (Some (IntNum 60))"
  let ?a = "\<lparr>cw_metadata = [(''scaling_in_progress'', Flag True)], cw_time = 5, cw_active = {1}, cw_log = [Started 5]\<rparr>"
  let ?b = "\<lparr>cw_metadata = [(''scaling_in_progress'', Flag False), (''cooldown'', Stamps [(''7'', ''r'')])], cw_time = 7,
    cw_active = {}, cw_log = [Finished 7, Started 5]\<rparr>"
  have "cooldown_inprogress example_format 5 (Some (IntNum 60)) [] = Inr (False, [(''scaling_in_progress'', Flag True)])"
    by code_simp
  then have "?step idle_world ?a"
    using begins [of idle_world 5 example_format "Some (IntNum 60)" "[(''scaling_in_progress'', Flag True)]" 1]
    by (simp add: idle_world_def)
  moreover have "cooldown_timestamp example_format 7 ''r'' [(''scaling_in_progress'', Flag True)] =
      [(''scaling_in_progress'', Flag False), (''cooldown'', Stamps [(''7'', ''r'')])]" by code_simp
  then have "?step ?a ?b" using finishes [of ?a 7 1 example_format "Some (IntNum 60)" "''r''"] by simp
  moreover have "cooldown_inprogress example_format 60000008 (Some (IntNum 60))
      [(''scaling_in_progress'', Flag False), (''cooldown'', Stamps [(''7'', ''r'')])] =
      Inr (False, [(''scaling_in_progress'', Flag True), (''cooldown'', Stamps [(''7'', ''r'')])])" by code_simp
  then have "?step ?b acted_world"
    using begins [of ?b 60000008 example_format "Some (IntNum 60)" "[(''scaling_in_progress'', Flag True), (''cooldown'', Stamps [(''7'', ''r'')])]" 2]
    by (simp add: acted_world_def)
  ultimately show ?thesis by (meson converse_rtranclp_into_rtranclp rtranclp.rtrancl_refl)
qed

theorem scaling_actions_spaced_witness:
  "card (cw_active acted_world) \<le> 1 \<and> spaced 60 [Started 60000008, Finished 7, Started 5]"
  using scaling_actions_spaced [OF two_actions example_format_ok] by (simp add: idle_world_def acted_world_def cooldown_of_def)

text \<open>
  In the code the question reads the metadata and the mark writes them back without a comparison. Workers
  that read before the first one has written all act.
\<close>

record race_world = cooldown_world +
  rw_looked :: "(nat \<times> metadata) list"

inductive race_step :: "time_format \<Rightarrow> int \<Rightarrow> tmpl_number option \<Rightarrow> race_world \<Rightarrow> race_world \<Rightarrow> bool" for tf now c where
  looks: "cooldown_inprogress tf now c (cw_metadata w) = Inr (False, md) \<Longrightarrow>
    race_step tf now c w (w\<lparr>rw_looked := (i, md) # rw_looked w\<rparr>)"
| marks: "(i, md) \<in> set (rw_looked w) \<Longrightarrow>
    race_step tf now c w (w\<lparr>cw_metadata := md, cw_active := insert i (cw_active w), rw_looked := remove1 (i, md) (rw_looked w)\<rparr>)"

lemma unlocked_question_races:
  assumes "cooldown_inprogress tf now c (cw_metadata w) = Inr (False, md)" and "rw_looked w = []" and "cw_active w = {}"
  shows "\<exists>w'. (race_step tf now c)\<^sup>*\<^sup>* w w' \<and> cw_active w' = {1, 2}"
proof -
  let ?w1 = "w\<lparr>rw_looked := (1, md) # rw_looked w\<rparr>"
  let ?w2 = "?w1\<lparr>rw_looked := (2, md) # rw_looked ?w1\<rparr>"
  let ?w3 = "?w2\<lparr>cw_metadata := md, cw_active := insert 1 (cw_active ?w2), rw_looked := remove1 (1, md) (rw_looked ?w2)\<rparr>"
  let ?w4 = "?w3\<lparr>cw_metadata := md, cw_active := insert 2 (cw_active ?w3), rw_looked := remove1 (2, md) (rw_looked ?w3)\<rparr>"
  have "race_step tf now c w ?w1" by (rule looks) (rule assms(1))
  moreover have "race_step tf now c ?w1 ?w2" by (rule looks) (simp add: assms(1))
  moreover have "race_step tf now c ?w2 ?w3" by (rule marks) simp
  moreover have "race_step tf now c ?w3 ?w4" by (rule marks) simp
  ultimately have "(race_step tf now c)\<^sup>*\<^sup>* w ?w4" by (meson converse_rtranclp_into_rtranclp rtranclp.rtrancl_refl)
  moreover have "cw_active ?w4 = {1, 2}" using assms(3) by auto
  ultimately show ?thesis by blast
qed

section \<open>Signals\<close>

text \<open>A signal that is no alarm, or comes during the cooldown of the policy, changes nothing at all.\<close>

lemma refused_signal:
  assumes "alarm_state details \<noteq> ''alarm'' \<or> (\<exists>md. cooldown_inprogress tf now (pol_cooldown pol) (st_policy st) = Inr (True, md))"
  shows "handle_signal eng tf now reason pol details st = (Inl NoActionRequired, st)"
  using assms by (auto simp: handle_signal_def)

text \<open>A signal leaves every group but its own alone, and its own as one adjustment leaves it.\<close>

lemma signal_adjusts_one_group:
  assumes "handle_signal eng tf now reason pol details st = (r, st')" and "map_of (st_groups st) n = Some (defn, props, sg)"
  shows "\<exists>sg'. map_of (st_groups st') n = Some (defn, props, sg') \<and> (sg' = sg \<or> n = pol_group pol \<and> scaling_step eng defn props tf sg sg')"
proof (cases "st_groups st' = st_groups st")
  case True
  then show ?thesis using assms(2) by simp
next
  case False
  have alarm: "alarm_state details = ''alarm''" using assms(1) False by (auto simp: handle_signal_def split: if_splits)
  obtain md where md: "cooldown_inprogress tf now (pol_cooldown pol) (st_policy st) = Inr (False, md)"
  proof (cases "cooldown_inprogress tf now (pol_cooldown pol) (st_policy st)")
    case (Inr a)
    then show ?thesis using assms(1) False alarm that by (cases a, cases "fst a") (auto simp: handle_signal_def)
  qed (use assms(1) False alarm in \<open>simp add: handle_signal_def\<close>)
  obtain defn1 props1 sg1 where own: "map_of (st_groups st) (pol_group pol) = Some (defn1, props1, sg1)"
    using assms(1) False alarm md by (cases "map_of (st_groups st) (pol_group pol)") (auto simp: handle_signal_def)
  obtain r1 sg2 where
    adj: "adjust eng defn1 props1 tf now reason (pol_adjustment pol) (pol_type pol) (pol_min_step pol) True sg1 = (r1, sg2)"
    by (rule prod.exhaust)
  then have "st_groups st' = AList.update (pol_group pol) (defn1, props1, sg2) (st_groups st)"
    using assms(1) alarm md own by (auto simp: handle_signal_def)
  note own adj this
  then show ?thesis using assms(2) by (cases "n = pol_group pol") (auto intro: scaling_step.intros)
qed

text \<open>
  A signal that the group refuses because of its own cooldown has done nothing, but the policy records it as
  an action: its cooldown starts again.
\<close>

lemma refused_by_group_restarts_policy:
  assumes "alarm_state details = ''alarm''" and "cooldown_inprogress tf now (pol_cooldown pol) (st_policy st) = Inr (False, md)"
    and "map_of (st_groups st) (pol_group pol) = Some (defn, props, sg)"
    and "cooldown_inprogress tf now (p_cooldown props) (sg_metadata sg) = Inr (True, md')"
  shows "\<exists>st'. handle_signal eng tf now reason pol details st = (Inl NoActionRequired, st') \<and>
    map_of (st_groups st') = map_of (st_groups st) \<and>
    map_of (st_policy st') ''cooldown'' = Some (Stamps [(isoformat tf now, reason)])"
proof -
  have adj: "adjust eng defn props tf now reason (pol_adjustment pol) (pol_type pol) (pol_min_step pol) True sg = (Inl NoActionRequired, sg)"
    using assms(4) by (simp add: adjust_def)
  have "(map_of (st_groups st))(pol_group pol \<mapsto> (defn, props, sg)) = map_of (st_groups st)" using assms(3) by (simp add: map_upd_triv)
  then show ?thesis using assms(1-3) adj by (simp add: handle_signal_def cooldown_timestamp_def)
qed

text \<open>
  The update of a group during its cooldown reports success and changes nothing, even when the group is
  outside the new bounds.
\<close>

lemma update_in_cooldown_ignored:
  "cooldown_inprogress tf now (p_cooldown props) (sg_metadata sg) = Inr (True, md) \<Longrightarrow>
   adjust_after_update eng defn props tf now reason sg = (Inr (), sg)"
  by (simp add: adjust_after_update_def adjust_def)

text \<open>A fractional change of the capacity passes the bounds and then fails; the cooldown starts all the same.\<close>

lemma fractional_change_fails:
  "fst (adjust (example_engine True) ''d'' \<lparr>p_min_size = 0, p_max_size = 9, p_desired_capacity = None, p_cooldown = None\<rparr> example_format 5
      ''r'' (FloatNum (3 / 2)) ''change_in_capacity'' None True example_asg) = Inl TypeError"
  by code_simp


end
