(* ===== verification/ResourceGroup.thy ===== *)
theory ResourceGroup
  imports ScalingGroup PyValue
begin

text \<open>
  Groups of numbered resources (heat/engine/resources/openstack/heat/resource_group.py): the names of the
  members and the blacklist of removed names, the definition of a member with its number put in,
  the templates, and the rolling update, which takes the members in the order of their numbers.
\<close>

section \<open>Names\<close>

record resource_group_props =
  rg_count :: int
  rg_index_var :: string
  rg_resource_def :: "(string, py_value) dict"
  rg_removal_policies :: "string list list"

text \<open>The stored data of the resource: the blacklist is one text, the names separated by commas.\<close>

record resource_group =
  rg_nested :: "(string, py_value) dict member list"
  rg_name_blacklist :: "string option"
  rg_updates :: nat

definition current_blacklist :: "string option \<Rightarrow> string list" where
  "current_blacklist data = (case data of None \<Rightarrow> [] | Some s \<Rightarrow> if s = [] then [] else split_on (CHR '','') s)"

definition resource_by_refid :: "string \<Rightarrow> 'd member list \<Rightarrow> 'd member option" where
  "resource_by_refid refid nested = find (\<lambda>r. \<not> m_failed r \<and> m_ref r = refid) nested"

definition removal_name :: "'d member list \<Rightarrow> string \<Rightarrow> string list" where
  "removal_name nested n =
     (if n \<in> m_name ` set nested then [n]
      else case resource_by_refid n nested of None \<Rightarrow> [] | Some r \<Rightarrow> [m_name r])"

definition name_blacklist :: "resource_group_props \<Rightarrow> resource_group \<Rightarrow> string list \<times> resource_group" where
  "name_blacklist props rg =
     (let current = current_blacklist (rg_name_blacklist rg);
          rsrc_names = fold List.insert
            (concat (map (removal_name (rg_nested rg)) (concat (rg_removal_policies props)))) (remdups current)
      in (rsrc_names,
          if set rsrc_names \<noteq> set current then rg\<lparr>rg_name_blacklist := Some (join '','' rsrc_names)\<rparr> else rg))"

text \<open>The first \<open>size\<close> numbers that are not blacklisted, from \<open>i\<close> on.\<close>

lemma show_nat_inject: "show_nat i = show_nat j \<longleftrightarrow> i = j"
  by (metis int_int_eq py_int_show_nat sum.inject(2))

lemma finite_blacklisted: "finite {j. i \<le> j \<and> show_nat j \<in> set blacklist}"
proof (rule finite_imageD)
  show "finite (show_nat ` {j. i \<le> j \<and> show_nat j \<in> set blacklist})"
    by (rule finite_subset [of _ "set blacklist"]) auto
  show "inj_on show_nat {j. i \<le> j \<and> show_nat j \<in> set blacklist}" by (auto simp: inj_on_def show_nat_inject)
qed

function names_from :: "string list \<Rightarrow> nat \<Rightarrow> nat \<Rightarrow> string list" where
  "names_from blacklist i k =
     (if k = 0 then []
      else if show_nat i \<in> set blacklist then names_from blacklist (Suc i) k
      else show_nat i # names_from blacklist (Suc i) (k - 1))"
  by pat_completeness auto
termination
proof (relation "measure (\<lambda>(blacklist, i, k). k + card {j. i \<le> j \<and> show_nat j \<in> set blacklist})", goal_cases)
  case (2 blacklist i k)
  have "{j. Suc i \<le> j \<and> show_nat j \<in> set blacklist} \<subset> {j. i \<le> j \<and> show_nat j \<in> set blacklist}"
    using 2(2) by (auto simp: Suc_le_eq)
  then show ?case using psubset_card_mono [OF finite_blacklisted] by simp
next
  case (3 blacklist i k)
  have "card {j. Suc i \<le> j \<and> show_nat j \<in> set blacklist} \<le> card {j. i \<le> j \<and> show_nat j \<in> set blacklist}"
    by (rule card_mono [OF finite_blacklisted]) auto
  then show ?case using 3(1) by simp
qed simp

declare names_from.simps [simp del]

definition resource_names_of :: "string list \<Rightarrow> int \<Rightarrow> string list result" where
  "resource_names_of blacklist k = (if k < 0 then Inl ValueError else Inr (names_from blacklist 0 (nat k)))"

definition resource_names :: "resource_group_props \<Rightarrow> int option \<Rightarrow> resource_group \<Rightarrow> string list result \<times> resource_group" where
  "resource_names props group_size rg =
     (case name_blacklist props rg of (blacklist, rg') \<Rightarrow>
        (resource_names_of blacklist (case group_size of None \<Rightarrow> rg_count props | Some n \<Rightarrow> n), rg'))"

definition count_black_listed :: "resource_group_props \<Rightarrow> resource_group \<Rightarrow> int \<times> resource_group" where
  "count_black_listed props rg =
     (case name_blacklist props rg of (blacklist, rg') \<Rightarrow>
        (int (card (set blacklist \<inter> set (get_member_names (rg_nested rg)))), rg'))"

section \<open>Definitions of members\<close>

text \<open>\<open>s.replace(old, new)\<close>; an empty \<open>old\<close> is found before every character and at the end.\<close>

function str_replace :: "string \<Rightarrow> string \<Rightarrow> string \<Rightarrow> string" where
  "str_replace old new s =
     (if old = [] then (case s of [] \<Rightarrow> new | c # cs \<Rightarrow> new @ c # str_replace old new cs)
      else if take (length old) s = old then new @ str_replace old new (drop (length old) s)
      else case s of [] \<Rightarrow> [] | c # cs \<Rightarrow> c # str_replace old new cs)"
  by pat_completeness auto
termination
proof (relation "measure (\<lambda>(old, new, s). length s)", goal_cases)
  case (3 old new s)
  then have "s \<noteq> []" by auto
  then show ?case using 3 by simp
qed auto

declare str_replace.simps [simp del]

primrec handle_repl_val :: "string \<Rightarrow> string \<Rightarrow> py_value \<Rightarrow> py_value" where
  "handle_repl_val repl_var res_name (PyStr s) = PyStr (str_replace repl_var res_name s)"
| "handle_repl_val repl_var res_name (PyDict d) = PyDict (map (map_prod id (handle_repl_val repl_var res_name)) d)"
| "handle_repl_val repl_var res_name (PyList vs) = PyList (map (handle_repl_val repl_var res_name) vs)"
| "handle_repl_val repl_var res_name PyNone = PyNone"
| "handle_repl_val repl_var res_name (PyBool b) = PyBool b"
| "handle_repl_val repl_var res_name (PyInt n) = PyInt n"

text \<open>
  The definition of the group with the number of the member in place of the index variable, and without the
  properties that are null. The definition of a resource is its snippet.
\<close>

type_synonym snippet = "(string, py_value) dict"

definition build_resource_definition :: "string \<Rightarrow> string \<Rightarrow> snippet \<Rightarrow> snippet" where
  "build_resource_definition index_var res_name res_defn =
     (let props = dict_get res_defn ''properties'' PyNone
      in if truthy props then AList.update ''properties'' (handle_repl_val index_var res_name props) res_defn else res_defn)"

definition clean_props :: "snippet \<Rightarrow> snippet result" where
  "clean_props res_defn =
     (let props = dict_get res_defn ''properties'' PyNone
      in if truthy props then
           (case props of
              PyDict d \<Rightarrow> Inr (AList.update ''properties'' (PyDict (filter (\<lambda>(k, v). v \<noteq> PyNone) d)) res_defn)
            | _ \<Rightarrow> Inl AttributeError)
         else Inr res_defn)"

definition get_resource_def :: "resource_group_props \<Rightarrow> bool \<Rightarrow> snippet result" where
  "get_resource_def props include_all =
     (if include_all then Inr (rg_resource_def props) else clean_props (rg_resource_def props))"

section \<open>Templates\<close>

definition assemble_nested :: "resource_group_props \<Rightarrow> string list \<Rightarrow> (string, snippet) dict result" where
  "assemble_nested props names =
     bind (get_resource_def props False) (\<lambda>def_dict.
       Inr (make_template (map (\<lambda>k. (k, build_resource_definition (rg_index_var props) k def_dict)) names)))"

text \<open>The order in which members are removed and changed: those without a number first, then by falling number.\<close>

definition replace_priority :: "string list \<Rightarrow> int \<Rightarrow> int \<Rightarrow> string \<Rightarrow> int" where
  "replace_priority names targ_cap total_capacity name =
     (case find (\<lambda>i. names ! i = name) [0..<length names] of
        None \<Rightarrow> 0
      | Some index \<Rightarrow> if int index < targ_cap then targ_cap - int index else total_capacity)"

definition assemble_for_rolling_update ::
    "resource_group_props \<Rightarrow> int \<Rightarrow> int \<Rightarrow> resource_group \<Rightarrow> (string, snippet) dict result \<times> resource_group" where
  "assemble_for_rolling_update props total_capacity max_updates rg =
     (case resource_names props (Some total_capacity) rg of
        (Inl e, rg) \<Rightarrow> (Inl e, rg)
      | (Inr names, rg) \<Rightarrow>
          (case name_blacklist props rg of (blacklist, rg) \<Rightarrow>
            let valid_resources = filter (\<lambda>(n, d). n \<notin> set blacklist) (get_member_definitions (rg_nested rg));
                old_resources = sort_key (\<lambda>(n, d). replace_priority names (rg_count props) total_capacity n) valid_resources;
                existing_names = keys valid_resources;
                new_names = filter (\<lambda>n. n \<notin> set existing_names) names
            in (bind (get_resource_def props False) (\<lambda>res_def.
                  bind (member_definitions old_resources res_def total_capacity max_updates new_names
                          (build_resource_definition (rg_index_var props)))
                    (\<lambda>definitions. Inr (make_template definitions))),
                rg)))"

section \<open>Updates\<close>

definition update_resource_group :: "snippet engine \<Rightarrow> (string, snippet) dict \<Rightarrow> resource_group \<Rightarrow> resource_group" where
  "update_resource_group eng tmpl rg =
     rg\<lparr>rg_nested := update_nested eng (rg_updates rg) tmpl (rg_nested rg), rg_updates := Suc (rg_updates rg)\<rparr>"

text \<open>One task of a rolling update; its template is made when it starts.\<close>

definition run_update :: "snippet engine \<Rightarrow> resource_group_props \<Rightarrow> int \<times> int \<Rightarrow> resource_group \<Rightarrow> resource_group result" where
  "run_update eng props batch rg =
     (case batch of (total_capacity, max_updates) \<Rightarrow>
        (case assemble_for_rolling_update props total_capacity max_updates rg of
           (r, rg) \<Rightarrow> bind r (\<lambda>tmpl. Inr (update_resource_group eng tmpl rg))))"

text \<open>
  The batches of a rolling update, after the check of the time they take; then the tasks one after the
  other. \<open>None\<close>: the list of the batches is never complete.
\<close>

definition replace_batches ::
    "resource_group_props \<Rightarrow> int \<Rightarrow> int \<Rightarrow> int \<Rightarrow> int \<Rightarrow> resource_group \<Rightarrow> ((int \<times> int) list result \<times> resource_group) option" where
  "replace_batches props min_serving batch_size pause_sec timeout_secs rg =
     (case count_black_listed props rg of (num_blacklist, rg) \<Rightarrow>
        let cur_cap = (if rg_nested rg = [] then 0 else int (length (rg_nested rg)) - num_blacklist) in
        Option.bind (get_resource_batches (rg_count props) cur_cap batch_size min_serving) (\<lambda>r.
          Some (bind r (\<lambda>batches.
            bind (update_timeout timeout_secs (int (length batches)) pause_sec) (\<lambda>_. Inr batches)), rg)))"

definition resize_to_names :: "snippet engine \<Rightarrow> resource_group_props \<Rightarrow> resource_group \<Rightarrow> resource_group result" where
  "resize_to_names eng props rg =
     (case resource_names props None rg of
        (r, rg) \<Rightarrow> bind r (\<lambda>names. bind (assemble_nested props names) (\<lambda>tmpl. Inr (update_resource_group eng tmpl rg))))"

text \<open>\<open>handle_create\<close> with its policy for batches, \<open>handle_update\<close> with its policy for rolling updates.\<close>

definition create_group ::
    "snippet engine \<Rightarrow> resource_group_props \<Rightarrow> (int \<times> int) option \<Rightarrow> int \<Rightarrow> resource_group \<Rightarrow> resource_group result option" where
  "create_group eng props batch_create timeout_secs rg =
     (case batch_create of
        Some (batch_size, pause_sec) \<Rightarrow>
          Option.bind (replace_batches props 0 batch_size pause_sec timeout_secs rg) (\<lambda>(r, rg).
            Some (bind r (\<lambda>batches. if batches = [] then Inl IndexError else loop (run_update eng props) batches rg)))
      | None \<Rightarrow> Some (resize_to_names eng props rg))"

text \<open>An empty list of batches counts as no rolling update; \<open>handle_create\<close> takes its first element.\<close>

definition update_group ::
    "snippet engine \<Rightarrow> resource_group_props \<Rightarrow> rolling_policy option \<Rightarrow> bool \<Rightarrow> int \<Rightarrow> resource_group \<Rightarrow> resource_group result option" where
  "update_group eng props policy changed timeout_secs rg =
     (case (if changed then policy else None) of
        None \<Rightarrow> Some (resize_to_names eng props rg)
      | Some p \<Rightarrow>
          Option.bind (replace_batches props (min_in_service p) (max_batch_size p) (pause_time p) timeout_secs rg) (\<lambda>(r, rg).
            Some (bind r (\<lambda>batches. if batches = [] then resize_to_names eng props rg
              else loop (run_update eng props) batches rg))))"

section \<open>The numbers in use\<close>

lemma names_from_facts:
  "length (names_from bl i k) = k \<and> distinct (names_from bl i k) \<and> set (names_from bl i k) \<inter> set bl = {} \<and>
   set (names_from bl i k) \<subseteq> show_nat ` {i..}"
proof (induction bl i k rule: names_from.induct)
  case (1 bl i k)
  consider "k = 0" | "k \<noteq> 0" "show_nat i \<in> set bl" | "k \<noteq> 0" "show_nat i \<notin> set bl" by blast
  then show ?case
  proof cases
    case 1
    then show ?thesis by (simp add: names_from.simps)
  next
    case 2
    then show ?thesis using 1(1) by (subst (1 2 3 4) names_from.simps) auto
  next
    case 3
    have "show_nat i \<notin> show_nat ` {Suc i..}" by (auto simp: show_nat_inject)
    then show ?thesis using 3 1(2) by (subst (1 2 3 4) names_from.simps) auto
  qed
qed

lemmas length_names_from [simp] = names_from_facts [THEN conjunct1]
lemmas distinct_names_from [simp] = names_from_facts [THEN conjunct2, THEN conjunct1]
lemmas names_not_blacklisted = names_from_facts [THEN conjunct2, THEN conjunct2, THEN conjunct1]
lemmas names_are_numbers = names_from_facts [THEN conjunct2, THEN conjunct2, THEN conjunct2]

lemma take_names_from: "j \<le> k \<Longrightarrow> take j (names_from bl i k) = names_from bl i j"
proof (induction bl i k arbitrary: j rule: names_from.induct)
  case (1 bl i k)
  show ?case
  proof (cases "j = 0")
    case True
    then show ?thesis by (simp add: names_from.simps)
  next
    case False
    then show ?thesis using 1
      by (cases "show_nat i \<in> set bl") (subst (1 2) names_from.simps, auto simp: take_Cons')+
  qed
qed

lemma names_from_cong: "set bl = set bl' \<Longrightarrow> names_from bl i k = names_from bl' i k"
proof (induction bl i k rule: names_from.induct)
  case (1 bl i k)
  then show ?case by (subst (1 2) names_from.simps) auto
qed

lemma names_mono: "j \<le> k \<Longrightarrow> set (names_from bl i j) \<subseteq> set (names_from bl i k)"
  by (metis take_names_from set_take_subset)

lemma names_inter: "set (names_from bl i j) \<inter> set (names_from bl i k) = set (names_from bl i (min j k))"
  using names_mono [of j k bl i] names_mono [of k j bl i] by (cases "j \<le> k") (auto simp: min_def)

lemma names_card: "card (set (names_from bl i k)) = k"
  by (simp add: distinct_card)

lemma names_index:
  assumes "name \<in> set (names_from bl i k)"
  obtains j where "j < k" "names_from bl i k ! j = name" "find (\<lambda>j. names_from bl i k ! j = name) [0..<k] = Some j"
    "\<And>m. m \<le> k \<Longrightarrow> name \<in> set (names_from bl i m) \<longleftrightarrow> j < m"
proof -
  let ?N = "names_from bl i k"
  have "find (\<lambda>j. ?N ! j = name) [0..<k] \<noteq> None"
    using assms by (auto simp: find_None_iff in_set_conv_nth)
  then obtain j where j: "find (\<lambda>j. ?N ! j = name) [0..<k] = Some j" by blast
  then have jk: "j < k" "?N ! j = name" using find_SomeD [OF j] by simp_all
  have "name \<in> set (names_from bl i m) \<longleftrightarrow> j < m" if mk: "m \<le> k" for m
  proof
    assume "name \<in> set (names_from bl i m)"
    then obtain p where "p < m" "?N ! p = name" using take_names_from [OF mk, of bl i, symmetric] mk
      by (auto simp: in_set_conv_nth)
    then have "p = j" using jk mk by (metis distinct_names_from length_names_from nth_eq_iff_index_eq order_less_le_trans)
    then show "j < m" using \<open>p < m\<close> by simp
  next
    assume "j < m"
    then have "name = names_from bl i m ! j" using take_names_from [OF mk, of bl i] jk by (metis nth_take)
    then show "name \<in> set (names_from bl i m)" using \<open>j < m\<close> by simp
  qed
  then show ?thesis using that j jk by blast
qed

lemma priority_of_number:
  assumes "name \<in> set (names_from bl i k)"
  shows "1 \<le> replace_priority (names_from bl i k) targ (int k) name"
    and "replace_priority (names_from bl i k) targ (int k) name \<le> targ \<longleftrightarrow> name \<in> set (names_from bl i (min k (nat targ)))"
proof -
  obtain j where j: "j < k" "find (\<lambda>j. names_from bl i k ! j = name) [0..<k] = Some j"
    "\<And>m. m \<le> k \<Longrightarrow> name \<in> set (names_from bl i m) \<longleftrightarrow> j < m" using names_index [OF assms] by metis
  then have p: "replace_priority (names_from bl i k) targ (int k) name = (if int j < targ then targ - int j else int k)"
    by (simp add: replace_priority_def)
  show "1 \<le> replace_priority (names_from bl i k) targ (int k) name" using p j(1) by simp
  show "replace_priority (names_from bl i k) targ (int k) name \<le> targ \<longleftrightarrow> name \<in> set (names_from bl i (min k (nat targ)))"
    using p j(1) j(3) [of "min k (nat targ)"] by auto
qed

lemma priority_of_other: "name \<notin> set names \<Longrightarrow> replace_priority names targ k name = 0"
proof -
  assume "name \<notin> set names"
  then have "find (\<lambda>i. names ! i = name) [0..<length names] = None" by (auto simp: find_None_iff)
  then show ?thesis by (simp add: replace_priority_def)
qed

section \<open>One batch\<close>

text \<open>
  \<open>G\<close> counts the members up to date among those with the first \<open>t\<close> numbers, for the definition \<open>b\<close> a member
  of a given name is to have.
\<close>

definition current_count :: "(string \<Rightarrow> snippet) \<Rightarrow> string set \<Rightarrow> (string \<times> snippet) list \<Rightarrow> nat" where
  "current_count b T ds = length (filter (\<lambda>x. fst x \<in> T \<and> snd x = b (fst x)) ds)"

lemma current_count_append: "current_count b T (xs @ ys) = current_count b T xs + current_count b T ys"
  by (simp add: current_count_def)

lemma old_members_append:
  "old_members cu new k (xs @ ys) =
     old_members cu new k xs @ old_members cu new (max 0 k - min (max 0 k) (int (length (filter (\<lambda>x. \<not> up_to_date cu new x) xs)))) ys"
proof (induction cu new k xs rule: old_members.induct)
  case (1 cu new k)
  then show ?case by (cases "k \<le> 0") (simp_all add: max_def)
next
  case (2 cu new k n d xs)
  show ?case
  proof (cases "d \<noteq> cu n new \<and> k > 0")
    case True
    have "old_members cu new (k - 1 - min (k - 1) m) ys = old_members cu new (k - min k (1 + m)) ys" for m
      by (rule arg_cong [where f = "\<lambda>k. old_members cu new k ys"]) (auto simp: min_def)
    then show ?thesis using 2(1) True by (simp add: Let_def)
  next
    case False
    then show ?thesis using 2(2) by (auto simp: Let_def max_def)
  qed
qed

text \<open>The first members of the list become current, as many as there are changes.\<close>

lemma old_members_count:
  assumes "0 \<le> k" and "\<forall>x \<in> set xs. fst x \<in> T"
  shows "int (current_count (\<lambda>n. cu n new) T (old_members cu new k xs)) =
    int (current_count (\<lambda>n. cu n new) T xs) + min k (int (length (filter (\<lambda>x. \<not> up_to_date cu new x) xs)))"
  using assms by (induction cu new k xs rule: old_members.induct) (auto simp: Let_def current_count_def)

lemma current_count_all:
  "\<forall>x \<in> set xs. fst x \<in> T \<Longrightarrow>
   current_count (\<lambda>n. cu n new) T xs + length (filter (\<lambda>x. \<not> up_to_date cu new x) xs) = length xs"
  by (induction xs) (auto simp: current_count_def)

lemma kept_numbers:
  assumes V: "wf_dict V" "set (keys V) = set (names_from bl 0 cur)" and num: "0 < num"
    and S: "S = sort_key (\<lambda>(n, d). replace_priority (names_from bl 0 (nat num)) targ num n) V"
  shows "set (keys (slice_last num S)) = set (names_from bl 0 (min cur (nat num)))" "wf_dict (slice_last num S)"
    "length (slice_last num S) = min cur (nat num)"
    "sorted (map (\<lambda>(n, d). replace_priority (names_from bl 0 (nat num)) targ num n) (slice_last num S))"
    "set (slice_last num S) \<subseteq> set V"
proof -
  let ?N = "names_from bl 0 (nat num)"
  let ?p = "\<lambda>(n, d). replace_priority ?N targ num n"
  have num': "int (nat num) = num" using num by simp
  have S': "set S = set V" "length S = length V" "sorted (map ?p S)" by (simp_all add: S)
  have "wf_dict S" using V(1) by (simp add: S distinct_map)
  have len: "length V = cur" using distinct_card [OF V(1)] names_card [of bl 0 cur] V(2) by simp
  obtain dr where dr: "S = dr @ slice_last num S" and lens: "length (slice_last num S) = min (nat num) (length S)"
    using slice_last_drop [of num S] num by auto
  show l: "length (slice_last num S) = min cur (nat num)" using lens S'(2) len by simp
  show wf: "wf_dict (slice_last num S)" using \<open>wf_dict S\<close> dr by (metis distinct_append map_append)
  show "sorted (map ?p (slice_last num S))" using S'(3) dr by (metis map_append sorted_append)
  show "set (slice_last num S) \<subseteq> set V" using dr S'(1) by (metis Un_upper2 set_append)
  show "set (keys (slice_last num S)) = set (names_from bl 0 (min cur (nat num)))"
  proof (cases "cur \<le> nat num")
    case True
    then have "dr = []" using dr l S'(2) len by (metis add_cancel_left_left length_0_conv length_append min_def)
    then have "set (keys (slice_last num S)) = set (keys S)" using dr by simp
    then show ?thesis using S'(1) V(2) True by (simp add: min_def)
  next
    case False
    let ?P = "\<lambda>x. fst x \<notin> set ?N"
    have "S = filter ?P S @ filter (\<lambda>x. \<not> ?P x) S"
    proof (rule sorted_split [where f = ?p])
      show "\<forall>x \<in> set S. \<forall>y \<in> set S. ?P x \<longrightarrow> \<not> ?P y \<longrightarrow> ?p x < ?p y"
        using priority_of_number(1) [of _ bl 0 "nat num" targ] num' by (fastforce simp: priority_of_other case_prod_beta)
    qed (rule S'(3))
    moreover have "set (keys (filter (\<lambda>x. \<not> ?P x) S)) = set ?N"
    proof -
      have "set (keys (filter (\<lambda>x. \<not> ?P x) S)) = set (keys S) \<inter> set ?N" by auto
      also have "\<dots> = set ?N" using S'(1) V(2) names_mono [of "nat num" cur bl 0] False by auto
      finally show ?thesis .
    qed
    moreover from this have "length (filter (\<lambda>x. \<not> ?P x) S) = nat num"
      using distinct_card [of "keys (filter (\<lambda>x. \<not> ?P x) S)"] \<open>wf_dict S\<close> names_card [of bl 0 "nat num"]
      by (simp add: distinct_map_filter)
    ultimately have "slice_last num S = filter (\<lambda>x. \<not> ?P x) S"
      using dr l False by (metis append_eq_append_conv min.absorb2 nat_le_linear)
    then show ?thesis using \<open>set (keys (filter (\<lambda>x. \<not> ?P x) S)) = set ?N\<close> False by (simp add: min_def)
  qed
qed

text \<open>The new names are the numbers that follow.\<close>

lemma new_numbers:
  assumes "set (keys V) = set (names_from bl 0 cur)"
  shows "filter (\<lambda>n. n \<notin> set (keys V)) (names_from bl 0 m) = drop cur (names_from bl 0 m)"
proof (cases "cur \<le> m")
  case True
  have "names_from bl 0 m = names_from bl 0 cur @ drop cur (names_from bl 0 m)" (is "_ = _ @ ?rest")
    using take_names_from [OF True, of bl 0] by (metis append_take_drop_id)
  moreover from this have "set (names_from bl 0 cur) \<inter> set ?rest = {}" by (metis distinct_append distinct_names_from)
  moreover have "filter (\<lambda>n. n \<notin> set xs) (xs @ ys) = ys" if "set xs \<inter> set ys = {}" for xs ys :: "string list"
    using that by (auto simp: filter_empty_conv filter_id_conv)
  ultimately show ?thesis unfolding assms by metis
next
  case False
  then have "set (names_from bl 0 m) \<subseteq> set (keys V)" using names_mono [of m cur bl 0] assms by simp
  then have "filter (\<lambda>n. n \<notin> set (keys V)) (names_from bl 0 m) = []" unfolding filter_empty_conv by blast
  then show ?thesis using False by simp
qed

lemma length_filter_same:
  assumes "distinct xs" "distinct ys" "set (filter P xs) = set (filter P ys)"
  shows "length (filter P xs) = length (filter P ys)"
  using distinct_card [OF distinct_filter [OF assms(1), of P]] distinct_card [OF distinct_filter [OF assms(2), of P]] assms(3) by simp

lemma all_current:
  assumes "current_count b T xs = length xs" and "x \<in> set xs"
  shows "snd x = b (fst x)"
  using assms length_filter_less [of x xs "\<lambda>x. fst x \<in> T \<and> snd x = b (fst x)"] by (auto simp: current_count_def)

lemma new_numbers_count:
  "int (length (filter (\<lambda>n. n \<in> set (names_from bl 0 t)) (drop cur (names_from bl 0 m)))) = max 0 (int (min m t) - int cur)"
proof -
  let ?d = "drop cur (names_from bl 0 m)" and ?T = "set (names_from bl 0 t)"
  have d: "set ?d = set (names_from bl 0 m) - set (names_from bl 0 cur)"
  proof (cases "cur \<le> m")
    case True
    then have split: "names_from bl 0 m = names_from bl 0 cur @ ?d" by (metis append_take_drop_id take_names_from)
    then have "set (names_from bl 0 cur) \<inter> set ?d = {}" by (metis distinct_append distinct_names_from)
    then show ?thesis using split by (metis Diff_cancel Un_Diff Un_commute Diff_triv inf_commute set_append sup_bot_right)
  qed (use names_mono [of m cur bl 0] in auto)
  have "length (filter (\<lambda>n. n \<in> ?T) ?d) = card (set (filter (\<lambda>n. n \<in> ?T) ?d))"
    by (rule distinct_card [symmetric]) simp
  also have "set (filter (\<lambda>n. n \<in> ?T) ?d) = set (names_from bl 0 (min m t)) - set (names_from bl 0 cur)"
    using d names_inter [of bl 0 m t] by auto
  also have "card \<dots> = card (set (names_from bl 0 (min m t))) - card (set (names_from bl 0 (min m t)) \<inter> set (names_from bl 0 cur))"
    by (simp add: card_Diff_subset_Int)
  also have "\<dots> = min m t - min (min m t) cur" by (simp add: names_inter names_card)
  finally show ?thesis by (auto simp: min_def max_def)
qed

lemma batch_numbers:
  assumes V: "wf_dict V" "set (keys V) = set (names_from bl 0 cur)" and num: "0 < num" "0 \<le> n" "num \<le> int cur + n"
    and low: "min (int cur) targ \<le> num"
    and S: "S = sort_key (\<lambda>(n, d). replace_priority (names_from bl 0 (nat num)) targ num n) V"
    and T: "T = set (names_from bl 0 (nat targ))"
  shows "\<exists>ds. member_definitions S new num n (filter (\<lambda>n. n \<notin> set (keys V)) (names_from bl 0 (nat num))) cu = Inr ds \<and>
    wf_dict ds \<and> set (keys ds) = set (names_from bl 0 (nat num)) \<and>
    ((\<forall>x \<in> set ds. fst x \<in> T \<longrightarrow> snd x = cu (fst x) new) \<or>
     int (current_count (\<lambda>n. cu n new) T V) + n - max 0 (num - max (int cur) targ) \<le> int (current_count (\<lambda>n. cu n new) T ds))"
proof -
  let ?N = "names_from bl 0 (nat num)" and ?b = "\<lambda>n. cu n new"
  define kept where "kept = slice_last num S"
  note K = kept_numbers [OF V num(1) S, folded kept_def]
  define create where "create = max 0 (num - int cur)"
  have len: "num - int (length kept) = create" using K(3) num(1) by (auto simp: create_def)
  have k: "0 \<le> n - create" using num(2,3) by (auto simp: create_def)
  define om where "om = old_members cu new (n - create) kept"
  have ids: "take (nat create) (drop cur ?N) = drop cur ?N" by (simp add: create_def)
  define ds where "ds = om @ map (\<lambda>i. (i, cu i new)) (drop cur ?N)"
  have "take (nat num) om = om" using K(3) by (simp add: om_def)
  moreover have "nat create \<le> length (drop cur ?N)" by (simp add: create_def)
  ultimately have md: "member_definitions S new num n (filter (\<lambda>n. n \<notin> set (keys V)) ?N) cu = Inr ds"
    unfolding member_definitions_def Let_def kept_def [symmetric] len new_numbers [OF V(2)] ds_def om_def [symmetric] ids by simp
  have keys: "keys ds = keys kept @ drop cur ?N" by (simp add: ds_def om_def comp_def)
  have names: "set (keys ds) = set ?N \<and> distinct (keys ds)"
  proof (cases "cur \<le> nat num")
    case True
    then have kk: "set (keys kept) = set (take cur ?N)" using K(1) by (simp add: take_names_from min_def)
    have "distinct (take cur ?N @ drop cur ?N)" by simp
    then have "set (take cur ?N) \<inter> set (drop cur ?N) = {}" by (simp only: distinct_append)
    moreover have "set (take cur ?N) \<union> set (drop cur ?N) = set ?N" by (metis append_take_drop_id set_append)
    ultimately show ?thesis using K(2) kk unfolding keys by simp
  next
    case False
    then show ?thesis using K(1,2) unfolding keys by (simp add: min_def)
  qed
  let ?P = "\<lambda>x. fst x \<in> T"
  have prio: "fst x \<in> T \<longleftrightarrow> replace_priority ?N targ num (fst x) \<le> targ" if "x \<in> set kept" for x
  proof -
    have "fst x \<in> set (keys kept)" using that by simp
    then have "fst x \<in> set ?N" using K(1) names_mono [of "min cur (nat num)" "nat num" bl 0] by auto
    moreover have "int (nat num) = num" using num(1) by simp
    ultimately show ?thesis
      using priority_of_number(2) [of "fst x" bl 0 "nat num" targ] names_inter [of bl 0 "nat num" "nat targ"] by (auto simp: T)
  qed
  have split: "kept = filter ?P kept @ filter (\<lambda>x. \<not> ?P x) kept"
    by (rule sorted_split [OF K(4)]) (use prio in \<open>auto simp: case_prod_beta\<close>)
  let ?KT = "filter ?P kept" and ?KF = "filter (\<lambda>x. \<not> ?P x) kept"
  obtain k' where om': "om = old_members cu new (n - create) ?KT @ old_members cu new k' ?KF"
    using old_members_append [of cu new "n - create" ?KT ?KF] unfolding om_def split [symmetric] by blast
  have other: "fst x \<notin> T" if "x \<in> set (old_members cu new k' ?KF)" for x
  proof -
    have "fst x \<in> set (keys (old_members cu new k' ?KF))" using that by (metis image_eqI set_map)
    then have "fst x \<in> set (keys ?KF)" by (simp only: keys_old_members)
    then show ?thesis by auto
  qed
  then have KF: "current_count ?b T (old_members cu new k' ?KF) = 0"
    unfolding current_count_def length_0_conv filter_empty_conv by blast
  have KT: "int (current_count ?b T (old_members cu new (n - create) ?KT)) = int (current_count ?b T ?KT) +
      min (n - create) (int (length (filter (\<lambda>x. \<not> up_to_date cu new x) ?KT)))"
    by (rule old_members_count [OF k]) simp
  have fresh: "int (current_count ?b T (map (\<lambda>i. (i, cu i new)) (drop cur ?N))) = max 0 (int (min (nat num) (nat targ)) - int cur)"
    using new_numbers_count [of bl "nat targ" cur "nat num"] by (simp add: current_count_def filter_map comp_def T)
  have same: "current_count ?b T ?KT = current_count ?b T V"
  proof -
    let ?Q = "\<lambda>x. fst x \<in> T \<and> snd x = ?b (fst x)"
    have "x \<in> set kept" if x: "x \<in> set V" "fst x \<in> T" for x
    proof -
      have "fst x \<in> set (names_from bl 0 (min cur (nat targ)))" using x V(2) names_inter [of bl 0 cur "nat targ"] T by auto
      moreover have "min cur (nat targ) \<le> min cur (nat num)" using low num(1) by auto
      ultimately have "fst x \<in> set (keys kept)" using K(1) names_mono [of "min cur (nat targ)" "min cur (nat num)" bl 0] by auto
      then obtain y where y: "y \<in> set kept" "fst y = fst x" by auto
      have "inj_on fst (set V)" using V(1) by (simp add: distinct_map)
      then have "y = x" using y K(5) x(1) by (auto dest: inj_onD)
      then show ?thesis using y(1) by simp
    qed
    then have "set (filter ?Q ?KT) = set (filter ?Q V)" using K(5) by auto
    moreover have "distinct kept" "distinct V" using K(2) V(1) by (auto simp: distinct_map)
    then have "distinct ?KT" "distinct V" by simp_all
    ultimately show ?thesis unfolding current_count_def by (intro length_filter_same)
  qed
  have total: "current_count ?b T ds = current_count ?b T (old_members cu new (n - create) ?KT) +
      current_count ?b T (map (\<lambda>i. (i, cu i new)) (drop cur ?N))"
    by (simp add: ds_def om' current_count_append KF)
  have "(\<forall>x \<in> set ds. fst x \<in> T \<longrightarrow> snd x = ?b (fst x)) \<or>
      int (current_count ?b T V) + n - max 0 (num - max (int cur) targ) \<le> int (current_count ?b T ds)"
  proof (cases "int (length (filter (\<lambda>x. \<not> up_to_date cu new x) ?KT)) \<le> n - create")
    case True
    have "current_count ?b T ?KT + length (filter (\<lambda>x. \<not> up_to_date cu new x) ?KT) = length ?KT" by (rule current_count_all) simp
    then have "current_count ?b T (old_members cu new (n - create) ?KT) = length (old_members cu new (n - create) ?KT)"
      using KT True by simp
    then have "\<forall>x \<in> set (old_members cu new (n - create) ?KT). snd x = ?b (fst x)" using all_current by blast
    moreover have "snd x = ?b (fst x)" if "x \<in> (\<lambda>i. (i, cu i new)) ` set (drop cur ?N)" for x using that by force
    ultimately have "\<forall>x \<in> set (old_members cu new (n - create) ?KT) \<union> set (old_members cu new k' ?KF) \<union>
        (\<lambda>i. (i, cu i new)) ` set (drop cur ?N). fst x \<in> T \<longrightarrow> snd x = ?b (fst x)" using other by blast
    then show ?thesis unfolding ds_def om' by (simp only: set_append set_map) blast
  next
    case False
    then have "int (current_count ?b T ds) = int (current_count ?b T V) + (n - create) + max 0 (int (min (nat num) (nat targ)) - int cur)"
      using KT fresh same total by simp
    moreover have "n - max 0 (num - max (int cur) targ) \<le> n - create + max 0 (int (min (nat num) (nat targ)) - int cur)"
      using num(1) by (auto simp: create_def)
    ultimately show ?thesis by linarith
  qed
  then show ?thesis using md names by blast
qed

section \<open>The group during a rolling update\<close>

lemma set_insert_fold: "set (fold List.insert xs ys) = set xs \<union> set ys"
  by (induction xs arbitrary: ys) auto

text \<open>
  Removal policies have nothing more to remove: what they name is blacklisted or never was a number, and is
  the reference of a blacklisted member at most.
\<close>

definition quiet :: "snippet engine \<Rightarrow> resource_group_props \<Rightarrow> string set \<Rightarrow> snippet member list \<Rightarrow> bool" where
  "quiet eng props bl nested \<longleftrightarrow>
     (\<forall>n \<in> set (concat (rg_removal_policies props)).
        (n \<in> bl \<or> n \<notin> range show_nat) \<and> (\<forall>k m. new_ref eng k m \<noteq> n) \<and> (\<forall>r \<in> set nested. m_ref r = n \<longrightarrow> m_name r \<in> bl))"

definition numbered :: "snippet engine \<Rightarrow> resource_group_props \<Rightarrow> string list \<Rightarrow> nat \<Rightarrow> snippet member list \<Rightarrow> bool" where
  "numbered eng props bl cur nested \<longleftrightarrow>
     live_group nested \<and> m_name ` set nested - set bl = set (names_from bl 0 cur) \<and> quiet eng props (set bl) nested"

definition member_pairs :: "'d member list \<Rightarrow> (string \<times> 'd) list" where
  "member_pairs nested = map (\<lambda>r. (m_name r, m_defn r)) nested"

lemma quietD:
  assumes "numbered eng props bl cur nested" and "n \<in> set (concat (rg_removal_policies props))"
  shows "n \<in> set bl \<or> n \<notin> range show_nat" "new_ref eng k m \<noteq> n" "r \<in> set nested \<Longrightarrow> m_ref r = n \<Longrightarrow> m_name r \<in> set bl"
proof -
  have "quiet eng props (set bl) nested" using assms(1) by (simp add: numbered_def)
  from this [unfolded quiet_def, rule_format, OF assms(2)]
  show "n \<in> set bl \<or> n \<notin> range show_nat" "new_ref eng k m \<noteq> n" "r \<in> set nested \<Longrightarrow> m_ref r = n \<Longrightarrow> m_name r \<in> set bl"
    by blast+
qed

lemma removals_known:
  assumes "numbered eng props bl cur nested" and "n \<in> set (concat (rg_removal_policies props))"
  shows "set (removal_name nested n) \<subseteq> set bl"
proof (cases "n \<in> m_name ` set nested")
  case True
  have "n \<in> set bl \<or> n \<in> set (names_from bl 0 cur)" using True assms(1) by (auto simp: numbered_def)
  then have "n \<in> set bl \<or> n \<in> range show_nat" using names_are_numbers [of bl 0 cur] by auto
  then have "n \<in> set bl" using quietD(1) [OF assms] by blast
  then show ?thesis using True by (simp add: removal_name_def)
next
  case False
  show ?thesis
  proof (cases "resource_by_refid n nested")
    case None
    then show ?thesis using False by (simp add: removal_name_def)
  next
    case (Some r)
    then have "r \<in> set nested" "m_ref r = n" using find_SomeD [of _ nested r] by (auto simp: resource_by_refid_def)
    then have "m_name r \<in> set bl" by (rule quietD(3) [OF assms])
    then show ?thesis using False Some by (simp add: removal_name_def)
  qed
qed

lemma name_blacklist_known:
  assumes "numbered eng props bl cur (rg_nested rg)" and "set (current_blacklist (rg_name_blacklist rg)) = set bl"
  obtains l where "name_blacklist props rg = (l, rg)" "set l = set bl"
proof -
  have "set (concat (map (removal_name (rg_nested rg)) (concat (rg_removal_policies props)))) \<subseteq> set bl"
    using removals_known [OF assms(1)] by fastforce
  then have "set (fold List.insert (concat (map (removal_name (rg_nested rg)) (concat (rg_removal_policies props))))
      (remdups (current_blacklist (rg_name_blacklist rg)))) = set bl"
    using assms(2) by (auto simp: set_insert_fold)
  then show ?thesis using that assms(2) by (simp add: name_blacklist_def Let_def)
qed

lemma pairs_after_update:
  assumes live: "live_group nested" and wf: "wf_dict tmpl"
  shows "set (member_pairs (update_nested eng k tmpl nested)) = set tmpl" "live_group (update_nested eng k tmpl nested)"
    "\<forall>r \<in> set (update_nested eng k tmpl nested). m_ref r = new_ref eng k (m_name r) \<or>
       (\<exists>m \<in> set nested. m_name m = m_name r \<and> m_ref m = m_ref r)"
proof -
  let ?R = "update_nested eng k tmpl nested"
  note names = names_after_update [OF live wf, of eng k]
  have alive: "\<not> m_failed m" if "m \<in> set nested" for m using live that by (simp add: live_group_def)
  have each: "(m_name r, m_defn r) \<in> set tmpl \<and> \<not> m_failed r \<and>
      (m_ref r = new_ref eng k (m_name r) \<or> (\<exists>m \<in> set nested. m_name m = m_name r \<and> m_ref m = m_ref r))" if "r \<in> set ?R" for r
    using members_after_update(2) [OF live that]
  proof
    assume "\<exists>m \<in> set nested. map_of tmpl (m_name m) \<noteq> None \<and> r = update_resource eng k m (the (map_of tmpl (m_name m)))"
    then obtain m d where m: "m \<in> set nested" "map_of tmpl (m_name m) = Some d" "r = update_resource eng k m d" by auto
    note u = updated_resource [OF alive [OF m(1)], of eng k d, folded m(3)]
    have "(m_name r, m_defn r) \<in> set tmpl" using u m(2) by (simp add: map_of_SomeD)
    moreover have "m_ref r = new_ref eng k (m_name r) \<or> m_ref m = m_ref r" using u(1,4) by auto
    ultimately show ?thesis using u(1,3) m(1) by auto
  next
    assume "\<exists>n d. (n, d) \<in> set tmpl \<and> n \<notin> m_name ` set nested \<and> r = create_resource eng k n d"
    then show ?thesis by auto
  qed
  have "set (member_pairs ?R) \<subseteq> set tmpl" using each by (auto simp: member_pairs_def)
  moreover have "set tmpl \<subseteq> set (member_pairs ?R)"
  proof
    fix x assume x: "x \<in> set tmpl"
    then have "fst x \<in> set (map m_name ?R)" using names(2) by force
    then obtain r where r: "r \<in> set ?R" "m_name r = fst x" by auto
    then have "(fst x, m_defn r) \<in> set tmpl" using each [OF r(1)] by simp
    then have "m_defn r = snd x" using wf x by (metis eq_key_imp_eq_value prod.collapse)
    then show "x \<in> set (member_pairs ?R)" using r by (force simp: member_pairs_def)
  qed
  ultimately show "set (member_pairs ?R) = set tmpl" by blast
  show "live_group ?R" using names(1) each by (simp add: live_group_def)
  show "\<forall>r \<in> set ?R. m_ref r = new_ref eng k (m_name r) \<or> (\<exists>m \<in> set nested. m_name m = m_name r \<and> m_ref m = m_ref r)"
    using each by blast
qed

lemma numbered_after_update:
  assumes n: "numbered eng props bl cur nested" and wf: "wf_dict tmpl" and keys: "set (keys tmpl) = set (names_from bl 0 c)"
  shows "numbered eng props bl c (update_nested eng k tmpl nested)"
    and "m_name ` set (update_nested eng k tmpl nested) = set (names_from bl 0 c)"
proof -
  let ?R = "update_nested eng k tmpl nested"
  have live: "live_group nested" using n by (simp add: numbered_def)
  note p = pairs_after_update [OF live wf, of eng k]
  have "m_name ` set ?R = fst ` set (member_pairs ?R)" by (force simp: member_pairs_def)
  then show names: "m_name ` set ?R = set (names_from bl 0 c)" using p(1) keys by simp
  have "quiet eng props (set bl) ?R"
    unfolding quiet_def
  proof (intro ballI conjI impI)
    fix x r assume x: "x \<in> set (concat (rg_removal_policies props))" and r: "r \<in> set ?R" "m_ref r = x"
    have "m_ref r \<noteq> new_ref eng k (m_name r)" using quietD(2) [OF n x, where k = k and m = "m_name r"] r(2) by metis
    then obtain m where m: "m \<in> set nested" "m_name m = m_name r" "m_ref m = x" using p(3) r by blast
    show "m_name r \<in> set bl" using quietD(3) [OF n x m(1,3)] m(2) by simp
  next
    fix x assume x: "x \<in> set (concat (rg_removal_policies props))"
    show "x \<in> set bl \<or> x \<notin> range show_nat" by (rule quietD(1) [OF n x])
    show "\<forall>k m. new_ref eng k m \<noteq> x" using quietD(2) [OF n x] by blast
  qed
  then show "numbered eng props bl c ?R" using p(2) names names_not_blacklisted [of bl 0 c] by (auto simp: numbered_def)
qed

text \<open>The members that take part, and how many of them are current.\<close>

definition valid_pairs :: "string list \<Rightarrow> 'd member list \<Rightarrow> (string \<times> 'd) list" where
  "valid_pairs bl nested = filter (\<lambda>(n, d). n \<notin> set bl) (get_member_definitions nested)"

lemma valid_pairs_facts:
  assumes "numbered eng props bl cur nested"
  shows "wf_dict (valid_pairs bl nested)" "set (keys (valid_pairs bl nested)) = set (names_from bl 0 cur)"
    "set (valid_pairs bl nested) = {x \<in> set (member_pairs nested). fst x \<notin> set bl}"
proof -
  have live: "filter (\<lambda>r. \<not> m_failed r) nested = nested" "distinct (map m_name nested)"
    using assms by (auto simp: numbered_def live_group_def filter_id_conv)
  then have gm: "get_members nested = sort_key age_key nested" by (simp add: get_members_def)
  have "distinct (map m_name (get_members nested))" using live(2) by (simp add: gm distinct_map)
  then have "wf_dict (get_member_definitions nested)" by (simp add: get_member_definitions_def comp_def)
  then show "wf_dict (valid_pairs bl nested)" by (simp add: valid_pairs_def distinct_map_filter)
  show s: "set (valid_pairs bl nested) = {x \<in> set (member_pairs nested). fst x \<notin> set bl}"
    by (auto simp: valid_pairs_def get_member_definitions_def member_pairs_def gm)
  show "set (keys (valid_pairs bl nested)) = set (names_from bl 0 cur)"
  proof -
    have "fst ` {x \<in> set (member_pairs nested). fst x \<notin> set bl} = m_name ` set nested - set bl"
      by (auto simp: member_pairs_def) (force intro: rev_image_eqI)
    then have "set (keys (valid_pairs bl nested)) = m_name ` set nested - set bl" by (simp only: set_map s)
    then show ?thesis using assms by (simp add: numbered_def)
  qed
qed

lemma old_members_sub: "x \<in> set (old_members cu new k old) \<Longrightarrow> x \<in> set old \<or> snd x = cu (fst x) new"
  by (induction cu new k old rule: old_members.induct) (auto simp: Let_def split: if_splits)

lemma member_definitions_sub:
  assumes "member_definitions old new num n ids cu = Inr ds" and "x \<in> set ds"
  shows "x \<in> set old \<or> snd x = cu (fst x) new"
proof -
  obtain k ids where "ds = take (nat num) (old_members cu new k (slice_last num old)) @ map (\<lambda>i. (i, cu i new)) ids"
    using assms(1) by (auto simp: member_definitions_def Let_def split: if_splits)
  then have "x \<in> set (old_members cu new k (slice_last num old)) \<or> snd x = cu (fst x) new"
    using assms(2) by (auto dest: in_set_takeD)
  moreover have "set (slice_last num old) \<subseteq> set old" by (auto simp: slice_last_def dest: in_set_dropD)
  ultimately show ?thesis using old_members_sub [of x cu new k "slice_last num old"] by blast
qed

definition rolling_numbers ::
    "snippet engine \<Rightarrow> resource_group_props \<Rightarrow> string list \<Rightarrow> snippet \<Rightarrow> int \<Rightarrow> int \<Rightarrow> resource_group \<Rightarrow> bool" where
  "rolling_numbers eng props bl d cur upd rg \<longleftrightarrow>
     set (current_blacklist (rg_name_blacklist rg)) = set bl \<and> numbered eng props bl (nat cur) (rg_nested rg) \<and>
     (let T = set (names_from bl 0 (nat (rg_count props))); b = (\<lambda>n. build_resource_definition (rg_index_var props) n d) in
      (\<forall>x \<in> set (valid_pairs bl (rg_nested rg)). fst x \<in> T \<longrightarrow> snd x = b (fst x)) \<or>
      upd \<le> int (current_count b T (valid_pairs bl (rg_nested rg))))"

lemma run_update_effect:
  assumes rn: "rolling_numbers eng props bl d cur upd rg" and def_ok: "get_resource_def props False = Inr d"
    and cur: "0 \<le> cur" and c: "0 < c \<or> c = 0 \<and> rg_count props = 0" "0 \<le> n" "c \<le> cur + n" "min cur (rg_count props) \<le> c"
    and upd: "upd' = upd + (n - max (c - max cur (rg_count props)) 0)"
  shows "\<exists>rg'. run_update eng props (c, n) rg = Inr rg' \<and> rolling_numbers eng props bl d c upd' rg' \<and>
    m_name ` set (rg_nested rg') = set (names_from bl 0 (nat c))"
proof -
  let ?nested = "rg_nested rg" and ?N = "names_from bl 0 (nat c)" and ?t = "rg_count props"
  let ?cu = "build_resource_definition (rg_index_var props)"
  let ?T = "set (names_from bl 0 (nat ?t))" and ?b = "\<lambda>n. build_resource_definition (rg_index_var props) n d"
  let ?V = "valid_pairs bl ?nested"
  have black: "set (current_blacklist (rg_name_blacklist rg)) = set bl" and num: "numbered eng props bl (nat cur) ?nested"
    and prog: "(\<forall>x \<in> set ?V. fst x \<in> ?T \<longrightarrow> snd x = ?b (fst x)) \<or> upd \<le> int (current_count ?b ?T ?V)"
    using rn by (simp_all add: rolling_numbers_def Let_def)
  obtain l where l: "name_blacklist props rg = (l, rg)" "set l = set bl" by (rule name_blacklist_known [OF num black])
  note V = valid_pairs_facts [OF num]
  let ?S = "sort_key (\<lambda>(n, d). replace_priority ?N ?t c n) ?V"
  have "resource_names props (Some c) rg = (Inr ?N, rg)"
    using l c(1) names_from_cong [OF l(2)] by (auto simp: resource_names_def resource_names_of_def)
  then have asm: "assemble_for_rolling_update props c n rg =
      (bind (member_definitions ?S d c n (filter (\<lambda>n. n \<notin> set (keys ?V)) ?N) ?cu) (\<lambda>definitions. Inr (make_template definitions)), rg)"
    using l def_ok by (simp add: assemble_for_rolling_update_def Let_def valid_pairs_def)
  have "\<exists>ds. member_definitions ?S d c n (filter (\<lambda>n. n \<notin> set (keys ?V)) ?N) ?cu = Inr ds \<and> wf_dict ds \<and> set (keys ds) = set ?N \<and>
    ((\<forall>x \<in> set ds. fst x \<in> ?T \<longrightarrow> snd x = ?b (fst x)) \<or>
     int (current_count ?b ?T ?V) + n - max 0 (c - max cur ?t) \<le> int (current_count ?b ?T ds))"
  proof (cases "0 < c")
    case True
    have "c \<le> int (nat cur) + n" "min (int (nat cur)) ?t \<le> c" using c cur by simp_all
    from batch_numbers [OF V(1,2) True c(2) this refl refl, of d ?cu] show ?thesis using cur by simp
  next
    case False
    then have "c = 0" "?t = 0" using c(1) by simp_all
    moreover have "names_from bl 0 0 = []" by (simp add: names_from.simps)
    ultimately show ?thesis by (simp add: member_definitions_def Let_def slice_last_def)
  qed
  then obtain ds where ds: "member_definitions ?S d c n (filter (\<lambda>n. n \<notin> set (keys ?V)) ?N) ?cu = Inr ds" "wf_dict ds"
    "set (keys ds) = set ?N"
    and better: "(\<forall>x \<in> set ds. fst x \<in> ?T \<longrightarrow> snd x = ?b (fst x)) \<or>
     int (current_count ?b ?T ?V) + n - max 0 (c - max cur ?t) \<le> int (current_count ?b ?T ds)" by blast
  let ?R = "update_nested eng (rg_updates rg) ds ?nested"
  have run: "run_update eng props (c, n) rg = Inr (update_resource_group eng ds rg)"
    using asm ds(1) make_template_distinct [OF ds(2)] by (simp add: run_update_def)
  have numR: "numbered eng props bl (nat c) ?R" "m_name ` set ?R = set ?N"
    using numbered_after_update [OF num ds(2,3)] by blast+
  note VR = valid_pairs_facts [OF numR(1)]
  have "live_group ?nested" using num by (simp add: numbered_def)
  then have pairs: "set (member_pairs ?R) = set ds" by (rule pairs_after_update(1) [OF _ ds(2)])
  have "fst x \<notin> set bl" if "x \<in> set ds" for x
  proof -
    have "fst x \<in> set (keys ds)" using that by simp
    then show ?thesis using ds(3) names_not_blacklisted [of bl 0 "nat c"] by auto
  qed
  then have sets: "set (valid_pairs bl ?R) = set ds" using VR(3) pairs by auto
  have "distinct (valid_pairs bl ?R)" "distinct ds" using VR(1) ds(2) by (auto simp: distinct_map)
  then have count: "current_count ?b ?T (valid_pairs bl ?R) = current_count ?b ?T ds"
    unfolding current_count_def by (rule length_filter_same) (simp add: sets)
  have "x \<in> set ?V \<or> snd x = ?b (fst x)" if "x \<in> set ds" for x
    using member_definitions_sub [OF ds(1) that] by simp
  then have "(\<forall>x \<in> set ds. fst x \<in> ?T \<longrightarrow> snd x = ?b (fst x)) \<or> upd' \<le> int (current_count ?b ?T ds)"
    using prog better upd by (smt (verit))
  then have "rolling_numbers eng props bl d c upd' (update_resource_group eng ds rg)"
    using black numR(1) by (simp add: rolling_numbers_def update_resource_group_def Let_def sets count)
  moreover have "rg_nested (update_resource_group eng ds rg) = ?R" by (simp add: update_resource_group_def)
  ultimately show ?thesis using run numR(2) by metis
qed

lemma rolling_numbers_loop:
  assumes plan: "resource_plan (rg_count props) bs m cur upd batches" and rn: "rolling_numbers eng props bl d cur upd rg"
    and def_ok: "get_resource_def props False = Inr d" and bs: "1 \<le> bs"
    and bounds: "0 \<le> upd" "upd \<le> rg_count props" "upd \<le> cur"
    and names: "batches = [] \<longrightarrow> m_name ` set (rg_nested rg) = set (names_from bl 0 (nat cur))"
  shows "\<exists>rg' upd'. loop (run_update eng props) batches rg = Inr rg' \<and> rolling_numbers eng props bl d (rg_count props) (rg_count props) rg' \<and>
    m_name ` set (rg_nested rg') = set (names_from bl 0 (nat (rg_count props)))"
  using plan rn bounds names
proof (induction batches arbitrary: cur upd rg)
  case Nil
  then show ?case by simp
next
  case (Cons b batches)
  obtain c n where b: "b = (c, n)" by (cases b)
  let ?t = "rg_count props"
  have n: "n = min bs (?t - upd)" and c: "c = n + max (min cur (?t - n)) (min m (min ?t cur))"
    and rest: "resource_plan ?t bs m c (upd + (n - max (c - max cur ?t) 0)) batches"
    using Cons.prems(1) unfolding b resource_plan.simps by blast+
  have n0: "0 \<le> n" "n \<le> ?t - upd" using n bs Cons.prems(3-5) by auto
  have low: "min cur (?t - n) \<le> max (min cur (?t - n)) (min m (min ?t cur))" "max (min cur (?t - n)) (min m (min ?t cur)) \<le> cur" by auto
  have "upd \<le> min cur (?t - n)" "min cur ?t \<le> n + min cur (?t - n)" using n0 Cons.prems(3-5) by auto
  then have up: "upd + n \<le> c" "c \<le> cur + n" "min cur ?t \<le> c" using low c by linarith+
  have pos: "0 < c \<or> c = 0 \<and> ?t = 0"
  proof (cases "upd = ?t")
    case True
    then show ?thesis using up(1) n0 Cons.prems(3,4) by auto
  next
    case False
    then have "1 \<le> n" using n bs Cons.prems(4) by simp
    then show ?thesis using up(1) Cons.prems(3) by linarith
  qed
  let ?u = "upd + (n - max (c - max cur ?t) 0)"
  have cur0: "0 \<le> cur" using Cons.prems(3,5) by simp
  from run_update_effect [OF Cons.prems(2) def_ok cur0 pos n0(1) up(2,3) refl] obtain rg1 where
    rg1: "run_update eng props (c, n) rg = Inr rg1" "rolling_numbers eng props bl d c ?u rg1"
      "m_name ` set (rg_nested rg1) = set (names_from bl 0 (nat c))" by blast
  have "max (c - max cur ?t) 0 \<le> n" using up n0 by auto
  then have u: "0 \<le> ?u" "?u \<le> ?t" "?u \<le> c" using n0 up Cons.prems(3) by linarith+
  from Cons.IH [OF rest rg1(2) u] rg1(3) show ?case using rg1(1) by (simp add: b)
qed

section \<open>Updates end with the numbers asked for\<close>

text \<open>
  A group before an update: the names that are not blacklisted are the first numbers that are not, and the
  blacklist can be stored, for no name has a comma.
\<close>

definition starts_numbered :: "snippet engine \<Rightarrow> resource_group_props \<Rightarrow> nat \<Rightarrow> resource_group \<Rightarrow> bool" where
  "starts_numbered eng props cur rg \<longleftrightarrow>
     (let bl = fst (name_blacklist props rg) in
      numbered eng props bl cur (rg_nested rg) \<and> (\<forall>n \<in> set bl. n \<noteq> [] \<and> CHR '','' \<notin> set n))"

lemma stored_blacklist:
  assumes "\<forall>n \<in> set (fst (name_blacklist props rg)). n \<noteq> [] \<and> CHR '','' \<notin> set n"
  shows "set (current_blacklist (rg_name_blacklist (snd (name_blacklist props rg)))) = set (fst (name_blacklist props rg))"
    and "rg_nested (snd (name_blacklist props rg)) = rg_nested rg" "rg_updates (snd (name_blacklist props rg)) = rg_updates rg"
proof -
  let ?bl = "fst (name_blacklist props rg)"
  have store: "set (current_blacklist (Some (join '','' ?bl))) = set ?bl" if "?bl \<noteq> []"
  proof -
    have "join '','' ?bl \<noteq> []" using that assms by (cases ?bl; cases "tl ?bl") auto
    moreover have "split_on (CHR '','') (join '','' ?bl) = ?bl" using assms that by (intro split_on_join) auto
    ultimately show ?thesis by (simp add: current_blacklist_def)
  qed
  show "set (current_blacklist (rg_name_blacklist (snd (name_blacklist props rg)))) = set ?bl"
  proof (cases "set ?bl = set (current_blacklist (rg_name_blacklist rg))")
    case True
    then show ?thesis by (simp add: name_blacklist_def Let_def)
  next
    case False
    moreover have "set (current_blacklist (rg_name_blacklist rg)) \<subseteq> set ?bl"
      by (simp add: name_blacklist_def Let_def set_insert_fold)
    ultimately have "?bl \<noteq> []" by auto
    moreover have "rg_name_blacklist (snd (name_blacklist props rg)) = Some (join '','' ?bl)"
      using False by (simp add: name_blacklist_def Let_def)
    ultimately show ?thesis using store by simp
  qed
  show "rg_nested (snd (name_blacklist props rg)) = rg_nested rg" "rg_updates (snd (name_blacklist props rg)) = rg_updates rg"
    by (simp_all add: name_blacklist_def Let_def)
qed

lemma resize_to_names_effect:
  assumes num: "numbered eng props bl cur (rg_nested rg)" and black: "set (current_blacklist (rg_name_blacklist rg)) = set bl"
    and def_ok: "get_resource_def props False = Inr d" and count: "0 \<le> rg_count props"
  shows "\<exists>rg'. resize_to_names eng props rg = Inr rg' \<and> distinct (map m_name (rg_nested rg')) \<and>
    set (member_pairs (rg_nested rg')) =
      (\<lambda>n. (n, build_resource_definition (rg_index_var props) n d)) ` set (names_from bl 0 (nat (rg_count props)))"
proof -
  let ?N = "names_from bl 0 (nat (rg_count props))" and ?b = "\<lambda>n. build_resource_definition (rg_index_var props) n d"
  obtain l where l: "name_blacklist props rg = (l, rg)" "set l = set bl" by (rule name_blacklist_known [OF num black])
  have "resource_names props None rg = (Inr ?N, rg)"
    using l count names_from_cong [OF l(2)] by (auto simp: resource_names_def resource_names_of_def)
  moreover have wf: "wf_dict (map (\<lambda>k. (k, ?b k)) ?N)" by (simp add: comp_def)
  ultimately have "resize_to_names eng props rg = Inr (update_resource_group eng (map (\<lambda>k. (k, ?b k)) ?N) rg)"
    using def_ok make_template_distinct [OF wf] by (simp add: resize_to_names_def assemble_nested_def)
  moreover have "live_group (rg_nested rg)" using num by (simp add: numbered_def)
  note pairs_after_update(1,2) [OF this wf, of eng "rg_updates rg"]
  moreover have "rg_nested (update_resource_group eng (map (\<lambda>k. (k, ?b k)) ?N) rg) =
      update_nested eng (rg_updates rg) (map (\<lambda>k. (k, ?b k)) ?N) (rg_nested rg)" by (simp add: update_resource_group_def)
  ultimately show ?thesis by (simp add: live_group_def)
qed


definition example_rg_engine :: "snippet engine" where
  "example_rg_engine =
     \<lparr>replaces = (\<lambda>k n d d'. False), created_at = (\<lambda>k n. int k + 1), new_ref = (\<lambda>k n. ''r'' @ n), new_ids = (\<lambda>k. [])\<rparr>"

definition example_rg_member :: "string \<Rightarrow> snippet member" where
  "example_rg_member n = \<lparr>m_name = n, m_created = 0, m_failed = False, m_defn = [(''type'', PyStr ''old'')], m_ref = ''x'' @ n\<rparr>"

definition example_rg_props :: resource_group_props where
  "example_rg_props = \<lparr>rg_count = 3, rg_index_var = ''%'', rg_resource_def = [(''properties'', PyDict [(''name'', PyStr ''vm-%'')])],
     rg_removal_policies = [[''1'']]\<rparr>"

definition example_rg :: resource_group where
  "example_rg = \<lparr>rg_nested = map example_rg_member [''0'', ''1'', ''2''], rg_name_blacklist = None, rg_updates = 0\<rparr>"

lemma example_rg_starts: "starts_numbered example_rg_engine example_rg_props 2 example_rg"
proof -
  have bl: "fst (name_blacklist example_rg_props example_rg) = [''1'']" by code_simp
  have "names_from [''1''] 0 2 = [''0'', ''2'']" by code_simp
  then show ?thesis unfolding starts_numbered_def bl
    by (auto simp: numbered_def live_group_def quiet_def example_rg_props_def example_rg_engine_def example_rg_def example_rg_member_def)
qed


text \<open>
  Creating an empty group with a policy for batches takes the first of no tasks; without the policy it
  succeeds.
\<close>

lemma empty_batch_create_fails:
  assumes "rg_count props = 0" and "rg_nested rg = []" and "pause * 0 < timeout"
  shows "create_group eng props (Some (bs, pause)) timeout rg = Some (Inl IndexError)"
proof -
  have "get_resource_batches 0 0 bs 0 = Some (Inr [])"
    by (simp add: get_resource_batches_def resource_batches.simps needs_update_def)
  moreover have "get_member_names (rg_nested rg) = []" using assms(2) by (simp add: get_member_names_def get_members_def)
  moreover obtain bl rg1 where nb: "name_blacklist props rg = (bl, rg1)" by (metis surj_pair)
  moreover from nb have "rg_nested rg1 = []" using assms(2) by (auto simp: name_blacklist_def Let_def split: if_splits)
  ultimately show ?thesis using assms(1,3)
    by (simp add: create_group_def replace_batches_def count_black_listed_def update_timeout_def Let_def)
qed


end
