(* ===== verification/Spec2Isabelle.thy ===== *)
theory Spec2Isabelle
  imports Prelude PyString CpuSpec FlavorImage CpuTopology NumaObjects NumaConstraints
    PciDevice PciStats PciTracker NumaFit HostState FilterOps Filters Weights FilterScheduler
    ComputeStats ResourceTracker HeatDeps SyncPoint SyncData PyValue RevokeTree Policy QuotaLimits QuotaUsage QuotaBooks
    ScalingBatches ScalingGroup ScalingPolicy ResourceGroup
begin

text \<open>
  Resource management, scheduling and control logic of OpenStack (the Liberty control plane under
  src/). The development follows the Python code: a dictionary is an association list in iteration
  order, an object a record, an exception a constructor of \<open>error\<close> and a call that may raise a value
  of the sum type \<open>'a result\<close>; a method that changes its object takes the state and returns it.

  \<^bold>\<open>The program and the theories\<close>

  A compute node knows what its guests use and publishes it; the scheduler chooses nodes from what is
  published; a node checks again and grants or refuses.
  \<^item> Prelude, PyString, PyValue: exceptions, results, loops, dictionaries, the string functions of the
    language and decoded JSON values.
  \<^item> CpuSpec (nova/virt/hardware.py: \<open>parse_cpu_spec\<close>, \<open>format_cpu_spec\<close>, \<open>get_vcpu_pin_set\<close>): CPU lists.
  \<^item> FlavorImage (nova/objects/flavor.py, image_meta.py, fields.py): what a guest asks for.
  \<^item> CpuTopology (nova/virt/hardware.py): sockets, cores and threads of a guest.
  \<^item> NumaObjects, NumaConstraints, NumaFit (nova/objects/numa.py, instance_numa_topology.py and
    nova/virt/hardware.py): host and guest NUMA cells, the layout a guest asks for, packing and
    fitting it onto a host, and the usage that results.
  \<^item> PciDevice, PciStats, PciTracker (nova/pci, nova/objects/pci_device.py): whitelist and addresses,
    the life cycle of a device, pools of free devices, and the tracker with its ledgers of claims and
    allocations.
  \<^item> ComputeStats (nova/compute/stats.py): counters of the states of the guests.
  \<^item> ResourceTracker (nova/compute/resource_tracker.py, claims.py): usage of a node, claims, aborts,
    moves, the periodic audit and publishing.
  \<^item> HostState, FilterOps, Filters, Weights, FilterScheduler (nova/scheduler, nova/filters.py,
    nova/weights.py): the scheduler's view of hosts, the filters and their handler, the weighers, and
    the placement of the instances of a request.
  \<^item> HeatDeps, SyncPoint, SyncData (heat/engine/dependencies.py, sync_point.py): dependency graphs of
    the orchestration engine and the synchronisation of its workers through a database row.
  \<^item> RevokeTree (keystone/revoke): revocation of tokens, the index that is searched, the store.
  \<^item> Policy (oslo_policy): checks, the parser of policy rules, evaluation and enforcement.
  \<^item> QuotaLimits (nova/quota.py, the tables in nova/db/sqlalchemy/api.py, the update of
    nova/api/openstack/compute/quota_sets.py): limits per class, project and user, and what may be set.
  \<^item> QuotaUsage, QuotaBooks (nova/db/sqlalchemy/api.py, nova/quota.py, nova/objects/quotas.py): usage
    rows and reservations; the first holds the operations on the rows, the second the histories of
    requests (\<open>quota_step\<close>), their invariant (\<open>quota_inv\<close>) and the properties.
  \<^item> ScalingBatches, ScalingGroup (heat/scaling/scalingutil.py, rolling_update.py, template.py, lbutils.py,
    heat/common/grouputils.py, instance_group.py and heat/engine/update.py): the arithmetic of sizes and
    batches, the definitions of the members, and groups of instances with creation, resizing, rolling updates
    and load balancers. The first theory has no state, the record \<open>group\<close> of the second is the nested
    stack with what the load balancers were given.
  \<^item> ScalingPolicy (heat/scaling/cooldown.py, scaling_policy.py, autoscaling_group.py): adjustments between
    a smallest and a largest size, the cooldown kept in metadata, and signals.
  \<^item> ResourceGroup (heat/engine/resources/openstack/heat/resource_group.py): groups whose members have
    numbers as names, their black list, index substitution and updates in batches.
  This theory holds what spans components: the scheduler sees what the tracker counts, and the node
  grants what the filters accept.

  \<^bold>\<open>What the lemmas show\<close>

  Each theory gives its state and operations first, then an invariant or an abstraction with one
  lemma per operation, then the properties. Invariants: the books of the PCI tracker, the usage of a
  node (\<open>accounted\<close>), the counters (\<open>stats_inv\<close>), the rows of a synchronisation point (\<open>sync_inv\<close>),
  the index of aggregates, the usage rows and reservations of the quotas (\<open>quota_inv\<close>), the size of
  an autoscaling group (\<open>sized\<close>), its cooldown (\<open>cooldown_inv\<close>), the partition of a guest into cells, ownership of devices. Refinements:
  counters by the collection of guests, host states by the tables of the tracker, the revocation tree
  by the map from paths to times. Equivalences: the pipeline of filters and the conjunction of their
  verdicts, the searches of the revocation tree and a scan of the events, the greedy parser of policy
  rules and the usual precedence. Round trips: CPU lists, checks of
  policies, stored data of synchronisation points, claims that are aborted, usage that is freed, reservations that are rolled back. Termination
  and liveness: partial dependency graphs, compare-and-swap loops, triggering of a node, placement
  when memory suffices, the batches of rolling updates. Errors: what goes wrong in the code as it is, each with a concrete run.

  Interfaces are locales: \<open>exclusive_resources\<close> (taking and giving back, interpreted on the pinning of
  CPUs), \<open>pure_filters\<close> and \<open>stable_filters\<close> (what a filter may do to a host, interpreted on the
  handler of all modelled filters), and \<open>guarded_system\<close> (an invariant that every step of a relation
  keeps, interpreted on the lives of a PCI device, the histories of a PCI tracker, of a resource tracker,
  of the tables of quotas, of a group that scales and of the workers that share a cooldown).

  \<^bold>\<open>Bounds and fuel\<close>

  Recursion is structural or has a termination proof everywhere but in three places. \<open>eval\<close> of Policy
  follows references between rules; its fuel is what the stack holds, exhausting it is the exception
  the language raises, and one call per name is enough when no rule refers to itself.
  \<open>get_edges\<close> of HeatDeps recurses without bound on a cycle; its fuel is the depth of the recursion, and the theorem on it says
  that the number of edges is enough exactly when no cycle leads to the node. \<open>instance_batches\<close> and
  \<open>resource_batches\<close> of ScalingBatches are partial functions, None for a generator that never ends; the
  theorems show that a positive batch size gives a value. Permutations of host
  cells are enumerated in full, as the code does.

  \<^bold>\<open>Conventions\<close>

  Integers are unbounded, as in the language. Floating point ratios and weights are exact rationals.
  The iteration order of sets and dictionaries is the order of the list that stands for them, or a
  parameter (\<open>rc_order\<close>) where a set is sorted or permuted. Locks make an operation one step, and so do transactions that lock the rows they read. Database queries, the
  virtualisation driver, the sysfs tree, readers of time stamps and network addresses and random
  draws are arguments. The payload of exceptions, logging and notifications are dropped. After an
  exception the state is recorded where the operation returns it in a pair with its result; elsewhere
  the partial changes of a failing operation are not.

  \<^bold>\<open>Not modelled\<close>

  Persistence of objects and their versions on the wire, remote procedure calls, REST interfaces, the
  command line, drivers of hypervisors, storage and networks, dashboards, telemetry, and the vendored
  libraries are input and output, glue or third-party code. Of the filters, the trusted filter (a
  network service), the JSON, capabilities and image properties filters are left out. Of the quotas,
  the driver that never refuses, the legacy network resources and queries that read deleted rows are
  left out. Of the groups of the orchestration engine, adoption, attributes, validation of nested stacks and
  pauses are left out; the update of a nested stack is one that completes, and what the plug-ins answer
  (whether a change replaces a resource, when it was created, its reference) is the record \<open>engine\<close>. The other services of the tree (cinder, neutron, glance, the telemetry services, the
  dashboards, ryu) and the cells of nova are not modelled.
\<close>

section \<open>From the compute node to the scheduler\<close>

text \<open>The statistics follow the tracked instances, and the node carries them as texts.\<close>

definition synced :: "tracker \<Rightarrow> bool" where
  "synced rt \<longleftrightarrow> stats_inv (rt_stats rt) \<and> wf_dict (rt_instances rt) \<and>
     (\<forall>u. map_of (inst_states (rt_stats rt)) u = None \<longleftrightarrow> map_of (rt_instances rt) u = None) \<and>
     counter (rt_stats rt) ''io_workload'' = io_workload (rt_stats rt)"

definition published :: "tracker \<Rightarrow> bool" where
  "published rt \<longleftrightarrow> (\<exists>c. rt_compute rt = Some c \<and> cn_stats c = publish_stats (rt_stats rt))"

lemma io_counter: "counter (update_stats_for_instance u i s) ''io_workload'' = io_workload (update_stats_for_instance u i s)"
proof -
  have io: "io_workload (s\<lparr>counters := AList.update ''io_workload'' n (counters s)\<rparr>) = io_workload s" for n and s :: stats
    by (simp add: io_workload_def counter_def dict_get_update count_simps io_tasks_def)
  show ?thesis unfolding update_stats_for_instance_def Let_def io by (simp add: counter_def dict_get_update)
qed

lemma not_key: "k \<notin> set (keys d) \<longleftrightarrow> map_of d k = None"
  by (simp add: map_of_eq_None_iff)

lemma map_of_tracked_after:
  "map_of (tracked_after inst rt) =
     (if vm_state (i_state inst) = DELETED_STATE then (map_of (rt_instances rt))(i_uuid inst := None)
      else if map_of (rt_instances rt) (i_uuid inst) = None then (map_of (rt_instances rt))(i_uuid inst \<mapsto> inst)
      else map_of (rt_instances rt))"
  unfolding tracked_after_def Let_def not_key
  by (cases "vm_state (i_state inst) = DELETED_STATE"; cases "map_of (rt_instances rt) (i_uuid inst) = None")
    (simp_all only: if_True if_False simp_thms map_of_update map_of_delete fun_upd_upd)

lemma synced_from_instance:
  assumes s: "synced rt" and c: "rt_compute rt = Some c" and u: "update_usage_from_instance cf inst rt = Inr rt'"
  shows "synced rt'"
proof -
  note E = from_instance_effect [OF u c]
  have inv: "stats_inv (rt_stats rt)" using s by (simp add: synced_def)
  note S = update_stats_inv [OF inv, of "i_uuid inst" "i_state inst"]
  have "wf_dict (tracked_after inst rt)" using s by (simp add: tracked_after_def Let_def synced_def)
  moreover have "map_of (inst_states (rt_stats rt')) v = None \<longleftrightarrow> map_of (tracked_after inst rt) v = None" for v
    using s unfolding E(4) S(2) map_of_tracked_after by (simp add: synced_def abs_update_def)
  ultimately show ?thesis using S(1) io_counter by (simp add: synced_def E(1,4))
qed

lemma synced_cong:
  "rt_stats rt' = rt_stats rt \<Longrightarrow> rt_instances rt' = rt_instances rt \<Longrightarrow> synced rt' = synced rt"
  by (simp add: synced_def)

lemma update_published_published: "rt_compute rt \<noteq> None \<Longrightarrow> published (update_published rt)"
  by (auto simp: published_def update_published_use)

lemma usage_of_synced:
  assumes "update_usage_of cf u sign r = Inr r'" and "synced r"
  shows "synced r' \<and> rt_compute r' \<noteq> None"
proof -
  obtain c where "rt_compute r = Some c" using assms(1) by (auto simp: update_usage_of_def split: option.splits)
  from update_usage_of_use [OF assms(1) this] show ?thesis using assms(2) by (auto simp: synced_def)
qed

lemma publish_pools_synced:
  assumes "publish_pools r = Inr r'" and "synced r"
  shows "synced r' \<and> (rt_compute r \<noteq> None \<longrightarrow> rt_compute r' \<noteq> None)"
  using publish_pools_use [OF assms(1)] assms(2) by (auto simp: synced_def set_compute_def)

lemma migration_synced:
  assumes u: "update_usage_from_migration cf inst m rt = Inr r" and s: "synced rt" and c: "rt_compute rt \<noteq> None"
  shows "synced r \<and> rt_compute r \<noteq> None"
proof (cases "trackable_migration m \<and> fst (migration_holds cf (m_uuid m \<in> set (keys (rt_instances rt))) inst m) \<noteq> None")
  case False
  then have "r = rt" using u by (auto simp: update_usage_from_migration_def split: prod.splits option.splits if_splits)
  then show ?thesis using s c by simp
next
  case True
  then obtain f numa where h: "migration_holds cf (m_uuid m \<in> set (keys (rt_instances rt))) inst m = (Some f, numa)"
    by (cases "migration_holds cf (m_uuid m \<in> set (keys (rt_instances rt))) inst m") auto
  with u True obtain r1 r2 r3 where r: "pci_for_migration cf inst 1 rt = Inr r1"
      "update_usage_of cf (flavor_usage f numa) 1 r1 = Inr r2" "publish_pools r2 = Inr r3"
      "r = r3\<lparr>rt_migrations := AList.update (m_uuid m) (m, f) (rt_migrations r3)\<rparr>"
    by (auto simp: update_usage_from_migration_def)
  have "synced r1" by (subst pci_for_migration_frame [OF r(1)]) (use s in \<open>simp add: synced_def\<close>)
  then have "synced r2 \<and> rt_compute r2 \<noteq> None" by (rule usage_of_synced [OF r(2)])
  then have "synced r3 \<and> rt_compute r3 \<noteq> None" using publish_pools_synced [OF r(3)] by blast
  then show ?thesis by (simp add: r(4) synced_def)
qed

lemma synced_step:
  assumes "rt_step cf rt rt'" and acc: "rt_ok cf B rt" and s: "synced rt" and p: "published rt"
  shows "synced rt' \<and> published rt'"
proof -
  obtain c where c: "rt_compute rt = Some c" using p by (auto simp: published_def)
  have pub: "synced (update_published r) \<and> published (update_published r)" if "synced r" "rt_compute r \<noteq> None" for r
    using that update_published_published [OF that(2)] synced_cong [of "update_published r" r]
    by (simp add: update_published_use)
  have from_inst: "synced r \<and> rt_compute r \<noteq> None"
    if "update_usage_from_instance cf inst (rt\<lparr>rt_pci := q\<rparr>) = Inr r" for inst q r
  proof -
    have c1: "rt_compute (rt\<lparr>rt_pci := q\<rparr>) = Some c" using c by simp
    have "synced (rt\<lparr>rt_pci := q\<rparr>)" using s by (simp add: synced_def)
    then show ?thesis using synced_from_instance [OF _ c1 that] from_instance_effect(5) [OF that c1] by auto
  qed
  have same: "rt\<lparr>rt_pci := rt_pci rt\<rparr> = rt" by simp
  from assms(1) show ?thesis
  proof cases
    case (claims lims inst r)
    from claims(1) c show ?thesis
    proof (cases rule: instance_claim_cases)
      case (refused e pci)
      then show ?thesis using s p by (simp add: synced_def published_def)
    next
      case (granted pci claimed inst' rt2)
      then show ?thesis using from_inst [OF granted(3)] pub by simp
    qed
  next
    case (updates inst)
    then show ?thesis using s p from_inst [of inst "rt_pci rt"] pub same
      by (auto simp: update_usage_def split: if_splits)
  next
    case (aborts inst old)
    then show ?thesis using from_inst [of "deleted_inst inst" "rt_pci rt"] pub same
      by (auto simp: abort_instance_claim_def)
  next
    case (moves lims inst f props reqs m inst')
    then obtain j r where r: "update_usage_from_migration cf j m rt = Inr r" "rt' = update_published r"
      using c by (auto simp: move_claim_def Let_def)
    have "synced r \<and> rt_compute r \<noteq> None" using migration_synced [OF r(1) s] c by simp
    then show ?thesis unfolding r(2) using pub by blast
  next
    case (drops inst f new inst')
    show ?thesis
    proof (cases "map_of (rt_migrations rt) (i_uuid inst)")
      case None
      then show ?thesis using drops(1) s p by (simp add: drop_move_claim_def)
    next
      case (Some mi)
      obtain m itype where mi: "mi = (m, itype)" by (cases mi)
      let ?rt = "rt\<lparr>rt_migrations := AList.delete (i_uuid inst) (rt_migrations rt)\<rparr>"
      obtain g where g: "(case f of Some g \<Rightarrow> Some g | None \<Rightarrow> get_instance_type inst new m) = Some g"
          "flavor_id g = flavor_id itype"
        using drops(2) Some mi by blast
      then obtain r1 r2 where r: "pci_for_migration cf inst (-1) ?rt = Inr r1"
          "update_usage_of cf (flavor_usage itype (migration_numa inst True)) (-1) r1 = Inr r2" "rt' = update_published r2"
        using drops(1) Some mi by (auto simp: drop_move_claim_def Let_def)
      have "rt_compute r1 = Some c \<and> rt_stats r1 = rt_stats rt \<and> rt_instances r1 = rt_instances rt"
        using c by (subst (1 2 3) pci_for_migration_frame [OF r(1)]) simp
      with update_usage_of_use [OF r(2), of c] have "synced r2 \<and> rt_compute r2 \<noteq> None" using s by (auto simp: synced_def)
      then show ?thesis unfolding r(3) using pub by blast
    qed
  qed
qed

lemma clear_new: "clear_stats s = new_stats"
  by (simp add: clear_stats_def new_stats_def)

lemma synced_instances:
  assumes u: "update_usage_from_instances cf instances rt = Inr rt'" and "rt_stats rt = new_stats" and "rt_compute rt \<noteq> None"
  shows "synced rt' \<and> rt_compute rt' \<noteq> None"
proof (rule loop_inv [OF u [unfolded update_usage_from_instances_def], where P = "\<lambda>r. synced r \<and> rt_compute r \<noteq> None"])
  have "counter new_stats ''io_workload'' = io_workload new_stats" by code_simp
  then show "synced (set_compute (reset_usage cf) (rt\<lparr>rt_instances := []\<rparr>)) \<and>
      rt_compute (set_compute (reset_usage cf) (rt\<lparr>rt_instances := []\<rparr>)) \<noteq> None"
    using assms(2,3) new_stats_inv by (simp add: synced_def set_compute_def) (simp add: new_stats_def)
  fix inst s s' assume s: "synced s \<and> rt_compute s \<noteq> None"
    "(if vm_state (i_state inst) \<noteq> DELETED_STATE then update_usage_from_instance cf inst s else Inr s) = Inr s'"
  then obtain c where c: "rt_compute s = Some c" by auto
  show "synced s' \<and> rt_compute s' \<noteq> None"
  proof (cases "vm_state (i_state inst) = DELETED_STATE")
    case False
    then have v: "update_usage_from_instance cf inst s = Inr s'" using s(2) by simp
    show ?thesis using synced_from_instance [OF _ c v] from_instance_effect(5) [OF v c] s(1) by auto
  qed (use s in simp)
qed

lemma synced_audit:
  assumes "run_audit cf ad r rt = Inr rt'" and "vr_stats r = NoDigest"
  shows "synced rt' \<and> published rt'"
proof -
  obtain r1 r2 r3 r4 r5 r6 where r:
      "init_compute_node cf r (ad_stored_node ad) (ad_blank_node ad) rt = Inr r1"
      "audit_pci cf ad r r1 = Inr r2" "update_usage_from_instances cf (ad_instances ad) r2 = Inr r3"
      "update_usage_from_migrations cf (ad_lookup ad) (ad_migrations ad) r3 = Inr r4"
      "update_usage_from_orphans cf (find_orphaned_instances (ad_running ad) r4) r4 = Inr r5"
      "audit_clean_pci cf ad (keys (find_orphaned_instances (ad_running ad) r4)) r5 = Inr r6"
      "rt' = update_published (set_compute (\<lambda>c. c\<lparr>cn_metrics := ad_metrics ad\<rparr>) r6)"
    using assms(1) unfolding run_audit_def Let_def bind_eq_Inr by blast
  have "rt_stats r1 = new_stats \<and> rt_compute r1 \<noteq> None"
    using r(1) assms(2) by (auto simp: init_compute_node_def copy_resources_def digest_stats_def clear_new)
  then have "rt_stats r2 = new_stats \<and> rt_compute r2 \<noteq> None" by (subst (1 2) audit_pci_frame [OF r(2)]) simp
  then have 3: "synced r3 \<and> rt_compute r3 \<noteq> None" using synced_instances [OF r(3)] by blast
  have 4: "synced r4 \<and> rt_compute r4 \<noteq> None"
  proof (rule loop_inv [OF r(4) [unfolded update_usage_from_migrations_def], where P = "\<lambda>q. synced q \<and> rt_compute q \<noteq> None"])
    show "synced (r3\<lparr>rt_migrations := []\<rparr>) \<and> rt_compute (r3\<lparr>rt_migrations := []\<rparr>) \<noteq> None"
      using 3 by (simp add: synced_def)
  qed (use migration_synced in \<open>auto split: prod.splits option.splits\<close>)
  have "synced r5 \<and> rt_compute r5 \<noteq> None"
    by (rule loop_inv [OF r(5) [unfolded update_usage_from_orphans_def], where P = "\<lambda>q. synced q \<and> rt_compute q \<noteq> None"])
      (use 4 usage_of_synced in \<open>auto split: prod.splits\<close>)
  moreover obtain q p where q: "publish_pools q = Inr r6" "q = r5\<lparr>rt_pci := p\<rparr>"
  proof -
    have "\<exists>q. publish_pools q = Inr r6 \<and> q = r5\<lparr>rt_pci := rt_pci q\<rparr>"
      using r(6) by (auto simp: audit_clean_pci_def split: option.splits)
    then show ?thesis using that by blast
  qed
  ultimately have "synced q \<and> rt_compute q \<noteq> None" by (simp add: synced_def)
  then have 6: "synced r6 \<and> rt_compute r6 \<noteq> None" using publish_pools_synced [OF q(1)] by blast
  let ?r = "set_compute (\<lambda>c. c\<lparr>cn_metrics := ad_metrics ad\<rparr>) r6"
  have "rt_compute ?r \<noteq> None" "synced ?r" using 6 by (auto simp: set_compute_def synced_def)
  then show ?thesis unfolding r(7) using update_published_published [of ?r] synced_cong [of "update_published ?r" ?r]
    by (simp add: update_published_use)
qed

lemma map_of_publish: "map_of (publish_stats st) k = map_option show_int (map_of (counters st) k)"
proof -
  have "map_of (map (\<lambda>(k, v). (k, show_int v)) d) k = map_option show_int (map_of d k)" for d
    by (induction d) auto
  then show ?thesis by (simp add: publish_stats_def)
qed

lemma py_int_published: "py_int (dict_get (publish_stats st) k ''0'') = Inr (counter st k)"
proof -
  have "py_int ''0'' = Inr 0" by code_simp
  then show ?thesis
    by (cases "map_of (counters st) k") (simp_all add: dict_get_def counter_def map_of_publish py_int_show_int)
qed

lemma synced_number:
  assumes "synced rt"
  shows "stats_num_instances (rt_stats rt) = int (length (rt_instances rt))"
proof -
  have "u \<in> set (keys (rt_instances rt)) \<longleftrightarrow> map_of (inst_states (rt_stats rt)) u \<noteq> None" for u
    using assms not_key [of u "rt_instances rt"] unfolding synced_def by metis
  then have "{u. \<exists>i. map_of (inst_states (rt_stats rt)) u = Some i \<and> True} = set (keys (rt_instances rt))"
    by (simp only: set_eq_iff mem_Collect_eq not_None_eq simp_thms)
  moreover have "card (set (keys (rt_instances rt))) = length (rt_instances rt)"
    using assms distinct_card [of "keys (rt_instances rt)"] by (simp add: synced_def)
  ultimately show ?thesis using assms stats_counters(1) [OF _ refl, of "rt_stats rt"]
    by (simp add: synced_def number_def)
qed

lemma truncated [simp]:
  "cn_memory_mb (compute_node.truncate c) = cn_memory_mb c" "cn_free_ram_mb (compute_node.truncate c) = cn_free_ram_mb c"
  "cn_free_disk_gb (compute_node.truncate c) = cn_free_disk_gb c" "cn_local_gb (compute_node.truncate c) = cn_local_gb c"
  "cn_vcpus (compute_node.truncate c) = cn_vcpus c" "cn_vcpus_used (compute_node.truncate c) = cn_vcpus_used c"
  "cn_stats (compute_node.truncate c) = cn_stats c"
  by (simp_all add: compute_node.truncate_def)

text \<open>A fresh view of a node.\<close>

lemma fresh_view:
  assumes "update_from_compute_node d (new_host_state host node) = (hs, r)"
  shows "total_usable_ram_mb hs = cn_memory_mb d" "free_ram_mb hs = cn_free_ram_mb d"
    "total_usable_disk_gb hs = cn_local_gb d" "free_disk_mb hs \<le> 1024 * cn_free_disk_gb d"
    "vcpus_total hs = cn_vcpus d" "vcpus_used hs = cn_vcpus_used d" "hs_limits hs = no_limits"
  using assms
  by (auto simp: update_from_compute_node_def new_host_state_def Let_def split: sum.splits option.splits)

lemma fresh_view_counts:
  assumes "py_int (dict_get (cn_stats d) ''num_instances'' ''0'') = Inr n"
    and "py_int (dict_get (cn_stats d) ''io_workload'' ''0'') = Inr m"
  shows "\<exists>hs. update_from_compute_node d (new_host_state host node) = (hs, Inr ()) \<and>
    num_instances hs = n \<and> num_io_ops hs = m"
  using assms by (simp add: update_from_compute_node_def new_host_state_def Let_def)


text \<open>C25: A request that the memory, disk and core filters accept on an up-to-date view of a node is
  granted by the node: with the limits the filters leave, no test of the claim fails, as long as the
  driver adds no overhead and neither NUMA cells nor PCI devices are involved.\<close>

theorem accepted_request_is_granted:
  assumes "free_agrees c"
    and "update_from_compute_node (compute_node.truncate c) (new_host_state host node) = (hs, Inr ())"
    and "ram_passes by_aggregate hs spec = Inr (hs1, True)"
    and "disk_passes sc by_aggregate hs1 spec = (hs2, True)"
    and "core_passes by_aggregate hs2 spec = Inr (hs3, True)"
    and "overhead cf u = 0" and "u_memory_mb u = spec_memory_mb spec" and "u_root_gb u = spec_root_gb spec"
    and "u_ephemeral_gb u = spec_ephemeral_gb spec" and "u_vcpus u = spec_vcpus spec" and "0 \<le> spec_swap spec"
    and "cn_numa_topology c = None" and "rc_requests cf uuid = []"
  shows "claim_test cf (hs_limits hs3) c uuid u pci = (pci, Inr None)"
proof -
  note V = fresh_view [OF assms(2), simplified]
  have free: "cn_free_ram_mb c = cn_memory_mb c - cn_memory_mb_used c"
      "cn_free_disk_gb c = cn_local_gb c - cn_local_gb_used c"
    using assms(1) by (auto simp: free_agrees_def)
  obtain ratio where ram: "hs1 = hs\<lparr>hs_limits := (hs_limits hs)\<lparr>lim_memory_mb := Some (rat_of_int (cn_memory_mb c) * ratio)\<rparr>\<rparr>"
      "rat_of_int (spec_memory_mb spec) \<le> rat_of_int (cn_memory_mb c) * ratio - rat_of_int (cn_memory_mb_used c)"
    using assms(3) by (auto simp: ram_passes_def Let_def V free split: if_splits option.splits)
  define disk_limit where "disk_limit = rat_of_int (cn_local_gb c * 1024) * disk_ratio sc by_aggregate hs1"
  have disk: "hs2 = hs1\<lparr>hs_limits := (hs_limits hs1)\<lparr>lim_disk_gb := Some (disk_limit / 1024)\<rparr>\<rparr>"
      "rat_of_int (requested_disk_mb spec) \<le> disk_limit - rat_of_int (cn_local_gb c * 1024 - free_disk_mb hs)"
    using assms(4) by (auto simp: disk_passes_def Let_def ram(1) V disk_limit_def split: if_splits)
  have core: "lim_memory_mb (hs_limits hs3) = lim_memory_mb (hs_limits hs2)"
      "lim_disk_gb (hs_limits hs3) = lim_disk_gb (hs_limits hs2)"
      "lim_numa_topology (hs_limits hs3) = lim_numa_topology (hs_limits hs2)"
      "\<not> test_resource (lim_vcpu (hs_limits hs3)) (cn_vcpus_used c) (spec_vcpus spec)"
    using assms(5)
    by (auto simp: core_passes_def Let_def disk(1) ram(1) V no_limits_def test_resource_def split: if_splits option.splits)
  have "rat_of_int (1024 * cn_local_gb_used c) \<le> rat_of_int (cn_local_gb c * 1024 - free_disk_mb hs)"
    using V(4) free(2) by (simp only: of_int_le_iff) simp
  moreover have "rat_of_int (1024 * (spec_root_gb spec + spec_ephemeral_gb spec)) \<le> rat_of_int (requested_disk_mb spec)"
    using assms(11) by (simp only: of_int_le_iff requested_disk_mb_def)
  ultimately have "rat_of_int (1024 * (spec_root_gb spec + spec_ephemeral_gb spec)) + rat_of_int (1024 * cn_local_gb_used c) \<le> disk_limit"
    using disk(2) by linarith
  then have "\<not> test_resource (lim_disk_gb (hs_limits hs3)) (cn_local_gb_used c) (claim_disk u)"
    by (simp add: test_resource_def core(2) disk(1) claim_disk_def assms(8,9) not_less field_simps)
  moreover have "\<not> test_resource (lim_memory_mb (hs_limits hs3)) (cn_memory_mb_used c) (claim_memory cf u)"
    using ram(2) by (simp add: test_resource_def core(1) disk(1) ram(1) claim_memory_def assms(6,7) not_less)
  ultimately show ?thesis
    using core(4) by (simp add: claim_test_def test_numa_topology_def test_pci_def Let_def assms(10,12,13))
qed


abbreviation no_overhead :: rt_conf where
  "no_overhead \<equiv> sample_conf\<lparr>rc_overhead := (\<lambda>_. 0)\<rparr>"

abbreviation small_usage :: usage where
  "small_usage \<equiv> \<lparr>u_memory_mb = 1024, u_root_gb = 0, u_ephemeral_gb = 0, u_vcpus = 2, u_numa = None\<rparr>"

lemma sample_accepted:
  "\<exists>hs hs1 hs2 hs3. update_from_compute_node (compute_node.truncate sample_node) (new_host_state ''h'' ''n'') = (hs, Inr ()) \<and>
     ram_passes False hs (plain_spec 2 1024 1) = Inr (hs1, True) \<and>
     disk_passes plain_conf False hs1 (plain_spec 2 1024 1) = (hs2, True) \<and>
     core_passes False hs2 (plain_spec 2 1024 1) = Inr (hs3, True) \<and> lim_vcpu (hs_limits hs3) = Some 128"
proof -
  have i: "py_int ''0'' = Inr 0" by code_simp
  show ?thesis
    by (simp add: update_from_compute_node_def new_host_state_def Let_def dict_get_def i compute_node.truncate_def
        ram_passes_def ram_ratio_def plain_spec_def disk_passes_def disk_ratio_def plain_conf_def requested_disk_mb_def
        core_passes_def core_ratio_def no_limits_def)
qed

theorem accepted_request_is_granted_witness:
  "\<exists>lims. lim_vcpu lims = Some 128 \<and> claim_test no_overhead lims sample_node ''u'' small_usage None = (None, Inr None)"
proof -
  obtain hs hs1 hs2 hs3 where a:
      "update_from_compute_node (compute_node.truncate sample_node) (new_host_state ''h'' ''n'') = (hs, Inr ())"
      "ram_passes False hs (plain_spec 2 1024 1) = Inr (hs1, True)"
      "disk_passes plain_conf False hs1 (plain_spec 2 1024 1) = (hs2, True)"
      "core_passes False hs2 (plain_spec 2 1024 1) = Inr (hs3, True)" "lim_vcpu (hs_limits hs3) = Some 128"
    using sample_accepted by blast
  have f: "free_agrees sample_node" by (simp add: free_agrees_def)
  have "claim_test no_overhead (hs_limits hs3) sample_node ''u'' small_usage None = (None, Inr None)"
    by (rule accepted_request_is_granted [OF f a(1-4)]) (simp_all add: overhead_def plain_spec_def)
  then show ?thesis using a(5) by blast
qed

end
